(* ===== verification/Prelude.thy ===== *)
theory Prelude
  imports Main "HOL-Library.Monad_Syntax" "HOL-Library.Word"
begin

section \<open>Prelude: shared types, error codes and automation\<close>

text \<open>
  What every component theory shares: the machine types the sources use, the
  \<^verbatim>\<open>errno\<close> values they return, addresses with 0 as \<^verbatim>\<open>NULL\<close>, the fault monad
  (an \<open>option\<close> in which \<open>None\<close> is a fault or a loop that never returns), and the
  named theorem collections the component proofs are built on.
\<close>

type_synonym u32 = "32 word"
type_synonym u64 = "64 word"
type_synonym addr = nat

abbreviation NULL :: addr where
  "NULL \<equiv> 0"

text \<open>
  The return codes of the modelled functions: 0, the \<^verbatim>\<open>errno\<close> values they name, \<open>EFAIL\<close> for a bare
  -1 handed through from a system call, and any other \<^verbatim>\<open>errno\<close>.
\<close>

datatype errno =
    EOK | EPERM | ENOENT | EINTR | EAGAIN | ENOMEM | EBUSY | EEXIST | EINVAL | ERANGE | ENAMETOOLONG
  | ENOTSUP | ENOSYS | EADDRINUSE | ENOBUFS | ENOTCONN | EINPROGRESS
  | EFAIL
  | EOTHER nat

text \<open>
  \<^verbatim>\<open>assert(b)\<close> of the C library: the program aborts when the condition fails.
\<close>

definition c_assert :: "bool \<Rightarrow> unit option" where
  "c_assert b = (if b then Some () else None)"

lemma c_assert_simps [simp]:
  "b \<Longrightarrow> c_assert b = Some ()"
  "\<not> b \<Longrightarrow> c_assert b = None"
  by (simp_all add: c_assert_def)

lemma c_assert_eq_Some [simp]: "c_assert b = Some u \<longleftrightarrow> b"
  by (simp add: c_assert_def)

named_theorems rbt_getter \<open>reading the node at the focus of a represented tree\<close>
named_theorems rbt_step \<open>one pointer-level step on a represented tree\<close>
named_theorems inorder_simps \<open>in-order listing of trees and contexts\<close>

subsection \<open>Lists\<close>

lemma remove1_append_middle:
  "x \<notin> set xs \<Longrightarrow> remove1 x (xs @ x # ys) = xs @ ys"
  by (induction xs) auto

subsection \<open>Machine words\<close>

lemma sint_word: "- (2 ^ 63) \<le> z \<Longrightarrow> z < 2 ^ 63 \<Longrightarrow> sint (word_of_int z :: u64) = z"
  unfolding sint_sbintrunc' by (intro signed_take_bit_int_eq_self) auto

lemma uint_word: "0 \<le> z \<Longrightarrow> z < 2 ^ 64 \<Longrightarrow> uint (word_of_int z :: u64) = z"
  by (simp add: uint_word_of_int_eq take_bit_int_eq_self)

lemma unat_sum: "unat a + unat b < 2 ^ 64 \<Longrightarrow> unat (a + b :: u64) = unat a + unat b"
  by (simp add: unat_word_ariths)

lemma unat_difference: "b \<le> a \<Longrightarrow> unat (a - b :: u64) = unat a - unat b"
  by (simp add: unat_sub)

end
