(* ===== verification/Rbt.thy ===== *)
theory Rbt
  imports Prelude
begin

section \<open>The intrusive red-black tree (lib/src/coll/rbt.c): the code\<close>

text \<open>
  This theory is the translation of \<^verbatim>\<open>lib/src/coll/rbt.c\<close>, pointer by pointer.
  A tree is the C \<^verbatim>\<open>struct rbt\<close> together with the store \<open>rbt_mem\<close> that
  holds the nodes; a node is the C \<^verbatim>\<open>struct rbn\<close>. A pointer is an address, 0 is
  \<^verbatim>\<open>NULL\<close>. Every function runs in the fault monad: \<open>None\<close> is a dereference of
  \<^verbatim>\<open>NULL\<close> or of an address that holds no node, a failed \<^verbatim>\<open>assert\<close>, or a loop
  that never ends. Loops are \<^theory_text>\<open>partial_function (option)\<close>, so a result
  \<open>Some\<close> says that the loop ends. The key of a node is stored as a value: the C
  field is a pointer to it, and no caller changes the value of a key while its node is
  in a tree. The comparator is the function pointer of \<^verbatim>\<open>struct rbt\<close>; only the sign
  of its result is used.
\<close>

subsection \<open>struct rbn, struct rbt\<close>

datatype rbn_color = RBN_RED | RBN_BLACK

record 'k rbn =
  rbn_left :: addr
  rbn_right :: addr
  rbn_parent :: addr
  rbn_color :: rbn_color
  rbn_key :: 'k

record 'k rbt =
  rbt_root :: addr
  rbt_comparator :: "'k \<Rightarrow> 'k \<Rightarrow> int"
  rbt_cardf :: int
  rbt_mem :: "addr \<Rightarrow> 'k rbn option"

subsection \<open>Loads and stores\<close>

definition rd :: "'k rbt \<Rightarrow> addr \<Rightarrow> 'k rbn option" where
  "rd t a = (if a = NULL then None else rbt_mem t a)"

definition wr :: "('k rbn \<Rightarrow> 'k rbn) \<Rightarrow> addr \<Rightarrow> 'k rbt \<Rightarrow> 'k rbt option" where
  "wr f a t = (case rd t a of None \<Rightarrow> None
     | Some n \<Rightarrow> Some (t\<lparr>rbt_mem := (rbt_mem t)(a \<mapsto> f n)\<rparr>))"

definition get_left :: "'k rbt \<Rightarrow> addr \<Rightarrow> addr option" where
  "get_left t a = map_option rbn_left (rd t a)"

definition get_right :: "'k rbt \<Rightarrow> addr \<Rightarrow> addr option" where
  "get_right t a = map_option rbn_right (rd t a)"

definition get_parent :: "'k rbt \<Rightarrow> addr \<Rightarrow> addr option" where
  "get_parent t a = map_option rbn_parent (rd t a)"

definition get_color :: "'k rbt \<Rightarrow> addr \<Rightarrow> rbn_color option" where
  "get_color t a = map_option rbn_color (rd t a)"

definition get_key :: "'k rbt \<Rightarrow> addr \<Rightarrow> 'k option" where
  "get_key t a = map_option rbn_key (rd t a)"

definition set_left :: "addr \<Rightarrow> addr \<Rightarrow> 'k rbt \<Rightarrow> 'k rbt option" where
  "set_left a v = wr (rbn_left_update (\<lambda>_. v)) a"

definition set_right :: "addr \<Rightarrow> addr \<Rightarrow> 'k rbt \<Rightarrow> 'k rbt option" where
  "set_right a v = wr (rbn_right_update (\<lambda>_. v)) a"

definition set_parent :: "addr \<Rightarrow> addr \<Rightarrow> 'k rbt \<Rightarrow> 'k rbt option" where
  "set_parent a v = wr (rbn_parent_update (\<lambda>_. v)) a"

definition set_color :: "addr \<Rightarrow> rbn_color \<Rightarrow> 'k rbt \<Rightarrow> 'k rbt option" where
  "set_color a v = wr (rbn_color_update (\<lambda>_. v)) a"

definition set_root :: "addr \<Rightarrow> 'k rbt \<Rightarrow> 'k rbt option" where
  "set_root v t = Some (t\<lparr>rbt_root := v\<rparr>)"

lemmas rbt_access_defs = get_left_def get_right_def get_parent_def get_color_def get_key_def
  set_left_def set_right_def set_parent_def set_color_def set_root_def

subsection \<open>Colours\<close>

text \<open>\<^verbatim>\<open>A LEAF (NULL) is considered BLACK\<close>.\<close>

definition is_red :: "'k rbt \<Rightarrow> addr \<Rightarrow> bool option" where
  "is_red t x = (if x = NULL then Some False
     else do { c \<leftarrow> get_color t x; Some (c = RBN_RED) })"

definition node_color :: "'k rbt \<Rightarrow> addr \<Rightarrow> rbn_color option" where
  "node_color t n = (if n = NULL then Some RBN_BLACK else get_color t n)"

subsection \<open>Rotations\<close>

definition rotate_left :: "'k rbt \<Rightarrow> addr \<Rightarrow> 'k rbt option" where
  "rotate_left t x = do {
     y \<leftarrow> get_right t x;
     parent \<leftarrow> get_parent t x;
     yl \<leftarrow> get_left t y;
     t \<leftarrow> set_right x yl t;
     yl \<leftarrow> get_left t y;
     t \<leftarrow> (if yl \<noteq> NULL then set_parent yl x t else Some t);
     xp \<leftarrow> get_parent t x;
     t \<leftarrow> set_parent y xp t;
     t \<leftarrow> (if rbt_root t \<noteq> x then do {
            xp \<leftarrow> get_parent t x;
            c_assert (xp \<noteq> NULL);
            pl \<leftarrow> get_left t parent;
            if pl = x then set_left parent y t else set_right parent y t }
          else do {
            xp \<leftarrow> get_parent t x;
            c_assert (xp = NULL);
            t \<leftarrow> set_root y t;
            set_parent y NULL t });
     t \<leftarrow> set_left y x t;
     set_parent x y t }"

definition rotate_right :: "'k rbt \<Rightarrow> addr \<Rightarrow> 'k rbt option" where
  "rotate_right t x = do {
     y \<leftarrow> get_left t x;
     parent \<leftarrow> get_parent t x;
     yr \<leftarrow> get_right t y;
     t \<leftarrow> set_left x yr t;
     yr \<leftarrow> get_right t y;
     t \<leftarrow> (if yr \<noteq> NULL then set_parent yr x t else Some t);
     t \<leftarrow> (if rbt_root t \<noteq> x then do {
            t \<leftarrow> set_parent y parent t;
            pr \<leftarrow> get_right t parent;
            if pr = x then set_right parent y t else set_left parent y t }
          else do {
            t \<leftarrow> set_root y t;
            set_parent y NULL t });
     t \<leftarrow> set_right y x t;
     set_parent x y t }"

subsection \<open>Initialisation, emptiness, cardinality\<close>

definition rbt_init :: "('k \<Rightarrow> 'k \<Rightarrow> int) \<Rightarrow> 'k rbt \<Rightarrow> 'k rbt" where
  "rbt_init c t = t\<lparr>rbt_root := NULL, rbt_comparator := c, rbt_cardf := 0\<rparr>"

definition rbt_empty :: "'k rbt \<Rightarrow> bool" where
  "rbt_empty t \<longleftrightarrow> rbt_root t = NULL"

definition rbt_card :: "'k rbt \<Rightarrow> int" where
  "rbt_card t = rbt_cardf t"

text \<open>
  \<^verbatim>\<open>rbn_init\<close> only sets the key. The node is embedded in an object of the caller; an
  address the store does not hold yet is a fresh zero-filled object.
\<close>

definition rbn_init :: "addr \<Rightarrow> 'k \<Rightarrow> 'k rbt \<Rightarrow> 'k rbt" where
  "rbn_init n k t = t\<lparr>rbt_mem := (rbt_mem t)(n \<mapsto>
     (case rbt_mem t n of
        Some v \<Rightarrow> v\<lparr>rbn_key := k\<rparr>
      | None \<Rightarrow> \<lparr>rbn_left = NULL, rbn_right = NULL, rbn_parent = NULL,
                  rbn_color = RBN_RED, rbn_key = k\<rparr>))\<rparr>"

subsection \<open>Insertion\<close>

text \<open>The descent of \<^verbatim>\<open>rbt_ins\<close>: the parent of the new node and the last comparison.\<close>

partial_function (option) rbt_ins_descend ::
  "'k rbt \<Rightarrow> addr \<Rightarrow> addr \<Rightarrow> addr \<Rightarrow> int \<Rightarrow> (addr \<times> int) option" where
  "rbt_ins_descend t x n parent c =
     (if n = NULL then Some (parent, c)
      else do {
        nk \<leftarrow> get_key t n;
        xk \<leftarrow> get_key t x;
        let c = rbt_comparator t nk xk;
        m \<leftarrow> (if c > 0 then get_left t n else get_right t n);
        rbt_ins_descend t x m n c })"

text \<open>
  The rebalancing loop, whose condition is
  \<^verbatim>\<open>x != t->root && is_red(x->parent)\<close>.
\<close>

partial_function (option) rbt_ins_fixup :: "'k rbt \<Rightarrow> addr \<Rightarrow> 'k rbt option" where
  "rbt_ins_fixup t x =
     (if x = rbt_root t then Some t
      else do {
        p \<leftarrow> get_parent t x;
        pred \<leftarrow> is_red t p;
        if \<not> pred then Some t
        else do {
          gp \<leftarrow> get_parent t p;
          gl \<leftarrow> get_left t gp;
          if p = gl then do {
            uncle \<leftarrow> get_right t gp;
            ur \<leftarrow> is_red t uncle;
            if ur then do {
              t \<leftarrow> set_color p RBN_BLACK t;
              t \<leftarrow> set_color uncle RBN_BLACK t;
              t \<leftarrow> set_color gp RBN_RED t;
              rbt_ins_fixup t gp }
            else do {
              pr \<leftarrow> get_right t p;
              (t, x) \<leftarrow> (if x = pr then do { t \<leftarrow> rotate_left t p; Some (t, p) }
                         else Some (t, x));
              p \<leftarrow> get_parent t x;
              t \<leftarrow> set_color p RBN_BLACK t;
              gp \<leftarrow> get_parent t p;
              t \<leftarrow> set_color gp RBN_RED t;
              t \<leftarrow> rotate_right t gp;
              rbt_ins_fixup t x } }
          else do {
            uncle \<leftarrow> get_left t gp;
            ur \<leftarrow> is_red t uncle;
            if ur then do {
              t \<leftarrow> set_color p RBN_BLACK t;
              t \<leftarrow> set_color uncle RBN_BLACK t;
              t \<leftarrow> set_color gp RBN_RED t;
              rbt_ins_fixup t gp }
            else do {
              pl \<leftarrow> get_left t p;
              (t, x) \<leftarrow> (if x = pl then do { t \<leftarrow> rotate_right t p; Some (t, p) }
                         else Some (t, x));
              p \<leftarrow> get_parent t x;
              t \<leftarrow> set_color p RBN_BLACK t;
              gp \<leftarrow> get_parent t p;
              t \<leftarrow> (if gp \<noteq> NULL then do {
                     t \<leftarrow> set_color gp RBN_RED t;
                     rotate_left t gp }
                   else Some t);
              rbt_ins_fixup t x } } } })"

definition rbt_ins :: "'k rbt \<Rightarrow> addr \<Rightarrow> 'k rbt option" where
  "rbt_ins t x = do {
     let t = t\<lparr>rbt_cardf := rbt_cardf t + 1\<rparr>;
     t \<leftarrow> set_right x NULL t;
     t \<leftarrow> set_left x NULL t;
     if rbt_root t = NULL then do {
       t \<leftarrow> set_color x RBN_BLACK t;
       t \<leftarrow> set_root x t;
       set_parent x NULL t }
     else do {
       t \<leftarrow> set_color x RBN_RED t;
       (parent, c) \<leftarrow> rbt_ins_descend t x (rbt_root t) NULL 0;
       c_assert (parent \<noteq> NULL);
       t \<leftarrow> set_parent x parent t;
       t \<leftarrow> (if c > 0 then set_left parent x t else set_right parent x t);
       t \<leftarrow> rbt_ins_fixup t x;
       set_color (rbt_root t) RBN_BLACK t } }"

subsection \<open>Searching\<close>

definition rbt_greatest_lt_or_eq :: "'k rbt \<Rightarrow> addr \<Rightarrow> addr option" where
  "rbt_greatest_lt_or_eq t n = do {
     l \<leftarrow> get_left t n;
     if l \<noteq> NULL then Some l
     else do {
       p \<leftarrow> get_parent t n;
       if p = NULL then Some NULL
       else do {
         pl \<leftarrow> get_left t p;
         Some (if pl = n then p else NULL) } } }"

definition rbt_least_gt_or_eq :: "'k rbt \<Rightarrow> addr \<Rightarrow> addr option" where
  "rbt_least_gt_or_eq t n = do {
     r \<leftarrow> get_right t n;
     if r \<noteq> NULL then Some r
     else do {
       p \<leftarrow> get_parent t n;
       if p = NULL then Some NULL
       else do {
         pr \<leftarrow> get_right t p;
         Some (if pr = n then p else NULL) } } }"

partial_function (option) find_glb_loop :: "'k rbt \<Rightarrow> 'k \<Rightarrow> addr \<Rightarrow> addr \<Rightarrow> addr option" where
  "find_glb_loop t key x glb =
     (if x = NULL then Some glb
      else do {
        xk \<leftarrow> get_key t x;
        let c = rbt_comparator t xk key;
        if c = 0 then Some x
        else if c > 0 then do { l \<leftarrow> get_left t x; find_glb_loop t key l glb }
        else do { r \<leftarrow> get_right t x; find_glb_loop t key r x } })"

definition rbt_find_glb :: "'k rbt \<Rightarrow> 'k \<Rightarrow> addr option" where
  "rbt_find_glb t key = find_glb_loop t key (rbt_root t) NULL"

partial_function (option) find_lub_loop :: "'k rbt \<Rightarrow> 'k \<Rightarrow> addr \<Rightarrow> addr \<Rightarrow> addr option" where
  "find_lub_loop t key x lub =
     (if x = NULL then Some lub
      else do {
        xk \<leftarrow> get_key t x;
        let c = rbt_comparator t xk key;
        if c = 0 then Some x
        else if c < 0 then do { r \<leftarrow> get_right t x; find_lub_loop t key r lub }
        else do { l \<leftarrow> get_left t x; find_lub_loop t key l x } })"

definition rbt_find_lub :: "'k rbt \<Rightarrow> 'k \<Rightarrow> addr option" where
  "rbt_find_lub t key = find_lub_loop t key (rbt_root t) NULL"

partial_function (option) find_loop :: "'k rbt \<Rightarrow> 'k \<Rightarrow> addr \<Rightarrow> addr option" where
  "find_loop t key x =
     (if x = NULL then Some NULL
      else do {
        xk \<leftarrow> get_key t x;
        let c = rbt_comparator t xk key;
        if c = 0 then Some x
        else if c > 0 then do { l \<leftarrow> get_left t x; find_loop t key l }
        else do { r \<leftarrow> get_right t x; find_loop t key r } })"

definition rbt_find :: "'k rbt \<Rightarrow> 'k \<Rightarrow> addr option" where
  "rbt_find t key = find_loop t key (rbt_root t)"

subsection \<open>Iteration\<close>

partial_function (option) rbn_min :: "'k rbt \<Rightarrow> addr \<Rightarrow> addr option" where
  "rbn_min t n =
     (if n = NULL then Some n
      else do { l \<leftarrow> get_left t n; if l = NULL then Some n else rbn_min t l })"

partial_function (option) rbn_max :: "'k rbt \<Rightarrow> addr \<Rightarrow> addr option" where
  "rbn_max t n =
     (if n = NULL then Some n
      else do { r \<leftarrow> get_right t n; if r = NULL then Some n else rbn_max t r })"

definition rbt_min :: "'k rbt \<Rightarrow> addr option" where
  "rbt_min t = rbn_min t (rbt_root t)"

definition rbt_max :: "'k rbt \<Rightarrow> addr option" where
  "rbt_max t = rbn_max t (rbt_root t)"

text \<open>
  The callback of a traversal takes the node, its data and the level, and returns
  a status and its data; a status other than 0 stops the traversal.
\<close>

partial_function (option) rbt_traverse_subtree ::
  "'k rbt \<Rightarrow> addr \<Rightarrow> (addr \<Rightarrow> 'd \<Rightarrow> nat \<Rightarrow> int \<times> 'd) \<Rightarrow> 'd \<Rightarrow> nat \<Rightarrow> (int \<times> 'd) option" where
  "rbt_traverse_subtree t n f d level =
     (if n = NULL then Some (0, d)
      else do {
        l \<leftarrow> get_left t n;
        (rc, d) \<leftarrow> rbt_traverse_subtree t l f d (level + 1);
        if rc \<noteq> 0 then Some (rc, d)
        else do {
          let (rc, d) = f n d level;
          if rc \<noteq> 0 then Some (rc, d)
          else do {
            r \<leftarrow> get_right t n;
            rbt_traverse_subtree t r f d (level + 1) } } })"

definition rbt_traverse ::
  "'k rbt \<Rightarrow> (addr \<Rightarrow> 'd \<Rightarrow> nat \<Rightarrow> int \<times> 'd) \<Rightarrow> 'd \<Rightarrow> (int \<times> 'd) option" where
  "rbt_traverse t f p =
     (if rbt_root t \<noteq> NULL then rbt_traverse_subtree t (rbt_root t) f p 0 else Some (0, p))"

partial_function (option) succ_climb :: "'k rbt \<Rightarrow> addr \<Rightarrow> addr option" where
  "succ_climb t n = do {
     p \<leftarrow> get_parent t n;
     if p = NULL then Some NULL
     else do {
       pr \<leftarrow> get_right t p;
       if n = pr then succ_climb t p else Some p } }"

definition rbn_succ :: "'k rbt \<Rightarrow> addr \<Rightarrow> addr option" where
  "rbn_succ t n = do {
     r \<leftarrow> get_right t n;
     if r \<noteq> NULL then rbn_min t r else succ_climb t n }"

partial_function (option) pred_climb :: "'k rbt \<Rightarrow> addr \<Rightarrow> addr option" where
  "pred_climb t n = do {
     p \<leftarrow> get_parent t n;
     if p = NULL then Some NULL
     else do {
       pl \<leftarrow> get_left t p;
       if n = pl then pred_climb t p else Some p } }"

definition rbn_pred :: "'k rbt \<Rightarrow> addr \<Rightarrow> addr option" where
  "rbn_pred t n = do {
     l \<leftarrow> get_left t n;
     if l \<noteq> NULL then rbn_max t l else pred_climb t n }"

subsection \<open>Deletion\<close>

partial_function (option) find_pred_loop :: "'k rbt \<Rightarrow> addr \<Rightarrow> addr option" where
  "find_pred_loop t x = do {
     r \<leftarrow> get_right t x;
     if r \<noteq> NULL then find_pred_loop t r else Some x }"

definition find_pred :: "'k rbt \<Rightarrow> addr \<Rightarrow> addr option" where
  "find_pred t n = do { x \<leftarrow> get_left t n; find_pred_loop t x }"

definition sibling :: "'k rbt \<Rightarrow> addr \<Rightarrow> addr option" where
  "sibling t n = do {
     c_assert (n \<noteq> NULL);
     p \<leftarrow> get_parent t n;
     c_assert (p \<noteq> NULL);
     pl \<leftarrow> get_left t p;
     if n = pl then get_right t p else get_left t p }"

definition replace_node :: "'k rbt \<Rightarrow> addr \<Rightarrow> addr \<Rightarrow> 'k rbt option" where
  "replace_node t oldn newn = do {
     op \<leftarrow> get_parent t oldn;
     t \<leftarrow> (if op = NULL then do {
            t \<leftarrow> set_root newn t;
            set_parent newn NULL t }
          else do {
            pl \<leftarrow> get_left t op;
            if oldn = pl then set_left op newn t else set_right op newn t });
     if newn \<noteq> NULL then do {
       op \<leftarrow> get_parent t oldn;
       set_parent newn op t }
     else Some t }"

definition delete_case6 :: "'k rbt \<Rightarrow> addr \<Rightarrow> 'k rbt option" where
  "delete_case6 t n = do {
     s \<leftarrow> sibling t n;
     p \<leftarrow> get_parent t n;
     c_assert (s \<noteq> NULL);
     pc \<leftarrow> get_color t p;
     t \<leftarrow> set_color s pc t;
     t \<leftarrow> set_color p RBN_BLACK t;
     pl \<leftarrow> get_left t p;
     if n = pl then do {
       sr \<leftarrow> get_right t s;
       src \<leftarrow> node_color t sr;
       c_assert (src = RBN_RED);
       t \<leftarrow> set_color sr RBN_BLACK t;
       rotate_left t p }
     else do {
       sl \<leftarrow> get_left t s;
       slc \<leftarrow> node_color t sl;
       c_assert (slc = RBN_RED);
       t \<leftarrow> set_color sl RBN_BLACK t;
       rotate_right t p } }"

definition delete_case5 :: "'k rbt \<Rightarrow> addr \<Rightarrow> 'k rbt option" where
  "delete_case5 t n = do {
     s \<leftarrow> sibling t n;
     p \<leftarrow> get_parent t n;
     c_assert (s \<noteq> NULL);
     pl \<leftarrow> get_left t p;
     pr \<leftarrow> get_right t p;
     sc \<leftarrow> node_color t s;
     sl \<leftarrow> get_left t s;
     sr \<leftarrow> get_right t s;
     slc \<leftarrow> node_color t sl;
     src \<leftarrow> node_color t sr;
     t \<leftarrow> (if n = pl \<and> sc = RBN_BLACK \<and> slc = RBN_RED \<and> src = RBN_BLACK then do {
            t \<leftarrow> set_color s RBN_RED t;
            t \<leftarrow> set_color sl RBN_BLACK t;
            rotate_right t s }
          else if n = pr \<and> sc = RBN_BLACK \<and> src = RBN_RED \<and> slc = RBN_BLACK then do {
            t \<leftarrow> set_color s RBN_RED t;
            t \<leftarrow> set_color sr RBN_BLACK t;
            rotate_left t s }
          else Some t);
     delete_case6 t n }"

definition delete_case4 :: "'k rbt \<Rightarrow> addr \<Rightarrow> 'k rbt option" where
  "delete_case4 t n = do {
     s \<leftarrow> sibling t n;
     p \<leftarrow> get_parent t n;
     c_assert (s \<noteq> NULL);
     pc \<leftarrow> node_color t p;
     sc \<leftarrow> node_color t s;
     sl \<leftarrow> get_left t s;
     sr \<leftarrow> get_right t s;
     slc \<leftarrow> node_color t sl;
     src \<leftarrow> node_color t sr;
     if pc = RBN_RED \<and> sc = RBN_BLACK \<and> slc = RBN_BLACK \<and> src = RBN_BLACK then do {
       t \<leftarrow> set_color s RBN_RED t;
       set_color p RBN_BLACK t }
     else delete_case5 t n }"

text \<open>
  \<^verbatim>\<open>delete_case1\<close>, \<^verbatim>\<open>delete_case2\<close> and \<^verbatim>\<open>delete_case3\<close> call one another in a
  circle. Cases 3 and 2 take the function that stands for \<^verbatim>\<open>delete_case1\<close> as an
  argument, and \<open>delete_case1\<close> ties the knot.
\<close>

definition delete_case3_via ::
  "('k rbt \<Rightarrow> addr \<Rightarrow> 'k rbt option) \<Rightarrow> 'k rbt \<Rightarrow> addr \<Rightarrow> 'k rbt option" where
  "delete_case3_via case1 t n = do {
     s \<leftarrow> sibling t n;
     p \<leftarrow> get_parent t n;
     c_assert (s \<noteq> NULL);
     pc \<leftarrow> node_color t p;
     sc \<leftarrow> node_color t s;
     sl \<leftarrow> get_left t s;
     sr \<leftarrow> get_right t s;
     slc \<leftarrow> node_color t sl;
     src \<leftarrow> node_color t sr;
     if pc = RBN_BLACK \<and> sc = RBN_BLACK \<and> slc = RBN_BLACK \<and> src = RBN_BLACK then do {
       t \<leftarrow> set_color s RBN_RED t;
       case1 t p }
     else delete_case4 t n }"

definition delete_case2_via ::
  "('k rbt \<Rightarrow> addr \<Rightarrow> 'k rbt option) \<Rightarrow> 'k rbt \<Rightarrow> addr \<Rightarrow> 'k rbt option" where
  "delete_case2_via case1 t n = do {
     s \<leftarrow> sibling t n;
     p \<leftarrow> get_parent t n;
     sc \<leftarrow> node_color t s;
     t \<leftarrow> (if sc = RBN_RED then do {
            t \<leftarrow> set_color p RBN_RED t;
            t \<leftarrow> set_color s RBN_BLACK t;
            pl \<leftarrow> get_left t p;
            if n = pl then rotate_left t p else rotate_right t p }
          else Some t);
     delete_case3_via case1 t n }"

lemma delete_case2_via_mono [partial_function_mono]:
  assumes "\<And>t n. mono_option (\<lambda>f. F f t n)"
  shows "mono_option (\<lambda>f. delete_case2_via (F f) t n)"
  unfolding delete_case2_via_def delete_case3_via_def
  by (rule partial_function_mono assms)+

partial_function (option) delete_case1 :: "'k rbt \<Rightarrow> addr \<Rightarrow> 'k rbt option" where
  "delete_case1 t n = do {
     p \<leftarrow> get_parent t n;
     if p = NULL then Some t else delete_case2_via delete_case1 t n }"

abbreviation delete_case2 :: "'k rbt \<Rightarrow> addr \<Rightarrow> 'k rbt option" where
  "delete_case2 \<equiv> delete_case2_via delete_case1"

text \<open>
  The first half of \<^verbatim>\<open>rbt_del\<close> swaps a node that has two children with its predecessor
  \<^verbatim>\<open>pred\<close>, whose contents before the swap are \<^verbatim>\<open>P\<close>. The flag says that the function
  has returned: the node that left the tree was red.
\<close>

definition rbt_del_swap_far ::
  "'k rbt \<Rightarrow> addr \<Rightarrow> addr \<Rightarrow> 'k rbn \<Rightarrow> ('k rbt \<times> bool) option" where
  "rbt_del_swap_far t n pred P = do {
     nl \<leftarrow> get_left t n;
     t \<leftarrow> set_left pred nl t;
     nr \<leftarrow> get_right t n;
     t \<leftarrow> set_right pred nr t;
     np \<leftarrow> get_parent t n;
     t \<leftarrow> set_parent pred np t;
     nc \<leftarrow> get_color t n;
     t \<leftarrow> set_color pred nc t;
     t \<leftarrow> set_color n (rbn_color P) t;
     nr \<leftarrow> get_right t n;
     t \<leftarrow> set_parent nr pred t;
     nl \<leftarrow> get_left t n;
     t \<leftarrow> set_parent nl pred t;
     np \<leftarrow> get_parent t n;
     t \<leftarrow> (if np \<noteq> NULL then do {
            npl \<leftarrow> get_left t np;
            if npl = n then set_left np pred t else set_right np pred t }
          else set_root pred t);
     nc \<leftarrow> node_color t n;
     if nc = RBN_RED then do {
       t \<leftarrow> set_right (rbn_parent P) (rbn_left P) t;
       Some (t, True) }
     else do {
       t \<leftarrow> set_left n (rbn_left P) t;
       t \<leftarrow> set_right n NULL t;
       t \<leftarrow> set_parent n (rbn_parent P) t;
       t \<leftarrow> (if rbn_left P \<noteq> NULL then set_parent (rbn_left P) n t else Some t);
       ppr \<leftarrow> get_right t (rbn_parent P);
       c_assert (ppr = pred);
       t \<leftarrow> set_right (rbn_parent P) n t;
       Some (t, False) } }"

definition rbt_del_swap_child ::
  "'k rbt \<Rightarrow> addr \<Rightarrow> addr \<Rightarrow> 'k rbn \<Rightarrow> ('k rbt \<times> bool) option" where
  "rbt_del_swap_child t n pred P = do {
     nc \<leftarrow> get_color t n;
     t \<leftarrow> set_color pred nc t;
     t \<leftarrow> set_color n (rbn_color P) t;
     np \<leftarrow> get_parent t n;
     t \<leftarrow> set_parent pred np t;
     nr \<leftarrow> get_right t n;
     t \<leftarrow> set_right pred nr t;
     nr \<leftarrow> get_right t n;
     t \<leftarrow> set_parent nr pred t;
     np \<leftarrow> get_parent t n;
     t \<leftarrow> (if np \<noteq> NULL then do {
            npl \<leftarrow> get_left t np;
            t \<leftarrow> (if n = npl then set_left np pred t else set_right np pred t);
            set_parent pred np t }
          else do {
            t \<leftarrow> set_root pred t;
            set_parent pred NULL t });
     nc \<leftarrow> node_color t n;
     if nc = RBN_RED then Some (t, True)
     else do {
       t \<leftarrow> set_left n (rbn_left P) t;
       t \<leftarrow> (if rbn_left P \<noteq> NULL then set_parent (rbn_left P) n t else Some t);
       t \<leftarrow> set_left pred n t;
       t \<leftarrow> set_parent n pred t;
       t \<leftarrow> set_right n NULL t;
       t \<leftarrow> set_parent n pred t;
       Some (t, False) } }"

text \<open>The second half removes a node that has at most one child.\<close>

definition rbt_del_leafward :: "'k rbt \<Rightarrow> addr \<Rightarrow> 'k rbt option" where
  "rbt_del_leafward t n = do {
     l \<leftarrow> get_left t n;
     r \<leftarrow> get_right t n;
     c_assert (l = NULL \<or> r = NULL);
     let child = (if r = NULL then l else r);
     nc \<leftarrow> node_color t n;
     if nc = RBN_RED then replace_node t n child
     else do {
       cc \<leftarrow> node_color t child;
       t \<leftarrow> set_color n cc t;
       np \<leftarrow> get_parent t n;
       if np = NULL then do {
         t \<leftarrow> set_root child t;
         if child \<noteq> NULL then do {
           t \<leftarrow> set_color child RBN_BLACK t;
           set_parent child NULL t }
         else Some t }
       else do {
         t \<leftarrow> delete_case2 t n;
         t \<leftarrow> replace_node t n child;
         np \<leftarrow> get_parent t n;
         if np = NULL \<and> child \<noteq> NULL then set_color child RBN_BLACK t else Some t } } }"

definition rbt_del :: "'k rbt \<Rightarrow> addr \<Rightarrow> 'k rbt option" where
  "rbt_del t n = do {
     c_assert (n \<noteq> NULL);
     c_assert (rbt_cardf t \<noteq> 0);
     let t = t\<lparr>rbt_cardf := rbt_cardf t - 1\<rparr>;
     l \<leftarrow> get_left t n;
     r \<leftarrow> get_right t n;
     (t, returned) \<leftarrow>
       (if l \<noteq> NULL \<and> r \<noteq> NULL then do {
          pred \<leftarrow> find_pred t n;
          P \<leftarrow> rd t pred;
          c_assert (rbn_right P = NULL);
          c_assert (rbn_parent P \<noteq> NULL);
          if rbn_parent P \<noteq> n then rbt_del_swap_far t n pred P
          else rbt_del_swap_child t n pred P }
        else Some (t, False));
     if returned then Some t else rbt_del_leafward t n }"

subsection \<open>The self-check\<close>

partial_function (option) verify_property_1 :: "'k rbt \<Rightarrow> addr \<Rightarrow> unit option" where
  "verify_property_1 t n = do {
     c \<leftarrow> node_color t n;
     c_assert (c = RBN_RED \<or> c = RBN_BLACK);
     if n = NULL then Some ()
     else do {
       l \<leftarrow> get_left t n;
       verify_property_1 t l;
       r \<leftarrow> get_right t n;
       verify_property_1 t r } }"

definition verify_property_2 :: "'k rbt \<Rightarrow> addr \<Rightarrow> unit option" where
  "verify_property_2 t root = do { c \<leftarrow> node_color t root; c_assert (c = RBN_BLACK) }"

partial_function (option) verify_property_4 :: "'k rbt \<Rightarrow> addr \<Rightarrow> unit option" where
  "verify_property_4 t n = do {
     c \<leftarrow> node_color t n;
     (if c = RBN_RED then do {
        l \<leftarrow> get_left t n;
        lc \<leftarrow> node_color t l;
        c_assert (lc = RBN_BLACK);
        r \<leftarrow> get_right t n;
        rc \<leftarrow> node_color t r;
        c_assert (rc = RBN_BLACK);
        p \<leftarrow> get_parent t n;
        pc \<leftarrow> node_color t p;
        c_assert (pc = RBN_BLACK) }
      else Some ());
     if n = NULL then Some ()
     else do {
       l \<leftarrow> get_left t n;
       verify_property_4 t l;
       r \<leftarrow> get_right t n;
       verify_property_4 t r } }"

partial_function (option) verify_property_5_helper ::
  "'k rbt \<Rightarrow> addr \<Rightarrow> int \<Rightarrow> int \<Rightarrow> int option" where
  "verify_property_5_helper t n black_count path_black_count = do {
     c \<leftarrow> node_color t n;
     let black_count = (if c = RBN_BLACK then black_count + 1 else black_count);
     if n = NULL then
       (if path_black_count = -1 then Some black_count
        else do {
          c_assert (black_count = path_black_count);
          Some path_black_count })
     else do {
       l \<leftarrow> get_left t n;
       pbc \<leftarrow> verify_property_5_helper t l black_count path_black_count;
       r \<leftarrow> get_right t n;
       verify_property_5_helper t r black_count pbc } }"

definition verify_property_5 :: "'k rbt \<Rightarrow> addr \<Rightarrow> unit option" where
  "verify_property_5 t n = do { _ \<leftarrow> verify_property_5_helper t n 0 (-1); Some () }"

definition verify_tree :: "'k rbt \<Rightarrow> unit option" where
  "verify_tree t = do {
     verify_property_1 t (rbt_root t);
     verify_property_2 t (rbt_root t);
     verify_property_4 t (rbt_root t);
     verify_property_5 t (rbt_root t) }"

definition rbt_verify :: "'k rbt \<Rightarrow> unit option" where
  "rbt_verify t = verify_tree t"

text \<open>Loops as equations to evaluate.\<close>

declare rbt_ins_descend.simps [code]
  rbt_ins_fixup.simps [code]
  find_glb_loop.simps [code]
  find_lub_loop.simps [code]
  find_loop.simps [code]
  rbn_min.simps [code]
  rbn_max.simps [code]
  rbt_traverse_subtree.simps [code]
  succ_climb.simps [code]
  pred_climb.simps [code]
  find_pred_loop.simps [code]
  delete_case1.simps [code]
  verify_property_1.simps [code]
  verify_property_4.simps [code]
  verify_property_5_helper.simps [code]

end
