(* ===== verification/RbtShape.thy ===== *)
theory RbtShape
  imports Rbt
begin

section \<open>Trees in the store: representation, focus and frame\<close>

text \<open>
  The pointer structure of \<^verbatim>\<open>rbt.c\<close> seen as an algebraic tree. \<open>tr\<close> is the tree with the
  address, colour and key of every node; a list of frames is the way from a subtree up
  to the root. \<open>focus t cs T\<close> says that the store of \<open>t\<close> holds the subtree \<open>T\<close> in
  the context \<open>cs\<close>, parent pointers included. Each load, store and rotation of the code
  is then one step on the focus, and the proofs about the algorithms never unfold the
  store again.
\<close>

datatype 'k tr = Tip | Bin "'k tr" addr rbn_color 'k "'k tr"

datatype 'k frame = FrL addr rbn_color 'k "'k tr" | FrR "'k tr" addr rbn_color 'k

fun rootp :: "'k tr \<Rightarrow> addr" where
  "rootp Tip = NULL"
| "rootp (Bin l a c k r) = a"

fun tcolor :: "'k tr \<Rightarrow> rbn_color" where
  "tcolor Tip = RBN_BLACK"
| "tcolor (Bin l a c k r) = c"

fun inorder :: "'k tr \<Rightarrow> (addr \<times> 'k) list" where
  "inorder Tip = []"
| "inorder (Bin l a c k r) = inorder l @ (a, k) # inorder r"

abbreviation addrs :: "'k tr \<Rightarrow> addr list" where
  "addrs T \<equiv> map fst (inorder T)"

fun plug1 :: "'k frame \<Rightarrow> 'k tr \<Rightarrow> 'k tr" where
  "plug1 (FrL a c k r) T = Bin T a c k r"
| "plug1 (FrR l a c k) T = Bin l a c k T"

fun plug :: "'k frame list \<Rightarrow> 'k tr \<Rightarrow> 'k tr" where
  "plug [] T = T"
| "plug (f # cs) T = plug cs (plug1 f T)"

fun ctx_parent :: "'k frame list \<Rightarrow> addr" where
  "ctx_parent [] = NULL"
| "ctx_parent (FrL a c k r # cs) = a"
| "ctx_parent (FrR l a c k # cs) = a"

fun ctx_l :: "'k frame list \<Rightarrow> (addr \<times> 'k) list" where
  "ctx_l [] = []"
| "ctx_l (FrL a c k r # cs) = ctx_l cs"
| "ctx_l (FrR l a c k # cs) = ctx_l cs @ inorder l @ [(a, k)]"

fun ctx_r :: "'k frame list \<Rightarrow> (addr \<times> 'k) list" where
  "ctx_r [] = []"
| "ctx_r (FrL a c k r # cs) = (a, k) # inorder r @ ctx_r cs"
| "ctx_r (FrR l a c k # cs) = ctx_r cs"

lemma inorder_plug [inorder_simps]: "inorder (plug cs T) = ctx_l cs @ inorder T @ ctx_r cs"
proof (induction cs arbitrary: T)
  case (Cons f cs)
  then show ?case by (cases f) simp_all
qed simp

text \<open>The subtree \<open>T\<close> with parent \<open>p\<close>, and the way up from a hole \<open>h\<close> to the root.\<close>

fun tree_at :: "(addr \<Rightarrow> 'k rbn option) \<Rightarrow> addr \<Rightarrow> 'k tr \<Rightarrow> bool" where
  "tree_at m p Tip = True"
| "tree_at m p (Bin l a c k r) = (a \<noteq> NULL \<and>
     m a = Some \<lparr>rbn_left = rootp l, rbn_right = rootp r, rbn_parent = p, rbn_color = c, rbn_key = k\<rparr> \<and>
     tree_at m a l \<and> tree_at m a r)"

fun ctx_at :: "(addr \<Rightarrow> 'k rbn option) \<Rightarrow> addr \<Rightarrow> 'k frame list \<Rightarrow> addr \<Rightarrow> bool" where
  "ctx_at m root [] h = (root = h)"
| "ctx_at m root (FrL a c k r # cs) h = (a \<noteq> NULL \<and>
     m a = Some \<lparr>rbn_left = h, rbn_right = rootp r, rbn_parent = ctx_parent cs, rbn_color = c, rbn_key = k\<rparr> \<and>
     tree_at m a r \<and> ctx_at m root cs a)"
| "ctx_at m root (FrR l a c k # cs) h = (a \<noteq> NULL \<and>
     m a = Some \<lparr>rbn_left = rootp l, rbn_right = h, rbn_parent = ctx_parent cs, rbn_color = c, rbn_key = k\<rparr> \<and>
     tree_at m a l \<and> ctx_at m root cs a)"

lemma tree_at_fresh [simp]:
  "a \<notin> fst ` set (inorder T) \<Longrightarrow> tree_at (m(a \<mapsto> v)) p T = tree_at m p T"
  by (induction T arbitrary: p) auto

lemma ctx_at_fresh [simp]:
  "a \<notin> fst ` set (ctx_l cs) \<Longrightarrow> a \<notin> fst ` set (ctx_r cs) \<Longrightarrow>
   ctx_at (m(a \<mapsto> v)) root cs h = ctx_at m root cs h"
proof (induction cs arbitrary: h)
  case (Cons f cs)
  then show ?case by (cases f) (simp_all add: fun_upd_other image_Un del: fun_upd_apply)
qed simp

definition focus :: "'k rbt \<Rightarrow> 'k frame list \<Rightarrow> 'k tr \<Rightarrow> bool" where
  "focus t cs T \<longleftrightarrow>
     ctx_at (rbt_mem t) (rbt_root t) cs (rootp T) \<and> tree_at (rbt_mem t) (ctx_parent cs) T \<and>
     distinct (map fst (ctx_l cs @ inorder T @ ctx_r cs))"

lemma focus_wr_fresh:
  assumes "focus t cs T" and "x \<notin> fst ` set (ctx_l cs @ inorder T @ ctx_r cs)"
  shows "focus (t\<lparr>rbt_mem := (rbt_mem t)(x \<mapsto> v)\<rparr>) cs T"
  using assms by (simp add: focus_def image_Un)

lemma focus_FrL: "focus t (FrL a c k r # cs) T \<longleftrightarrow> focus t cs (Bin T a c k r)"
  by (auto simp: focus_def)

lemma focus_FrR: "focus t (FrR l a c k # cs) T \<longleftrightarrow> focus t cs (Bin l a c k T)"
  by (auto simp: focus_def)

lemma focus_plug: "focus t cs T \<longleftrightarrow> focus t [] (plug cs T)"
proof (induction cs arbitrary: T)
  case (Cons f cs)
  then show ?case by (cases f) (simp_all add: focus_FrL focus_FrR)
qed simp

subsection \<open>Loads at the focus\<close>

definition rbt_meta :: "'k rbt \<Rightarrow> ('k \<Rightarrow> 'k \<Rightarrow> int) \<times> int" where
  "rbt_meta t = (rbt_comparator t, rbt_cardf t)"

lemma focus_rd:
  "focus t cs (Bin l a c k r) \<Longrightarrow>
   a \<noteq> NULL \<and> rd t a = Some \<lparr>rbn_left = rootp l, rbn_right = rootp r,
     rbn_parent = ctx_parent cs, rbn_color = c, rbn_key = k\<rparr>"
  by (simp add: focus_def rd_def)

lemma focus_get:
  assumes "focus t cs (Bin l a c k r)"
  shows "a \<noteq> NULL" "0 < a" "rd t a = Some \<lparr>rbn_left = rootp l, rbn_right = rootp r,
      rbn_parent = ctx_parent cs, rbn_color = c, rbn_key = k\<rparr>"
    and "get_left t a = Some (rootp l)" "get_right t a = Some (rootp r)"
    and "get_parent t a = Some (ctx_parent cs)"
    and "get_color t a = Some c" "get_key t a = Some k"
    and "is_red t a = Some (c = RBN_RED)" "node_color t a = Some c"
  using focus_rd [OF assms] by (simp_all add: rbt_access_defs is_red_def node_color_def)

lemma focus_root: "focus t cs T \<Longrightarrow> rbt_root t = rootp (plug cs T)"
  using focus_plug [of t cs T] by (simp add: focus_def)

lemma ctx_at_root:
  "ctx_at m root cs h \<Longrightarrow> cs \<noteq> [] \<Longrightarrow> root \<in> fst ` set (ctx_l cs) \<union> fst ` set (ctx_r cs)"
proof (induction cs arbitrary: h)
  case (Cons f ds)
  show ?case
  proof (cases "ds = []")
    case True
    with Cons.prems show ?thesis by (cases f) (auto simp: image_Un)
  next
    case False
    with Cons.prems Cons.IH have "root \<in> fst ` set (ctx_l ds) \<union> fst ` set (ctx_r ds)"
      by (cases f) auto
    then show ?thesis by (cases f) (auto simp: image_Un)
  qed
qed simp

lemma focus_root_iff:
  assumes "focus t cs (Bin l a c k r)"
  shows "a = rbt_root t \<longleftrightarrow> cs = []"
  using assms ctx_at_root [of "rbt_mem t" "rbt_root t" cs a] by (auto simp: focus_def)

lemma focus_node_color: "focus t (FrL a c k r # cs) T \<Longrightarrow> node_color t (rootp T) = Some (tcolor T)"
  "focus t (FrR r a c k # cs) T \<Longrightarrow> node_color t (rootp T) = Some (tcolor T)"
  "focus t cs T \<Longrightarrow> node_color t (rootp T) = Some (tcolor T)"
  by (cases T; auto simp: focus_get node_color_def)+

lemma focus_is_red: "focus t cs T \<Longrightarrow> is_red t (rootp T) = Some (tcolor T = RBN_RED)"
  by (cases T; auto simp: focus_get is_red_def)

subsection \<open>Stores at the focus\<close>

lemma wr_eq: "rd t a = Some n \<Longrightarrow> wr f a t = Some (t\<lparr>rbt_mem := (rbt_mem t)(a \<mapsto> f n)\<rparr>)"
  by (simp add: wr_def)

lemma focus_set_color:
  assumes "focus t cs (Bin l a c k r)"
  obtains t' where "set_color a c' t = Some t'" "focus t' cs (Bin l a c' k r)" "rbt_meta t' = rbt_meta t"
proof
  show "set_color a c' t = Some (t\<lparr>rbt_mem := (rbt_mem t)(a \<mapsto>
      \<lparr>rbn_left = rootp l, rbn_right = rootp r, rbn_parent = ctx_parent cs, rbn_color = c', rbn_key = k\<rparr>)\<rparr>)"
    using focus_rd [OF assms] by (simp add: set_color_def wr_eq)
  show "focus (t\<lparr>rbt_mem := (rbt_mem t)(a \<mapsto>
      \<lparr>rbn_left = rootp l, rbn_right = rootp r, rbn_parent = ctx_parent cs, rbn_color = c', rbn_key = k\<rparr>)\<rparr>)
     cs (Bin l a c' k r)"
    using assms by (simp add: focus_def image_Un)
qed (simp add: rbt_meta_def)


section \<open>Rotations\<close>

lemma rootp_neq [simp]:
  assumes "x \<notin> fst ` set (inorder T)" and "0 < x"
  shows "rootp T \<noteq> x" and "x \<noteq> rootp T"
  using assms by (cases T; auto)+

lemmas focus_exec_defs = rbt_access_defs wr_def rd_def focus_def rbt_meta_def

lemma focus_rotate_left:
  assumes z: "focus t cs (Bin A x cx kx (Bin B y cy ky C))"
  obtains t' where "rotate_left t x = Some t'" and "focus t' cs (Bin (Bin A x cx kx B) y cy ky C)"
    and "rbt_meta t' = rbt_meta t"
proof -
  have "\<exists>t'. rotate_left t x = Some t' \<and> focus t' cs (Bin (Bin A x cx kx B) y cy ky C)
      \<and> rbt_meta t' = rbt_meta t"
  proof (cases cs)
    case Nil
    from z show ?thesis unfolding rotate_left_def Nil
      by (cases B) (auto simp: focus_exec_defs)
  next
    case (Cons f ds)
    from z focus_root_iff[OF z] show ?thesis unfolding rotate_left_def Cons
      by (cases B; cases f) (auto simp: focus_exec_defs)
  qed
  then show thesis using that by blast
qed

lemma focus_rotate_right:
  assumes z: "focus t cs (Bin (Bin A y cy ky B) x cx kx C)"
  obtains t' where "rotate_right t x = Some t'" and "focus t' cs (Bin A y cy ky (Bin B x cx kx C))"
    and "rbt_meta t' = rbt_meta t"
proof -
  have "\<exists>t'. rotate_right t x = Some t' \<and> focus t' cs (Bin A y cy ky (Bin B x cx kx C))
      \<and> rbt_meta t' = rbt_meta t"
  proof (cases cs)
    case Nil
    from z show ?thesis unfolding rotate_right_def Nil
      by (cases B) (auto simp: focus_exec_defs)
  next
    case (Cons f ds)
    from z focus_root_iff[OF z] show ?thesis unfolding rotate_right_def Cons
      by (cases B; cases f) (auto simp: focus_exec_defs)
  qed
  then show thesis using that by blast
qed

end
