(* ===== verification/RbtInsert.thy ===== *)
theory RbtInsert
  imports RbtShape
begin

section \<open>The red-black invariant and insertion\<close>

text \<open>
  The balance invariant of the trees of \<^verbatim>\<open>rbt.c\<close>, its version for the way from a subtree
  to the root, and the correctness of \<^verbatim>\<open>rbt_ins\<close>: it never faults, its loops end, it
  keeps the invariant, and it puts the new entry behind every entry that does not
  compare greater.
\<close>

subsection \<open>The invariant\<close>

text \<open>
  \<open>rb h T\<close>: no red node of \<open>T\<close> has a red child and every way down meets \<open>h\<close> black
  nodes. \<open>ctx_rb cs h\<close>: what surrounds a subtree of black height \<open>h\<close>.
\<close>

fun rb :: "nat \<Rightarrow> 'k tr \<Rightarrow> bool" where
  "rb h Tip \<longleftrightarrow> h = 0"
| "rb h (Bin l a RBN_RED k r) \<longleftrightarrow>
     tcolor l = RBN_BLACK \<and> tcolor r = RBN_BLACK \<and> rb h l \<and> rb h r"
| "rb h (Bin l a RBN_BLACK k r) \<longleftrightarrow> 0 < h \<and> rb (h - 1) l \<and> rb (h - 1) r"

fun ctx_color :: "'k frame list \<Rightarrow> rbn_color" where
  "ctx_color [] = RBN_BLACK"
| "ctx_color (FrL a c k r # cs) = c"
| "ctx_color (FrR l a c k # cs) = c"

fun frame_tree :: "'k frame \<Rightarrow> 'k tr" where
  "frame_tree (FrL a c k r) = r"
| "frame_tree (FrR l a c k) = l"

fun ctx_rb :: "'k frame list \<Rightarrow> nat \<Rightarrow> bool" where
  "ctx_rb [] h \<longleftrightarrow> True"
| "ctx_rb (f # cs) h \<longleftrightarrow> rb h (frame_tree f) \<and>
     (if ctx_color (f # cs) = RBN_RED
      then tcolor (frame_tree f) = RBN_BLACK \<and> cs \<noteq> [] \<and> ctx_color cs = RBN_BLACK \<and> ctx_rb cs h
      else ctx_rb cs (Suc h))"

fun paint :: "rbn_color \<Rightarrow> 'k tr \<Rightarrow> 'k tr" where
  "paint c Tip = Tip"
| "paint c (Bin l a d k r) = Bin l a c k r"

lemma inorder_paint [simp]: "inorder (paint c T) = inorder T"
  by (cases T) simp_all

lemma rbn_color_neq [simp]: "c \<noteq> RBN_RED \<longleftrightarrow> c = RBN_BLACK" "c \<noteq> RBN_BLACK \<longleftrightarrow> c = RBN_RED"
  by (cases c; simp)+

lemma rb_paint: "rb h T \<Longrightarrow> \<exists>h'. rb h' (paint RBN_BLACK T)"
proof (cases T)
  case (Bin l a c k r)
  assume "rb h T"
  with Bin show ?thesis by (cases c) (auto intro: exI [of _ h] exI [of _ "Suc h"])
qed auto

lemma rb_plug:
  assumes "rb h T" and "ctx_rb cs h" and "tcolor T = RBN_RED \<Longrightarrow> ctx_color cs = RBN_BLACK"
    and "cs = [] \<Longrightarrow> tcolor T = RBN_BLACK"
  shows "\<exists>h'. rb h' (plug cs T) \<and> tcolor (plug cs T) = RBN_BLACK"
  using assms
proof (induction cs arbitrary: h T)
  case (Cons f cs)
  show ?case
  proof (cases "ctx_color (f # cs)")
    case RBN_RED
    with Cons.prems have "rb h (plug1 f T)" "ctx_rb cs h" "cs \<noteq> []" "ctx_color cs = RBN_BLACK"
      by (cases f; cases "tcolor T"; auto)+
    with Cons.IH [of h "plug1 f T"] show ?thesis by simp
  next
    case RBN_BLACK
    with Cons.prems have "rb (Suc h) (plug1 f T)" "ctx_rb cs (Suc h)" "tcolor (plug1 f T) = RBN_BLACK"
      by (cases f; auto)+
    with Cons.IH [of "Suc h" "plug1 f T"] show ?thesis by simp
  qed
qed auto

subsection \<open>The rebalancing loop\<close>

lemma focus_distinct_children:
  "focus t cs (Bin l a c k r) \<Longrightarrow> l \<noteq> Tip \<or> r \<noteq> Tip \<Longrightarrow> rootp l \<noteq> rootp r"
  by (cases l; cases r) (auto simp: focus_def)

lemma fixup_stop:
  assumes "focus t cs (Bin l x c k r)" and "cs \<noteq> []" and "ctx_color cs = RBN_BLACK"
  shows "rbt_ins_fixup t x = Some t"
proof -
  obtain f ds where cs: "cs = f # ds" using assms(2) by (cases cs) auto
  have z: "focus t ds (plug1 f (Bin l x c k r))"
    using assms(1) unfolding cs by (cases f) (simp_all add: focus_FrL focus_FrR)
  have "is_red t (ctx_parent cs) = Some False"
    using focus_is_red [OF z] assms(3) unfolding cs by (cases f) simp_all
  moreover have "x \<noteq> rbt_root t" using focus_root_iff [OF assms(1)] cs by simp
  ultimately show ?thesis
    by (subst rbt_ins_fixup.simps) (simp add: focus_get [OF assms(1)])
qed

lemma fixup_red_uncle_L:
  assumes z: "focus t (f # FrL g cg kg (Bin ul u RBN_RED ku ur) # es) (Bin l x RBN_RED k r)"
    and P: "plug1 f (Bin l x RBN_RED k r) = Bin pl p RBN_RED kp pr"
  obtains t' where "rbt_ins_fixup t x = rbt_ins_fixup t' g"
    and "focus t' es (Bin (Bin pl p RBN_BLACK kp pr) g RBN_RED kg (Bin ul u RBN_BLACK ku ur))"
    and "rbt_meta t' = rbt_meta t"
proof -
  have zp: "focus t (FrL g cg kg (Bin ul u RBN_RED ku ur) # es) (Bin pl p RBN_RED kp pr)"
    using z P by (cases f) (simp_all add: focus_FrL focus_FrR)
  have zg: "focus t es (Bin (Bin pl p RBN_RED kp pr) g cg kg (Bin ul u RBN_RED ku ur))"
    using zp by (simp add: focus_FrL)
  have zu: "focus t (FrR (Bin pl p RBN_RED kp pr) g cg kg # es) (Bin ul u RBN_RED ku ur)"
    using zg by (simp add: focus_FrR)
  have par: "ctx_parent (f # FrL g cg kg (Bin ul u RBN_RED ku ur) # es) = p"
    using P by (cases f) simp_all
  obtain t1 where t1: "set_color p RBN_BLACK t = Some t1"
      "focus t1 (FrL g cg kg (Bin ul u RBN_RED ku ur) # es) (Bin pl p RBN_BLACK kp pr)" "rbt_meta t1 = rbt_meta t"
    using focus_set_color [OF zp] .
  have "focus t1 (FrR (Bin pl p RBN_BLACK kp pr) g cg kg # es) (Bin ul u RBN_RED ku ur)"
    using t1(2) by (simp add: focus_FrL focus_FrR)
  then obtain t2 where t2: "set_color u RBN_BLACK t1 = Some t2"
      "focus t2 (FrR (Bin pl p RBN_BLACK kp pr) g cg kg # es) (Bin ul u RBN_BLACK ku ur)" "rbt_meta t2 = rbt_meta t1"
    by (rule focus_set_color)
  then have "focus t2 es (Bin (Bin pl p RBN_BLACK kp pr) g cg kg (Bin ul u RBN_BLACK ku ur))"
    by (simp add: focus_FrR)
  then obtain t3 where t3: "set_color g RBN_RED t2 = Some t3"
      "focus t3 es (Bin (Bin pl p RBN_BLACK kp pr) g RBN_RED kg (Bin ul u RBN_BLACK ku ur))" "rbt_meta t3 = rbt_meta t2"
    by (rule focus_set_color)
  have "rbt_ins_fixup t x = rbt_ins_fixup t3 g"
    using focus_root_iff [OF z] par t1(1) t2(1) t3(1)
    by (subst rbt_ins_fixup.simps)
      (simp add: focus_get [OF z] focus_get [OF zp] focus_get [OF zg] focus_get [OF zu])
  with t1 t2 t3 that show thesis by simp
qed
lemma fixup_red_uncle_R:
  assumes z: "focus t (f # FrR (Bin ul u RBN_RED ku ur) g cg kg # es) (Bin l x RBN_RED k r)"
    and P: "plug1 f (Bin l x RBN_RED k r) = Bin pl p RBN_RED kp pr"
  obtains t' where "rbt_ins_fixup t x = rbt_ins_fixup t' g"
    and "focus t' es (Bin (Bin ul u RBN_BLACK ku ur) g RBN_RED kg (Bin pl p RBN_BLACK kp pr))"
    and "rbt_meta t' = rbt_meta t"
proof -
  have zp: "focus t (FrR (Bin ul u RBN_RED ku ur) g cg kg # es) (Bin pl p RBN_RED kp pr)"
    using z P by (cases f) (simp_all add: focus_FrL focus_FrR)
  have zg: "focus t es (Bin (Bin ul u RBN_RED ku ur) g cg kg (Bin pl p RBN_RED kp pr))"
    using zp by (simp add: focus_FrR)
  have zu: "focus t (FrL g cg kg (Bin pl p RBN_RED kp pr) # es) (Bin ul u RBN_RED ku ur)"
    using zg by (simp add: focus_FrL)
  have par: "ctx_parent (f # FrR (Bin ul u RBN_RED ku ur) g cg kg # es) = p"
    using P by (cases f) simp_all
  obtain t1 where t1: "set_color p RBN_BLACK t = Some t1"
      "focus t1 (FrR (Bin ul u RBN_RED ku ur) g cg kg # es) (Bin pl p RBN_BLACK kp pr)" "rbt_meta t1 = rbt_meta t"
    using focus_set_color [OF zp] .
  have "focus t1 (FrL g cg kg (Bin pl p RBN_BLACK kp pr) # es) (Bin ul u RBN_RED ku ur)"
    using t1(2) by (simp add: focus_FrL focus_FrR)
  then obtain t2 where t2: "set_color u RBN_BLACK t1 = Some t2"
      "focus t2 (FrL g cg kg (Bin pl p RBN_BLACK kp pr) # es) (Bin ul u RBN_BLACK ku ur)" "rbt_meta t2 = rbt_meta t1"
    by (rule focus_set_color)
  then have "focus t2 es (Bin (Bin ul u RBN_BLACK ku ur) g cg kg (Bin pl p RBN_BLACK kp pr))"
    by (simp add: focus_FrL)
  then obtain t3 where t3: "set_color g RBN_RED t2 = Some t3"
      "focus t3 es (Bin (Bin ul u RBN_BLACK ku ur) g RBN_RED kg (Bin pl p RBN_BLACK kp pr))" "rbt_meta t3 = rbt_meta t2"
    by (rule focus_set_color)
  have "rbt_ins_fixup t x = rbt_ins_fixup t3 g"
    using focus_root_iff [OF z] par focus_distinct_children [OF zg] t1(1) t2(1) t3(1)
    by (subst rbt_ins_fixup.simps)
      (simp add: focus_get [OF z] focus_get [OF zp] focus_get [OF zg] focus_get [OF zu])
  with t1 t2 t3 that show thesis by simp
qed

lemma fixup_black_uncle_LL:
  assumes z: "focus t (FrL p RBN_RED kp B # FrL g cg kg U # es) (Bin l x RBN_RED k r)"
    and U: "tcolor U = RBN_BLACK"
  obtains t' where "rbt_ins_fixup t x = Some t'"
    and "focus t' es (Bin (Bin l x RBN_RED k r) p RBN_BLACK kp (Bin B g RBN_RED kg U))"
    and "rbt_meta t' = rbt_meta t"
proof -
  let ?X = "Bin l x RBN_RED k r"
  have zp: "focus t (FrL g cg kg U # es) (Bin ?X p RBN_RED kp B)" using z by (simp add: focus_FrL)
  have zg: "focus t es (Bin (Bin ?X p RBN_RED kp B) g cg kg U)" using zp by (simp add: focus_FrL)
  have zu: "focus t (FrR (Bin ?X p RBN_RED kp B) g cg kg # es) U" using zg by (simp add: focus_FrR)
  obtain t1 where t1: "set_color p RBN_BLACK t = Some t1"
      "focus t1 (FrL g cg kg U # es) (Bin ?X p RBN_BLACK kp B)" "rbt_meta t1 = rbt_meta t"
    using focus_set_color [OF zp] .
  then have "focus t1 es (Bin (Bin ?X p RBN_BLACK kp B) g cg kg U)" by (simp add: focus_FrL)
  then obtain t2 where t2: "set_color g RBN_RED t1 = Some t2"
      "focus t2 es (Bin (Bin ?X p RBN_BLACK kp B) g RBN_RED kg U)" "rbt_meta t2 = rbt_meta t1"
    by (rule focus_set_color)
  obtain t3 where t3: "rotate_right t2 g = Some t3"
      "focus t3 es (Bin ?X p RBN_BLACK kp (Bin B g RBN_RED kg U))" "rbt_meta t3 = rbt_meta t2"
    using focus_rotate_right [OF t2(2)] .
  have "rbt_ins_fixup t3 x = Some t3"
    by (rule fixup_stop [of _ "FrL p RBN_BLACK kp (Bin B g RBN_RED kg U) # es"])
      (use t3(2) in \<open>simp_all add: focus_FrL\<close>)
  then have "rbt_ins_fixup t x = Some t3"
    using focus_root_iff [OF z] focus_distinct_children [OF zp] focus_is_red [OF zu] U t1(1) t2(1) t3(1)
      focus_get [OF t1(2)]
    by (subst rbt_ins_fixup.simps) (simp add: focus_get [OF z] focus_get [OF zp] focus_get [OF zg])
  with t1 t2 t3 that show thesis by simp
qed

lemma fixup_black_uncle_LR:
  assumes z: "focus t (FrR A p RBN_RED kp # FrL g cg kg U # es) (Bin l x RBN_RED k r)"
    and U: "tcolor U = RBN_BLACK"
  obtains t' where "rbt_ins_fixup t x = Some t'"
    and "focus t' es (Bin (Bin A p RBN_RED kp l) x RBN_BLACK k (Bin r g RBN_RED kg U))"
    and "rbt_meta t' = rbt_meta t"
proof -
  let ?P = "Bin A p RBN_RED kp l"
  have zp: "focus t (FrL g cg kg U # es) (Bin A p RBN_RED kp (Bin l x RBN_RED k r))"
    using z by (simp add: focus_FrR)
  have zg: "focus t es (Bin (Bin A p RBN_RED kp (Bin l x RBN_RED k r)) g cg kg U)"
    using zp by (simp add: focus_FrL)
  have zu: "focus t (FrR (Bin A p RBN_RED kp (Bin l x RBN_RED k r)) g cg kg # es) U"
    using zg by (simp add: focus_FrR)
  obtain t1 where t1: "rotate_left t p = Some t1"
      "focus t1 (FrL g cg kg U # es) (Bin ?P x RBN_RED k r)" "rbt_meta t1 = rbt_meta t"
    using focus_rotate_left [OF zp] .
  have z1: "focus t1 (FrL x RBN_RED k r # FrL g cg kg U # es) ?P"
    using t1(2) by (simp add: focus_FrL)
  obtain t2 where t2: "set_color x RBN_BLACK t1 = Some t2"
      "focus t2 (FrL g cg kg U # es) (Bin ?P x RBN_BLACK k r)" "rbt_meta t2 = rbt_meta t1"
    using focus_set_color [OF t1(2)] .
  then have "focus t2 es (Bin (Bin ?P x RBN_BLACK k r) g cg kg U)" by (simp add: focus_FrL)
  then obtain t3 where t3: "set_color g RBN_RED t2 = Some t3"
      "focus t3 es (Bin (Bin ?P x RBN_BLACK k r) g RBN_RED kg U)" "rbt_meta t3 = rbt_meta t2"
    by (rule focus_set_color)
  obtain t4 where t4: "rotate_right t3 g = Some t4"
      "focus t4 es (Bin ?P x RBN_BLACK k (Bin r g RBN_RED kg U))" "rbt_meta t4 = rbt_meta t3"
    using focus_rotate_right [OF t3(2)] .
  have "rbt_ins_fixup t4 p = Some t4"
    by (rule fixup_stop [of _ "FrL x RBN_BLACK k (Bin r g RBN_RED kg U) # es"])
      (use t4(2) in \<open>simp_all add: focus_FrL\<close>)
  then have "rbt_ins_fixup t x = Some t4"
    using focus_root_iff [OF z] focus_is_red [OF zu] U t1(1) t2(1) t3(1) t4(1)
      focus_get [OF z1] focus_get [OF t2(2)]
    by (subst rbt_ins_fixup.simps) (simp add: focus_get [OF z] focus_get [OF zp] focus_get [OF zg])
  with t1 t2 t3 t4 that show thesis by simp
qed

lemma fixup_black_uncle_RR:
  assumes z: "focus t (FrR B p RBN_RED kp # FrR U g cg kg # es) (Bin l x RBN_RED k r)"
    and U: "tcolor U = RBN_BLACK"
  obtains t' where "rbt_ins_fixup t x = Some t'"
    and "focus t' es (Bin (Bin U g RBN_RED kg B) p RBN_BLACK kp (Bin l x RBN_RED k r))"
    and "rbt_meta t' = rbt_meta t"
proof -
  let ?X = "Bin l x RBN_RED k r"
  have zp: "focus t (FrR U g cg kg # es) (Bin B p RBN_RED kp ?X)" using z by (simp add: focus_FrR)
  have zg: "focus t es (Bin U g cg kg (Bin B p RBN_RED kp ?X))" using zp by (simp add: focus_FrR)
  have zu: "focus t (FrL g cg kg (Bin B p RBN_RED kp ?X) # es) U" using zg by (simp add: focus_FrL)
  obtain t1 where t1: "set_color p RBN_BLACK t = Some t1"
      "focus t1 (FrR U g cg kg # es) (Bin B p RBN_BLACK kp ?X)" "rbt_meta t1 = rbt_meta t"
    using focus_set_color [OF zp] .
  then have "focus t1 es (Bin U g cg kg (Bin B p RBN_BLACK kp ?X))" by (simp add: focus_FrR)
  then obtain t2 where t2: "set_color g RBN_RED t1 = Some t2"
      "focus t2 es (Bin U g RBN_RED kg (Bin B p RBN_BLACK kp ?X))" "rbt_meta t2 = rbt_meta t1"
    by (rule focus_set_color)
  obtain t3 where t3: "rotate_left t2 g = Some t3"
      "focus t3 es (Bin (Bin U g RBN_RED kg B) p RBN_BLACK kp ?X)" "rbt_meta t3 = rbt_meta t2"
    using focus_rotate_left [OF t2(2)] .
  have "rbt_ins_fixup t3 x = Some t3"
    by (rule fixup_stop [of _ "FrR (Bin U g RBN_RED kg B) p RBN_BLACK kp # es"])
      (use t3(2) in \<open>simp_all add: focus_FrR\<close>)
  then have "rbt_ins_fixup t x = Some t3"
    using focus_root_iff [OF z] focus_distinct_children [OF zp] focus_distinct_children [OF zg]
      focus_is_red [OF zu] U t1(1) t2(1) t3(1) focus_get [OF t1(2)] focus_get [OF zg]
    by (subst rbt_ins_fixup.simps) (simp add: focus_get [OF z] focus_get [OF zp])
  with t1 t2 t3 that show thesis by simp
qed

lemma fixup_black_uncle_RL:
  assumes z: "focus t (FrL p RBN_RED kp A # FrR U g cg kg # es) (Bin l x RBN_RED k r)"
    and U: "tcolor U = RBN_BLACK"
  obtains t' where "rbt_ins_fixup t x = Some t'"
    and "focus t' es (Bin (Bin U g RBN_RED kg l) x RBN_BLACK k (Bin r p RBN_RED kp A))"
    and "rbt_meta t' = rbt_meta t"
proof -
  let ?P = "Bin r p RBN_RED kp A"
  have zp: "focus t (FrR U g cg kg # es) (Bin (Bin l x RBN_RED k r) p RBN_RED kp A)"
    using z by (simp add: focus_FrL)
  have zg: "focus t es (Bin U g cg kg (Bin (Bin l x RBN_RED k r) p RBN_RED kp A))"
    using zp by (simp add: focus_FrR)
  have zu: "focus t (FrL g cg kg (Bin (Bin l x RBN_RED k r) p RBN_RED kp A) # es) U"
    using zg by (simp add: focus_FrL)
  obtain t1 where t1: "rotate_right t p = Some t1"
      "focus t1 (FrR U g cg kg # es) (Bin l x RBN_RED k ?P)" "rbt_meta t1 = rbt_meta t"
    using focus_rotate_right [OF zp] .
  have z1: "focus t1 (FrR l x RBN_RED k # FrR U g cg kg # es) ?P"
    using t1(2) by (simp add: focus_FrR)
  obtain t2 where t2: "set_color x RBN_BLACK t1 = Some t2"
      "focus t2 (FrR U g cg kg # es) (Bin l x RBN_BLACK k ?P)" "rbt_meta t2 = rbt_meta t1"
    using focus_set_color [OF t1(2)] .
  then have "focus t2 es (Bin U g cg kg (Bin l x RBN_BLACK k ?P))" by (simp add: focus_FrR)
  then obtain t3 where t3: "set_color g RBN_RED t2 = Some t3"
      "focus t3 es (Bin U g RBN_RED kg (Bin l x RBN_BLACK k ?P))" "rbt_meta t3 = rbt_meta t2"
    by (rule focus_set_color)
  obtain t4 where t4: "rotate_left t3 g = Some t4"
      "focus t4 es (Bin (Bin U g RBN_RED kg l) x RBN_BLACK k ?P)" "rbt_meta t4 = rbt_meta t3"
    using focus_rotate_left [OF t3(2)] .
  have "rbt_ins_fixup t4 p = Some t4"
    by (rule fixup_stop [of _ "FrR (Bin U g RBN_RED kg l) x RBN_BLACK k # es"])
      (use t4(2) in \<open>simp_all add: focus_FrR\<close>)
  then have "rbt_ins_fixup t x = Some t4"
    using focus_root_iff [OF z] focus_distinct_children [OF zg] focus_is_red [OF zu] U t1(1) t2(1) t3(1) t4(1)
      focus_get [OF z1] focus_get [OF t2(2)] focus_get [OF zg]
    by (subst rbt_ins_fixup.simps) (simp add: focus_get [OF z] focus_get [OF zp])
  with t1 t2 t3 t4 that show thesis by simp
qed

text \<open>
  A red node \<open>x\<close> may have a red parent; everything else is balanced. The loop ends and
  leaves a tree whose only possible fault is a red root.
\<close>

definition fixed_up :: "'k rbt \<Rightarrow> (addr \<times> 'k) list \<Rightarrow> 'k rbt \<Rightarrow> bool" where
  "fixed_up t es t' \<longleftrightarrow> (\<exists>T h. focus t' [] T \<and> T \<noteq> Tip \<and> rb h (paint RBN_BLACK T) \<and>
     inorder T = es \<and> rbt_meta t' = rbt_meta t)"

lemma fixed_upI:
  assumes "focus t' cs T" and "rb h T" and "ctx_rb cs h" and "rbt_meta t' = rbt_meta t" and "T \<noteq> Tip"
    and "tcolor T = RBN_RED \<Longrightarrow> ctx_color cs = RBN_BLACK" and "ctx_l cs @ inorder T @ ctx_r cs = es"
  shows "fixed_up t es t'"
proof (cases "cs = []")
  case True
  obtain h' where "rb h' (paint RBN_BLACK T)" using rb_paint [OF assms(2)] by blast
  with True assms show ?thesis unfolding fixed_up_def by auto
next
  case False
  have "inorder (plug cs T) \<noteq> []" using assms(5) by (cases T) (simp_all add: inorder_simps)
  then have "plug cs T \<noteq> Tip" by auto
  moreover from assms False obtain h' where "rb h' (plug cs T)" using rb_plug [of h T cs] by blast
  ultimately show ?thesis
    using rb_paint focus_plug [of t' cs T] assms(1,4,7)
    unfolding fixed_up_def by (fastforce simp: inorder_simps)
qed

lemma fixup_black_uncle:
  assumes z: "focus t (f # g # es) (Bin l x RBN_RED k r)" and X: "rb h (Bin l x RBN_RED k r)"
    and ctx: "ctx_rb (f # g # es) h" and f: "ctx_color (f # g # es) = RBN_RED"
    and U: "tcolor (frame_tree g) = RBN_BLACK"
  shows "\<exists>t'. rbt_ins_fixup t x = Some t' \<and>
    fixed_up t (ctx_l (f # g # es) @ inorder (Bin l x RBN_RED k r) @ ctx_r (f # g # es)) t'"
proof (cases f)
  case F: (FrL p cp kp B)
  show ?thesis
  proof (cases g)
    case G: (FrL q cq kq U')
    from z F G f U obtain t' where "rbt_ins_fixup t x = Some t'"
      "focus t' es (Bin (Bin l x RBN_RED k r) p RBN_BLACK kp (Bin B q RBN_RED kq U'))"
      "rbt_meta t' = rbt_meta t" by (auto elim: fixup_black_uncle_LL)
    with X ctx F G f U show ?thesis by (auto intro!: fixed_upI [where h = "Suc h"])
  next
    case G: (FrR U' q cq kq)
    from z F G f U obtain t' where "rbt_ins_fixup t x = Some t'"
      "focus t' es (Bin (Bin U' q RBN_RED kq l) x RBN_BLACK k (Bin r p RBN_RED kp B))"
      "rbt_meta t' = rbt_meta t" by (auto elim: fixup_black_uncle_RL)
    with X ctx F G f U show ?thesis by (auto intro!: fixed_upI [where h = "Suc h"])
  qed
next
  case F: (FrR A p cp kp)
  show ?thesis
  proof (cases g)
    case G: (FrL q cq kq U')
    from z F G f U obtain t' where "rbt_ins_fixup t x = Some t'"
      "focus t' es (Bin (Bin A p RBN_RED kp l) x RBN_BLACK k (Bin r q RBN_RED kq U'))"
      "rbt_meta t' = rbt_meta t" by (auto elim: fixup_black_uncle_LR)
    with X ctx F G f U show ?thesis by (auto intro!: fixed_upI [where h = "Suc h"])
  next
    case G: (FrR U' q cq kq)
    from z F G f U obtain t' where "rbt_ins_fixup t x = Some t'"
      "focus t' es (Bin (Bin U' q RBN_RED kq A) p RBN_BLACK kp (Bin l x RBN_RED k r))"
      "rbt_meta t' = rbt_meta t" by (auto elim: fixup_black_uncle_RR)
    with X ctx F G f U show ?thesis by (auto intro!: fixed_upI [where h = "Suc h"])
  qed
qed

lemma fixup_red_uncle:
  assumes z: "focus t (f # g # es) (Bin l x RBN_RED k r)" and X: "rb h (Bin l x RBN_RED k r)"
    and ctx: "ctx_rb (f # g # es) h" and f: "ctx_color (f # g # es) = RBN_RED"
    and U: "tcolor (frame_tree g) = RBN_RED"
  obtains t' l' q kq r' where "rbt_ins_fixup t x = rbt_ins_fixup t' q"
    and "focus t' es (Bin l' q RBN_RED kq r')" and "rbt_meta t' = rbt_meta t"
    and "rb (Suc h) (Bin l' q RBN_RED kq r')" and "ctx_rb es (Suc h)"
    and "ctx_l es @ inorder (Bin l' q RBN_RED kq r') @ ctx_r es =
      ctx_l (f # g # es) @ inorder (Bin l x RBN_RED k r) @ ctx_r (f # g # es)"
proof -
  let ?X = "Bin l x RBN_RED k r"
  obtain ul u ku ur where T: "frame_tree g = Bin ul u RBN_RED ku ur"
    using U by (cases "frame_tree g") auto
  obtain pl p kp pr where P: "plug1 f ?X = Bin pl p RBN_RED kp pr"
    using f by (cases f) auto
  have g: "ctx_color (g # es) = RBN_BLACK" using ctx f by simp
  have rbP: "rb (Suc h) (Bin pl p RBN_BLACK kp pr)" using P X ctx f by (cases f) auto
  have rbU: "rb (Suc h) (Bin ul u RBN_BLACK ku ur)" using ctx f T by auto
  have cx: "ctx_rb es (Suc h)" using ctx f g by simp
  have io: "inorder (Bin pl p RBN_BLACK kp pr) = inorder (plug1 f ?X)" using P by simp
  show thesis
  proof (cases g)
    case G: (FrL q cq kq V)
    from z T G obtain t' where "rbt_ins_fixup t x = rbt_ins_fixup t' q"
      "focus t' es (Bin (Bin pl p RBN_BLACK kp pr) q RBN_RED kq (Bin ul u RBN_BLACK ku ur))"
      "rbt_meta t' = rbt_meta t" by (auto elim: fixup_red_uncle_L [OF _ P])
    then show thesis by (rule that) (use rbP rbU cx io G T in \<open>simp_all, cases f, simp_all\<close>)
  next
    case G: (FrR V q cq kq)
    from z T G obtain t' where "rbt_ins_fixup t x = rbt_ins_fixup t' q"
      "focus t' es (Bin (Bin ul u RBN_BLACK ku ur) q RBN_RED kq (Bin pl p RBN_BLACK kp pr))"
      "rbt_meta t' = rbt_meta t" by (auto elim: fixup_red_uncle_R [OF _ P])
    then show thesis by (rule that) (use rbP rbU cx io G T in \<open>simp_all, cases f, simp_all\<close>)
  qed
qed

lemma fixup_correct:
  assumes "focus t cs (Bin l x RBN_RED k r)" and "rb h (Bin l x RBN_RED k r)" and "ctx_rb cs h"
  shows "\<exists>t'. rbt_ins_fixup t x = Some t' \<and>
    fixed_up t (ctx_l cs @ inorder (Bin l x RBN_RED k r) @ ctx_r cs) t'"
  using assms
proof (induction cs arbitrary: t l x k r h rule: measure_induct_rule [of length])
  case (less cs)
  note z = less.prems(1) and rbX = less.prems(2) and ctx = less.prems(3)
  consider (root) "cs = []" | (stop) "cs \<noteq> []" "ctx_color cs = RBN_BLACK"
    | (red) f g es where "cs = f # g # es" "ctx_color cs = RBN_RED"
  proof (cases cs)
    case Nil then show thesis by (rule that(1))
  next
    case (Cons f ds)
    with ctx show thesis using that(2,3) by (cases "ctx_color cs"; cases ds) auto
  qed
  then show ?case
  proof cases
    case root
    have "rbt_ins_fixup t x = Some t"
      using focus_root_iff [OF z] root by (subst rbt_ins_fixup.simps) simp
    with root z rbX ctx show ?thesis by (auto intro!: fixed_upI [where h = h])
  next
    case stop
    with fixup_stop [OF z] z rbX ctx show ?thesis by (auto intro!: fixed_upI [where h = h])
  next
    case red
    show ?thesis
    proof (cases "tcolor (frame_tree g)")
      case RBN_RED
      with z rbX ctx red obtain t' l' q kq r' where *:
        "rbt_ins_fixup t x = rbt_ins_fixup t' q" "focus t' es (Bin l' q RBN_RED kq r')"
        "rbt_meta t' = rbt_meta t" "rb (Suc h) (Bin l' q RBN_RED kq r')" "ctx_rb es (Suc h)"
        "ctx_l es @ inorder (Bin l' q RBN_RED kq r') @ ctx_r es =
          ctx_l cs @ inorder (Bin l x RBN_RED k r) @ ctx_r cs"
        by (auto elim: fixup_red_uncle)
      have "length es < length cs" using red by simp
      from less.IH [OF this *(2,4,5)] *(1,3,6) show ?thesis by (simp add: fixed_up_def)
    next
      case RBN_BLACK
      then show ?thesis using fixup_black_uncle [of t f g es l x k r h] z rbX ctx red by (simp only:)
    qed
  qed
qed

subsection \<open>The descent\<close>

text \<open>The way down that \<^verbatim>\<open>rbt_ins\<close> takes for a key, as a context.\<close>

fun ins_ctx :: "('k \<Rightarrow> 'k \<Rightarrow> int) \<Rightarrow> 'k \<Rightarrow> 'k tr \<Rightarrow> 'k frame list \<Rightarrow> 'k frame list" where
  "ins_ctx cmp k Tip cs = cs"
| "ins_ctx cmp k (Bin l a c ka r) cs =
     (if cmp ka k > 0 then ins_ctx cmp k l (FrL a c ka r # cs)
      else ins_ctx cmp k r (FrR l a c ka # cs))"

fun ins_side :: "'k frame list \<Rightarrow> int \<Rightarrow> bool" where
  "ins_side [] c \<longleftrightarrow> True"
| "ins_side (FrL a d k r # cs) c \<longleftrightarrow> c > 0"
| "ins_side (FrR l a d k # cs) c \<longleftrightarrow> \<not> c > 0"

lemma plug_ins_ctx [simp]: "plug (ins_ctx cmp k T cs) Tip = plug cs T"
  by (induction cmp k T cs rule: ins_ctx.induct) simp_all

lemma ins_ctx_Nil: "ins_ctx cmp k T cs = [] \<longleftrightarrow> T = Tip \<and> cs = []"
  by (induction cmp k T cs rule: ins_ctx.induct) simp_all

lemma ctx_rb_ins_ctx:
  "rb h T \<Longrightarrow> ctx_rb cs h \<Longrightarrow> (tcolor T = RBN_RED \<Longrightarrow> cs \<noteq> [] \<and> ctx_color cs = RBN_BLACK) \<Longrightarrow>
   ctx_rb (ins_ctx cmp k T cs) 0"
proof (induction cmp k T cs arbitrary: h rule: ins_ctx.induct)
  case (2 cmp k l a c ka r cs)
  show ?case
  proof (cases c)
    case RBN_RED
    with 2 show ?thesis by auto
  next
    case RBN_BLACK
    with 2 show ?thesis by (auto intro!: "2.IH" [of "h - 1"])
  qed
qed simp

lemma descend_correct:
  assumes "focus t cs T" and "get_key t x = Some k" and "ins_side cs c"
  shows "\<exists>c'. rbt_ins_descend t x (rootp T) (ctx_parent cs) c
      = Some (ctx_parent (ins_ctx (rbt_comparator t) k T cs), c')
    \<and> ins_side (ins_ctx (rbt_comparator t) k T cs) c'"
  using assms
proof (induction T arbitrary: cs c)
  case Tip
  then show ?case by (subst rbt_ins_descend.simps) simp
next
  case (Bin l a d ka r)
  note g = focus_get [OF Bin.prems(1)]
  from Bin.prems(1) have L: "focus t (FrL a d ka r # cs) l" and R: "focus t (FrR l a d ka # cs) r"
    by (simp_all add: focus_FrL focus_FrR)
  from Bin.IH(1) [OF L Bin.prems(2), of "rbt_comparator t ka k"]
    Bin.IH(2) [OF R Bin.prems(2), of "rbt_comparator t ka k"]
  show ?case using Bin.prems(2) g
    by (subst rbt_ins_descend.simps) (auto simp: Let_def)
qed

text \<open>The new node takes the place of the leaf the descent found.\<close>

lemma link_new:
  assumes "focus t cs Tip" and "cs \<noteq> []" and "ins_side cs c"
    and x: "x \<notin> fst ` set (ctx_l cs @ ctx_r cs)" "x \<noteq> NULL"
    and n: "rbt_mem t x = Some n" "rbn_left n = NULL" "rbn_right n = NULL" "rbn_color n = col" "rbn_key n = k"
  obtains t' where "do { t \<leftarrow> set_parent x (ctx_parent cs) t;
      if c > 0 then set_left (ctx_parent cs) x t else set_right (ctx_parent cs) x t } = Some t'"
    and "focus t' cs (Bin Tip x col k Tip)" and "rbt_meta t' = rbt_meta t"
proof -
  obtain f ds where "cs = f # ds" using assms(2) by (cases cs) auto
  moreover have "n = \<lparr>rbn_left = NULL, rbn_right = NULL, rbn_parent = rbn_parent n, rbn_color = col, rbn_key = k\<rparr>"
    using n by simp
  ultimately have "\<exists>t'. do { t \<leftarrow> set_parent x (ctx_parent cs) t;
      if c > 0 then set_left (ctx_parent cs) x t else set_right (ctx_parent cs) x t } = Some t' \<and>
      focus t' cs (Bin Tip x col k Tip) \<and> rbt_meta t' = rbt_meta t"
    using assms by (cases f) (auto simp: focus_exec_defs image_Un)
  then show thesis using that by blast
qed

subsection \<open>The tree as a sequence of entries\<close>

text \<open>
  \<open>rbt_rep t es\<close>: \<open>t\<close> is a well-formed, balanced tree whose entries are \<open>es\<close> from left to
  right, and its cardinality field is their number. This is all a caller needs to know.
\<close>

definition rbt_rep :: "'k rbt \<Rightarrow> (addr \<times> 'k) list \<Rightarrow> bool" where
  "rbt_rep t es \<longleftrightarrow> (\<exists>T h. focus t [] T \<and> rb h T \<and> tcolor T = RBN_BLACK \<and> inorder T = es) \<and>
     rbt_cardf t = int (length es)"

lemma rbt_repE:
  assumes "rbt_rep t es"
  obtains T h where "focus t [] T" "rb h T" "tcolor T = RBN_BLACK" "inorder T = es"
    "rbt_root t = rootp T" "rbt_cardf t = int (length es)"
  using assms focus_root [of t "[]"] unfolding rbt_rep_def by fastforce

lemma rbt_rep_distinct: "rbt_rep t es \<Longrightarrow> distinct (map fst es) \<and> NULL \<notin> fst ` set es"
proof (elim rbt_repE)
  fix T
  assume "focus t [] T" "inorder T = es"
  moreover have "tree_at m p T \<Longrightarrow> NULL \<notin> fst ` set (inorder T)" for m p
    by (induction T arbitrary: p) (auto simp: image_Un)
  ultimately show ?thesis by (auto simp: focus_def)
qed

lemma rbt_rep_init: "rbt_rep (rbt_init c t) []"
  unfolding rbt_rep_def
  by (auto simp: rbt_init_def focus_def intro!: exI [of _ Tip])

lemma rbt_comparator_init [simp]:
  "rbt_comparator (rbt_init c t) = c" "rbt_comparator (rbn_init n k t) = rbt_comparator t"
  by (simp_all add: rbt_init_def rbn_init_def)

lemma get_key_rbn_init: "n \<noteq> NULL \<Longrightarrow> get_key (rbn_init n k t) n = Some k"
  by (simp add: rbn_init_def get_key_def rd_def split: option.split)

lemma rbt_rep_rbn_init: "rbt_rep t es \<Longrightarrow> n \<notin> fst ` set es \<Longrightarrow> rbt_rep (rbn_init n k t) es"
  unfolding rbt_rep_def rbn_init_def using focus_wr_fresh [of t "[]"] by fastforce

lemma rbt_empty_rep: "rbt_rep t es \<Longrightarrow> rbt_empty t \<longleftrightarrow> es = []"
  by (erule rbt_repE, rename_tac T h, case_tac T) (auto simp: rbt_empty_def focus_def)

text \<open>Where the new entry goes in the sequence.\<close>

definition ins_split :: "('k \<Rightarrow> 'k \<Rightarrow> int) \<Rightarrow> 'k \<Rightarrow> 'k tr \<Rightarrow> (addr \<times> 'k) list \<times> (addr \<times> 'k) list" where
  "ins_split cmp k T = (ctx_l (ins_ctx cmp k T []), ctx_r (ins_ctx cmp k T []))"

lemma set_color_root:
  assumes "focus t [] T" and "T \<noteq> Tip"
  obtains t' where "set_color (rbt_root t) c t = Some t'" and "focus t' [] (paint c T)"
    and "rbt_meta t' = rbt_meta t"
proof -
  obtain l a d k r where T: "T = Bin l a d k r" using assms(2) by (cases T) auto
  with assms(1) have "rbt_root t = a" using focus_root [of t "[]"] by simp
  with focus_set_color [OF assms(1) [unfolded T]] T that show thesis by auto
qed

text \<open>The new node before it is linked: no children, red.\<close>

lemma ins_prepare:
  assumes "focus t [] T" and "x \<noteq> NULL" and "x \<notin> fst ` set (inorder T)" and "get_key t x = Some k"
  obtains t1 t' n where "set_right x NULL (t\<lparr>rbt_cardf := rbt_cardf t + 1\<rparr>) = Some t1"
    and "set_left x NULL t1 = Some t'"
    and "focus t' [] T" and "rbt_comparator t' = rbt_comparator t" and "rbt_cardf t' = rbt_cardf t + 1"
    and "rbt_mem t' x = Some n" and "rbn_left n = NULL" and "rbn_right n = NULL" and "rbn_key n = k"
proof -
  obtain n where n: "rbt_mem t x = Some n" "rbn_key n = k"
    using assms(2,4) by (auto simp: get_key_def rd_def)
  have "focus (t\<lparr>rbt_cardf := rbt_cardf t + 1, rbt_mem := (rbt_mem t)(x \<mapsto> v)\<rparr>) [] T" for v
    using focus_wr_fresh [OF assms(1), of x v] assms(3) by (simp add: focus_def)
  then show thesis using n assms(2)
    by (intro that [of "t\<lparr>rbt_cardf := rbt_cardf t + 1, rbt_mem := (rbt_mem t)(x \<mapsto> n\<lparr>rbn_right := NULL\<rparr>)\<rparr>"
      "t\<lparr>rbt_cardf := rbt_cardf t + 1, rbt_mem := (rbt_mem t)(x \<mapsto> n\<lparr>rbn_right := NULL, rbn_left := NULL\<rparr>)\<rparr>"
      "n\<lparr>rbn_right := NULL, rbn_left := NULL\<rparr>"])
      (simp_all add: rbt_access_defs wr_def rd_def)
qed

lemma rbt_ins_empty:
  assumes "focus t [] Tip" and "x \<noteq> NULL" and "get_key t x = Some k"
  obtains t' where "rbt_ins t x = Some t'" and "focus t' [] (Bin Tip x RBN_BLACK k Tip)"
    and "rbt_meta t' = (rbt_comparator t, rbt_cardf t + 1)"
proof -
  obtain n where n: "rbt_mem t x = Some n" "rbn_key n = k"
    using assms(2,3) by (auto simp: get_key_def rd_def)
  from assms(1) have "rbt_root t = NULL" by (simp add: focus_def)
  with n assms(2) have "\<exists>t'. rbt_ins t x = Some t' \<and> focus t' [] (Bin Tip x RBN_BLACK k Tip) \<and>
    rbt_meta t' = (rbt_comparator t, rbt_cardf t + 1)"
    by (auto simp: rbt_ins_def focus_exec_defs)
  then show thesis using that by blast
qed

lemma rbt_ins_nonempty:
  assumes T: "focus t [] T" "T \<noteq> Tip" "rb h T" "tcolor T = RBN_BLACK"
    and x: "x \<noteq> NULL" "x \<notin> fst ` set (inorder T)" "get_key t x = Some k"
  obtains t' T' h' where "rbt_ins t x = Some t'" and "focus t' [] T'" and "rb h' T'"
    and "tcolor T' = RBN_BLACK" and "rbt_meta t' = (rbt_comparator t, rbt_cardf t + 1)"
    and "inorder T' = fst (ins_split (rbt_comparator t) k T) @ (x, k) # snd (ins_split (rbt_comparator t) k T)"
proof -
  let ?cs = "ins_ctx (rbt_comparator t) k T []" and ?X = "Bin Tip x RBN_RED k Tip"
  obtain t1 t2 n where t2: "set_right x NULL (t\<lparr>rbt_cardf := rbt_cardf t + 1\<rparr>) = Some t1"
      "set_left x NULL t1 = Some t2" "focus t2 [] T" "rbt_comparator t2 = rbt_comparator t"
      "rbt_cardf t2 = rbt_cardf t + 1" "rbt_mem t2 x = Some n" "rbn_left n = NULL" "rbn_right n = NULL"
      "rbn_key n = k"
    using ins_prepare [OF T(1) x] by blast
  define t3 where "t3 = t2\<lparr>rbt_mem := (rbt_mem t2)(x \<mapsto> n\<lparr>rbn_color := RBN_RED\<rparr>)\<rparr>"
  have t3: "set_color x RBN_RED t2 = Some t3" "focus t3 [] T" "get_key t3 x = Some k"
    using t2(6,9) x(1,2) focus_wr_fresh [OF t2(3), of x]
    by (simp_all add: t3_def set_color_def wr_def rd_def get_key_def)
  have root: "rbt_root t2 = rootp T" "rbt_root t3 = rootp T" "rootp T \<noteq> NULL" "ins_side [] 0"
    using focus_root [OF t2(3)] focus_root [OF t3(2)] T(1,2) by (cases T; simp add: focus_get)+
  obtain c where c: "rbt_ins_descend t3 x (rootp T) NULL 0 = Some (ctx_parent ?cs, c)" "ins_side ?cs c"
    using descend_correct [OF t3(2,3) root(4)] by (auto simp: t3_def t2(4))
  have cs: "?cs \<noteq> []" "focus t3 ?cs Tip" using T(2) t3(2) focus_plug [of t3 ?cs Tip] by (simp_all add: ins_ctx_Nil)
  have io: "ctx_l ?cs @ ctx_r ?cs = inorder T" using inorder_plug [of ?cs Tip] by simp
  have par: "ctx_parent ?cs \<noteq> NULL" using cs
    by (cases ?cs; cases "hd ?cs") (auto simp: focus_def)
  obtain t4 where t4: "do { t \<leftarrow> set_parent x (ctx_parent ?cs) t3;
      if c > 0 then set_left (ctx_parent ?cs) x t else set_right (ctx_parent ?cs) x t } = Some t4"
      "focus t4 ?cs ?X" "rbt_meta t4 = rbt_meta t3"
    by (rule link_new [OF cs(2,1) c(2) _ x(1), of "n\<lparr>rbn_color := RBN_RED\<rparr>" RBN_RED k])
      (use x io t2(6-9) in \<open>simp_all add: t3_def\<close>)
  have "ctx_rb ?cs 0" by (rule ctx_rb_ins_ctx [OF T(3)]) (use T in simp_all)
  then obtain t5 where t5: "rbt_ins_fixup t4 x = Some t5" "fixed_up t4 (ctx_l ?cs @ inorder ?X @ ctx_r ?cs) t5"
    using fixup_correct [OF t4(2), of 0] by auto
  then obtain T' h' where T': "focus t5 [] T'" "T' \<noteq> Tip" "rb h' (paint RBN_BLACK T')"
      "inorder T' = ctx_l ?cs @ inorder ?X @ ctx_r ?cs" "rbt_meta t5 = rbt_meta t4"
    unfolding fixed_up_def by blast
  obtain t6 where t6: "set_color (rbt_root t5) RBN_BLACK t5 = Some t6" "focus t6 [] (paint RBN_BLACK T')"
      "rbt_meta t6 = rbt_meta t5"
    using set_color_root [OF T'(1,2)] .
  obtain t3' where "set_parent x (ctx_parent ?cs) t3 = Some t3'"
      "(if c > 0 then set_left (ctx_parent ?cs) x t3' else set_right (ctx_parent ?cs) x t3') = Some t4"
    using t4(1) by (auto simp: bind_eq_Some_conv)
  then have "rbt_ins t x = Some t6"
    using t2(1,2) t3(1) root c(1) par t5(1) t6(1) by (simp add: rbt_ins_def Let_def)
  then show thesis
    by (rule that [OF _ t6(2) T'(3)])
      (use T' t6 t4 t2 in \<open>simp_all add: ins_split_def rbt_meta_def t3_def, cases T', simp_all\<close>)
qed

end
