(* ===== verification/RbtOrder.thy ===== *)
theory RbtOrder
  imports RbtInsert
begin

section \<open>Comparators, order and search\<close>

text \<open>
  What \<^verbatim>\<open>rbt.c\<close> relies on of the function pointer \<^verbatim>\<open>rbn_comparator_t\<close>, as a locale; each
  client of the tree interprets it for its own comparator. Inside the locale: an
  insertion keeps the entries in order, and \<^verbatim>\<open>rbt_find\<close>, \<^verbatim>\<open>rbt_find_glb\<close> and
  \<^verbatim>\<open>rbt_find_lub\<close> return the entries they promise.
\<close>

definition ordered :: "('k \<Rightarrow> 'k \<Rightarrow> int) \<Rightarrow> 'k set \<Rightarrow> (addr \<times> 'k) list \<Rightarrow> bool" where
  "ordered cmp K es \<longleftrightarrow> snd ` set es \<subseteq> K \<and> sorted_wrt (\<lambda>p q. cmp (snd p) (snd q) \<le> 0) es"

definition rbt_seq :: "('k \<Rightarrow> 'k \<Rightarrow> int) \<Rightarrow> 'k set \<Rightarrow> 'k rbt \<Rightarrow> (addr \<times> 'k) list \<Rightarrow> bool" where
  "rbt_seq cmp K t es \<longleftrightarrow> rbt_rep t es \<and> ordered cmp K es \<and> rbt_comparator t = cmp"

definition ins_entry ::
  "('k \<Rightarrow> 'k \<Rightarrow> int) \<Rightarrow> addr \<Rightarrow> 'k \<Rightarrow> (addr \<times> 'k) list \<Rightarrow> (addr \<times> 'k) list" where
  "ins_entry cmp x k es = takeWhile (\<lambda>p. cmp (snd p) k \<le> 0) es @ (x, k) #
     dropWhile (\<lambda>p. cmp (snd p) k \<le> 0) es"

lemma rbt_seq_init: "rbt_seq c K (rbt_init c t) []"
  by (simp add: rbt_seq_def rbt_rep_init ordered_def)

lemma rbt_seq_rbn_init: "rbt_seq c K t es \<Longrightarrow> n \<notin> fst ` set es \<Longrightarrow> rbt_seq c K (rbn_init n k t) es"
  by (simp add: rbt_seq_def rbt_rep_rbn_init)

lemma ins_entry_simps [simp]:
  "ins_entry cmp x k [] = [(x, k)]"
  "ins_entry cmp x k (p # es) =
     (if cmp (snd p) k \<le> 0 then p # ins_entry cmp x k es else (x, k) # p # es)"
  by (simp_all add: ins_entry_def)

lemma set_ins_entry: "set (ins_entry cmp x k es) = insert (x, k) (set es)"
  by (induction es) auto

lemma length_ins_entry: "length (ins_entry cmp x k es) = Suc (length es)"
  by (induction es) auto

lemma ordered_append:
  "ordered cmp K (xs @ ys) \<longleftrightarrow> ordered cmp K xs \<and> ordered cmp K ys \<and>
     (\<forall>p \<in> set xs. \<forall>q \<in> set ys. cmp (snd p) (snd q) \<le> 0)"
  by (auto simp: ordered_def sorted_wrt_append)

lemma ordered_Cons:
  "ordered cmp K (p # ys) \<longleftrightarrow> snd p \<in> K \<and> ordered cmp K ys \<and> (\<forall>q \<in> set ys. cmp (snd p) (snd q) \<le> 0)"
  by (auto simp: ordered_def)

lemma ordered_Nil [simp]: "ordered cmp K []"
  by (simp add: ordered_def)

lemmas ordered_simps = ordered_append ordered_Cons

lemma ordered_in: "ordered cmp K es \<Longrightarrow> p \<in> set es \<Longrightarrow> snd p \<in> K"
  by (auto simp: ordered_def)

lemma ordered_Bin:
  assumes "ordered cmp K (inorder (Bin l a c ka r))"
  shows "ordered cmp K (inorder l)" and "ordered cmp K (inorder r)" and "ka \<in> K"
    and "\<forall>p \<in> set (inorder l). snd p \<in> K \<and> cmp (snd p) ka \<le> 0"
    and "\<forall>p \<in> set (inorder r). snd p \<in> K \<and> cmp ka (snd p) \<le> 0"
  using assms by (auto simp: ordered_def sorted_wrt_append image_subset_iff)

text \<open>
  The greatest entry not above a key, and the least entry not below it: an entry of the
  sequence \<open>ps\<close> of candidates that is extreme among them, or \<open>d\<close> when there is no candidate.
\<close>

definition extreme :: "('k \<Rightarrow> 'k \<Rightarrow> bool) \<Rightarrow> (addr \<times> 'k) list \<Rightarrow> addr \<Rightarrow> addr \<Rightarrow> bool" where
  "extreme le ps d a \<longleftrightarrow> (if ps = [] then a = d
     else \<exists>k. (a, k) \<in> set ps \<and> (\<forall>p \<in> set ps. le (snd p) k))"

definition glb_of :: "('k \<Rightarrow> 'k \<Rightarrow> int) \<Rightarrow> 'k \<Rightarrow> (addr \<times> 'k) list \<Rightarrow> addr \<Rightarrow> addr \<Rightarrow> bool" where
  "glb_of cmp key es = extreme (\<lambda>k k'. cmp k k' \<le> 0) (filter (\<lambda>p. cmp (snd p) key \<le> 0) es)"

definition lub_of :: "('k \<Rightarrow> 'k \<Rightarrow> int) \<Rightarrow> 'k \<Rightarrow> (addr \<times> 'k) list \<Rightarrow> addr \<Rightarrow> addr \<Rightarrow> bool" where
  "lub_of cmp key es = extreme (\<lambda>k k'. cmp k' k \<le> 0) (filter (\<lambda>p. cmp (snd p) key \<ge> 0) es)"

definition found_in :: "('k \<Rightarrow> 'k \<Rightarrow> int) \<Rightarrow> 'k \<Rightarrow> (addr \<times> 'k) list \<Rightarrow> addr \<Rightarrow> bool" where
  "found_in cmp key es a \<longleftrightarrow> (let ps = filter (\<lambda>p. cmp (snd p) key = 0) es in
     if ps = [] then a = NULL else a \<in> fst ` set ps)"

lemma extremeI: "(a, k) \<in> set ps \<Longrightarrow> (\<And>p. p \<in> set ps \<Longrightarrow> le (snd p) k) \<Longrightarrow> extreme le ps d a"
  by (auto simp: extreme_def)

lemma extreme_append:
  assumes "extreme le rs a b" and "(a, ka) \<in> set ls" and "\<And>p. p \<in> set ls \<Longrightarrow> le (snd p) ka"
    and "\<And>p q. p \<in> set ls \<Longrightarrow> q \<in> set rs \<Longrightarrow> le (snd p) (snd q)" and "set ps = set ls \<union> set rs"
  shows "extreme le ps d b"
proof (cases "rs = []")
  case True
  with assms show ?thesis by (intro extremeI [of _ ka]) (auto simp: extreme_def)
next
  case False
  with assms(1) obtain k where k: "(b, k) \<in> set rs" "\<And>p. p \<in> set rs \<Longrightarrow> le (snd p) k"
    by (auto simp: extreme_def)
  with assms(5) assms(4) [OF _ k(1)] show ?thesis by (intro extremeI [of _ k]) auto
qed

locale comparator_laws =
  fixes cmp :: "'k \<Rightarrow> 'k \<Rightarrow> int" and K :: "'k set"
  assumes cmp_refl: "a \<in> K \<Longrightarrow> cmp a a = 0"
    and cmp_flip: "a \<in> K \<Longrightarrow> b \<in> K \<Longrightarrow> cmp a b > 0 \<longleftrightarrow> cmp b a < 0"
    and cmp_trans: "a \<in> K \<Longrightarrow> b \<in> K \<Longrightarrow> c \<in> K \<Longrightarrow> cmp a b \<le> 0 \<Longrightarrow> cmp b c \<le> 0 \<Longrightarrow> cmp a c \<le> 0"
begin

lemma cmp_eq_flip: "a \<in> K \<Longrightarrow> b \<in> K \<Longrightarrow> cmp a b = 0 \<longleftrightarrow> cmp b a = 0"
  using cmp_flip [of a b] cmp_flip [of b a] by auto

lemma cmp_le_flip: "a \<in> K \<Longrightarrow> b \<in> K \<Longrightarrow> cmp a b \<ge> 0 \<longleftrightarrow> cmp b a \<le> 0"
  using cmp_flip [of b a] by auto

subsection \<open>Insertion\<close>

lemma ins_ctx_order:
  assumes "ordered cmp K (inorder T)" and "k \<in> K"
  shows "ctx_l (ins_ctx cmp k T cs) = ctx_l cs @ takeWhile (\<lambda>p. cmp (snd p) k \<le> 0) (inorder T) \<and>
    ctx_r (ins_ctx cmp k T cs) = dropWhile (\<lambda>p. cmp (snd p) k \<le> 0) (inorder T) @ ctx_r cs"
  using assms
proof (induction T arbitrary: cs)
  case (Bin l a c ka r)
  let ?P = "\<lambda>p. cmp (snd p) k \<le> 0"
  have ord: "ordered cmp K (inorder l)" "ordered cmp K (inorder r)" "ka \<in> K"
    "\<forall>p \<in> set (inorder l). cmp (snd p) ka \<le> 0"
    using Bin.prems by (auto simp: ordered_simps)
  show ?case
  proof (cases "cmp ka k > 0")
    case True
    then show ?thesis using Bin.IH(1) [OF ord(1) Bin.prems(2)]
      by (simp add: takeWhile_append dropWhile_append)
  next
    case False
    then have all: "\<forall>p \<in> set (inorder l). ?P p"
      using ord Bin.prems(2) cmp_trans [of _ ka k] ordered_in [OF ord(1)] by (metis linorder_not_less)
    then show ?thesis using Bin.IH(2) [OF ord(2) Bin.prems(2)] False
      by (simp add: takeWhile_append2 dropWhile_append2)
  qed
qed simp

lemma ordered_ins_entry:
  assumes "ordered cmp K es" and "k \<in> K"
  shows "ordered cmp K (ins_entry cmp x k es)"
  using assms
proof (induction es)
  case (Cons p es)
  then have IH: "ordered cmp K (ins_entry cmp x k es)" and p: "snd p \<in> K"
    and le: "\<forall>q \<in> set es. cmp (snd p) (snd q) \<le> 0" and es: "ordered cmp K es"
    by (auto simp: ordered_simps)
  show ?case
  proof (cases "cmp (snd p) k \<le> 0")
    case True
    then have "ins_entry cmp x k (p # es) = p # ins_entry cmp x k es" by simp
    with IH p le True show ?thesis by (simp add: ordered_Cons set_ins_entry)
  next
    case False
    then have "cmp k (snd p) \<le> 0" using cmp_flip [OF p Cons.prems(2)] by simp
    moreover from this have "cmp k (snd q) \<le> 0" if "q \<in> set es" for q
      using cmp_trans [OF Cons.prems(2) p ordered_in [OF es that]] le that by blast
    ultimately show ?thesis using False Cons.prems p le es by (simp add: ordered_Cons)
  qed
qed (simp add: ordered_Cons)

lemma rbt_ins_seq:
  assumes t: "rbt_seq cmp K t es" and x: "x \<noteq> NULL" "x \<notin> fst ` set es" "get_key t x = Some k" "k \<in> K"
  obtains t' where "rbt_ins t x = Some t'" and "rbt_seq cmp K t' (ins_entry cmp x k es)"
proof -
  have c: "rbt_comparator t = cmp" and ord: "ordered cmp K es" and "rbt_rep t es"
    using t by (auto simp: rbt_seq_def)
  then obtain T h where T: "focus t [] T" "rb h T" "tcolor T = RBN_BLACK" "inorder T = es"
    "rbt_cardf t = int (length es)" by (elim rbt_repE)
  have split: "fst (ins_split cmp k T) @ (x, k) # snd (ins_split cmp k T) = ins_entry cmp x k es"
    using ins_ctx_order [of T k "[]"] T(4) ord x(4) by (simp add: ins_split_def ins_entry_def)
  have "\<exists>t' T' h'. rbt_ins t x = Some t' \<and> focus t' [] T' \<and> rb h' T' \<and> tcolor T' = RBN_BLACK \<and>
    rbt_meta t' = (cmp, rbt_cardf t + 1) \<and> inorder T' = ins_entry cmp x k es"
  proof (cases "T = Tip")
    case True
    obtain t' where "rbt_ins t x = Some t'" "focus t' [] (Bin Tip x RBN_BLACK k Tip)"
        "rbt_meta t' = (cmp, rbt_cardf t + 1)"
      using rbt_ins_empty [OF T(1) [unfolded True] x(1,3)] unfolding c .
    moreover have "rb 1 (Bin Tip x RBN_BLACK k Tip)" by simp
    moreover have "inorder (Bin Tip x RBN_BLACK k Tip) = ins_entry cmp x k es"
      using T(4) True by auto
    ultimately show ?thesis
      by (intro exI [of _ t'] exI [of _ "Bin Tip x RBN_BLACK k Tip"] exI [of _ 1]) simp
  next
    case False
    have fresh: "x \<notin> fst ` set (inorder T)" using T(4) x(2) by simp
    obtain t' T' h' where "rbt_ins t x = Some t'" "focus t' [] T'" "rb h' T'"
        "tcolor T' = RBN_BLACK" "rbt_meta t' = (cmp, rbt_cardf t + 1)" "inorder T' = ins_entry cmp x k es"
      using rbt_ins_nonempty [OF T(1) False T(2,3) x(1) fresh x(3)] unfolding c split .
    then show ?thesis by (intro exI [of _ t'] exI [of _ T'] exI [of _ h']) simp
  qed
  then obtain t' T' h' where t': "rbt_ins t x = Some t'" "focus t' [] T'" "rb h' T'"
    "tcolor T' = RBN_BLACK" "rbt_meta t' = (cmp, rbt_cardf t + 1)" "inorder T' = ins_entry cmp x k es"
    by (elim exE conjE)
  then have "rbt_rep t' (ins_entry cmp x k es)" unfolding rbt_rep_def
    using T(5) by (auto simp: rbt_meta_def length_ins_entry)
  with t'(5) ordered_ins_entry [OF ord x(4)] have "rbt_seq cmp K t' (ins_entry cmp x k es)"
    by (simp add: rbt_seq_def rbt_meta_def)
  with t'(1) show thesis by (rule that)
qed

subsection \<open>Search\<close>

lemma find_loop_correct:
  assumes "focus t cs T" and "rbt_comparator t = cmp" and "ordered cmp K (inorder T)" and "key \<in> K"
  shows "\<exists>a. find_loop t key (rootp T) = Some a \<and> found_in cmp key (inorder T) a"
  using assms(1,3)
proof (induction T arbitrary: cs)
  case Tip
  then show ?case by (subst find_loop.simps) (simp add: found_in_def)
next
  case (Bin l a c ka r)
  note g = focus_get [OF Bin.prems(1)] and ord = ordered_Bin [OF Bin.prems(2)]
  from Bin.prems(1) have L: "focus t (FrL a c ka r # cs) l" and R: "focus t (FrR l a c ka # cs) r"
    by (simp_all add: focus_FrL focus_FrR)
  show ?case
  proof (cases "cmp ka key" "0::int" rule: linorder_cases)
    case equal
    then have "found_in cmp key (inorder (Bin l a c ka r)) a" by (simp add: found_in_def)
    then show ?thesis using g assms(2) equal by (subst find_loop.simps) simp
  next
    case less
    have "cmp (snd p) key \<noteq> 0" if "p \<in> set (inorder l)" for p
      using ord(3,4) that less cmp_trans [of key "snd p" ka] cmp_eq_flip [of "snd p" key]
        cmp_flip [of key ka] assms(4) by fastforce
    then have "found_in cmp key (inorder (Bin l a c ka r)) = found_in cmp key (inorder r)"
      using less by (simp add: found_in_def fun_eq_iff)
    moreover have "find_loop t key a = find_loop t key (rootp r)"
      using g assms(2) less by (subst find_loop.simps) simp
    ultimately show ?thesis using Bin.IH(2) [OF R ord(2)] by simp
  next
    case greater
    have "cmp (snd p) key \<noteq> 0" if "p \<in> set (inorder r)" for p
      using ord(3,5) that greater cmp_trans [of ka "snd p" key] assms(4) by fastforce
    then have "found_in cmp key (inorder (Bin l a c ka r)) = found_in cmp key (inorder l)"
      using greater by (simp add: found_in_def fun_eq_iff)
    moreover have "find_loop t key a = find_loop t key (rootp l)"
      using g assms(2) greater by (subst find_loop.simps) simp
    ultimately show ?thesis using Bin.IH(1) [OF L ord(1)] by simp
  qed
qed

lemma find_glb_loop_correct:
  assumes "focus t cs T" and "rbt_comparator t = cmp" and "ordered cmp K (inorder T)" and "key \<in> K"
  shows "\<exists>a. find_glb_loop t key (rootp T) d = Some a \<and> glb_of cmp key (inorder T) d a"
  using assms(1,3)
proof (induction T arbitrary: cs d)
  case Tip
  then show ?case by (subst find_glb_loop.simps) (simp add: glb_of_def extreme_def)
next
  case (Bin l a c ka r)
  note g = focus_get [OF Bin.prems(1)] and ord = ordered_Bin [OF Bin.prems(2)]
  from Bin.prems(1) have L: "focus t (FrL a c ka r # cs) l" and R: "focus t (FrR l a c ka # cs) r"
    by (simp_all add: focus_FrL focus_FrR)
  have le: "cmp (snd p) key \<le> 0" if "p \<in> set (inorder l)" "cmp ka key \<le> 0" for p
    using cmp_trans [of "snd p" ka key] that ord(3,4) assms(4) by blast
  show ?case
  proof (cases "cmp ka key" "0::int" rule: linorder_cases)
    case equal
    have "cmp (snd p) ka \<le> 0" if "p \<in> set (inorder r)" "cmp (snd p) key \<le> 0" for p
      using cmp_trans [of "snd p" key ka] that ord(3,5) assms(4) equal cmp_eq_flip [of ka key] by simp
    then have "glb_of cmp key (inorder (Bin l a c ka r)) d a"
      unfolding glb_of_def using equal ord(3,4) cmp_refl by (intro extremeI [of _ ka]) auto
    then show ?thesis using g assms(2) equal by (subst find_glb_loop.simps) simp
  next
    case less
    have "find_glb_loop t key a d = find_glb_loop t key (rootp r) a"
      using g assms(2) less by (subst find_glb_loop.simps) simp
    moreover obtain b where b: "find_glb_loop t key (rootp r) a = Some b" "glb_of cmp key (inorder r) a b"
      using Bin.IH(2) [OF R ord(2)] by blast
    moreover have "glb_of cmp key (inorder (Bin l a c ka r)) d b"
      unfolding glb_of_def
    proof (rule extreme_append [OF b(2) [unfolded glb_of_def], of ka "inorder l @ [(a, ka)]"])
      fix p q assume "p \<in> set (inorder l @ [(a, ka)])" "q \<in> set (filter (\<lambda>p. cmp (snd p) key \<le> 0) (inorder r))"
      with ord(3,4,5) cmp_trans [of "snd p" ka "snd q"] show "cmp (snd p) (snd q) \<le> 0" by auto
    qed (use ord(3,4) cmp_refl less le in auto)
    ultimately show ?thesis by simp
  next
    case greater
    have "\<not> cmp (snd p) key \<le> 0" if "p \<in> set (inorder r)" for p
      using ord(3,5) that greater cmp_trans [of ka "snd p" key] assms(4) by fastforce
    then have "glb_of cmp key (inorder (Bin l a c ka r)) = glb_of cmp key (inorder l)"
      using greater by (simp add: glb_of_def)
    moreover have "find_glb_loop t key a d = find_glb_loop t key (rootp l) d"
      using g assms(2) greater by (subst find_glb_loop.simps) simp
    ultimately show ?thesis using Bin.IH(1) [OF L ord(1)] by simp
  qed
qed

lemma find_lub_loop_correct:
  assumes "focus t cs T" and "rbt_comparator t = cmp" and "ordered cmp K (inorder T)" and "key \<in> K"
  shows "\<exists>a. find_lub_loop t key (rootp T) d = Some a \<and> lub_of cmp key (inorder T) d a"
  using assms(1,3)
proof (induction T arbitrary: cs d)
  case Tip
  then show ?case by (subst find_lub_loop.simps) (simp add: lub_of_def extreme_def)
next
  case (Bin l a c ka r)
  note g = focus_get [OF Bin.prems(1)] and ord = ordered_Bin [OF Bin.prems(2)]
  from Bin.prems(1) have L: "focus t (FrL a c ka r # cs) l" and R: "focus t (FrR l a c ka # cs) r"
    by (simp_all add: focus_FrL focus_FrR)
  have ge: "cmp (snd p) key \<ge> 0" if "p \<in> set (inorder r)" "cmp ka key \<ge> 0" for p
    using cmp_trans [of key ka "snd p"] that ord(3,5) assms(4) cmp_le_flip by blast
  show ?case
  proof (cases "cmp ka key" "0::int" rule: linorder_cases)
    case equal
    have "cmp ka (snd p) \<le> 0" if "p \<in> set (inorder l)" "cmp (snd p) key \<ge> 0" for p
      using cmp_trans [of ka key "snd p"] that ord(3,4) assms(4) equal cmp_le_flip [of "snd p" key] by simp
    then have "lub_of cmp key (inorder (Bin l a c ka r)) d a"
      unfolding lub_of_def using equal ord(3,5) cmp_refl by (intro extremeI [of _ ka]) auto
    then show ?thesis using g assms(2) equal by (subst find_lub_loop.simps) simp
  next
    case greater
    have "find_lub_loop t key a d = find_lub_loop t key (rootp l) a"
      using g assms(2) greater by (subst find_lub_loop.simps) simp
    moreover obtain b where b: "find_lub_loop t key (rootp l) a = Some b" "lub_of cmp key (inorder l) a b"
      using Bin.IH(1) [OF L ord(1)] by blast
    moreover have "lub_of cmp key (inorder (Bin l a c ka r)) d b"
      unfolding lub_of_def
    proof (rule extreme_append [OF b(2) [unfolded lub_of_def], of ka "(a, ka) # inorder r"])
      fix p q assume "p \<in> set ((a, ka) # inorder r)" "q \<in> set (filter (\<lambda>p. cmp (snd p) key \<ge> 0) (inorder l))"
      with ord(3,4,5) cmp_trans [of "snd q" ka "snd p"] show "cmp (snd q) (snd p) \<le> 0" by auto
    qed (use ord(3,5) cmp_refl greater ge in auto)
    ultimately show ?thesis by simp
  next
    case less
    have "\<not> cmp (snd p) key \<ge> 0" if "p \<in> set (inorder l)" for p
      using ord(3,4) that less cmp_trans [of key "snd p" ka] cmp_le_flip [of "snd p" key]
        cmp_flip [of key ka] assms(4) by fastforce
    then have "lub_of cmp key (inorder (Bin l a c ka r)) = lub_of cmp key (inorder r)"
      using less by (simp add: lub_of_def)
    moreover have "find_lub_loop t key a d = find_lub_loop t key (rootp r) d"
      using g assms(2) less by (subst find_lub_loop.simps) simp
    ultimately show ?thesis using Bin.IH(2) [OF R ord(2)] by simp
  qed
qed

lemma rbt_search_seq:
  assumes "rbt_seq cmp K t es" and "key \<in> K"
  shows "\<exists>a. rbt_find t key = Some a \<and> found_in cmp key es a"
    and "\<exists>a. rbt_find_glb t key = Some a \<and> glb_of cmp key es NULL a"
    and "\<exists>a. rbt_find_lub t key = Some a \<and> lub_of cmp key es NULL a"
proof -
  have "rbt_rep t es" and *: "ordered cmp K es" "rbt_comparator t = cmp"
    using assms(1) by (auto simp: rbt_seq_def)
  then obtain T where T: "focus t [] T" "inorder T = es" "rbt_root t = rootp T" by (elim rbt_repE)
  show "\<exists>a. rbt_find t key = Some a \<and> found_in cmp key es a"
    "\<exists>a. rbt_find_glb t key = Some a \<and> glb_of cmp key es NULL a"
    "\<exists>a. rbt_find_lub t key = Some a \<and> lub_of cmp key es NULL a"
    using find_loop_correct [OF T(1) *(2)] find_glb_loop_correct [OF T(1) *(2)]
      find_lub_loop_correct [OF T(1) *(2)] T(2,3) *(1) assms(2)
    by (simp_all add: rbt_find_def rbt_find_glb_def rbt_find_lub_def)
qed

end

end
