(* ===== verification/RbtIter.thy ===== *)
theory RbtIter
  imports RbtOrder
begin

section \<open>Iteration and the self-check\<close>

text \<open>
  \<^verbatim>\<open>rbt_min\<close>, \<^verbatim>\<open>rbt_max\<close>, \<^verbatim>\<open>rbn_succ\<close> and \<^verbatim>\<open>rbn_pred\<close> walk the sequence of entries, a
  traversal visits it from left to right at logarithmic levels, and \<^verbatim>\<open>rbt_verify\<close>
  accepts every represented tree.
\<close>

subsection \<open>Finding a node's place\<close>

lemma focus_node:
  assumes "(a, k) \<in> set (inorder T)"
  shows "\<exists>cs l c r. plug cs (Bin l a c k r) = plug ds T"
  using assms
proof (induction T arbitrary: ds)
  case (Bin l b d kb r)
  from Bin.prems consider "(a, k) = (b, kb)" | "(a, k) \<in> set (inorder l)" | "(a, k) \<in> set (inorder r)" by auto
  then show ?case
  proof cases
    case 1
    then show ?thesis by (intro exI [of _ ds]) auto
  next
    case 2
    then show ?thesis using Bin.IH(1) [of "FrL b d kb r # ds"] by simp
  next
    case 3
    then show ?thesis using Bin.IH(2) [of "FrR l b d kb # ds"] by simp
  qed
qed simp

lemma rb_unplug:
  assumes "rb h (plug cs T)" and "tcolor (plug cs T) = RBN_BLACK"
  shows "\<exists>g. rb g T \<and> ctx_rb cs g \<and> (tcolor T = RBN_RED \<longrightarrow> cs \<noteq> [] \<and> ctx_color cs = RBN_BLACK)"
  using assms
proof (induction cs arbitrary: T)
  case (Cons f cs)
  then obtain g where g: "rb g (plug1 f T)" "ctx_rb cs g"
    "tcolor (plug1 f T) = RBN_RED \<longrightarrow> cs \<noteq> [] \<and> ctx_color cs = RBN_BLACK"
    using Cons.IH [of "plug1 f T"] by auto
  show ?case
  proof (cases "ctx_color (f # cs)")
    case RBN_RED
    with g show ?thesis by (intro exI [of _ g]) (cases f; auto)
  next
    case RBN_BLACK
    with g show ?thesis by (intro exI [of _ "g - 1"]) (cases f; auto)
  qed
qed auto

lemma rbt_rep_focus:
  assumes "rbt_rep t (xs @ (a, k) # ys)"
  obtains cs l c r h where "focus t cs (Bin l a c k r)" and "xs = ctx_l cs @ inorder l"
    and "ys = inorder r @ ctx_r cs" and "rb h (Bin l a c k r)" and "ctx_rb cs h"
    and "c = RBN_RED \<Longrightarrow> cs \<noteq> [] \<and> ctx_color cs = RBN_BLACK"
proof -
  obtain T h where T: "focus t [] T" "rb h T" "tcolor T = RBN_BLACK" "inorder T = xs @ (a, k) # ys"
    using rbt_repE [OF assms] .
  then obtain cs l c r where cs: "plug cs (Bin l a c k r) = T"
    using focus_node [of a k T "[]"] by auto
  have eq: "(ctx_l cs @ inorder l) @ (a, k) # (inorder r @ ctx_r cs) = xs @ (a, k) # ys"
    using T(4) unfolding cs [symmetric] by (simp add: inorder_simps)
  have "distinct (map fst (xs @ (a, k) # ys))" using rbt_rep_distinct [OF assms] by simp
  then have "(a, k) \<notin> set xs" "(a, k) \<notin> set ys" by force+
  then have "xs = ctx_l cs @ inorder l" "ys = inorder r @ ctx_r cs"
    using append_Cons_eq_iff [THEN iffD1, OF _ _ eq [symmetric]] by blast+
  moreover have "focus t cs (Bin l a c k r)" using T(1) focus_plug [of t cs] cs by simp
  moreover obtain g where "rb g (Bin l a c k r)" "ctx_rb cs g"
    "c = RBN_RED \<longrightarrow> cs \<noteq> [] \<and> ctx_color cs = RBN_BLACK"
    using rb_unplug [of h cs "Bin l a c k r"] T(2,3) cs by auto
  ultimately show thesis using that by blast
qed

subsection \<open>Minimum, maximum, successor, predecessor\<close>

definition first_addr :: "(addr \<times> 'k) list \<Rightarrow> addr" where
  "first_addr es = (case es of [] \<Rightarrow> NULL | p # _ \<Rightarrow> fst p)"

definition last_addr :: "(addr \<times> 'k) list \<Rightarrow> addr" where
  "last_addr es = first_addr (rev es)"

lemma first_addr_simps [simp]:
  "first_addr [] = NULL" "first_addr (p # es) = fst p"
  "first_addr (xs @ ys) = (if xs = [] then first_addr ys else first_addr xs)"
  by (simp_all add: first_addr_def split: list.split)

lemma last_addr_simps [simp]:
  "last_addr [] = NULL" "last_addr (p # ys) = (if ys = [] then fst p else last_addr ys)"
  "last_addr (xs @ ys) = (if ys = [] then last_addr xs else last_addr ys)"
  by (simp_all add: last_addr_def)

lemma rbn_min_correct: "focus t cs T \<Longrightarrow> rbn_min t (rootp T) = Some (first_addr (inorder T))"
proof (induction T arbitrary: cs)
  case (Bin l a c k r)
  then have L: "focus t (FrL a c k r # cs) l" by (simp add: focus_FrL)
  show ?case
  proof (cases l)
    case Tip
    then show ?thesis using focus_get [OF Bin.prems] by (subst rbn_min.simps) simp
  next
    case (Bin l1 b c' k' l2)
    then show ?thesis using focus_get [OF Bin.prems] Bin.IH(1) [OF L] focus_get(1) [OF L [unfolded Bin]]
      by (subst rbn_min.simps) simp
  qed
qed (subst rbn_min.simps, simp)

lemma rbn_max_correct: "focus t cs T \<Longrightarrow> rbn_max t (rootp T) = Some (last_addr (inorder T))"
proof (induction T arbitrary: cs)
  case (Bin l a c k r)
  then have R: "focus t (FrR l a c k # cs) r" by (simp add: focus_FrR)
  show ?case
  proof (cases r)
    case Tip
    then show ?thesis using focus_get [OF Bin.prems] by (subst rbn_max.simps) simp
  next
    case (Bin r1 b c' k' r2)
    then show ?thesis using focus_get [OF Bin.prems] Bin.IH(2) [OF R] focus_get(1) [OF R [unfolded Bin]]
      by (subst rbn_max.simps) simp
  qed
qed (subst rbn_max.simps, simp)

lemma succ_climb_correct:
  "focus t cs (Bin l a c k r) \<Longrightarrow> succ_climb t a = Some (first_addr (ctx_r cs))"
proof (induction cs arbitrary: l a c k r)
  case Nil
  then show ?case by (subst succ_climb.simps) (simp add: focus_get)
next
  case (Cons f cs)
  show ?case
  proof (cases f)
    case (FrL p d kp r')
    with Cons.prems have z: "focus t cs (Bin (Bin l a c k r) p d kp r')" by (simp add: focus_FrL)
    show ?thesis using FrL focus_get [OF z] focus_get [OF Cons.prems] focus_distinct_children [OF z]
      by (subst succ_climb.simps) simp
  next
    case (FrR l' p d kp)
    with Cons.prems have z: "focus t cs (Bin l' p d kp (Bin l a c k r))" by (simp add: focus_FrR)
    show ?thesis using FrR focus_get [OF z] focus_get [OF Cons.prems] Cons.IH [OF z]
      by (subst succ_climb.simps) simp
  qed
qed

lemma pred_climb_correct:
  "focus t cs (Bin l a c k r) \<Longrightarrow> pred_climb t a = Some (last_addr (ctx_l cs))"
proof (induction cs arbitrary: l a c k r)
  case Nil
  then show ?case by (subst pred_climb.simps) (simp add: focus_get)
next
  case (Cons f cs)
  show ?case
  proof (cases f)
    case (FrR l' p d kp)
    with Cons.prems have z: "focus t cs (Bin l' p d kp (Bin l a c k r))" by (simp add: focus_FrR)
    show ?thesis using FrR focus_get [OF z] focus_get [OF Cons.prems] focus_distinct_children [OF z]
      by (subst pred_climb.simps) simp
  next
    case (FrL p d kp r')
    with Cons.prems have z: "focus t cs (Bin (Bin l a c k r) p d kp r')" by (simp add: focus_FrL)
    show ?thesis using FrL focus_get [OF z] focus_get [OF Cons.prems] Cons.IH [OF z]
      by (subst pred_climb.simps) simp
  qed
qed

lemma rootp_NULL: "focus t cs T \<Longrightarrow> rootp T = NULL \<longleftrightarrow> T = Tip"
  by (cases T) (auto simp: focus_get)

lemma rbn_succ_rep:
  assumes "rbt_rep t (xs @ (a, k) # ys)"
  shows "rbn_succ t a = Some (first_addr ys)"
proof -
  obtain cs l c r where z: "focus t cs (Bin l a c k r)" and ys: "ys = inorder r @ ctx_r cs"
    using rbt_rep_focus [OF assms] .
  then have R: "focus t (FrR l a c k # cs) r" by (simp add: focus_FrR)
  show ?thesis
    using rbn_min_correct [OF R] succ_climb_correct [OF z] rootp_NULL [OF R] ys
    by (cases r) (simp_all add: rbn_succ_def focus_get [OF z])
qed

lemma rbn_pred_rep:
  assumes "rbt_rep t (xs @ (a, k) # ys)"
  shows "rbn_pred t a = Some (last_addr xs)"
proof -
  obtain cs l c r where z: "focus t cs (Bin l a c k r)" and xs: "xs = ctx_l cs @ inorder l"
    using rbt_rep_focus [OF assms] .
  then have L: "focus t (FrL a c k r # cs) l" by (simp add: focus_FrL)
  show ?thesis
    using rbn_max_correct [OF L] pred_climb_correct [OF z] rootp_NULL [OF L] xs
    by (cases l) (simp_all add: rbn_pred_def focus_get [OF z])
qed

subsection \<open>Traversal\<close>

text \<open>The nodes a traversal visits and their levels, and a run of the callback over them.\<close>

fun levels :: "nat \<Rightarrow> 'k tr \<Rightarrow> nat list" where
  "levels n Tip = []"
| "levels n (Bin l a c k r) = levels (n + 1) l @ n # levels (n + 1) r"

fun visit :: "(addr \<Rightarrow> 'd \<Rightarrow> nat \<Rightarrow> int \<times> 'd) \<Rightarrow> (addr \<times> nat) list \<Rightarrow> 'd \<Rightarrow> int \<times> 'd" where
  "visit f [] d = (0, d)"
| "visit f ((a, n) # vs) d = (let (rc, d') = f a d n in if rc \<noteq> 0 then (rc, d') else visit f vs d')"

lemma length_levels [simp]: "length (levels n T) = length (inorder T)"
  by (induction T arbitrary: n) simp_all

lemma visit_append:
  "visit f (vs @ ws) d = (let (rc, d') = visit f vs d in if rc \<noteq> 0 then (rc, d') else visit f ws d')"
  by (induction f vs d rule: visit.induct) (auto split: prod.splits)

lemma traverse_correct:
  "focus t cs T \<Longrightarrow> rbt_traverse_subtree t (rootp T) f d n = Some (visit f (List.zip (addrs T) (levels n T)) d)"
proof (induction T arbitrary: cs d n)
  case (Bin l a c k r)
  then have L: "focus t (FrL a c k r # cs) l" and R: "focus t (FrR l a c k # cs) r"
    by (simp_all add: focus_FrL focus_FrR)
  show ?case
    using focus_get [OF Bin.prems] Bin.IH(1) [OF L] Bin.IH(2) [OF R]
    by (subst rbt_traverse_subtree.simps) (auto simp: visit_append split: prod.splits)
qed (subst rbt_traverse_subtree.simps, simp)

text \<open>Balance: the levels are logarithmic in the number of entries.\<close>

lemma rb_size: "rb h T \<Longrightarrow> 2 ^ h \<le> length (inorder T) + 1"
proof (induction h T rule: rb.induct)
  case (2 h l a k r)
  then show ?case by simp
next
  case (3 h l a k r)
  then have "2 ^ (h - 1) \<le> length (inorder l) + 1" "2 ^ (h - 1) \<le> length (inorder r) + 1" by auto
  moreover from 3 have "(2::nat) ^ h = 2 * 2 ^ (h - 1)" by (cases h) auto
  ultimately show ?case by simp
qed simp

lemma rb_levels:
  "rb h T \<Longrightarrow> i \<in> set (levels n T) \<Longrightarrow> i < n + 2 * h + (if tcolor T = RBN_RED then 1 else 0)"
proof (induction h T arbitrary: n rule: rb.induct)
  case (2 h l a k r)
  then show ?case by (fastforce split: if_splits)
next
  case (3 h l a k r)
  have "i < n + 1 + 2 * (h - 1) + 1" if "T \<in> {l, r}" "i \<in> set (levels (n + 1) T)" for T
    using that 3 by (fastforce split: if_splits)
  with 3 show ?case by fastforce
qed simp

lemma rbt_traverse_rep:
  assumes "rbt_rep t es"
  shows "\<exists>ls. length ls = length es \<and> (\<forall>i \<in> set ls. 2 ^ (i div 2 + 1) \<le> length es + 1) \<and>
    rbt_traverse t f d = Some (visit f (List.zip (map fst es) ls) d)"
proof -
  obtain T h where T: "focus t [] T" "rb h T" "tcolor T = RBN_BLACK" "inorder T = es" "rbt_root t = rootp T"
    using rbt_repE [OF assms] .
  have "2 ^ (i div 2 + 1) \<le> length es + 1" if "i \<in> set (levels 0 T)" for i
  proof -
    have "i < 2 * h" using rb_levels [OF T(2) that] T(3) by simp
    then have "(2::nat) ^ (i div 2 + 1) \<le> 2 ^ h" by (intro power_increasing) auto
    with rb_size [OF T(2)] T(4) show ?thesis by simp
  qed
  moreover have "rbt_traverse t f d = Some (visit f (List.zip (map fst es) (levels 0 T)) d)"
    using traverse_correct [OF T(1), of f d 0] rootp_NULL [OF T(1)] T(4,5)
    by (cases T) (auto simp: rbt_traverse_def)
  ultimately show ?thesis using T(4) by (intro exI [of _ "levels 0 T"]) auto
qed

subsection \<open>rbt_verify\<close>

lemma verify_property_1_ok: "focus t cs T \<Longrightarrow> verify_property_1 t (rootp T) = Some ()"
proof (induction T arbitrary: cs)
  case (Bin l a c k r)
  then have L: "focus t (FrL a c k r # cs) l" and R: "focus t (FrR l a c k # cs) r"
    by (simp_all add: focus_FrL focus_FrR)
  show ?case using focus_get [OF Bin.prems] Bin.IH(1) [OF L] Bin.IH(2) [OF R]
    by (subst verify_property_1.simps) (cases c; simp)
qed (subst verify_property_1.simps, simp add: node_color_def)

lemma verify_property_4_ok:
  "focus t cs T \<Longrightarrow> rb h T \<Longrightarrow> (tcolor T = RBN_RED \<Longrightarrow> ctx_color cs = RBN_BLACK) \<Longrightarrow>
   verify_property_4 t (rootp T) = Some ()"
proof (induction T arbitrary: cs h)
  case (Bin l a c k r)
  from Bin.prems have L: "focus t (FrL a c k r # cs) l" and R: "focus t (FrR l a c k # cs) r"
    by (simp_all add: focus_FrL focus_FrR)
  have p: "node_color t (ctx_parent cs) = Some (ctx_color cs)"
  proof (cases cs)
    case (Cons f ds)
    with Bin.prems(1) have "focus t ds (plug1 f (Bin l a c k r))"
      by (cases f) (simp_all add: focus_FrL focus_FrR)
    with Cons show ?thesis using focus_node_color(3) by (cases f) fastforce+
  qed (simp add: node_color_def)
  have "\<exists>g. rb g l \<and> rb g r \<and> (c = RBN_RED \<longrightarrow> tcolor l = RBN_BLACK \<and> tcolor r = RBN_BLACK)"
    using Bin.prems(2) by (cases c) auto
  then obtain g where "rb g l" "rb g r" "c = RBN_RED \<longrightarrow> tcolor l = RBN_BLACK \<and> tcolor r = RBN_BLACK"
    by blast
  with Bin.IH(1) [OF L] Bin.IH(2) [OF R] Bin.prems(3) p show ?case
    using focus_get [OF Bin.prems(1)] focus_node_color(3) [OF L] focus_node_color(3) [OF R]
    by (subst verify_property_4.simps) (cases c; auto)
qed (subst verify_property_4.simps, simp add: node_color_def)

lemma verify_property_5_ok:
  "focus t cs T \<Longrightarrow> rb h T \<Longrightarrow> p = -1 \<or> p = b + int h + 1 \<Longrightarrow> 0 \<le> b \<Longrightarrow>
   verify_property_5_helper t (rootp T) b p = Some (b + int h + 1)"
proof (induction T arbitrary: cs h b p)
  case Tip
  then show ?case by (subst verify_property_5_helper.simps) (auto simp: node_color_def)
next
  case (Bin l a c k r)
  from Bin.prems have L: "focus t (FrL a c k r # cs) l" and R: "focus t (FrR l a c k # cs) r"
    by (simp_all add: focus_FrL focus_FrR)
  show ?case using focus_get [OF Bin.prems(1)] Bin.IH(1) [OF L] Bin.IH(2) [OF R] Bin.prems(2-4)
    by (subst verify_property_5_helper.simps) (cases c; auto)
qed

lemma rbt_verify_rep:
  assumes "rbt_rep t es"
  shows "rbt_verify t = Some ()"
proof -
  obtain T h where T: "focus t [] T" "rb h T" "tcolor T = RBN_BLACK" "rbt_root t = rootp T"
    using rbt_repE [OF assms] .
  show ?thesis
    using verify_property_1_ok [OF T(1)] verify_property_4_ok [OF T(1,2)] T(3,4)
      verify_property_5_ok [OF T(1,2), of "-1" 0] focus_node_color(3) [OF T(1)]
    by (simp add: rbt_verify_def verify_tree_def verify_property_2_def verify_property_5_def)
qed

end
