(* ===== verification/RbtRebalance.thy ===== *)
theory RbtRebalance
  imports RbtIter
begin

section \<open>Deletion: rebalancing\<close>

text \<open>
  The rebalancing of \<^verbatim>\<open>delete_case1\<close> to \<^verbatim>\<open>delete_case6\<close> is a
  statement about the way from the deleted node to the root alone: the context that
  expected a subtree of black height \<open>Suc h\<close> becomes one that expects \<open>h\<close>, and the
  subtree itself does not change.
\<close>

subsection \<open>Rebalancing: the non-recursive cases\<close>

definition rebalanced ::
  "'k rbt \<Rightarrow> 'k frame list \<Rightarrow> 'k tr \<Rightarrow> nat \<Rightarrow> 'k rbt \<Rightarrow> 'k frame list \<Rightarrow> bool" where
  "rebalanced t cs N h t' cs' \<longleftrightarrow> focus t' cs' N \<and> ctx_rb cs' h \<and> ctx_l cs' = ctx_l cs \<and>
     ctx_r cs' = ctx_r cs \<and> rbt_meta t' = rbt_meta t \<and> cs' \<noteq> [] \<and> ctx_color cs' = RBN_BLACK"

lemma left_view:
  assumes z: "focus t (FrL p cp kp (Bin S1 s c ks S2) # ds) (Bin nl n cn kn nr)"
  shows "get_parent t n = Some p" "sibling t n = Some s" "get_left t p = Some n" "get_right t p = Some s"
    and "get_color t p = Some cp" "node_color t p = Some cp" "node_color t s = Some c"
    and "get_left t s = Some (rootp S1)" "get_right t s = Some (rootp S2)"
    and "node_color t (rootp S1) = Some (tcolor S1)" "node_color t (rootp S2) = Some (tcolor S2)"
    and "s \<noteq> n" "n \<noteq> s" "0 < s" "0 < p" "0 < n"
proof -
  have zp: "focus t ds (Bin (Bin nl n cn kn nr) p cp kp (Bin S1 s c ks S2))"
    using z by (simp add: focus_FrL)
  have zs: "focus t (FrR (Bin nl n cn kn nr) p cp kp # ds) (Bin S1 s c ks S2)"
    using zp by (simp add: focus_FrR)
  have z1: "focus t (FrL s c ks S2 # FrR (Bin nl n cn kn nr) p cp kp # ds) S1"
    using zs by (simp add: focus_FrL)
  have z2: "focus t (FrR S1 s c ks # FrR (Bin nl n cn kn nr) p cp kp # ds) S2"
    using zs by (simp add: focus_FrR)
  show "get_parent t n = Some p" "sibling t n = Some s" "get_left t p = Some n" "get_right t p = Some s"
    "get_color t p = Some cp" "node_color t p = Some cp" "node_color t s = Some c"
    "get_left t s = Some (rootp S1)" "get_right t s = Some (rootp S2)"
    "node_color t (rootp S1) = Some (tcolor S1)" "node_color t (rootp S2) = Some (tcolor S2)"
    "s \<noteq> n" "n \<noteq> s" "0 < s" "0 < p" "0 < n"
    using focus_get [OF z] focus_get [OF zp] focus_get [OF zs] focus_distinct_children [OF zp]
      focus_node_color(3) [OF z1] focus_node_color(3) [OF z2]
    by (simp_all add: sibling_def)
qed

lemma case4_L:
  assumes z: "focus t (FrL p RBN_RED kp (Bin S1 s RBN_BLACK ks S2) # ds) (Bin nl n cn kn nr)"
    and S: "tcolor S1 = RBN_BLACK" "tcolor S2 = RBN_BLACK"
    and ctx: "ctx_rb (FrL p RBN_RED kp (Bin S1 s RBN_BLACK ks S2) # ds) (Suc h)"
  shows "\<exists>t' cs'. delete_case4 t n = Some t' \<and>
    rebalanced t (FrL p RBN_RED kp (Bin S1 s RBN_BLACK ks S2) # ds) (Bin nl n cn kn nr) h t' cs'"
proof -
  let ?N = "Bin nl n cn kn nr"
  have "focus t (FrR ?N p RBN_RED kp # ds) (Bin S1 s RBN_BLACK ks S2)"
    using z by (simp add: focus_FrL focus_FrR)
  then obtain t1 where t1: "set_color s RBN_RED t = Some t1"
      "focus t1 (FrR ?N p RBN_RED kp # ds) (Bin S1 s RBN_RED ks S2)" "rbt_meta t1 = rbt_meta t"
    by (rule focus_set_color)
  then have "focus t1 ds (Bin ?N p RBN_RED kp (Bin S1 s RBN_RED ks S2))" by (simp add: focus_FrR)
  then obtain t2 where t2: "set_color p RBN_BLACK t1 = Some t2"
      "focus t2 ds (Bin ?N p RBN_BLACK kp (Bin S1 s RBN_RED ks S2))" "rbt_meta t2 = rbt_meta t1"
    by (rule focus_set_color)
  then have "rebalanced t (FrL p RBN_RED kp (Bin S1 s RBN_BLACK ks S2) # ds) ?N h t2
      (FrL p RBN_BLACK kp (Bin S1 s RBN_RED ks S2) # ds)"
    using t1 S ctx by (simp add: rebalanced_def focus_FrL)
  moreover have "delete_case4 t n = Some t2"
    using left_view [OF z] S t1(1) t2(1) by (simp add: delete_case4_def)
  ultimately show ?thesis by blast
qed

lemma case6_L:
  assumes z: "focus t (FrL p cp kp (Bin S1 s RBN_BLACK ks (Bin A y RBN_RED ky B)) # ds) (Bin nl n cn kn nr)"
    and ctx: "ctx_rb (FrL p cp kp (Bin S1 s RBN_BLACK ks (Bin A y RBN_RED ky B)) # ds) (Suc h)"
  shows "\<exists>t' cs'. delete_case6 t n = Some t' \<and>
    rebalanced t (FrL p cp kp (Bin S1 s RBN_BLACK ks (Bin A y RBN_RED ky B)) # ds) (Bin nl n cn kn nr) h t' cs'"
proof -
  let ?N = "Bin nl n cn kn nr"
  have "focus t (FrR ?N p cp kp # ds) (Bin S1 s RBN_BLACK ks (Bin A y RBN_RED ky B))"
    using z by (simp add: focus_FrL focus_FrR)
  then obtain t1 where t1: "set_color s cp t = Some t1"
      "focus t1 (FrR ?N p cp kp # ds) (Bin S1 s cp ks (Bin A y RBN_RED ky B))" "rbt_meta t1 = rbt_meta t"
    by (rule focus_set_color)
  then have "focus t1 ds (Bin ?N p cp kp (Bin S1 s cp ks (Bin A y RBN_RED ky B)))" by (simp add: focus_FrR)
  then obtain t2 where t2: "set_color p RBN_BLACK t1 = Some t2"
      "focus t2 ds (Bin ?N p RBN_BLACK kp (Bin S1 s cp ks (Bin A y RBN_RED ky B)))" "rbt_meta t2 = rbt_meta t1"
    by (rule focus_set_color)
  then have "focus t2 (FrR S1 s cp ks # FrR ?N p RBN_BLACK kp # ds) (Bin A y RBN_RED ky B)"
    by (simp add: focus_FrR)
  then obtain t3 where t3: "set_color y RBN_BLACK t2 = Some t3"
      "focus t3 (FrR S1 s cp ks # FrR ?N p RBN_BLACK kp # ds) (Bin A y RBN_BLACK ky B)" "rbt_meta t3 = rbt_meta t2"
    by (rule focus_set_color)
  then have "focus t3 ds (Bin ?N p RBN_BLACK kp (Bin S1 s cp ks (Bin A y RBN_BLACK ky B)))" by (simp add: focus_FrR)
  then obtain t4 where t4: "rotate_left t3 p = Some t4"
      "focus t4 ds (Bin (Bin ?N p RBN_BLACK kp S1) s cp ks (Bin A y RBN_BLACK ky B))" "rbt_meta t4 = rbt_meta t3"
    by (rule focus_rotate_left)
  then have "rebalanced t (FrL p cp kp (Bin S1 s RBN_BLACK ks (Bin A y RBN_RED ky B)) # ds) ?N h t4
      (FrL p RBN_BLACK kp S1 # FrL s cp ks (Bin A y RBN_BLACK ky B) # ds)"
    using t1 t2 t3 ctx by (cases cp) (simp_all add: rebalanced_def focus_FrL)
  moreover have "focus t2 (FrL p RBN_BLACK kp (Bin S1 s cp ks (Bin A y RBN_RED ky B)) # ds) ?N"
    using t2(2) by (simp add: focus_FrL)
  from left_view [OF this] left_view [OF z] t1(1) t2(1) t3(1) t4(1)
  have "delete_case6 t n = Some t4" by (simp add: delete_case6_def)
  ultimately show ?thesis by blast
qed

lemma right_view:
  assumes z: "focus t (FrR (Bin S2 s c ks S1) p cp kp # ds) (Bin nr n cn kn nl)"
  shows "get_parent t n = Some p" "sibling t n = Some s" "get_right t p = Some n" "get_left t p = Some s"
    and "get_color t p = Some cp" "node_color t p = Some cp" "node_color t s = Some c"
    and "get_right t s = Some (rootp S1)" "get_left t s = Some (rootp S2)"
    and "node_color t (rootp S1) = Some (tcolor S1)" "node_color t (rootp S2) = Some (tcolor S2)"
    and "s \<noteq> n" "n \<noteq> s" "0 < s" "0 < p" "0 < n"
proof -
  have zp: "focus t ds (Bin (Bin S2 s c ks S1) p cp kp (Bin nr n cn kn nl))"
    using z by (simp add: focus_FrR)
  have zs: "focus t (FrL p cp kp (Bin nr n cn kn nl) # ds) (Bin S2 s c ks S1)"
    using zp by (simp add: focus_FrL)
  have z1: "focus t (FrR S2 s c ks # FrL p cp kp (Bin nr n cn kn nl) # ds) S1"
    using zs by (simp add: focus_FrR)
  have z2: "focus t (FrL s c ks S1 # FrL p cp kp (Bin nr n cn kn nl) # ds) S2"
    using zs by (simp add: focus_FrL)
  show "get_parent t n = Some p" "sibling t n = Some s" "get_right t p = Some n" "get_left t p = Some s"
    "get_color t p = Some cp" "node_color t p = Some cp" "node_color t s = Some c"
    "get_right t s = Some (rootp S1)" "get_left t s = Some (rootp S2)"
    "node_color t (rootp S1) = Some (tcolor S1)" "node_color t (rootp S2) = Some (tcolor S2)"
    "s \<noteq> n" "n \<noteq> s" "0 < s" "0 < p" "0 < n"
    using focus_get [OF z] focus_get [OF zp] focus_get [OF zs] focus_distinct_children [OF zp]
      focus_node_color(3) [OF z1] focus_node_color(3) [OF z2]
    by (simp_all add: sibling_def)
qed

lemma case4_R:
  assumes z: "focus t (FrR (Bin S2 s RBN_BLACK ks S1) p RBN_RED kp # ds) (Bin nr n cn kn nl)"
    and S: "tcolor S1 = RBN_BLACK" "tcolor S2 = RBN_BLACK"
    and ctx: "ctx_rb (FrR (Bin S2 s RBN_BLACK ks S1) p RBN_RED kp # ds) (Suc h)"
  shows "\<exists>t' cs'. delete_case4 t n = Some t' \<and>
    rebalanced t (FrR (Bin S2 s RBN_BLACK ks S1) p RBN_RED kp # ds) (Bin nr n cn kn nl) h t' cs'"
proof -
  let ?N = "Bin nr n cn kn nl"
  have "focus t (FrL p RBN_RED kp ?N # ds) (Bin S2 s RBN_BLACK ks S1)"
    using z by (simp add: focus_FrR focus_FrL)
  then obtain t1 where t1: "set_color s RBN_RED t = Some t1"
      "focus t1 (FrL p RBN_RED kp ?N # ds) (Bin S2 s RBN_RED ks S1)" "rbt_meta t1 = rbt_meta t"
    by (rule focus_set_color)
  then have "focus t1 ds (Bin (Bin S2 s RBN_RED ks S1) p RBN_RED kp ?N)" by (simp add: focus_FrL)
  then obtain t2 where t2: "set_color p RBN_BLACK t1 = Some t2"
      "focus t2 ds (Bin (Bin S2 s RBN_RED ks S1) p RBN_BLACK kp ?N)" "rbt_meta t2 = rbt_meta t1"
    by (rule focus_set_color)
  then have "rebalanced t (FrR (Bin S2 s RBN_BLACK ks S1) p RBN_RED kp # ds) ?N h t2
      (FrR (Bin S2 s RBN_RED ks S1) p RBN_BLACK kp # ds)"
    using t1 S ctx by (simp add: rebalanced_def focus_FrR)
  moreover have "delete_case4 t n = Some t2"
    using right_view [OF z] S t1(1) t2(1) by (simp add: delete_case4_def)
  ultimately show ?thesis by blast
qed

lemma case6_R:
  assumes z: "focus t (FrR (Bin (Bin B y RBN_RED ky A) s RBN_BLACK ks S1) p cp kp # ds) (Bin nr n cn kn nl)"
    and ctx: "ctx_rb (FrR (Bin (Bin B y RBN_RED ky A) s RBN_BLACK ks S1) p cp kp # ds) (Suc h)"
  shows "\<exists>t' cs'. delete_case6 t n = Some t' \<and>
    rebalanced t (FrR (Bin (Bin B y RBN_RED ky A) s RBN_BLACK ks S1) p cp kp # ds) (Bin nr n cn kn nl) h t' cs'"
proof -
  let ?N = "Bin nr n cn kn nl"
  have "focus t (FrL p cp kp ?N # ds) (Bin (Bin B y RBN_RED ky A) s RBN_BLACK ks S1)"
    using z by (simp add: focus_FrR focus_FrL)
  then obtain t1 where t1: "set_color s cp t = Some t1"
      "focus t1 (FrL p cp kp ?N # ds) (Bin (Bin B y RBN_RED ky A) s cp ks S1)" "rbt_meta t1 = rbt_meta t"
    by (rule focus_set_color)
  then have "focus t1 ds (Bin (Bin (Bin B y RBN_RED ky A) s cp ks S1) p cp kp ?N)" by (simp add: focus_FrL)
  then obtain t2 where t2: "set_color p RBN_BLACK t1 = Some t2"
      "focus t2 ds (Bin (Bin (Bin B y RBN_RED ky A) s cp ks S1) p RBN_BLACK kp ?N)" "rbt_meta t2 = rbt_meta t1"
    by (rule focus_set_color)
  then have "focus t2 (FrL s cp ks S1 # FrL p RBN_BLACK kp ?N # ds) (Bin B y RBN_RED ky A)"
    by (simp add: focus_FrL)
  then obtain t3 where t3: "set_color y RBN_BLACK t2 = Some t3"
      "focus t3 (FrL s cp ks S1 # FrL p RBN_BLACK kp ?N # ds) (Bin B y RBN_BLACK ky A)" "rbt_meta t3 = rbt_meta t2"
    by (rule focus_set_color)
  then have "focus t3 ds (Bin (Bin (Bin B y RBN_BLACK ky A) s cp ks S1) p RBN_BLACK kp ?N)" by (simp add: focus_FrL)
  then obtain t4 where t4: "rotate_right t3 p = Some t4"
      "focus t4 ds (Bin (Bin B y RBN_BLACK ky A) s cp ks (Bin S1 p RBN_BLACK kp ?N))" "rbt_meta t4 = rbt_meta t3"
    by (rule focus_rotate_right)
  then have "rebalanced t (FrR (Bin (Bin B y RBN_RED ky A) s RBN_BLACK ks S1) p cp kp # ds) ?N h t4
      (FrR S1 p RBN_BLACK kp # FrR (Bin B y RBN_BLACK ky A) s cp ks # ds)"
    using t1 t2 t3 ctx by (cases cp) (simp_all add: rebalanced_def focus_FrR)
  moreover have "focus t2 (FrR (Bin (Bin B y RBN_RED ky A) s cp ks S1) p RBN_BLACK kp # ds) ?N"
    using t2(2) by (simp add: focus_FrR)
  from right_view [OF this] right_view [OF z] t1(1) t2(1) t3(1) t4(1)
  have "delete_case6 t n = Some t4" by (simp add: delete_case6_def)
  ultimately show ?thesis by blast
qed

lemma case5_far_L:
  assumes z: "focus t (FrL p cp kp (Bin S1 s RBN_BLACK ks (Bin A y RBN_RED ky B)) # ds) (Bin nl n cn kn nr)"
    and ctx: "ctx_rb (FrL p cp kp (Bin S1 s RBN_BLACK ks (Bin A y RBN_RED ky B)) # ds) (Suc h)"
  shows "\<exists>t' cs'. delete_case5 t n = Some t' \<and>
    rebalanced t (FrL p cp kp (Bin S1 s RBN_BLACK ks (Bin A y RBN_RED ky B)) # ds) (Bin nl n cn kn nr) h t' cs'"
  using case6_L [OF z ctx] left_view [OF z] by (simp add: delete_case5_def)

lemma case5_near_L:
  assumes z: "focus t (FrL p cp kp (Bin (Bin A y RBN_RED ky B) s RBN_BLACK ks S2) # ds) (Bin nl n cn kn nr)"
    and S2: "tcolor S2 = RBN_BLACK"
    and ctx: "ctx_rb (FrL p cp kp (Bin (Bin A y RBN_RED ky B) s RBN_BLACK ks S2) # ds) (Suc h)"
  shows "\<exists>t' cs'. delete_case5 t n = Some t' \<and>
    rebalanced t (FrL p cp kp (Bin (Bin A y RBN_RED ky B) s RBN_BLACK ks S2) # ds) (Bin nl n cn kn nr) h t' cs'"
proof -
  let ?N = "Bin nl n cn kn nr"
  have "focus t (FrR ?N p cp kp # ds) (Bin (Bin A y RBN_RED ky B) s RBN_BLACK ks S2)"
    using z by (simp add: focus_FrL focus_FrR)
  then obtain t1 where t1: "set_color s RBN_RED t = Some t1"
      "focus t1 (FrR ?N p cp kp # ds) (Bin (Bin A y RBN_RED ky B) s RBN_RED ks S2)" "rbt_meta t1 = rbt_meta t"
    by (rule focus_set_color)
  then have "focus t1 (FrL s RBN_RED ks S2 # FrR ?N p cp kp # ds) (Bin A y RBN_RED ky B)"
    by (simp add: focus_FrL)
  then obtain t2 where t2: "set_color y RBN_BLACK t1 = Some t2"
      "focus t2 (FrL s RBN_RED ks S2 # FrR ?N p cp kp # ds) (Bin A y RBN_BLACK ky B)" "rbt_meta t2 = rbt_meta t1"
    by (rule focus_set_color)
  then have "focus t2 (FrR ?N p cp kp # ds) (Bin (Bin A y RBN_BLACK ky B) s RBN_RED ks S2)"
    by (simp add: focus_FrL)
  then obtain t3 where t3: "rotate_right t2 s = Some t3"
      "focus t3 (FrR ?N p cp kp # ds) (Bin A y RBN_BLACK ky (Bin B s RBN_RED ks S2))" "rbt_meta t3 = rbt_meta t2"
    by (rule focus_rotate_right)
  have z3: "focus t3 (FrL p cp kp (Bin A y RBN_BLACK ky (Bin B s RBN_RED ks S2)) # ds) ?N"
    using t3(2) by (simp add: focus_FrL focus_FrR)
  have "ctx_rb (FrL p cp kp (Bin A y RBN_BLACK ky (Bin B s RBN_RED ks S2)) # ds) (Suc h)"
    using ctx S2 by (cases cp) auto
  from case6_L [OF z3 this] obtain t' cs' where *: "delete_case6 t3 n = Some t'"
    "rebalanced t3 (FrL p cp kp (Bin A y RBN_BLACK ky (Bin B s RBN_RED ks S2)) # ds) ?N h t' cs'" by blast
  then have "rebalanced t (FrL p cp kp (Bin (Bin A y RBN_RED ky B) s RBN_BLACK ks S2) # ds) ?N h t' cs'"
    using t1 t2 t3 by (simp add: rebalanced_def)
  moreover have "delete_case5 t n = Some t'"
    using left_view [OF z] S2 t1(1) t2(1) t3(1) *(1) by (simp add: delete_case5_def)
  ultimately show ?thesis by blast
qed

lemma case456_L:
  assumes z: "focus t (FrL p cp kp (Bin S1 s RBN_BLACK ks S2) # ds) (Bin nl n cn kn nr)"
    and ctx: "ctx_rb (FrL p cp kp (Bin S1 s RBN_BLACK ks S2) # ds) (Suc h)"
    and red: "cp = RBN_RED \<or> tcolor S1 = RBN_RED \<or> tcolor S2 = RBN_RED"
  shows "\<exists>t' cs'. delete_case4 t n = Some t' \<and>
    rebalanced t (FrL p cp kp (Bin S1 s RBN_BLACK ks S2) # ds) (Bin nl n cn kn nr) h t' cs'"
proof (cases "tcolor S2")
  case RBN_RED
  then obtain A y ky B where S2: "S2 = Bin A y RBN_RED ky B" by (cases S2) auto
  have "delete_case4 t n = delete_case5 t n" using left_view [OF z] S2 by (simp add: delete_case4_def)
  then show ?thesis using case5_far_L [OF z [unfolded S2] ctx [unfolded S2]] S2 by simp
next
  case S2: RBN_BLACK
  show ?thesis
  proof (cases "tcolor S1")
    case RBN_RED
    then obtain A y ky B where S1: "S1 = Bin A y RBN_RED ky B" by (cases S1) auto
    have "delete_case4 t n = delete_case5 t n" using left_view [OF z] S1 by (simp add: delete_case4_def)
    then show ?thesis using case5_near_L [OF z [unfolded S1] S2 ctx [unfolded S1]] S1 by simp
  next
    case S1: RBN_BLACK
    with S2 red have "cp = RBN_RED" by simp
    with case4_L z S1 S2 ctx show ?thesis by simp
  qed
qed

lemma case5_far_R:
  assumes z: "focus t (FrR (Bin (Bin B y RBN_RED ky A) s RBN_BLACK ks S1) p cp kp # ds) (Bin nr n cn kn nl)"
    and ctx: "ctx_rb (FrR (Bin (Bin B y RBN_RED ky A) s RBN_BLACK ks S1) p cp kp # ds) (Suc h)"
  shows "\<exists>t' cs'. delete_case5 t n = Some t' \<and>
    rebalanced t (FrR (Bin (Bin B y RBN_RED ky A) s RBN_BLACK ks S1) p cp kp # ds) (Bin nr n cn kn nl) h t' cs'"
  using case6_R [OF z ctx] right_view [OF z] by (simp add: delete_case5_def)

lemma case5_near_R:
  assumes z: "focus t (FrR (Bin S2 s RBN_BLACK ks (Bin B y RBN_RED ky A)) p cp kp # ds) (Bin nr n cn kn nl)"
    and S2: "tcolor S2 = RBN_BLACK"
    and ctx: "ctx_rb (FrR (Bin S2 s RBN_BLACK ks (Bin B y RBN_RED ky A)) p cp kp # ds) (Suc h)"
  shows "\<exists>t' cs'. delete_case5 t n = Some t' \<and>
    rebalanced t (FrR (Bin S2 s RBN_BLACK ks (Bin B y RBN_RED ky A)) p cp kp # ds) (Bin nr n cn kn nl) h t' cs'"
proof -
  let ?N = "Bin nr n cn kn nl"
  have "focus t (FrL p cp kp ?N # ds) (Bin S2 s RBN_BLACK ks (Bin B y RBN_RED ky A))"
    using z by (simp add: focus_FrR focus_FrL)
  then obtain t1 where t1: "set_color s RBN_RED t = Some t1"
      "focus t1 (FrL p cp kp ?N # ds) (Bin S2 s RBN_RED ks (Bin B y RBN_RED ky A))" "rbt_meta t1 = rbt_meta t"
    by (rule focus_set_color)
  then have "focus t1 (FrR S2 s RBN_RED ks # FrL p cp kp ?N # ds) (Bin B y RBN_RED ky A)"
    by (simp add: focus_FrR)
  then obtain t2 where t2: "set_color y RBN_BLACK t1 = Some t2"
      "focus t2 (FrR S2 s RBN_RED ks # FrL p cp kp ?N # ds) (Bin B y RBN_BLACK ky A)" "rbt_meta t2 = rbt_meta t1"
    by (rule focus_set_color)
  then have "focus t2 (FrL p cp kp ?N # ds) (Bin S2 s RBN_RED ks (Bin B y RBN_BLACK ky A))"
    by (simp add: focus_FrR)
  then obtain t3 where t3: "rotate_left t2 s = Some t3"
      "focus t3 (FrL p cp kp ?N # ds) (Bin (Bin S2 s RBN_RED ks B) y RBN_BLACK ky A)" "rbt_meta t3 = rbt_meta t2"
    by (rule focus_rotate_left)
  have z3: "focus t3 (FrR (Bin (Bin S2 s RBN_RED ks B) y RBN_BLACK ky A) p cp kp # ds) ?N"
    using t3(2) by (simp add: focus_FrR focus_FrL)
  have "ctx_rb (FrR (Bin (Bin S2 s RBN_RED ks B) y RBN_BLACK ky A) p cp kp # ds) (Suc h)"
    using ctx S2 by (cases cp) auto
  from case6_R [OF z3 this] obtain t' cs' where *: "delete_case6 t3 n = Some t'"
    "rebalanced t3 (FrR (Bin (Bin S2 s RBN_RED ks B) y RBN_BLACK ky A) p cp kp # ds) ?N h t' cs'" by blast
  then have "rebalanced t (FrR (Bin S2 s RBN_BLACK ks (Bin B y RBN_RED ky A)) p cp kp # ds) ?N h t' cs'"
    using t1 t2 t3 by (simp add: rebalanced_def)
  moreover have "delete_case5 t n = Some t'"
    using right_view [OF z] S2 t1(1) t2(1) t3(1) *(1) by (simp add: delete_case5_def)
  ultimately show ?thesis by blast
qed

lemma case456_R:
  assumes z: "focus t (FrR (Bin S2 s RBN_BLACK ks S1) p cp kp # ds) (Bin nr n cn kn nl)"
    and ctx: "ctx_rb (FrR (Bin S2 s RBN_BLACK ks S1) p cp kp # ds) (Suc h)"
    and red: "cp = RBN_RED \<or> tcolor S1 = RBN_RED \<or> tcolor S2 = RBN_RED"
  shows "\<exists>t' cs'. delete_case4 t n = Some t' \<and>
    rebalanced t (FrR (Bin S2 s RBN_BLACK ks S1) p cp kp # ds) (Bin nr n cn kn nl) h t' cs'"
proof (cases "tcolor S2")
  case RBN_RED
  then obtain A y ky B where S2: "S2 = Bin B y RBN_RED ky A" by (cases S2) auto
  have "delete_case4 t n = delete_case5 t n" using right_view [OF z] S2 by (simp add: delete_case4_def)
  then show ?thesis using case5_far_R [OF z [unfolded S2] ctx [unfolded S2]] S2 by simp
next
  case S2: RBN_BLACK
  show ?thesis
  proof (cases "tcolor S1")
    case RBN_RED
    then obtain A y ky B where S1: "S1 = Bin B y RBN_RED ky A" by (cases S1) auto
    have "delete_case4 t n = delete_case5 t n" using right_view [OF z] S1 by (simp add: delete_case4_def)
    then show ?thesis using case5_near_R [OF z [unfolded S1] S2 ctx [unfolded S1]] S1 by simp
  next
    case S1: RBN_BLACK
    with S2 red have "cp = RBN_RED" by simp
    with case4_R z S1 S2 ctx show ?thesis by simp
  qed
qed

subsection \<open>Rebalancing: the recursion\<close>

lemma case2_red_sibling_L:
  assumes z: "focus t (FrL p cp kp (Bin S1 s RBN_RED ks S2) # ds) (Bin nl n cn kn nr)"
    and ctx: "ctx_rb (FrL p cp kp (Bin S1 s RBN_RED ks S2) # ds) (Suc h)"
  shows "\<exists>t' cs'. delete_case2_via case1 t n = Some t' \<and>
    rebalanced t (FrL p cp kp (Bin S1 s RBN_RED ks S2) # ds) (Bin nl n cn kn nr) h t' cs'"
proof -
  let ?N = "Bin nl n cn kn nr"
  have cp: "cp = RBN_BLACK" using ctx by (cases cp) auto
  obtain A y ky B where S1: "S1 = Bin A y RBN_BLACK ky B" using ctx by (cases S1) auto
  have "focus t ds (Bin ?N p cp kp (Bin S1 s RBN_RED ks S2))" using z by (simp add: focus_FrL)
  then obtain t1 where t1: "set_color p RBN_RED t = Some t1"
      "focus t1 ds (Bin ?N p RBN_RED kp (Bin S1 s RBN_RED ks S2))" "rbt_meta t1 = rbt_meta t"
    by (rule focus_set_color)
  then have "focus t1 (FrR ?N p RBN_RED kp # ds) (Bin S1 s RBN_RED ks S2)" by (simp add: focus_FrR)
  then obtain t2 where t2: "set_color s RBN_BLACK t1 = Some t2"
      "focus t2 (FrR ?N p RBN_RED kp # ds) (Bin S1 s RBN_BLACK ks S2)" "rbt_meta t2 = rbt_meta t1"
    by (rule focus_set_color)
  then have z2: "focus t2 ds (Bin ?N p RBN_RED kp (Bin S1 s RBN_BLACK ks S2))" by (simp add: focus_FrR)
  then obtain t3 where t3: "rotate_left t2 p = Some t3"
      "focus t3 ds (Bin (Bin ?N p RBN_RED kp S1) s RBN_BLACK ks S2)" "rbt_meta t3 = rbt_meta t2"
    by (rule focus_rotate_left)
  have z3: "focus t3 (FrL p RBN_RED kp (Bin A y RBN_BLACK ky B) # FrL s RBN_BLACK ks S2 # ds) ?N"
    using t3(2) S1 by (simp add: focus_FrL)
  have "ctx_rb (FrL p RBN_RED kp (Bin A y RBN_BLACK ky B) # FrL s RBN_BLACK ks S2 # ds) (Suc h)"
    using ctx cp S1 by simp
  from case456_L [OF z3 this] obtain t' cs' where *: "delete_case4 t3 n = Some t'"
    "rebalanced t3 (FrL p RBN_RED kp (Bin A y RBN_BLACK ky B) # FrL s RBN_BLACK ks S2 # ds) ?N h t' cs'" by blast
  then have "rebalanced t (FrL p cp kp (Bin S1 s RBN_RED ks S2) # ds) ?N h t' cs'"
    using t1 t2 t3 S1 by (simp add: rebalanced_def)
  moreover have z2': "focus t2 (FrL p RBN_RED kp (Bin S1 s RBN_BLACK ks S2) # ds) ?N"
    using z2 by (simp add: focus_FrL)
  have "delete_case2_via case1 t n = Some t'"
    using left_view [OF z] left_view [OF z2'] left_view [OF z3] t1(1) t2(1) t3(1) *(1)
    by (simp add: delete_case2_via_def delete_case3_via_def)
  ultimately show ?thesis by blast
qed

lemma case3_L:
  assumes z: "focus t (FrL p RBN_BLACK kp (Bin S1 s RBN_BLACK ks S2) # ds) (Bin nl n cn kn nr)"
    and S: "tcolor S1 = RBN_BLACK" "tcolor S2 = RBN_BLACK"
  obtains t1 where "delete_case2_via case1 t n = case1 t1 p"
    and "focus t1 ds (Bin (Bin nl n cn kn nr) p RBN_BLACK kp (Bin S1 s RBN_RED ks S2))"
    and "rbt_meta t1 = rbt_meta t"
proof -
  let ?N = "Bin nl n cn kn nr"
  have "focus t (FrR ?N p RBN_BLACK kp # ds) (Bin S1 s RBN_BLACK ks S2)"
    using z by (simp add: focus_FrL focus_FrR)
  then obtain t1 where t1: "set_color s RBN_RED t = Some t1"
      "focus t1 (FrR ?N p RBN_BLACK kp # ds) (Bin S1 s RBN_RED ks S2)" "rbt_meta t1 = rbt_meta t"
    by (rule focus_set_color)
  then have "delete_case2_via case1 t n = case1 t1 p"
    using left_view [OF z] S by (simp add: delete_case2_via_def delete_case3_via_def)
  with t1 that show thesis by (simp add: focus_FrR)
qed

lemma delete_case2_step_L:
  assumes z: "focus t (FrL p cp kp S # ds) (Bin nl n cn kn nr)"
    and ctx: "ctx_rb (FrL p cp kp S # ds) (Suc h)"
    and IH: "\<And>t1 l r. focus t1 ds (Bin l p cp kp r) \<Longrightarrow> ds \<noteq> [] \<Longrightarrow> ctx_rb ds (Suc (Suc h)) \<Longrightarrow>
      \<exists>t' ds'. delete_case2 t1 p = Some t' \<and> rebalanced t1 ds (Bin l p cp kp r) (Suc h) t' ds'"
  shows "\<exists>t' cs'. delete_case2 t n = Some t' \<and> rebalanced t (FrL p cp kp S # ds) (Bin nl n cn kn nr) h t' cs'"
proof -
  let ?N = "Bin nl n cn kn nr"
  obtain S1 s c ks S2 where S: "S = Bin S1 s c ks S2" using ctx by (cases S) auto
  consider (red) "c = RBN_RED" | (up) "c = RBN_BLACK" "cp = RBN_BLACK" "tcolor S1 = RBN_BLACK" "tcolor S2 = RBN_BLACK"
    | (here) "c = RBN_BLACK" "cp = RBN_RED \<or> tcolor S1 = RBN_RED \<or> tcolor S2 = RBN_RED"
    by (cases c; cases cp; cases "tcolor S1"; cases "tcolor S2") auto
  then show ?thesis
  proof cases
    case red
    with case2_red_sibling_L z ctx S show ?thesis by simp
  next
    case here
    then have "delete_case2 t n = delete_case4 t n"
      using left_view [OF z [unfolded S]] by (auto simp: delete_case2_via_def delete_case3_via_def)
    with case456_L [OF z [unfolded S here(1)] ctx [unfolded S here(1)] here(2)] S here show ?thesis by simp
  next
    case up
    let ?P = "Bin ?N p RBN_BLACK kp (Bin S1 s RBN_RED ks S2)"
    obtain t1 where t1: "delete_case2 t n = delete_case1 t1 p" "focus t1 ds ?P" "rbt_meta t1 = rbt_meta t"
      using case3_L [OF z [unfolded S up(1,2)] up(3,4)] .
    have S': "rb h (Bin S1 s RBN_RED ks S2)" "ctx_rb ds (Suc (Suc h))" using ctx S up by simp_all
    show ?thesis
    proof (cases "ds = []")
      case True
      have "delete_case1 t1 p = Some t1" using focus_get [OF t1(2)] True by (subst delete_case1.simps) simp
      moreover have "rebalanced t (FrL p cp kp S # ds) ?N h t1 [FrL p RBN_BLACK kp (Bin S1 s RBN_RED ks S2)]"
        using t1 True S S' by (simp add: rebalanced_def focus_FrL)
      ultimately show ?thesis using t1(1) by auto
    next
      case False
      then obtain t' ds' where *: "delete_case2 t1 p = Some t'" "rebalanced t1 ds ?P (Suc h) t' ds'"
        using IH t1(2) S'(2) up by blast
      have "ctx_parent ds \<noteq> NULL" using False t1(2) by (cases ds; cases "hd ds") (auto simp: focus_def)
      then have "delete_case1 t1 p = Some t'" using focus_get [OF t1(2)] *(1) by (subst delete_case1.simps) simp
      moreover have "rebalanced t (FrL p cp kp S # ds) ?N h t' (FrL p RBN_BLACK kp (Bin S1 s RBN_RED ks S2) # ds')"
        using *(2) t1(3) S S' by (simp add: rebalanced_def focus_FrL)
      ultimately show ?thesis using t1(1) by auto
    qed
  qed
qed

lemma case2_red_sibling_R:
  assumes z: "focus t (FrR (Bin S2 s RBN_RED ks S1) p cp kp # ds) (Bin nr n cn kn nl)"
    and ctx: "ctx_rb (FrR (Bin S2 s RBN_RED ks S1) p cp kp # ds) (Suc h)"
  shows "\<exists>t' cs'. delete_case2_via case1 t n = Some t' \<and>
    rebalanced t (FrR (Bin S2 s RBN_RED ks S1) p cp kp # ds) (Bin nr n cn kn nl) h t' cs'"
proof -
  let ?N = "Bin nr n cn kn nl"
  have cp: "cp = RBN_BLACK" using ctx by (cases cp) auto
  obtain A y ky B where S1: "S1 = Bin B y RBN_BLACK ky A" using ctx by (cases S1) auto
  have "focus t ds (Bin (Bin S2 s RBN_RED ks S1) p cp kp ?N)" using z by (simp add: focus_FrR)
  then obtain t1 where t1: "set_color p RBN_RED t = Some t1"
      "focus t1 ds (Bin (Bin S2 s RBN_RED ks S1) p RBN_RED kp ?N)" "rbt_meta t1 = rbt_meta t"
    by (rule focus_set_color)
  then have "focus t1 (FrL p RBN_RED kp ?N # ds) (Bin S2 s RBN_RED ks S1)" by (simp add: focus_FrL)
  then obtain t2 where t2: "set_color s RBN_BLACK t1 = Some t2"
      "focus t2 (FrL p RBN_RED kp ?N # ds) (Bin S2 s RBN_BLACK ks S1)" "rbt_meta t2 = rbt_meta t1"
    by (rule focus_set_color)
  then have z2: "focus t2 ds (Bin (Bin S2 s RBN_BLACK ks S1) p RBN_RED kp ?N)" by (simp add: focus_FrL)
  then obtain t3 where t3: "rotate_right t2 p = Some t3"
      "focus t3 ds (Bin S2 s RBN_BLACK ks (Bin S1 p RBN_RED kp ?N))" "rbt_meta t3 = rbt_meta t2"
    by (rule focus_rotate_right)
  have z3: "focus t3 (FrR (Bin B y RBN_BLACK ky A) p RBN_RED kp # FrR S2 s RBN_BLACK ks # ds) ?N"
    using t3(2) S1 by (simp add: focus_FrR)
  have "ctx_rb (FrR (Bin B y RBN_BLACK ky A) p RBN_RED kp # FrR S2 s RBN_BLACK ks # ds) (Suc h)"
    using ctx cp S1 by simp
  from case456_R [OF z3 this] obtain t' cs' where *: "delete_case4 t3 n = Some t'"
    "rebalanced t3 (FrR (Bin B y RBN_BLACK ky A) p RBN_RED kp # FrR S2 s RBN_BLACK ks # ds) ?N h t' cs'" by blast
  then have "rebalanced t (FrR (Bin S2 s RBN_RED ks S1) p cp kp # ds) ?N h t' cs'"
    using t1 t2 t3 S1 by (simp add: rebalanced_def)
  moreover have z2': "focus t2 (FrR (Bin S2 s RBN_BLACK ks S1) p RBN_RED kp # ds) ?N"
    using z2 by (simp add: focus_FrR)
  have "delete_case2_via case1 t n = Some t'"
    using right_view [OF z] right_view [OF z2'] right_view [OF z3] t1(1) t2(1) t3(1) *(1)
    by (simp add: delete_case2_via_def delete_case3_via_def)
  ultimately show ?thesis by blast
qed

lemma case3_R:
  assumes z: "focus t (FrR (Bin S2 s RBN_BLACK ks S1) p RBN_BLACK kp # ds) (Bin nr n cn kn nl)"
    and S: "tcolor S1 = RBN_BLACK" "tcolor S2 = RBN_BLACK"
  obtains t1 where "delete_case2_via case1 t n = case1 t1 p"
    and "focus t1 ds (Bin (Bin S2 s RBN_RED ks S1) p RBN_BLACK kp (Bin nr n cn kn nl))"
    and "rbt_meta t1 = rbt_meta t"
proof -
  let ?N = "Bin nr n cn kn nl"
  have "focus t (FrL p RBN_BLACK kp ?N # ds) (Bin S2 s RBN_BLACK ks S1)"
    using z by (simp add: focus_FrR focus_FrL)
  then obtain t1 where t1: "set_color s RBN_RED t = Some t1"
      "focus t1 (FrL p RBN_BLACK kp ?N # ds) (Bin S2 s RBN_RED ks S1)" "rbt_meta t1 = rbt_meta t"
    by (rule focus_set_color)
  then have "delete_case2_via case1 t n = case1 t1 p"
    using right_view [OF z] S by (simp add: delete_case2_via_def delete_case3_via_def)
  with t1 that show thesis by (simp add: focus_FrL)
qed

lemma delete_case2_step_R:
  assumes z: "focus t (FrR S p cp kp # ds) (Bin nr n cn kn nl)"
    and ctx: "ctx_rb (FrR S p cp kp # ds) (Suc h)"
    and IH: "\<And>t1 l r. focus t1 ds (Bin r p cp kp l) \<Longrightarrow> ds \<noteq> [] \<Longrightarrow> ctx_rb ds (Suc (Suc h)) \<Longrightarrow>
      \<exists>t' ds'. delete_case2 t1 p = Some t' \<and> rebalanced t1 ds (Bin r p cp kp l) (Suc h) t' ds'"
  shows "\<exists>t' cs'. delete_case2 t n = Some t' \<and> rebalanced t (FrR S p cp kp # ds) (Bin nr n cn kn nl) h t' cs'"
proof -
  let ?N = "Bin nr n cn kn nl"
  obtain S1 s c ks S2 where S: "S = Bin S2 s c ks S1" using ctx by (cases S) auto
  consider (red) "c = RBN_RED" | (up) "c = RBN_BLACK" "cp = RBN_BLACK" "tcolor S1 = RBN_BLACK" "tcolor S2 = RBN_BLACK"
    | (here) "c = RBN_BLACK" "cp = RBN_RED \<or> tcolor S1 = RBN_RED \<or> tcolor S2 = RBN_RED"
    by (cases c; cases cp; cases "tcolor S1"; cases "tcolor S2") auto
  then show ?thesis
  proof cases
    case red
    with case2_red_sibling_R z ctx S show ?thesis by simp
  next
    case here
    then have "delete_case2 t n = delete_case4 t n"
      using right_view [OF z [unfolded S]] by (auto simp: delete_case2_via_def delete_case3_via_def)
    with case456_R [OF z [unfolded S here(1)] ctx [unfolded S here(1)] here(2)] S here show ?thesis by simp
  next
    case up
    let ?P = "Bin (Bin S2 s RBN_RED ks S1) p RBN_BLACK kp ?N"
    obtain t1 where t1: "delete_case2 t n = delete_case1 t1 p" "focus t1 ds ?P" "rbt_meta t1 = rbt_meta t"
      using case3_R [OF z [unfolded S up(1,2)] up(3,4)] .
    have S': "rb h (Bin S2 s RBN_RED ks S1)" "ctx_rb ds (Suc (Suc h))" using ctx S up by simp_all
    show ?thesis
    proof (cases "ds = []")
      case True
      have "delete_case1 t1 p = Some t1" using focus_get [OF t1(2)] True by (subst delete_case1.simps) simp
      moreover have "rebalanced t (FrR S p cp kp # ds) ?N h t1 [FrR (Bin S2 s RBN_RED ks S1) p RBN_BLACK kp]"
        using t1 True S S' by (simp add: rebalanced_def focus_FrR)
      ultimately show ?thesis using t1(1) by auto
    next
      case False
      then obtain t' ds' where *: "delete_case2 t1 p = Some t'" "rebalanced t1 ds ?P (Suc h) t' ds'"
        using IH t1(2) S'(2) up by blast
      have "ctx_parent ds \<noteq> NULL" using False t1(2) by (cases ds; cases "hd ds") (auto simp: focus_def)
      then have "delete_case1 t1 p = Some t'" using focus_get [OF t1(2)] *(1) by (subst delete_case1.simps) simp
      moreover have "rebalanced t (FrR S p cp kp # ds) ?N h t' (FrR (Bin S2 s RBN_RED ks S1) p RBN_BLACK kp # ds')"
        using *(2) t1(3) S S' by (simp add: rebalanced_def focus_FrR)
      ultimately show ?thesis using t1(1) by auto
    qed
  qed
qed

lemma delete_case2_correct:
  assumes "focus t cs (Bin nl n cn kn nr)" and "cs \<noteq> []" and "ctx_rb cs (Suc h)"
  shows "\<exists>t' cs'. delete_case2 t n = Some t' \<and> rebalanced t cs (Bin nl n cn kn nr) h t' cs'"
  using assms
proof (induction cs arbitrary: t nl n cn kn nr h)
  case (Cons f ds)
  show ?case
  proof (cases f)
    case (FrL p cp kp S)
    show ?thesis unfolding FrL
      by (rule delete_case2_step_L [OF _ _ Cons.IH]) (use Cons.prems FrL in auto)
  next
    case (FrR S p cp kp)
    show ?thesis unfolding FrR
      by (rule delete_case2_step_R [OF _ _ Cons.IH]) (use Cons.prems FrR in auto)
  qed
qed simp

end
