(* ===== verification/RbtSwap.thy ===== *)
theory RbtSwap
  imports RbtRebalance
begin

section \<open>Deletion: swapping with the predecessor\<close>

text \<open>
  The first half of \<^verbatim>\<open>rbt_del\<close>: a node that has two children changes places with its predecessor.
\<close>

subsection \<open>Segments of a context\<close>

fun seg_at :: "(addr \<Rightarrow> 'k rbn option) \<Rightarrow> 'k frame list \<Rightarrow> addr \<Rightarrow> addr \<Rightarrow> bool" where
  "seg_at m [] p h = True"
| "seg_at m (FrL a c k r # cs) p h = (a \<noteq> NULL \<and>
     m a = Some \<lparr>rbn_left = h, rbn_right = rootp r,
       rbn_parent = (if cs = [] then p else ctx_parent cs), rbn_color = c, rbn_key = k\<rparr> \<and>
     tree_at m a r \<and> seg_at m cs p a)"
| "seg_at m (FrR l a c k # cs) p h = (a \<noteq> NULL \<and>
     m a = Some \<lparr>rbn_left = rootp l, rbn_right = h,
       rbn_parent = (if cs = [] then p else ctx_parent cs), rbn_color = c, rbn_key = k\<rparr> \<and>
     tree_at m a l \<and> seg_at m cs p a)"

fun seg_top :: "'k frame list \<Rightarrow> addr \<Rightarrow> addr" where
  "seg_top [] h = h"
| "seg_top (f # cs) h = seg_top cs (ctx_parent [f])"

lemma ctx_parent_append: "ctx_parent (es @ ds) = (if es = [] then ctx_parent ds else ctx_parent es)"
  by (cases es; cases "hd es") auto

lemma ctx_at_append:
  "ctx_at m root (es @ ds) h \<longleftrightarrow> seg_at m es (ctx_parent ds) h \<and> ctx_at m root ds (seg_top es h)"
proof (induction es arbitrary: h)
  case (Cons f es)
  then show ?case by (cases f) (auto simp: ctx_parent_append)
qed simp

lemma ctx_lr_append [simp]:
  "ctx_l (es @ ds) = ctx_l ds @ ctx_l es" "ctx_r (es @ ds) = ctx_r es @ ctx_r ds"
proof (induction es)
  case (Cons f es)
  { case 1 show ?case using Cons by (cases f) simp_all next
    case 2 show ?case using Cons by (cases f) simp_all }
qed simp_all

lemma seg_at_fresh [simp]:
  "a \<notin> fst ` set (ctx_l cs) \<Longrightarrow> a \<notin> fst ` set (ctx_r cs) \<Longrightarrow>
   seg_at (m(a \<mapsto> v)) cs p h = seg_at m cs p h"
proof (induction cs arbitrary: h)
  case (Cons f cs)
  then show ?case by (cases f) (simp_all add: fun_upd_other image_Un del: fun_upd_apply)
qed simp

lemma plug_append: "plug (es @ ds) T = plug ds (plug es T)"
  by (induction es arbitrary: T) simp_all

subsection \<open>The predecessor\<close>

lemma find_pred_loop_correct:
  assumes "focus t cs T" and "T \<noteq> Tip"
  shows "\<exists>ds Y p c k. find_pred_loop t (rootp T) = Some p \<and> plug ds (Bin Y p c k Tip) = T \<and> ctx_r ds = []"
  using assms
proof (induction T arbitrary: cs)
  case (Bin l a c k r)
  then have R: "focus t (FrR l a c k # cs) r" by (simp add: focus_FrR)
  show ?case
  proof (cases "r = Tip")
    case True
    then show ?thesis using focus_get [OF Bin.prems(1)]
      by (intro exI [of _ "[]"] exI) (subst find_pred_loop.simps, simp)
  next
    case False
    with Bin.IH(2) [OF R] obtain ds Y p c' k' where *: "find_pred_loop t (rootp r) = Some p"
      "plug ds (Bin Y p c' k' Tip) = r" "ctx_r ds = []" by blast
    have "plug (ds @ [FrR l a c k]) (Bin Y p c' k' Tip) = Bin l a c k r" using *(2) by (simp add: plug_append)
    moreover have "find_pred_loop t a = Some p"
      using focus_get [OF Bin.prems(1)] *(1) False rootp_NULL [OF R] by (subst find_pred_loop.simps) simp
    ultimately show ?thesis using *(3) by (intro exI [of _ "ds @ [FrR l a c k]"] exI) auto
  qed
qed simp

subsection \<open>Swapping with the predecessor\<close>

lemma set_fields:
  assumes "rbt_mem t a = Some v" and "0 < a"
  shows "set_left a x t = Some (t\<lparr>rbt_mem := (rbt_mem t)(a \<mapsto> v\<lparr>rbn_left := x\<rparr>)\<rparr>)"
    and "set_right a x t = Some (t\<lparr>rbt_mem := (rbt_mem t)(a \<mapsto> v\<lparr>rbn_right := x\<rparr>)\<rparr>)"
    and "set_parent a x t = Some (t\<lparr>rbt_mem := (rbt_mem t)(a \<mapsto> v\<lparr>rbn_parent := x\<rparr>)\<rparr>)"
    and "set_color a cc t = Some (t\<lparr>rbt_mem := (rbt_mem t)(a \<mapsto> v\<lparr>rbn_color := cc\<rparr>)\<rparr>)"
    and "get_left t a = Some (rbn_left v)" and "get_right t a = Some (rbn_right v)"
    and "get_parent t a = Some (rbn_parent v)" and "get_color t a = Some (rbn_color v)"
    and "node_color t a = Some (rbn_color v)"
  using assms by (simp_all add: rbt_access_defs wr_def rd_def node_color_def)

lemmas swap_exec = set_fields set_root_def focus_def rbt_meta_def

lemma swap_child:
  assumes z: "focus t (FrL n c k R # cs) (Bin Y p cp kp Tip)" and R: "R \<noteq> Tip"
    and P: "rd t p = Some P" and red: "cp = RBN_RED \<Longrightarrow> Y = Tip"
  shows "\<exists>t'. rbt_del_swap_child t n p P = Some (t', cp = RBN_RED) \<and> rbt_meta t' = rbt_meta t \<and>
    focus t' (FrL p c kp R # cs) (if cp = RBN_RED then Tip else Bin Y n cp k Tip)"
proof -
  obtain R1 r cr kr R2 where R': "R = Bin R1 r cr kr R2" using R by (cases R) auto
  have P': "P = \<lparr>rbn_left = rootp Y, rbn_right = NULL, rbn_parent = n, rbn_color = cp, rbn_key = kp\<rparr>"
    using focus_get(3) [OF z] P by simp
  show ?thesis
  proof (cases cp)
    case RBN_RED
    with red have Y: "Y = Tip" by simp
    show ?thesis
    proof (cases cs)
      case Nil
      from z show ?thesis unfolding P' R' Nil Y RBN_RED rbt_del_swap_child_def
        by (auto simp: swap_exec)
    next
      case (Cons f es)
      from z show ?thesis unfolding P' R' Cons Y RBN_RED rbt_del_swap_child_def
        by (cases f) (auto simp: swap_exec)
    qed
  next
    case RBN_BLACK
    show ?thesis
    proof (cases cs)
      case Nil
      from z show ?thesis unfolding P' R' Nil RBN_BLACK rbt_del_swap_child_def
        by (cases Y) (auto simp: swap_exec)
    next
      case (Cons f es)
      from z show ?thesis unfolding P' R' Cons RBN_BLACK rbt_del_swap_child_def
        by (cases f; cases Y) (auto simp: swap_exec)
    qed
  qed
qed

text \<open>
  The predecessor lies deeper: its parent \<open>q\<close> is the left child of the node, or there are
  more nodes of the right spine between them.
\<close>

lemma swap_far_one:
  assumes z: "focus t (FrR Z q cq kq # FrL n c k R # cs) (Bin Y p cp kp Tip)" and R: "R = Bin R1 r cr kr R2"
    and P: "P = \<lparr>rbn_left = rootp Y, rbn_right = NULL, rbn_parent = q, rbn_color = cp, rbn_key = kp\<rparr>"
    and red: "cp = RBN_RED \<Longrightarrow> Y = Tip"
  shows "\<exists>t'. rbt_del_swap_far t n p P = Some (t', cp = RBN_RED) \<and> rbt_meta t' = rbt_meta t \<and>
    focus t' (FrR Z q cq kq # FrL p c kp R # cs) (if cp = RBN_RED then Tip else Bin Y n cp k Tip)"
proof (cases cs)
  case Nil
  show ?thesis
  proof (cases cp)
    case RBN_RED
    with red have Y: "Y = Tip" by simp
    from z show ?thesis unfolding P R Nil Y RBN_RED rbt_del_swap_far_def
      by (auto simp: swap_exec)
  next
    case RBN_BLACK
    from z show ?thesis unfolding P R Nil RBN_BLACK rbt_del_swap_far_def
      by (cases Y) (auto simp: swap_exec)
  qed
next
  case (Cons f fs)
  show ?thesis
  proof (cases f)
    case (FrL u cu ku V)
    show ?thesis
    proof (cases cp)
      case RBN_RED
      with red have Y: "Y = Tip" by simp
      from z show ?thesis unfolding P R Cons FrL Y RBN_RED rbt_del_swap_far_def
        by (auto simp: swap_exec)
    next
      case RBN_BLACK
      from z show ?thesis unfolding P R Cons FrL RBN_BLACK rbt_del_swap_far_def
        by (cases Y) (auto simp: swap_exec)
    qed
  next
    case (FrR V u cu ku)
    show ?thesis
    proof (cases cp)
      case RBN_RED
      with red have Y: "Y = Tip" by simp
      from z show ?thesis unfolding P R Cons FrR Y RBN_RED rbt_del_swap_far_def
        by (auto simp: swap_exec)
    next
      case RBN_BLACK
      from z show ?thesis unfolding P R Cons FrR RBN_BLACK rbt_del_swap_far_def
        by (cases Y) (auto simp: swap_exec)
    qed
  qed
qed

lemma ctx_parent_norm: "ds \<noteq> [] \<Longrightarrow> ctx_parent (es @ FrR W w cw kw # ds) = ctx_parent (es @ [FrR W w cw kw])"
  by (simp add: ctx_parent_append)

lemma swap_far_many:
  assumes z: "focus t (FrR Z q cq kq # es @ FrR W w cw kw # FrL n c k R # cs) (Bin Y p cp kp Tip)" and R: "R = Bin R1 r cr kr R2"
    and P: "P = \<lparr>rbn_left = rootp Y, rbn_right = NULL, rbn_parent = q, rbn_color = cp, rbn_key = kp\<rparr>"
    and red: "cp = RBN_RED \<Longrightarrow> Y = Tip"
  shows "\<exists>t'. rbt_del_swap_far t n p P = Some (t', cp = RBN_RED) \<and> rbt_meta t' = rbt_meta t \<and>
    focus t' (FrR Z q cq kq # es @ FrR W w cw kw # FrL p c kp R # cs) (if cp = RBN_RED then Tip else Bin Y n cp k Tip)"
proof (cases cs)
  case Nil
  show ?thesis
  proof (cases cp)
    case RBN_RED
    with red have Y: "Y = Tip" by simp
    from z show ?thesis unfolding P R Nil Y RBN_RED rbt_del_swap_far_def
      by (auto simp: swap_exec ctx_at_append ctx_parent_norm image_Un)
  next
    case RBN_BLACK
    from z show ?thesis unfolding P R Nil RBN_BLACK rbt_del_swap_far_def
      by (cases Y) (auto simp: swap_exec ctx_at_append ctx_parent_norm image_Un)
  qed
next
  case (Cons f fs)
  show ?thesis
  proof (cases f)
    case (FrL u cu ku V)
    show ?thesis
    proof (cases cp)
      case RBN_RED
      with red have Y: "Y = Tip" by simp
      from z show ?thesis unfolding P R Cons FrL Y RBN_RED rbt_del_swap_far_def
        by (auto simp: swap_exec ctx_at_append ctx_parent_norm image_Un)
    next
      case RBN_BLACK
      from z show ?thesis unfolding P R Cons FrL RBN_BLACK rbt_del_swap_far_def
        by (cases Y) (auto simp: swap_exec ctx_at_append ctx_parent_norm image_Un)
    qed
  next
    case (FrR V u cu ku)
    show ?thesis
    proof (cases cp)
      case RBN_RED
      with red have Y: "Y = Tip" by simp
      from z show ?thesis unfolding P R Cons FrR Y RBN_RED rbt_del_swap_far_def
        by (auto simp: swap_exec ctx_at_append ctx_parent_norm image_Un)
    next
      case RBN_BLACK
      from z show ?thesis unfolding P R Cons FrR RBN_BLACK rbt_del_swap_far_def
        by (cases Y) (auto simp: swap_exec ctx_at_append ctx_parent_norm image_Un)
    qed
  qed
qed

lemma swap_far:
  assumes z: "focus t (ds @ FrL n c k R # cs) (Bin Y p cp kp Tip)" and ds: "ds \<noteq> []" "ctx_r ds = []"
    and R: "R \<noteq> Tip" and P: "rd t p = Some P" and red: "cp = RBN_RED \<Longrightarrow> Y = Tip"
  shows "\<exists>t'. rbt_del_swap_far t n p P = Some (t', cp = RBN_RED) \<and> rbt_meta t' = rbt_meta t \<and>
    focus t' (ds @ FrL p c kp R # cs) (if cp = RBN_RED then Tip else Bin Y n cp k Tip)"
proof -
  obtain R1 r cr kr R2 where R': "R = Bin R1 r cr kr R2" using R by (cases R) auto
  obtain Z q cq kq es where ds1: "ds = FrR Z q cq kq # es"
    using ds by (cases ds; cases "hd ds") auto
  have P': "P = \<lparr>rbn_left = rootp Y, rbn_right = NULL, rbn_parent = q, rbn_color = cp, rbn_key = kp\<rparr>"
    using focus_get(3) [OF z] P ds1 by simp
  show ?thesis
  proof (cases es rule: rev_cases)
    case Nil
    with swap_far_one [OF _ R' P' red] z ds1 show ?thesis by simp
  next
    case (snoc es' f)
    with ds1 ds(2) obtain W w cw kw where "f = FrR W w cw kw" by (cases f) auto
    with swap_far_many [OF _ R' P' red] z ds1 snoc show ?thesis by simp
  qed
qed

end
