(* ===== verification/RbtDelete.thy ===== *)
theory RbtDelete
  imports RbtSwap
begin

section \<open>Deletion: removing the node\<close>

text \<open>
  The second half of \<^verbatim>\<open>rbt_del\<close>, for a node that has at most one child, and the whole
  function: it never faults, its recursion ends, and it removes exactly the entry of the
  node from the sequence, keeping the tree balanced.
\<close>

subsection \<open>A node with at most one child\<close>

lemma replace_node_correct:
  assumes z: "focus t cs (Bin l n c k r)" and cs: "cs \<noteq> []" and C: "l = Tip \<and> C = r \<or> r = Tip \<and> C = l"
  shows "\<exists>t'. replace_node t n (rootp C) = Some t' \<and> focus t' cs C \<and> rbt_meta t' = rbt_meta t \<and>
    get_parent t' n = Some (ctx_parent cs)"
proof -
  obtain f ds where f: "cs = f # ds" using cs by (cases cs) auto
  from C show ?thesis
  proof (elim disjE conjE)
    assume "l = Tip" "C = r"
    with z show ?thesis unfolding f replace_node_def
      by (cases f; cases r) (auto simp: set_fields focus_def rbt_meta_def)
  next
    assume "r = Tip" "C = l"
    with z show ?thesis unfolding f replace_node_def
      by (cases f; cases l) (auto simp: set_fields focus_def rbt_meta_def)
  qed
qed

definition erased :: "'k rbt \<Rightarrow> (addr \<times> 'k) list \<Rightarrow> 'k rbt \<Rightarrow> bool" where
  "erased t es t' \<longleftrightarrow> (\<exists>T h. focus t' [] T \<and> rb h T \<and> tcolor T = RBN_BLACK \<and> inorder T = es) \<and>
     rbt_meta t' = rbt_meta t"

lemma erasedI:
  assumes "focus t' cs T" and "rb h T" and "ctx_rb cs h" and "rbt_meta t' = rbt_meta t"
    and "tcolor T = RBN_RED \<Longrightarrow> ctx_color cs = RBN_BLACK" and "cs = [] \<Longrightarrow> tcolor T = RBN_BLACK"
    and "ctx_l cs @ inorder T @ ctx_r cs = es"
  shows "erased t es t'"
  using rb_plug [OF assms(2,3,5,6)] focus_plug [of t' cs T] assms(1,4,7)
  unfolding erased_def by (auto simp: inorder_simps)

lemma leafward_root:
  assumes z: "focus t [] (Bin l n RBN_BLACK k r)" and C: "l = Tip \<and> C = r \<or> r = Tip \<and> C = l"
  shows "\<exists>t'. rbt_del_leafward t n = Some t' \<and> focus t' [] (paint RBN_BLACK C) \<and> rbt_meta t' = rbt_meta t"
proof -
  have "C = Tip \<or> (\<exists>C1 a d kd C2. C = Bin C1 a d kd C2)" by (cases C) auto
  with C z show ?thesis unfolding rbt_del_leafward_def
    by (elim disjE conjE exE) (auto simp: swap_exec set_root_def node_color_def rbt_access_defs wr_def rd_def image_Un)
qed

lemma leafward_inner:
  assumes z: "focus t cs (Bin l n RBN_BLACK k r)" and cs: "cs \<noteq> []" and ctx: "ctx_rb cs (Suc h)"
    and C: "l = Tip \<and> C = r \<or> r = Tip \<and> C = l"
  shows "\<exists>t' cs'. rbt_del_leafward t n = Some t' \<and> focus t' cs' C \<and> ctx_rb cs' h \<and>
    ctx_l cs' = ctx_l cs \<and> ctx_r cs' = ctx_r cs \<and> cs' \<noteq> [] \<and> ctx_color cs' = RBN_BLACK \<and> rbt_meta t' = rbt_meta t"
proof -
  have L: "focus t (FrL n RBN_BLACK k r # cs) l" and R: "focus t (FrR l n RBN_BLACK k # cs) r"
    using z by (simp_all add: focus_FrL focus_FrR)
  have child: "(if rootp r = NULL then rootp l else rootp r) = rootp C" "node_color t (rootp C) = Some (tcolor C)"
      "rootp l = NULL \<or> rootp r = NULL"
    using C focus_node_color(3) [OF L] focus_node_color(3) [OF R] rootp_NULL [OF L] rootp_NULL [OF R] by auto
  obtain t1 where t1: "set_color n (tcolor C) t = Some t1" "focus t1 cs (Bin l n (tcolor C) k r)"
    "rbt_meta t1 = rbt_meta t" using focus_set_color [OF z] .
  obtain t2 cs' where t2: "delete_case2 t1 n = Some t2" "rebalanced t1 cs (Bin l n (tcolor C) k r) h t2 cs'"
    using delete_case2_correct [OF t1(2) cs ctx] by blast
  then have z2: "focus t2 cs' (Bin l n (tcolor C) k r)" and cs': "cs' \<noteq> []" by (auto simp: rebalanced_def)
  obtain t3 where t3: "replace_node t2 n (rootp C) = Some t3" "focus t3 cs' C" "rbt_meta t3 = rbt_meta t2"
      "get_parent t3 n = Some (ctx_parent cs')"
    using replace_node_correct [OF z2 cs' C] by blast
  have par: "ctx_parent cs \<noteq> NULL" "ctx_parent cs' \<noteq> NULL"
    using cs z cs' z2 by (cases cs; cases "hd cs"; auto simp: focus_def; fail | cases cs'; cases "hd cs'"; auto simp: focus_def)+
  have "rbt_del_leafward t n = Some t3"
    using child focus_get [OF z] focus_get [OF t1(2)] t1(1) t2(1) t3(1,4) par
    by (simp add: rbt_del_leafward_def Let_def)
  with t1 t2 t3 show ?thesis by (auto simp: rebalanced_def)
qed

lemma rb_Tip_child:
  "rb h (Bin l a c k r) \<Longrightarrow> l = Tip \<and> C = r \<or> r = Tip \<and> C = l \<Longrightarrow>
   (if c = RBN_RED then h = 0 \<and> C = Tip else h = Suc 0 \<and> rb 0 C)"
  by (cases c; cases C) (auto split: if_splits)

lemma leafward_correct:
  assumes z: "focus t cs (Bin l n c k r)" and rb: "rb h (Bin l n c k r)" and ctx: "ctx_rb cs h"
    and red: "c = RBN_RED \<Longrightarrow> cs \<noteq> [] \<and> ctx_color cs = RBN_BLACK" and tip: "l = Tip \<or> r = Tip"
  shows "\<exists>t'. rbt_del_leafward t n = Some t' \<and>
    erased t (ctx_l cs @ inorder l @ inorder r @ ctx_r cs) t'"
proof -
  define C where "C = (if l = Tip then r else l)"
  have C: "l = Tip \<and> C = r \<or> r = Tip \<and> C = l" and io: "inorder l @ inorder r = inorder C"
    using tip by (auto simp: C_def)
  note h = rb_Tip_child [OF rb C]
  have L: "focus t (FrL n c k r # cs) l" and R: "focus t (FrR l n c k # cs) r"
    using z by (simp_all add: focus_FrL focus_FrR)
  consider (red) "c = RBN_RED" | (root) "c = RBN_BLACK" "cs = []" | (inner) "c = RBN_BLACK" "cs \<noteq> []"
    by (cases c) auto
  then show ?thesis
  proof cases
    case red
    with h have *: "C = Tip" "h = 0" "l = Tip" "r = Tip" using C by auto
    have cs: "cs \<noteq> []" using assms(4) red by simp
    obtain t' where t': "replace_node t n NULL = Some t'" "focus t' cs Tip" "rbt_meta t' = rbt_meta t"
      using replace_node_correct [OF z cs C] *(1) by auto
    have "rbt_del_leafward t n = Some t'"
      using focus_get [OF z] t'(1) red * by (simp add: rbt_del_leafward_def Let_def)
    moreover have "erased t (ctx_l cs @ ctx_r cs) t'"
      by (rule erasedI [OF t'(2), of 0]) (use t' cs ctx * in auto)
    ultimately show ?thesis using * by simp
  next
    case root
    obtain t' where t': "rbt_del_leafward t n = Some t'" "focus t' [] (paint RBN_BLACK C)" "rbt_meta t' = rbt_meta t"
      using leafward_root [OF z [unfolded root] C] by blast
    obtain g where "rb g (paint RBN_BLACK C)" using h root rb_paint by auto
    then have "erased t (inorder l @ inorder r) t'"
      by (rule erasedI [OF t'(2)]) (use t' io in \<open>auto, cases C, auto\<close>)
    with t'(1) root show ?thesis by simp
  next
    case inner
    with h have "h = Suc 0" "rb 0 C" by auto
    then obtain t' cs' where t': "rbt_del_leafward t n = Some t'" "focus t' cs' C" "ctx_rb cs' 0"
        "ctx_l cs' = ctx_l cs" "ctx_r cs' = ctx_r cs" "cs' \<noteq> []" "ctx_color cs' = RBN_BLACK" "rbt_meta t' = rbt_meta t"
      using leafward_inner [OF z [unfolded inner(1)] inner(2) _ C, of 0] ctx by auto
    then have "erased t (ctx_l cs @ inorder l @ inorder r @ ctx_r cs) t'"
      using \<open>rb 0 C\<close> io by (intro erasedI [of _ cs' C 0]) auto
    with t'(1) show ?thesis by simp
  qed
qed

subsection \<open>The whole function\<close>

lemma ctx_color_append: "ctx_color (es @ ds) = (if es = [] then ctx_color ds else ctx_color es)"
  by (cases es; cases "hd es") auto

text \<open>Balance does not depend on the addresses and keys of the frames.\<close>

lemma ctx_rb_swap: "ctx_rb (ds @ FrL n c k R # cs) g \<longleftrightarrow> ctx_rb (ds @ FrL p c k' R # cs) g"
proof (induction ds arbitrary: g)
  case (Cons f ds)
  have "ctx_color (ds @ FrL n c k R # cs) = ctx_color (ds @ FrL p c k' R # cs)"
    by (simp add: ctx_color_append)
  moreover have "ctx_color (f # ds @ FrL n c k R # cs) = ctx_color (f # ds @ FrL p c k' R # cs)"
    by (cases f) simp_all
  ultimately show ?case using Cons by simp
qed simp

lemma del_swap:
  assumes z: "focus t (ds @ FrL n c k R # cs) (Bin Y p cp kp Tip)" and ds: "ctx_r ds = []"
    and R: "R \<noteq> Tip" and P: "rd t p = Some P" "rbn_right P = NULL" "rbn_parent P = ctx_parent (ds @ FrL n c k R # cs)"
    and red: "cp = RBN_RED \<Longrightarrow> Y = Tip"
  shows "\<exists>t'. (if rbn_parent P \<noteq> n then rbt_del_swap_far t n p P else rbt_del_swap_child t n p P)
      = Some (t', cp = RBN_RED) \<and> rbt_meta t' = rbt_meta t \<and>
    focus t' (ds @ FrL p c kp R # cs) (if cp = RBN_RED then Tip else Bin Y n cp k Tip)"
proof (cases ds)
  case Nil
  with P(3) swap_child [OF _ R P(1) red] z show ?thesis by simp
next
  case (Cons f es)
  then have "rbn_parent P \<noteq> n" using P(3) z by (cases f) (auto simp: focus_def image_Un)
  with swap_far [OF z _ ds R P(1) red] Cons show ?thesis by simp
qed

lemma del_pred_parent:
  "focus t (ds @ FrL n c k R # cs) T \<Longrightarrow> ctx_parent (ds @ FrL n c k R # cs) \<noteq> NULL"
  by (cases ds; cases "hd ds") (auto simp: focus_def)

lemma del_two_children:
  assumes z: "focus t cs (Bin L n c k R)" and LR: "L \<noteq> Tip" "R \<noteq> Tip"
    and rb: "rb h (Bin L n c k R)" and ctx: "ctx_rb cs h"
    and red: "c = RBN_RED \<Longrightarrow> cs \<noteq> [] \<and> ctx_color cs = RBN_BLACK"
    and card: "rbt_cardf t \<noteq> 0"
  shows "\<exists>t'. rbt_del t n = Some t' \<and>
    erased (t\<lparr>rbt_cardf := rbt_cardf t - 1\<rparr>) (ctx_l cs @ inorder L @ inorder R @ ctx_r cs) t'"
proof -
  let ?t = "t\<lparr>rbt_cardf := rbt_cardf t - 1\<rparr>"
  have z1: "focus ?t cs (Bin L n c k R)" using z by (simp add: focus_def)
  note g = focus_get [OF z1]
  have zL: "focus ?t (FrL n c k R # cs) L" and zR: "focus ?t (FrR L n c k # cs) R"
    using z1 by (simp_all add: focus_FrL focus_FrR)
  obtain ds Y p cp kp where p: "find_pred_loop ?t (rootp L) = Some p" and L: "plug ds (Bin Y p cp kp Tip) = L"
    and ds: "ctx_r ds = []" using find_pred_loop_correct [OF zL LR(1)] by blast
  let ?X = "Bin Y p cp kp Tip" and ?cs = "ds @ FrL n c k R # cs" and ?cs' = "ds @ FrL p c kp R # cs"
  have whole: "plug ?cs ?X = plug cs (Bin L n c k R)" using L by (simp add: plug_append)
  have zX: "focus ?t ?cs ?X" using z1 focus_plug [of ?t ?cs ?X] focus_plug [of ?t cs] whole by simp
  obtain h' where "rb h' (plug ?cs ?X)" "tcolor (plug ?cs ?X) = RBN_BLACK"
    using rb_plug [OF rb ctx] red whole by (cases c) auto
  then obtain w where w: "rb w ?X" "ctx_rb ?cs w" "cp = RBN_RED \<Longrightarrow> ctx_color ?cs = RBN_BLACK"
    using rb_unplug by fastforce
  have cs': "ctx_rb ?cs' w" "ctx_color ?cs' = ctx_color ?cs"
    using w(2) ctx_rb_swap [of ds n c k R cs w p kp] by (simp_all add: ctx_color_append)
  have Y: "Y = Tip" if "cp = RBN_RED" using rb_Tip_child [OF w(1), of Y] that by auto
  obtain P where P: "rd ?t p = Some P" "rbn_right P = NULL" "rbn_parent P = ctx_parent ?cs"
    using focus_get(3) [OF zX] by simp
  have swap: "\<exists>t1. (if rbn_parent P \<noteq> n then rbt_del_swap_far ?t n p P else rbt_del_swap_child ?t n p P)
      = Some (t1, cp = RBN_RED) \<and> rbt_meta t1 = rbt_meta ?t \<and>
      focus t1 ?cs' (if cp = RBN_RED then Tip else Bin Y n cp k Tip)"
    by (rule del_swap [OF zX ds LR(2) P Y])
  then obtain t1 where t1: "(if rbn_parent P \<noteq> n then rbt_del_swap_far ?t n p P else rbt_del_swap_child ?t n p P)
      = Some (t1, cp = RBN_RED)" "rbt_meta t1 = rbt_meta ?t"
      "focus t1 ?cs' (if cp = RBN_RED then Tip else Bin Y n cp k Tip)" by blast
  have del: "rbt_del t n = (if cp = RBN_RED then Some t1 else rbt_del_leafward t1 n)"
    using g card rootp_NULL [OF zL] rootp_NULL [OF zR] LR p P t1(1) del_pred_parent [OF zX]
    by (simp add: rbt_del_def find_pred_def Let_def)
  have io: "ctx_l ?cs' @ inorder Y @ ctx_r ?cs' = ctx_l cs @ inorder L @ inorder R @ ctx_r cs"
    using L [symmetric] ds by (simp add: inorder_simps)
  have "\<exists>t'. rbt_del t n = Some t' \<and> erased t1 (ctx_l ?cs' @ inorder Y @ ctx_r ?cs') t'"
  proof (cases cp)
    case RBN_RED
    have "erased t1 (ctx_l ?cs' @ inorder Y @ ctx_r ?cs') t1"
      by (rule erasedI [of _ ?cs' Tip 0]) (use t1(3) cs' w(1) Y RBN_RED in auto)
    with del RBN_RED show ?thesis by simp
  next
    case RBN_BLACK
    then have "focus t1 ?cs' (Bin Y n cp k Tip)" "rb w (Bin Y n cp k Tip)" using t1(3) w(1) by auto
    from leafward_correct [OF this cs'(1)] RBN_BLACK del show ?thesis by simp
  qed
  then show ?thesis unfolding io using t1(2) by (simp add: erased_def)
qed

lemma rbt_del_rep:
  assumes t: "rbt_rep t (xs @ (n, k) # ys)"
  obtains t' where "rbt_del t n = Some t'" and "rbt_rep t' (xs @ ys)" and "rbt_comparator t' = rbt_comparator t"
proof -
  obtain cs l c r h where z: "focus t cs (Bin l n c k r)" and io: "xs = ctx_l cs @ inorder l" "ys = inorder r @ ctx_r cs"
    and rb: "rb h (Bin l n c k r)" and ctx: "ctx_rb cs h" and red: "c = RBN_RED \<Longrightarrow> cs \<noteq> [] \<and> ctx_color cs = RBN_BLACK"
    by (rule rbt_rep_focus [OF t]) blast
  have card: "rbt_cardf t = int (length xs + length ys) + 1" using t by (simp add: rbt_rep_def)
  let ?t = "t\<lparr>rbt_cardf := rbt_cardf t - 1\<rparr>"
  have "\<exists>t'. rbt_del t n = Some t' \<and> erased ?t (ctx_l cs @ inorder l @ inorder r @ ctx_r cs) t'"
  proof (cases "l = Tip \<or> r = Tip")
    case True
    have z1: "focus ?t cs (Bin l n c k r)" using z by (simp add: focus_def)
    then have "focus ?t (FrL n c k r # cs) l" "focus ?t (FrR l n c k # cs) r"
      by (simp_all add: focus_FrL focus_FrR)
    then have "rbt_del t n = rbt_del_leafward ?t n"
      using focus_get [OF z1] True card rootp_NULL by (auto simp: rbt_del_def Let_def)
    with leafward_correct [OF z1 rb ctx red True] show ?thesis by simp
  next
    case False
    with del_two_children [OF z _ _ rb ctx red] card show ?thesis by simp
  qed
  then obtain t' where "rbt_del t n = Some t'" "erased ?t (xs @ ys) t'" using io by auto
  moreover from this(2) have "rbt_rep t' (xs @ ys)" "rbt_comparator t' = rbt_comparator t"
    using card by (auto simp: erased_def rbt_rep_def rbt_meta_def)
  ultimately show thesis using that by blast
qed

end
