(* ===== verification/RbtSpec.thy ===== *)
theory RbtSpec
  imports RbtDelete
begin

section \<open>What the red-black tree promises its callers\<close>

text \<open>
  The contract of \<^verbatim>\<open>lib/src/coll/rbt.c\<close>, for every comparator that satisfies the laws of
  \<open>comparator_laws\<close>: each operation against the sequence of entries, and a history
  of insertions and deletions against the same history on sequences.
\<close>

definition del_entry :: "addr \<Rightarrow> (addr \<times> 'k) list \<Rightarrow> (addr \<times> 'k) list" where
  "del_entry n es = filter (\<lambda>p. fst p \<noteq> n) es"

lemma del_entry_split:
  assumes "distinct (map fst (xs @ (n, k) # ys))"
  shows "del_entry n (xs @ (n, k) # ys) = xs @ ys"
proof -
  have "\<forall>p \<in> set xs. fst p \<noteq> n" "\<forall>p \<in> set ys. fst p \<noteq> n" using assms by force+
  then show ?thesis by (simp add: del_entry_def)
qed

lemma ordered_del_entry: "ordered cmp K es \<Longrightarrow> ordered cmp K (del_entry n es)"
  by (auto simp: ordered_def del_entry_def sorted_wrt_filter)

lemma rbt_del_seq:
  assumes t: "rbt_seq cmp K t es" and n: "n \<in> fst ` set es"
  obtains t' where "rbt_del t n = Some t'" and "rbt_seq cmp K t' (del_entry n es)"
proof -
  obtain k xs ys where es: "es = xs @ (n, k) # ys"
    using n by (auto dest: split_list)
  have rep: "rbt_rep t (xs @ (n, k) # ys)" using t es by (simp add: rbt_seq_def)
  obtain t' where t': "rbt_del t n = Some t'" "rbt_rep t' (xs @ ys)" "rbt_comparator t' = rbt_comparator t"
    using rbt_del_rep [OF rep] .
  have "del_entry n es = xs @ ys" using del_entry_split [of xs n k ys] rbt_rep_distinct [OF rep] es by simp
  with t' t ordered_del_entry [of cmp K es n] have "rbt_seq cmp K t' (del_entry n es)"
    by (simp add: rbt_seq_def)
  with t'(1) show thesis by (rule that)
qed

subsection \<open>Histories\<close>

text \<open>
  A caller initialises a node with its key and inserts it, or deletes a node; the same
  history on the sequence of entries; and the caller's side of the contract.
\<close>

datatype 'k rbt_op = Ins addr 'k | Del addr

fun run_op :: "'k rbt_op \<Rightarrow> 'k rbt \<Rightarrow> 'k rbt option" where
  "run_op (Ins x k) t = rbt_ins (rbn_init x k t) x"
| "run_op (Del x) t = rbt_del t x"

fun run_ops :: "'k rbt_op list \<Rightarrow> 'k rbt \<Rightarrow> 'k rbt option" where
  "run_ops [] t = Some t"
| "run_ops (oper # ops) t = do { t \<leftarrow> run_op oper t; run_ops ops t }"

fun seq_op :: "('k \<Rightarrow> 'k \<Rightarrow> int) \<Rightarrow> 'k rbt_op \<Rightarrow> (addr \<times> 'k) list \<Rightarrow> (addr \<times> 'k) list" where
  "seq_op cmp (Ins x k) es = ins_entry cmp x k es"
| "seq_op cmp (Del x) es = del_entry x es"

fun op_ok :: "'k set \<Rightarrow> 'k rbt_op \<Rightarrow> (addr \<times> 'k) list \<Rightarrow> bool" where
  "op_ok K (Ins x k) es \<longleftrightarrow> x \<noteq> NULL \<and> x \<notin> fst ` set es \<and> k \<in> K"
| "op_ok K (Del x) es \<longleftrightarrow> x \<in> fst ` set es"

fun ops_ok :: "('k \<Rightarrow> 'k \<Rightarrow> int) \<Rightarrow> 'k set \<Rightarrow> 'k rbt_op list \<Rightarrow> (addr \<times> 'k) list \<Rightarrow> bool" where
  "ops_ok cmp K [] es \<longleftrightarrow> True"
| "ops_ok cmp K (oper # ops) es \<longleftrightarrow> op_ok K oper es \<and> ops_ok cmp K ops (seq_op cmp oper es)"

context comparator_laws
begin

lemma run_op_seq:
  assumes "rbt_seq cmp K t es" and "op_ok K oper es"
  shows "\<exists>t'. run_op oper t = Some t' \<and> rbt_seq cmp K t' (seq_op cmp oper es)"
proof (cases oper)
  case (Ins x k)
  with assms have "rbt_seq cmp K (rbn_init x k t) es" by (simp add: rbt_seq_rbn_init)
  from rbt_ins_seq [OF this, of x k] Ins assms(2) show ?thesis by (auto simp: get_key_rbn_init)
next
  case (Del x)
  with assms(2) have "x \<in> fst ` set es" by simp
  from rbt_del_seq [OF assms(1) this] Del show ?thesis by auto
qed

lemma run_ops_seq:
  "rbt_seq cmp K t es \<Longrightarrow> ops_ok cmp K ops es \<Longrightarrow>
   \<exists>t'. run_ops ops t = Some t' \<and> rbt_seq cmp K t' (fold (seq_op cmp) ops es)"
proof (induction ops arbitrary: t es)
  case (Cons oper ops)
  then obtain t' where "run_op oper t = Some t'" "rbt_seq cmp K t' (seq_op cmp oper es)"
    using run_op_seq [of t es oper] by auto
  with Cons show ?case by auto
qed simp

end

subsection \<open>The contract\<close>

abbreviation rbt_blank :: "'k rbt" where
  "rbt_blank \<equiv> \<lparr>rbt_root = NULL, rbt_comparator = (\<lambda>a b. 0), rbt_cardf = 0, rbt_mem = Map.empty\<rparr>"

lemma int_comparator: "comparator_laws (\<lambda>a b. a - b :: int) UNIV"
  by unfold_locales auto

text \<open>
  C1. Any history of insertions of fresh nodes and deletions of present nodes that starts
  at an initialised tree runs without a fault and ends in a well-formed, balanced, ordered
  tree, whose entries are those of the same history on ordered sequences.
\<close>

theorem rbt_history_correct:
  assumes "comparator_laws cmp K" and "ops_ok cmp K ops []"
  shows "\<exists>t'. run_ops ops (rbt_init cmp t) = Some t' \<and> rbt_seq cmp K t' (fold (seq_op cmp) ops [])"
  using comparator_laws.run_ops_seq [OF assms(1) rbt_seq_init assms(2)] .

theorem rbt_history_correct_witness:
  "\<exists>t'. run_ops [Ins 16 7, Ins 32 3, Ins 48 9, Ins 64 3, Del 16] (rbt_init (\<lambda>a b. a - b :: int) rbt_blank)
      = Some t' \<and> rbt_seq (\<lambda>a b. a - b) UNIV t' [(32, 3), (64, 3), (48, 9)]"
  using rbt_history_correct [OF int_comparator, of "[Ins 16 7, Ins 32 3, Ins 48 9, Ins 64 3, Del 16]" rbt_blank]
  by (simp add: del_entry_def)

text \<open>
  C2. Inserting a node that is not in the tree succeeds (no fault, both loops end) and
  puts its entry right behind every entry that does not compare greater; the tree stays
  well-formed, balanced and ordered, and its cardinality field counts the entries.
\<close>

theorem rbt_ins_correct:
  assumes "comparator_laws (rbt_comparator t) K" and "rbt_seq (rbt_comparator t) K t es"
    and "x \<noteq> NULL" and "x \<notin> fst ` set es" and "get_key t x = Some k" and "k \<in> K"
  shows "\<exists>t'. rbt_ins t x = Some t' \<and>
    rbt_seq (rbt_comparator t) K t' (ins_entry (rbt_comparator t) x k es)"
  using comparator_laws.rbt_ins_seq [OF assms] by blast

theorem rbt_ins_correct_witness:
  "\<exists>t'. rbt_ins (rbn_init 16 7 (rbt_init (\<lambda>a b. a - b :: int) rbt_blank)) 16 = Some t' \<and>
     rbt_seq (\<lambda>a b. a - b) UNIV t' [(16, 7)]"
  using rbt_ins_correct [of "rbn_init 16 7 (rbt_init (\<lambda>a b. a - b :: int) rbt_blank)" UNIV "[]" 16 7]
    int_comparator
  by (simp add: get_key_rbn_init rbt_seq_rbn_init rbt_seq_init)

text \<open>
  C3. Deleting a node of the tree succeeds (no fault, the rebalancing recursion ends),
  removes exactly its entry, and leaves a balanced ordered tree with one entry less. It needs
  no law of the comparator: deletion never calls it.
\<close>

theorem rbt_del_correct:
  assumes "rbt_seq cmp K t es" and "n \<in> fst ` set es"
  shows "\<exists>t'. rbt_del t n = Some t' \<and> rbt_seq cmp K t' (del_entry n es)"
  using rbt_del_seq [OF assms] by blast

lemma run_ops_example:
  "\<exists>t'. run_ops [Ins 16 7, Ins 32 3, Ins 48 9] (rbt_init (\<lambda>a b. a - b :: int) rbt_blank)
      = Some t' \<and> rbt_seq (\<lambda>a b. a - b) UNIV t' [(32, 3), (16, 7), (48, 9)]"
  using comparator_laws.run_ops_seq [OF int_comparator rbt_seq_init, of "[Ins 16 7, Ins 32 3, Ins 48 9]" rbt_blank]
  by simp

theorem rbt_del_correct_witness:
  "\<exists>t t'. rbt_seq (\<lambda>a b. a - b :: int) UNIV t [(32, 3), (16, 7), (48, 9)] \<and> rbt_del t 16 = Some t' \<and>
     rbt_seq (\<lambda>a b. a - b) UNIV t' [(32, 3), (48, 9)]"
proof -
  obtain t where "rbt_seq (\<lambda>a b. a - b :: int) UNIV t [(32, 3), (16, 7), (48, 9)]"
    using run_ops_example by blast
  then show ?thesis using rbt_del_correct [of "\<lambda>a b. a - b :: int" UNIV t "[(32, 3), (16, 7), (48, 9)]" 16]
    by (auto simp: del_entry_def)
qed

text \<open>
  C4. The searches end and return what they promise: \<^verbatim>\<open>rbt_find\<close> an entry that compares equal,
  or \<^verbatim>\<open>NULL\<close> when there is none; \<^verbatim>\<open>rbt_find_glb\<close> a greatest entry that is not above the key;
  \<^verbatim>\<open>rbt_find_lub\<close> a least entry that is not below it.
\<close>

theorem rbt_search_correct:
  assumes "comparator_laws cmp K" and "rbt_seq cmp K t es" and "key \<in> K"
  shows "\<exists>a g l. rbt_find t key = Some a \<and> found_in cmp key es a \<and>
    rbt_find_glb t key = Some g \<and> glb_of cmp key es NULL g \<and>
    rbt_find_lub t key = Some l \<and> lub_of cmp key es NULL l"
  using comparator_laws.rbt_search_seq [OF assms] by blast

theorem rbt_search_correct_witness:
  "\<exists>t. rbt_find t 9 = Some 48 \<and> rbt_find t 4 = Some NULL \<and>
     rbt_find_glb t (8::int) = Some 16 \<and> rbt_find_lub t 8 = Some 48"
proof -
  obtain t where "rbt_seq (\<lambda>a b. a - b :: int) UNIV t [(32, 3), (16, 7), (48, 9)]"
    using run_ops_example by blast
  note * = rbt_search_correct [OF int_comparator this UNIV_I]
  have "rbt_find t 9 = Some 48" "rbt_find t 4 = Some NULL"
    using *[of 9] *[of 4] by (auto simp: found_in_def)
  moreover have "rbt_find_glb t 8 = Some 16" "rbt_find_lub t 8 = Some 48"
    using *[of 8] by (auto simp: glb_of_def lub_of_def extreme_def)
  ultimately show ?thesis by blast
qed

text \<open>
  C5. \<^verbatim>\<open>rbt_min\<close> and \<^verbatim>\<open>rbt_max\<close> return the ends of the sequence of entries, \<^verbatim>\<open>rbn_succ\<close> and
  \<^verbatim>\<open>rbn_pred\<close> its neighbours, \<^verbatim>\<open>NULL\<close> at the ends; so \<^verbatim>\<open>RBT_FOREACH\<close> visits every entry once
  and in order.
\<close>

theorem rbt_iterate_correct:
  assumes "rbt_rep t (xs @ (a, k) # ys)"
  shows "rbt_min t = Some (first_addr (xs @ (a, k) # ys)) \<and> rbt_max t = Some (last_addr (xs @ (a, k) # ys)) \<and>
    rbn_succ t a = Some (first_addr ys) \<and> rbn_pred t a = Some (last_addr xs)"
  using rbt_repE [OF assms] rbn_min_correct [of t "[]"] rbn_max_correct [of t "[]"]
    rbn_succ_rep [OF assms] rbn_pred_rep [OF assms]
  unfolding rbt_min_def rbt_max_def by metis

theorem rbt_iterate_correct_witness:
  "\<exists>t. rbt_seq (\<lambda>a b. a - b :: int) UNIV t [(32, 3), (16, 7), (48, 9)] \<and>
     rbt_min t = Some 32 \<and> rbt_max t = Some 48 \<and> rbn_succ t 16 = Some 48 \<and> rbn_pred t 16 = Some 32"
proof -
  obtain t where "rbt_seq (\<lambda>a b. a - b :: int) UNIV t [(32, 3), (16, 7), (48, 9)]"
    using run_ops_example by blast
  then show ?thesis using rbt_iterate_correct [of t "[(32, 3)]" 16 7 "[(48, 9)]"]
    by (auto simp: rbt_seq_def)
qed

text \<open>
  C6. \<^verbatim>\<open>rbt_traverse\<close> ends, calls its callback on the entries from left to right until it
  returns a status other than 0, and the levels it reports are logarithmic: with \<open>n\<close> entries,
  level \<open>i\<close> only occurs when \<open>2 ^ (i div 2 + 1) \<le> n + 1\<close>.
\<close>

theorem rbt_traverse_correct:
  assumes "rbt_rep t es"
  shows "\<exists>ls. length ls = length es \<and> (\<forall>i \<in> set ls. 2 ^ (i div 2 + 1) \<le> length es + 1) \<and>
    rbt_traverse t f d = Some (visit f (zip (map fst es) ls) d)"
  by (rule rbt_traverse_rep [OF assms])

theorem rbt_traverse_correct_witness:
  "\<exists>t. rbt_rep t [(32, 3), (16, 7), (48, 9::int)] \<and>
     rbt_traverse t (\<lambda>a d _. (0, d @ [a])) [] = Some (0, [32, 16, 48])"
proof -
  obtain t where "rbt_rep t [(32, 3), (16, 7), (48, 9::int)]"
    using run_ops_example by (auto simp: rbt_seq_def)
  moreover from rbt_traverse_correct [OF this, of "\<lambda>a d _. (0, d @ [a])" "[]"]
  obtain ls where "length ls = Suc (Suc (Suc 0))" "rbt_traverse t (\<lambda>a d _. (0, d @ [a])) [] =
      Some (visit (\<lambda>a d _. (0, d @ [a])) (zip [32, 16, 48] ls) [])" by (elim exE conjE) simp
  moreover from this(1) obtain i j l where "ls = [i, j, l]" by (auto simp: length_Suc_conv)
  ultimately show ?thesis by auto
qed

text \<open>
  The self-check \<^verbatim>\<open>rbt_verify\<close> passes all its assertions on every tree that a history of
  insertions and deletions can produce.
\<close>

theorem rbt_verify_history:
  assumes "comparator_laws cmp K" and "ops_ok cmp K ops []" and "run_ops ops (rbt_init cmp t) = Some t'"
  shows "rbt_verify t' = Some ()"
  using comparator_laws.run_ops_seq [OF assms(1) rbt_seq_init assms(2), of t] assms(3) rbt_verify_rep
  by (auto simp: rbt_seq_def)

theorem rbt_verify_history_witness:
  "\<exists>t'. run_ops [Ins 16 7, Ins 32 3, Ins 48 9] (rbt_init (\<lambda>a b. a - b :: int) rbt_blank) = Some t' \<and>
     rbt_verify t' = Some ()"
  using run_ops_example
    rbt_verify_history [OF int_comparator, of "[Ins 16 7, Ins 32 3, Ins 48 9]" rbt_blank] by auto

end
