(* ===== verification/MMalloc.thy ===== *)
theory MMalloc
  imports RbtSpec
begin

section \<open>The region allocator (lib/src/mmalloc/mmalloc.c): the code\<close>

text \<open>
  \<^verbatim>\<open>mmalloc\<close> hands out pieces of one mapped region. Every piece, allocated or free, starts
  with a \<^verbatim>\<open>struct mm_prefix\<close>; the free ones are in two red-black trees, one ordered by
  size and one by address. The state is the C \<^verbatim>\<open>struct mm_region\<close> with the prefixes
  the region holds, by address; a tree node embedded in a prefix is identified with
  the address of the prefix. Sizes and counts are 64-bit words with the C operators;
  a count is in units of grains. The lock is the plain, non-recursive
  \<^verbatim>\<open>pthread_mutex_t\<close>: locking it again in the same thread never returns.
  \<^verbatim>\<open>malloc\<close>, \<^verbatim>\<open>mmap\<close> and the environment are arguments of \<open>mm_init\<close>.
  The blocks under \<^verbatim>\<open>LDMS_MM_DEBUG\<close> and \<^verbatim>\<open>DEBUG\<close> only print and are left out.
\<close>

unbundle bit_operations_syntax

record mm_prefix =
  pfx_count :: u64
  pfx_pfx :: addr

record mm_region =
  mmr_grain :: u64
  mmr_grain_bits :: nat
  mmr_size :: u64
  mmr_start :: addr
  mmr_lock :: bool
  mmr_size_tree :: "u64 rbt"
  mmr_addr_tree :: "addr rbt"
  mmr_pfx :: "addr \<Rightarrow> mm_prefix option"
  mm_is_disable_mm_free :: bool

text \<open>
  \<^verbatim>\<open>(int)a - b\<close> with \<^verbatim>\<open>size_t b\<close> is an unsigned 64-bit subtraction whose result is cut to an
  \<^verbatim>\<open>int\<close>: only the low 32 bits count.
\<close>

definition compare_count :: "u64 \<Rightarrow> u64 \<Rightarrow> int" where
  "compare_count a b = sint (ucast (scast (ucast a :: u32) - b :: u64) :: u32)"

definition compare_addr :: "addr \<Rightarrow> addr \<Rightarrow> int" where
  "compare_addr a b = (if a > b then 1 else if a < b then -1 else 0)"

definition MMR_ROUNDUP :: "u64 \<Rightarrow> u64 \<Rightarrow> u64" where
  "MMR_ROUNDUP s r = (s + (r - 1)) AND NOT (r - 1)"

text \<open>Two \<^verbatim>\<open>struct rbn\<close> of 40 bytes each, a \<^verbatim>\<open>size_t\<close> and a pointer.\<close>

definition sizeof_mm_prefix :: nat where
  "sizeof_mm_prefix = 96"

text \<open>The loop doubles until the power is not below \<open>n\<close>; it has no exit when it wraps to 0.\<close>

partial_function (option) get_pow2_loop :: "u64 \<Rightarrow> u64 \<Rightarrow> nat \<Rightarrow> (u64 \<times> nat) option" where
  "get_pow2_loop n pow2 bits =
     (if pow2 < n then get_pow2_loop n (push_bit 1 pow2) (bits + 1) else Some (pow2, bits))"

definition get_pow2 :: "u64 \<Rightarrow> (u64 \<times> nat) option" where
  "get_pow2 n = get_pow2_loop n 1 0"

record mm_info =
  mmi_grain :: u64
  mmi_grain_bits :: nat
  mmi_size :: u64
  mmi_start :: addr

definition mm_get_info :: "mm_region \<Rightarrow> mm_info" where
  "mm_get_info R = \<lparr>mmi_grain = mmr_grain R, mmi_grain_bits = mmr_grain_bits R,
     mmi_size = mmr_size R, mmi_start = mmr_start R\<rparr>"

subsection \<open>Steps the functions share\<close>

definition mm_lock :: "mm_region \<Rightarrow> mm_region option" where
  "mm_lock R = (if mmr_lock R then None else Some (R\<lparr>mmr_lock := True\<rparr>))"

definition mm_unlock :: "mm_region \<Rightarrow> mm_region" where
  "mm_unlock R = R\<lparr>mmr_lock := False\<rparr>"

definition get_count :: "mm_region \<Rightarrow> addr \<Rightarrow> u64 option" where
  "get_count R p = map_option pfx_count (mmr_pfx R p)"

definition get_pfx :: "mm_region \<Rightarrow> addr \<Rightarrow> addr option" where
  "get_pfx R p = map_option pfx_pfx (mmr_pfx R p)"

text \<open>\<^verbatim>\<open>p->count = c; p->pfx = p\<close>.\<close>

definition write_pfx :: "addr \<Rightarrow> u64 \<Rightarrow> mm_region \<Rightarrow> mm_region" where
  "write_pfx p c R = R\<lparr>mmr_pfx := (mmr_pfx R)(p \<mapsto> \<lparr>pfx_count = c, pfx_pfx = p\<rparr>)\<rparr>"

text \<open>The byte address of the grain \<open>c\<close> of a chunk.\<close>

definition grain_addr :: "mm_region \<Rightarrow> addr \<Rightarrow> u64 \<Rightarrow> addr" where
  "grain_addr R p c = p + unat (push_bit (mmr_grain_bits R) c)"

text \<open>
  A chunk enters the trees: \<^verbatim>\<open>rbn_init\<close> of both nodes with the keys \<^verbatim>\<open>count\<close> and \<^verbatim>\<open>pfx\<close>, then
  \<^verbatim>\<open>rbt_ins\<close> of both.
\<close>

definition mm_trees_ins :: "addr \<Rightarrow> mm_region \<Rightarrow> mm_region option" where
  "mm_trees_ins n R = do {
     c \<leftarrow> get_count R n;
     x \<leftarrow> get_pfx R n;
     st \<leftarrow> rbt_ins (rbn_init n c (mmr_size_tree R)) n;
     at \<leftarrow> rbt_ins (rbn_init n x (mmr_addr_tree R)) n;
     Some (R\<lparr>mmr_size_tree := st, mmr_addr_tree := at\<rparr>) }"

definition mm_trees_del :: "addr \<Rightarrow> mm_region \<Rightarrow> mm_region option" where
  "mm_trees_del q R = do {
     st \<leftarrow> rbt_del (mmr_size_tree R) q;
     at \<leftarrow> rbt_del (mmr_addr_tree R) q;
     Some (R\<lparr>mmr_size_tree := st, mmr_addr_tree := at\<rparr>) }"

subsection \<open>mm_init, mm_alloc, mm_free, mm_realloc, mm_stats\<close>

text \<open>
  \<open>calloc_ok\<close> is the outcome of \<^verbatim>\<open>calloc\<close>, \<open>mapped\<close> of \<^verbatim>\<open>mmap\<close> (an address, or the
  \<^verbatim>\<open>errno\<close> it sets), \<open>env\<close> the value of \<^verbatim>\<open>MMALLOC_DISABLE_MM_FREE\<close> if it is set, \<open>blank\<close> the
  zero-filled trees.
\<close>

definition mm_init ::
  "bool \<Rightarrow> errno + addr \<Rightarrow> int option \<Rightarrow> u64 rbt \<Rightarrow> addr rbt \<Rightarrow> u64 \<Rightarrow> u64 \<Rightarrow> (errno + mm_region) option" where
  "mm_init calloc_ok mapped env st0 at0 sz grain =
     (if \<not> calloc_ok then Some (Inl ENOMEM)
      else let sz = MMR_ROUNDUP sz 4096 in
        case mapped of
          Inl e \<Rightarrow> Some (Inl e)
        | Inr start \<Rightarrow> do {
            (pow2, bits) \<leftarrow> get_pow2 grain;
            let R = \<lparr>mmr_grain = pow2, mmr_grain_bits = bits, mmr_size = sz, mmr_start = start,
                     mmr_lock = False, mmr_size_tree = rbt_init compare_count st0,
                     mmr_addr_tree = rbt_init compare_addr at0, mmr_pfx = Map.empty,
                     mm_is_disable_mm_free = False\<rparr>;
            let R = write_pfx start (sz div pow2) R;
            R \<leftarrow> mm_trees_ins start R;
            Some (Inr (case env of
                None \<Rightarrow> R | Some v \<Rightarrow> R\<lparr>mm_is_disable_mm_free := (v \<noteq> 0)\<rparr>)) })"

definition mm_alloc :: "u64 \<Rightarrow> mm_region \<Rightarrow> (addr \<times> mm_region) option" where
  "mm_alloc sz R = do {
     let sz = sz + of_nat sizeof_mm_prefix;
     let sz = MMR_ROUNDUP sz (mmr_grain R);
     let count = drop_bit (mmr_grain_bits R) sz;
     R \<leftarrow> mm_lock R;
     p \<leftarrow> rbt_find_lub (mmr_size_tree R) count;
     if p = NULL then Some (NULL, mm_unlock R)
     else do {
       R \<leftarrow> mm_trees_del p R;
       pc \<leftarrow> get_count R p;
       let remainder = pc - count;
       R \<leftarrow> (if remainder \<noteq> 0 then do {
               let n = grain_addr R p count;
               mm_trees_ins n (write_pfx n remainder R) }
             else Some R);
       let R = write_pfx p count R;
       Some (p + sizeof_mm_prefix, mm_unlock R) } }"

text \<open>The two coalescing steps of \<^verbatim>\<open>mm_free\<close>, with the lesser and with the greater sibling.\<close>

definition coalesce_lesser :: "addr \<Rightarrow> mm_region \<Rightarrow> (addr \<times> mm_region) option" where
  "coalesce_lesser p R = do {
     x \<leftarrow> get_pfx R p;
     q \<leftarrow> rbt_find_glb (mmr_addr_tree R) x;
     if q \<noteq> NULL then do {
       qc \<leftarrow> get_count R q;
       let r = grain_addr R q qc;
       if r = p then do {
         R \<leftarrow> mm_trees_del q R;
         pc \<leftarrow> get_count R p;
         Some (q, R\<lparr>mmr_pfx := (mmr_pfx R)(q := map_option (pfx_count_update (\<lambda>c. c + pc)) (mmr_pfx R q))\<rparr>) }
       else Some (p, R) }
     else Some (p, R) }"

definition coalesce_greater :: "addr \<Rightarrow> mm_region \<Rightarrow> mm_region option" where
  "coalesce_greater p R = do {
     x \<leftarrow> get_pfx R p;
     q \<leftarrow> rbt_find_lub (mmr_addr_tree R) x;
     if q \<noteq> NULL then do {
       pc \<leftarrow> get_count R p;
       let r = grain_addr R p pc;
       if r = q then do {
         R \<leftarrow> mm_trees_del q R;
         qc \<leftarrow> get_count R q;
         Some (R\<lparr>mmr_pfx := (mmr_pfx R)(p := map_option (pfx_count_update (\<lambda>c. c + qc)) (mmr_pfx R p))\<rparr>) }
       else Some R }
     else Some R }"

definition mm_free :: "addr \<Rightarrow> mm_region \<Rightarrow> mm_region option" where
  "mm_free d R =
     (if mm_is_disable_mm_free R then Some R
      else if d = NULL then Some R
      else do {
        let p = d - sizeof_mm_prefix;
        R \<leftarrow> mm_lock R;
        (p, R) \<leftarrow> coalesce_lesser p R;
        R \<leftarrow> coalesce_greater p R;
        pc \<leftarrow> get_count R p;
        R \<leftarrow> mm_trees_ins p (write_pfx p pc R);
        Some (mm_unlock R) })"

text \<open>
  The in-place growth of \<^verbatim>\<open>mm_realloc\<close>: the new state, or \<open>Inl\<close> when the sibling is not free,
  not adjacent or too small.
\<close>

definition realloc_in_place :: "addr \<Rightarrow> u64 \<Rightarrow> mm_region \<Rightarrow> (mm_region + mm_region) option" where
  "realloc_in_place p newcount R = do {
     x \<leftarrow> get_pfx R p;
     q \<leftarrow> rbt_find_lub (mmr_addr_tree R) x;
     if q \<noteq> NULL then do {
       pc \<leftarrow> get_count R p;
       if grain_addr R p pc = q then do {
         qc \<leftarrow> get_count R q;
         if pc + qc \<ge> newcount then do {
           R \<leftarrow> mm_trees_del q R;
           let remainder = pc + qc - newcount;
           R \<leftarrow> (if remainder \<noteq> 0 then do {
                   let r = grain_addr R p newcount;
                   mm_trees_ins r (write_pfx r remainder R) }
                 else Some R);
           Some (Inr (R\<lparr>mmr_pfx := (mmr_pfx R)(p := map_option (pfx_count_update (\<lambda>_. newcount)) (mmr_pfx R p))\<rparr>)) }
         else Some (Inl R) }
       else Some (Inl R) }
     else Some (Inl R) }"

text \<open>The copy of the data is left out; the call of \<^verbatim>\<open>mm_alloc\<close> is made with the lock held.\<close>

definition mm_realloc :: "addr \<Rightarrow> u64 \<Rightarrow> mm_region \<Rightarrow> (addr \<times> mm_region) option" where
  "mm_realloc ptr newsize R = do {
     let newsize = MMR_ROUNDUP newsize (mmr_grain R);
     let newcount = drop_bit (mmr_grain_bits R) newsize;
     let p = ptr - sizeof_mm_prefix;
     R \<leftarrow> mm_lock R;
     res \<leftarrow> realloc_in_place p newcount R;
     case res of
       Inr R \<Rightarrow> Some (p + sizeof_mm_prefix, mm_unlock R)
     | Inl R \<Rightarrow> do {
         (newbuf, R) \<leftarrow> mm_alloc newsize R;
         c_assert (newbuf \<noteq> NULL);
         let R = mm_unlock R;
         R \<leftarrow> mm_free ptr R;
         Some (newbuf, R) } }"

record mm_stat =
  mms_size :: u64
  mms_grain :: u64
  mms_chunks :: u64
  mms_bytes :: u64
  mms_largest :: u64
  mms_smallest :: u64

definition heap_stat :: "mm_region \<Rightarrow> addr \<Rightarrow> mm_stat option \<Rightarrow> nat \<Rightarrow> int \<times> mm_stat option" where
  "heap_stat R a s level = (0, do {
     s \<leftarrow> s;
     c \<leftarrow> get_count R a;
     let s = s\<lparr>mms_chunks := mms_chunks s + 1, mms_bytes := mms_bytes s + c\<rparr>;
     let s = (if c < mms_smallest s then s\<lparr>mms_smallest := c\<rparr> else s);
     Some (if c > mms_largest s then s\<lparr>mms_largest := c\<rparr> else s) })"

definition mm_stats :: "mm_region option \<Rightarrow> mm_stat option" where
  "mm_stats mmr = (case mmr of
     None \<Rightarrow> Some \<lparr>mms_size = 0, mms_grain = 0, mms_chunks = 0, mms_bytes = 0, mms_largest = 0, mms_smallest = 0\<rparr>
   | Some R \<Rightarrow> do {
       R \<leftarrow> mm_lock R;
       (rc, s) \<leftarrow> rbt_traverse (mmr_addr_tree R) (heap_stat R)
         (Some \<lparr>mms_size = mmr_size R, mms_grain = mmr_grain R, mms_chunks = 0, mms_bytes = 0,
                mms_largest = 0, mms_smallest = mmr_size R + 1\<rparr>);
       s })"

declare get_pow2_loop.simps [code]

end
