(* ===== verification/MMallocInv.thy ===== *)
theory MMallocInv
  imports MMalloc
begin

section \<open>The region allocator: layout and invariant\<close>

text \<open>
  The abstract view of a region is its layout: the list of its chunks from the lowest
  address up, each with its number of grains and whether it is free. The invariant
  ties the prefixes and both trees to the layout. Four moves on layouts (take a chunk
  out of the trees, put it in, split an allocated chunk, merge two) are all the
  operations of \<^verbatim>\<open>mmalloc.c\<close> do.
\<close>

subsection \<open>The comparators\<close>

definition small_counts :: "u64 set" where
  "small_counts = {c. unat c < 2 ^ 31}"

lemma compare_count_eq: "compare_count a b = sint (ucast a - ucast b :: u32)"
proof -
  have down: "is_down (ucast :: u64 \<Rightarrow> u32)" by (simp add: is_down_def target_size source_size)
  have eq: "scast (ucast a :: u32) - b = (word_of_int (sint (ucast a :: u32) - uint b) :: u64)" by simp
  have "ucast (scast (ucast a :: u32) - b :: u64) = (word_of_int (sint (ucast a :: u32) - uint b) :: u32)"
    unfolding eq by (rule ucast_down_wi [OF down])
  also have "\<dots> = ucast a - ucast b" by simp
  finally show ?thesis by (simp add: compare_count_def)
qed

lemma compare_count_small:
  assumes "a \<in> small_counts" and "b \<in> small_counts"
  shows "compare_count a b = int (unat a) - int (unat b)"
proof -
  have range: "- (2 ^ 31) \<le> int m - int n \<and> int m - int n < 2 ^ 31" if "m < 2 ^ 31" "n < 2 ^ 31" for m n :: nat
    using that by simp
  have "compare_count a b = sint (word_of_int (int (unat a) - int (unat b)) :: u32)"
    by (simp add: compare_count_eq)
  also have "\<dots> = int (unat a) - int (unat b)" unfolding sint_sbintrunc'
    using range [of "unat a" "unat b"] assms by (intro signed_take_bit_int_eq_self) (auto simp: small_counts_def)
  finally show ?thesis .
qed

interpretation cnt: comparator_laws compare_count small_counts
  by unfold_locales (auto simp: compare_count_small)

interpretation adr: comparator_laws compare_addr UNIV
  by unfold_locales (auto simp: compare_addr_def split: if_splits)

subsection \<open>Layouts\<close>

type_synonym layout = "(nat \<times> bool) list"

definition grains :: "layout \<Rightarrow> nat" where
  "grains L = sum_list (map fst L)"

fun chunks :: "nat \<Rightarrow> addr \<Rightarrow> layout \<Rightarrow> (addr \<times> nat \<times> bool) list" where
  "chunks b a [] = []"
| "chunks b a ((n, f) # L) = (a, n, f) # chunks b (a + n * 2 ^ b) L"

definition frees :: "nat \<Rightarrow> addr \<Rightarrow> layout \<Rightarrow> (addr \<times> nat) list" where
  "frees b a L = map (\<lambda>(a, n, f). (a, n)) (filter (\<lambda>(a, n, f). f) (chunks b a L))"

fun coalesced :: "layout \<Rightarrow> bool" where
  "coalesced ((n, f) # (m, g) # L) \<longleftrightarrow> \<not> (f \<and> g) \<and> coalesced ((m, g) # L)"
| "coalesced L \<longleftrightarrow> True"

definition pos :: "layout \<Rightarrow> bool" where
  "pos L \<longleftrightarrow> (\<forall>p \<in> set L. 0 < fst p)"

lemma grains_simps [simp]:
  "grains [] = 0" "grains (p # L) = fst p + grains L" "grains (X @ Y) = grains X + grains Y"
  by (simp_all add: grains_def)

lemma pos_simps [simp]:
  "pos []" "pos (p # L) \<longleftrightarrow> 0 < fst p \<and> pos L" "pos (X @ Y) \<longleftrightarrow> pos X \<and> pos Y"
  by (auto simp: pos_def)

lemma chunks_append [simp]: "chunks b a (X @ Y) = chunks b a X @ chunks b (a + grains X * 2 ^ b) Y"
  by (induction b a X rule: chunks.induct) (simp_all add: add_mult_distrib add.assoc)

lemma frees_simps [simp]:
  "frees b a [] = []"
  "frees b a ((n, f) # L) = (if f then [(a, n)] else []) @ frees b (a + n * 2 ^ b) L"
  "frees b a (X @ Y) = frees b a X @ frees b (a + grains X * 2 ^ b) Y"
  by (simp_all add: frees_def)

lemma chunks_range:
  "(p, n, f) \<in> set (chunks b a L) \<Longrightarrow> a \<le> p \<and> p + n * 2 ^ b \<le> a + grains L * 2 ^ b"
  by (induction b a L rule: chunks.induct) (auto simp: add_mult_distrib)

lemma frees_chunks: "(p, n) \<in> set (frees b a L) \<longleftrightarrow> (p, n, True) \<in> set (chunks b a L)"
  by (force simp: frees_def)

lemma chunks_pos: "pos L \<Longrightarrow> (p, n, f) \<in> set (chunks b a L) \<Longrightarrow> 0 < n"
  by (induction b a L rule: chunks.induct) auto

lemma chunks_below:
  assumes "pos L" and "(p, n, f) \<in> set (chunks b a L)"
  shows "p < a + grains L * 2 ^ b"
proof -
  have "0 < n * 2 ^ b" using chunks_pos [OF assms] by simp
  with chunks_range [OF assms(2)] show ?thesis by linarith
qed

lemma chunks_split:
  "(p, n, f) \<in> set (chunks b a L) \<Longrightarrow> \<exists>X Y. L = X @ (n, f) # Y \<and> p = a + grains X * 2 ^ b"
proof (induction b a L rule: chunks.induct)
  case (2 b a m g L)
  from 2(2) consider "(p, n, f) = (a, m, g)" | "(p, n, f) \<in> set (chunks b (a + m * 2 ^ b) L)" by auto
  then show ?case
  proof cases
    case 1
    then have "(m, g) # L = [] @ (n, f) # L \<and> p = a + grains [] * 2 ^ b" by simp
    then show ?thesis by blast
  next
    case 2
    with "2.IH" obtain X Y where "L = X @ (n, f) # Y" "p = a + m * 2 ^ b + grains X * 2 ^ b" by blast
    then have "(m, g) # L = ((m, g) # X) @ (n, f) # Y \<and> p = a + grains ((m, g) # X) * 2 ^ b"
      by (simp add: add_mult_distrib)
    then show ?thesis by blast
  qed
qed simp

lemma frees_split:
  "(p, n) \<in> set (frees b a L) \<Longrightarrow> \<exists>X Y. L = X @ (n, True) # Y \<and> p = a + grains X * 2 ^ b"
  using chunks_split by (fastforce simp: frees_chunks)

lemma frees_above: "e \<in> set (frees b a L) \<Longrightarrow> a \<le> fst e"
  using chunks_range [of "fst e" "snd e" True b a L] frees_chunks [of "fst e" "snd e" b a L] by simp

lemma frees_below: "pos L \<Longrightarrow> e \<in> set (frees b a L) \<Longrightarrow> fst e < a + grains L * 2 ^ b"
  using chunks_below [of L "fst e" "snd e" True b a] frees_chunks [of "fst e" "snd e" b a L] by simp

subsection \<open>The invariant\<close>

text \<open>
  \<open>mm_core\<close> is the part that also holds while the lock is held and before
  coalescing. A prefix is 96 bytes: with a grain of at least that size (\<open>7 \<le> bits\<close>) prefixes
  of different chunks do not overlap, which is what makes the map from addresses to
  prefixes faithful.
\<close>

definition mm_core :: "mm_region \<Rightarrow> layout \<Rightarrow> bool" where
  "mm_core R L \<longleftrightarrow>
     mmr_grain R = 2 ^ mmr_grain_bits R \<and> 7 \<le> mmr_grain_bits R \<and> mmr_grain_bits R < 64 \<and> 0 < mmr_start R \<and>
     grains L < 2 ^ 31 \<and> grains L * 2 ^ mmr_grain_bits R < 2 ^ 64 \<and> pos L \<and>
     (\<forall>(p, n, f) \<in> set (chunks (mmr_grain_bits R) (mmr_start R) L).
        mmr_pfx R p = Some \<lparr>pfx_count = of_nat n, pfx_pfx = p\<rparr>) \<and>
     rbt_seq compare_addr UNIV (mmr_addr_tree R)
       (map (\<lambda>(p, n). (p, p)) (frees (mmr_grain_bits R) (mmr_start R) L)) \<and>
     (\<exists>es. rbt_seq compare_count small_counts (mmr_size_tree R) es \<and>
        set es = (\<lambda>(p, n). (p, of_nat n)) ` set (frees (mmr_grain_bits R) (mmr_start R) L))"

definition mm_inv :: "mm_region \<Rightarrow> layout \<Rightarrow> bool" where
  "mm_inv R L \<longleftrightarrow> mm_core R L \<and> coalesced L \<and> \<not> mmr_lock R"

text \<open>The address of the chunk that follows the chunks of \<open>X\<close>.\<close>

definition chunk_addr :: "mm_region \<Rightarrow> layout \<Rightarrow> addr" where
  "chunk_addr R X = mmr_start R + grains X * 2 ^ mmr_grain_bits R"

lemma unat_count: "n < 2 ^ 31 \<Longrightarrow> unat (of_nat n :: u64) = n"
  by (simp add: unat_of_nat)

lemma unat_push_bit_count:
  assumes "n * 2 ^ b < 2 ^ 64" and "b < 64"
  shows "unat (push_bit b (of_nat n) :: u64) = n * 2 ^ b"
proof -
  have "push_bit b (of_nat n :: u64) = of_nat (n * 2 ^ b)" by (simp add: push_bit_eq_mult)
  then show ?thesis using assms(1) by (simp add: unat_of_nat del: of_nat_mult of_nat_power)
qed

subsection \<open>The four moves\<close>

lemma ins_entry_middle:
  "(\<And>p. p \<in> set xs \<Longrightarrow> cmp (snd p) k \<le> 0) \<Longrightarrow> (\<And>p. p \<in> set ys \<Longrightarrow> cmp (snd p) k > 0) \<Longrightarrow>
   ins_entry cmp x k (xs @ ys) = xs @ (x, k) # ys"
proof (induction xs)
  case Nil
  have "\<not> cmp (snd (hd ys)) k \<le> 0" if "ys \<noteq> []" using Nil(2) [of "hd ys"] that by simp
  then show ?case by (cases ys) auto
qed auto

lemma rbt_seq_distinct: "rbt_seq cmp K t es \<Longrightarrow> distinct (map fst es)"
  unfolding rbt_seq_def using rbt_rep_distinct by blast

lemma mm_core_chunk:
  assumes "mm_core R (X @ (n, f) # Y)"
  shows "0 < n" and "n < 2 ^ 31" and "pos X" and "pos Y" and "0 < chunk_addr R X"
    and "get_count R (chunk_addr R X) = Some (of_nat n)" and "get_pfx R (chunk_addr R X) = Some (chunk_addr R X)"
    and "grain_addr R (chunk_addr R X) (of_nat n) = chunk_addr R (X @ [(n, f)])"
proof -
  have "n * 2 ^ mmr_grain_bits R \<le> grains (X @ (n, f) # Y) * 2 ^ mmr_grain_bits R"
    by (intro mult_le_mono1) simp
  also have "\<dots> < 2 ^ 64" using assms unfolding mm_core_def by blast
  finally have "n * 2 ^ mmr_grain_bits R < 2 ^ 64" .
  then show "grain_addr R (chunk_addr R X) (of_nat n) = chunk_addr R (X @ [(n, f)])"
    using assms by (simp add: grain_addr_def unat_push_bit_count chunk_addr_def mm_core_def add_mult_distrib)
qed (use assms in \<open>auto simp: mm_core_def get_count_def get_pfx_def chunk_addr_def\<close>)

text \<open>Entries of the other chunks lie on their side of the chunk.\<close>

lemma frees_sides:
  assumes "pos X" and "pos Y" and "0 < n"
  shows "e \<in> set (frees b a X) \<Longrightarrow> fst e < a + grains X * 2 ^ b"
    and "e \<in> set (frees b (a + grains X * 2 ^ b + n * 2 ^ b) Y) \<Longrightarrow> a + grains X * 2 ^ b < fst e"
proof -
  show "e \<in> set (frees b a X) \<Longrightarrow> fst e < a + grains X * 2 ^ b" by (rule frees_below [OF assms(1)])
  assume "e \<in> set (frees b (a + grains X * 2 ^ b + n * 2 ^ b) Y)"
  then have "a + grains X * 2 ^ b + n * 2 ^ b \<le> fst e" by (rule frees_above)
  moreover have "0 < n * 2 ^ b" using assms(3) by simp
  ultimately show "a + grains X * 2 ^ b < fst e" by linarith
qed

lemma move_take:
  assumes core: "mm_core R (X @ (n, True) # Y)"
  shows "\<exists>R'. mm_trees_del (chunk_addr R X) R = Some R' \<and> mm_core R' (X @ (n, False) # Y) \<and>
    R' = R\<lparr>mmr_size_tree := mmr_size_tree R', mmr_addr_tree := mmr_addr_tree R'\<rparr>"
proof -
  let ?b = "mmr_grain_bits R" and ?p = "chunk_addr R X"
  let ?FX = "frees ?b (mmr_start R) X" and ?FY = "frees ?b (?p + n * 2 ^ ?b) Y"
  note c = mm_core_chunk [OF core]
  have at: "rbt_seq compare_addr UNIV (mmr_addr_tree R)
      (map (\<lambda>(p, n). (p, p)) ?FX @ (?p, ?p) # map (\<lambda>(p, n). (p, p)) ?FY)"
    using core by (simp add: mm_core_def chunk_addr_def)
  obtain es where es: "rbt_seq compare_count small_counts (mmr_size_tree R) es"
      "set es = (\<lambda>(p, n). (p, of_nat n)) ` set (?FX @ (?p, n) # ?FY)"
    using core by (auto simp: mm_core_def chunk_addr_def)
  obtain at' where at': "rbt_del (mmr_addr_tree R) ?p = Some at'" "rbt_seq compare_addr UNIV at'
      (del_entry ?p (map (\<lambda>(p, n). (p, p)) ?FX @ (?p, ?p) # map (\<lambda>(p, n). (p, p)) ?FY))"
    using rbt_del_seq [OF at, of ?p] by auto
  obtain st' where st': "rbt_del (mmr_size_tree R) ?p = Some st'"
      "rbt_seq compare_count small_counts st' (del_entry ?p es)"
    using rbt_del_seq [OF es(1), of ?p] es(2) by force
  have "del_entry ?p (map (\<lambda>(p, n). (p, p)) ?FX @ (?p, ?p) # map (\<lambda>(p, n). (p, p)) ?FY) =
      map (\<lambda>(p, n). (p, p)) (?FX @ ?FY)"
    unfolding del_entry_split [OF rbt_seq_distinct [OF at]] by simp
  moreover have "set (del_entry ?p es) = (\<lambda>(p, n). (p, of_nat n)) ` set (?FX @ ?FY)"
    unfolding del_entry_def set_filter es(2)
    using frees_sides [OF c(3,4,1), of _ ?b "mmr_start R"] by (force simp: chunk_addr_def)
  ultimately have "mm_core (R\<lparr>mmr_size_tree := st', mmr_addr_tree := at'\<rparr>) (X @ (n, False) # Y)"
    using core at'(2) st'(2) unfolding mm_core_def by (auto simp: chunk_addr_def)
  with at'(1) st'(1) show ?thesis by (simp add: mm_trees_del_def)
qed

lemma move_put:
  assumes core: "mm_core R (X @ (n, False) # Y)"
  shows "\<exists>R'. mm_trees_ins (chunk_addr R X) R = Some R' \<and> mm_core R' (X @ (n, True) # Y) \<and>
    R' = R\<lparr>mmr_size_tree := mmr_size_tree R', mmr_addr_tree := mmr_addr_tree R'\<rparr>"
proof -
  let ?b = "mmr_grain_bits R" and ?p = "chunk_addr R X"
  let ?FX = "frees ?b (mmr_start R) X" and ?FY = "frees ?b (?p + n * 2 ^ ?b) Y"
  note c = mm_core_chunk [OF core]
  let ?es = "map (\<lambda>(p, n). (p, p)) ?FX @ map (\<lambda>(p, n). (p, p)) ?FY"
  have sides: "e \<in> set ?FX \<Longrightarrow> fst e < ?p" "e \<in> set ?FY \<Longrightarrow> ?p < fst e" for e
    using frees_sides [OF c(3,4,1), of e ?b "mmr_start R"] by (simp_all add: chunk_addr_def)
  have at: "rbt_seq compare_addr UNIV (mmr_addr_tree R) ?es"
    using core by (simp add: mm_core_def chunk_addr_def)
  obtain es where es: "rbt_seq compare_count small_counts (mmr_size_tree R) es"
      "set es = (\<lambda>(p, n). (p, of_nat n)) ` set (?FX @ ?FY)"
    using core by (auto simp: mm_core_def chunk_addr_def)
  have fresh: "?p \<notin> fst ` set ?es" "?p \<notin> fst ` set es" unfolding es(2) using sides by force+
  obtain at' where at': "rbt_ins (rbn_init ?p ?p (mmr_addr_tree R)) ?p = Some at'"
      "rbt_seq compare_addr UNIV at' (ins_entry compare_addr ?p ?p ?es)"
    using adr.rbt_ins_seq [OF rbt_seq_rbn_init [OF at fresh(1)] _ fresh(1) get_key_rbn_init] c(5) by auto
  have small: "of_nat n \<in> small_counts" using c(2) by (simp add: small_counts_def unat_count)
  obtain st' where st': "rbt_ins (rbn_init ?p (of_nat n) (mmr_size_tree R)) ?p = Some st'"
      "rbt_seq compare_count small_counts st' (ins_entry compare_count ?p (of_nat n) es)"
    using cnt.rbt_ins_seq [OF rbt_seq_rbn_init [OF es(1) fresh(2)] _ fresh(2) get_key_rbn_init small] c(5) by auto
  have "ins_entry compare_addr ?p ?p ?es = map (\<lambda>(p, n). (p, p)) (?FX @ (?p, n) # ?FY)"
    by (subst ins_entry_middle) (use sides in \<open>force simp: compare_addr_def\<close>)+
  moreover have "set (ins_entry compare_count ?p (of_nat n) es) = (\<lambda>(p, n). (p, of_nat n)) ` set (?FX @ (?p, n) # ?FY)"
    by (simp add: set_ins_entry es(2))
  ultimately have "mm_core (R\<lparr>mmr_size_tree := st', mmr_addr_tree := at'\<rparr>) (X @ (n, True) # Y)"
    using core at'(2) st'(2) unfolding mm_core_def by (auto simp: chunk_addr_def)
  with at'(1) st'(1) c(6,7) show ?thesis by (simp add: mm_trees_ins_def)
qed

text \<open>Prefixes of the chunks before and behind a chunk are elsewhere.\<close>

lemma chunks_sides:
  assumes "pos X"
  shows "(p, k, f) \<in> set (chunks b a X) \<Longrightarrow> p < a + grains X * 2 ^ b"
    and "(p, k, f) \<in> set (chunks b c Y) \<Longrightarrow> c \<le> p"
  using chunks_below [OF assms] chunks_range [of p k f b c Y] by auto

lemma move_split:
  assumes core: "mm_core R (X @ (n + m, False) # Y)" and n: "0 < n" "0 < m"
  shows "mm_core (write_pfx (chunk_addr R X) (of_nat n) (write_pfx (chunk_addr R (X @ [(n, False)])) (of_nat m) R))
    (X @ (n, False) # (m, False) # Y)"
proof -
  let ?b = "mmr_grain_bits R" and ?p = "chunk_addr R X" and ?q = "chunk_addr R (X @ [(n, False)])"
  note c = mm_core_chunk [OF core]
  have q: "?q = ?p + n * 2 ^ ?b" by (simp add: chunk_addr_def add_mult_distrib)
  have lt: "?p < ?q" "?q < ?q + m * 2 ^ ?b" using n by (simp_all add: q)
  have X: "(p, k, f) \<in> set (chunks ?b (mmr_start R) X) \<Longrightarrow> p \<noteq> ?p \<and> p \<noteq> ?q" for p k f
    using chunks_sides(1) [OF c(3), of p k f ?b "mmr_start R"] lt(1) by (auto simp: chunk_addr_def)
  have Y: "(p, k, f) \<in> set (chunks ?b (?q + m * 2 ^ ?b) Y) \<Longrightarrow> p \<noteq> ?p \<and> p \<noteq> ?q" for p k f
    using chunks_sides(2) [OF c(3), of p k f ?b "?q + m * 2 ^ ?b" Y] lt by auto
  have eq: "?p + (n + m) * 2 ^ ?b = ?q + m * 2 ^ ?b" by (simp add: q add_mult_distrib)
  show ?thesis
    using core n lt X Y eq [unfolded chunk_addr_def] unfolding mm_core_def write_pfx_def
    by (fastforce simp: chunk_addr_def add_mult_distrib add.assoc)
qed

lemma move_merge:
  assumes core: "mm_core R (X @ (n, False) # (m, False) # Y)"
  shows "mm_core (R\<lparr>mmr_pfx := (mmr_pfx R)(chunk_addr R X :=
      map_option (pfx_count_update (\<lambda>c. c + of_nat m)) (mmr_pfx R (chunk_addr R X)))\<rparr>) (X @ (n + m, False) # Y)"
proof -
  let ?b = "mmr_grain_bits R" and ?p = "chunk_addr R X"
  note c = mm_core_chunk [OF core]
  have lt: "?p < ?p + n * 2 ^ ?b" using c(1) by simp
  have X: "(p, k, f) \<in> set (chunks ?b (mmr_start R) X) \<Longrightarrow> p \<noteq> ?p" for p k f
    using chunks_sides(1) [OF c(3), of p k f ?b "mmr_start R"] by (auto simp: chunk_addr_def)
  have Y: "(p, k, f) \<in> set (chunks ?b (?p + n * 2 ^ ?b + m * 2 ^ ?b) Y) \<Longrightarrow> p \<noteq> ?p" for p k f
    using chunks_sides(2) [OF c(3), of p k f ?b "?p + n * 2 ^ ?b + m * 2 ^ ?b" Y] lt by auto
  show ?thesis
    using core X Y unfolding mm_core_def
    by (fastforce simp: chunk_addr_def add_mult_distrib add.assoc)
qed

end
