(* ===== verification/MMallocSpec.thy ===== *)
theory MMallocSpec
  imports MMallocInv
begin

section \<open>The region allocator: what its functions do\<close>

text \<open>
  \<^verbatim>\<open>mm_alloc\<close> is best fit, \<^verbatim>\<open>mm_free\<close> coalesces with both neighbours, one undoes the other,
  the invariant holds in every state a program can reach; and what \<^verbatim>\<open>mm_realloc\<close> really does.
\<close>

subsection \<open>Rounding\<close>

lemma drop_bit_roundup:
  "drop_bit b (MMR_ROUNDUP s (2 ^ b)) = drop_bit b (s + (2 ^ b - 1))" if "b < 64" for s :: u64
proof (rule bit_word_eqI)
  fix i
  assume "i < LENGTH(64)"
  have "\<not> bit (2 ^ b - 1 :: u64) (b + i)"
    unfolding mask_eq_exp_minus_1 [symmetric] by (simp add: bit_mask_iff)
  then show "bit (drop_bit b (MMR_ROUNDUP s (2 ^ b))) i = bit (drop_bit b (s + (2 ^ b - 1))) i"
    by (auto simp: MMR_ROUNDUP_def bit_drop_bit_eq bit_and_iff bit_not_iff dest: bit_imp_le_length)
qed

text \<open>The number of grains a request of \<open>n\<close> bytes takes.\<close>

definition grains_for :: "nat \<Rightarrow> nat \<Rightarrow> nat" where
  "grains_for b n = (n + (2 ^ b - 1)) div 2 ^ b"

lemma unat_pow2_minus_1: "b < 64 \<Longrightarrow> unat (2 ^ b - 1 :: u64) = 2 ^ b - 1"
proof -
  assume "b < 64"
  then have "(2::nat) ^ b < 2 ^ 64" by (intro power_strict_increasing) auto
  moreover have "(2 ^ b - 1 :: u64) = of_nat (2 ^ b - 1)" by (simp add: of_nat_diff)
  ultimately show ?thesis by (simp add: unat_of_nat take_bit_nat_eq_self del: of_nat_diff)
qed

lemma roundup_count:
  assumes "b < 64" and "unat s + (2 ^ b - 1) < 2 ^ 64"
  shows "drop_bit b (MMR_ROUNDUP s (2 ^ b)) = (of_nat (grains_for b (unat s)) :: u64)"
proof -
  have "unat (s + (2 ^ b - 1) :: u64) = unat s + (2 ^ b - 1)"
    using assms by (simp add: unat_word_ariths unat_pow2_minus_1)
  then have "unat (drop_bit b (s + (2 ^ b - 1)) :: u64) = grains_for b (unat s)"
    by (subst unat_drop_bit_eq) (simp add: drop_bit_eq_div grains_for_def)
  moreover have "drop_bit b (s + (2 ^ b - 1)) = (of_nat (unat (drop_bit b (s + (2 ^ b - 1)))) :: u64)"
    by simp
  ultimately have "drop_bit b (s + (2 ^ b - 1)) = (of_nat (grains_for b (unat s)) :: u64)"
    by (simp only:)
  with drop_bit_roundup [OF assms(1)] show ?thesis by simp
qed

subsection \<open>Finding the neighbours\<close>

lemma compare_addr_le: "compare_addr a b \<le> 0 \<longleftrightarrow> a \<le> b" "0 \<le> compare_addr a b \<longleftrightarrow> b \<le> a"
  by (auto simp: compare_addr_def)

lemma extreme_addr:
  assumes "extreme le (map (\<lambda>(p, n). (p, p)) F) NULL q"
  shows "if F = [] then q = NULL else q \<in> fst ` set F \<and> (\<forall>e \<in> set F. le (fst e) q)"
proof (cases "F = []")
  case False
  then have "\<exists>k. (q, k) \<in> set (map (\<lambda>(p, n). (p, p)) F) \<and> (\<forall>e \<in> set (map (\<lambda>(p, n). (p, p)) F). le (snd e) k)"
    using assms by (simp add: extreme_def del: set_map)
  then obtain k where k: "(q, k) \<in> set (map (\<lambda>(p, n). (p, p)) F)"
    "\<forall>e \<in> set (map (\<lambda>(p, n). (p, p)) F). le (snd e) k" by blast
  then have "k = q" "q \<in> fst ` set F" by force+
  with k(2) False show ?thesis by auto
qed (use assms in \<open>simp add: extreme_def\<close>)

lemma find_lesser:
  assumes core: "mm_core R (X @ (n, False) # Y)"
  obtains q where "rbt_find_glb (mmr_addr_tree R) (chunk_addr R X) = Some q"
    and "\<And>Z m. X = Z @ [(m, True)] \<Longrightarrow> q = chunk_addr R Z"
    and "q \<noteq> NULL \<Longrightarrow> \<exists>Z m W. X = Z @ (m, True) # W \<and> q = chunk_addr R Z"
proof -
  let ?b = "mmr_grain_bits R" and ?p = "chunk_addr R X"
  let ?FX = "frees ?b (mmr_start R) X" and ?FY = "frees ?b (?p + n * 2 ^ ?b) Y"
  note c = mm_core_chunk [OF core]
  let ?es = "map (\<lambda>(p, n). (p, p)) ?FX @ map (\<lambda>(p, n). (p, p)) ?FY"
  have sides: "e \<in> set ?FX \<Longrightarrow> fst e < ?p" "e \<in> set ?FY \<Longrightarrow> ?p < fst e" for e
    using frees_sides [OF c(3,4,1), of e ?b "mmr_start R"] by (simp_all add: chunk_addr_def)
  have at: "rbt_seq compare_addr UNIV (mmr_addr_tree R) ?es"
    using core by (simp add: mm_core_def chunk_addr_def)
  obtain q where q: "rbt_find_glb (mmr_addr_tree R) ?p = Some q" "glb_of compare_addr ?p ?es NULL q"
    using adr.rbt_search_seq(2) [OF at] by auto
  have "filter (\<lambda>e. compare_addr (snd e) ?p \<le> 0) (map (\<lambda>(p, n). (p, p)) ?FX) = map (\<lambda>(p, n). (p, p)) ?FX"
    by (rule filter_True) (use sides(1) in \<open>fastforce simp: compare_addr_def\<close>)
  moreover have "filter (\<lambda>e. compare_addr (snd e) ?p \<le> 0) (map (\<lambda>(p, n). (p, p)) ?FY) = []"
    by (rule filter_False) (use sides(2) in \<open>fastforce simp: compare_addr_def\<close>)
  ultimately have "filter (\<lambda>e. compare_addr (snd e) ?p \<le> 0) ?es = map (\<lambda>(p, n). (p, p)) ?FX" by simp
  with q(2) have "if ?FX = [] then q = NULL
      else q \<in> fst ` set ?FX \<and> (\<forall>e \<in> set ?FX. fst e \<le> q)"
    using extreme_addr [of "\<lambda>k k'. compare_addr k k' \<le> 0" ?FX q] by (simp add: glb_of_def compare_addr_le split: if_splits)
  note * = this
  show thesis
  proof (rule that [OF q(1)])
    fix Z m
    assume X: "X = Z @ [(m, True)]"
    then have FX: "?FX = frees ?b (mmr_start R) Z @ [(chunk_addr R Z, m)]" by (simp add: chunk_addr_def)
    have "fst e \<le> chunk_addr R Z" if "e \<in> set ?FX" for e
      using that frees_below [of Z e ?b "mmr_start R"] c(3) X unfolding FX by (auto simp: chunk_addr_def)
    moreover have "chunk_addr R Z \<le> q" "q \<in> fst ` set ?FX" using * unfolding FX by (auto split: if_splits)
    ultimately show "q = chunk_addr R Z" by fastforce
  next
    assume "q \<noteq> NULL"
    with * obtain m where "(q, m) \<in> set ?FX" by (force split: if_splits)
    from frees_split [OF this] show "\<exists>Z m W. X = Z @ (m, True) # W \<and> q = chunk_addr R Z"
      unfolding chunk_addr_def by blast
  qed
qed

lemma find_greater:
  assumes core: "mm_core R (X @ (n, False) # Y)"
  obtains q where "rbt_find_lub (mmr_addr_tree R) (chunk_addr R X) = Some q"
    and "\<And>Z m. Y = (m, True) # Z \<Longrightarrow> q = chunk_addr R (X @ [(n, False)])"
    and "q \<noteq> NULL \<Longrightarrow> \<exists>Z m W. Y = Z @ (m, True) # W \<and> q = chunk_addr R (X @ (n, False) # Z)"
proof -
  let ?b = "mmr_grain_bits R" and ?p = "chunk_addr R X" and ?r = "chunk_addr R (X @ [(n, False)])"
  let ?FX = "frees ?b (mmr_start R) X" and ?FY = "frees ?b ?r Y"
  note c = mm_core_chunk [OF core]
  have r: "?r = ?p + n * 2 ^ ?b" by (simp add: chunk_addr_def add_mult_distrib)
  let ?es = "map (\<lambda>(p, n). (p, p)) ?FX @ map (\<lambda>(p, n). (p, p)) ?FY"
  have sides: "e \<in> set ?FX \<Longrightarrow> fst e < ?p" "e \<in> set ?FY \<Longrightarrow> ?p < fst e" for e
    using frees_sides [OF c(3,4,1), of e ?b "mmr_start R"] unfolding r by (simp_all add: chunk_addr_def)
  have at: "rbt_seq compare_addr UNIV (mmr_addr_tree R) ?es"
    using core by (simp add: mm_core_def r) (simp add: chunk_addr_def)
  obtain q where q: "rbt_find_lub (mmr_addr_tree R) ?p = Some q" "lub_of compare_addr ?p ?es NULL q"
    using adr.rbt_search_seq(3) [OF at] by auto
  have "filter (\<lambda>e. compare_addr (snd e) ?p \<ge> 0) (map (\<lambda>(p, n). (p, p)) ?FY) = map (\<lambda>(p, n). (p, p)) ?FY"
    by (rule filter_True) (use sides(2) in \<open>fastforce simp: compare_addr_def\<close>)
  moreover have "filter (\<lambda>e. compare_addr (snd e) ?p \<ge> 0) (map (\<lambda>(p, n). (p, p)) ?FX) = []"
    by (rule filter_False) (use sides(1) in \<open>fastforce simp: compare_addr_def\<close>)
  ultimately have "filter (\<lambda>e. compare_addr (snd e) ?p \<ge> 0) ?es = map (\<lambda>(p, n). (p, p)) ?FY" by simp
  with q(2) have "if ?FY = [] then q = NULL
      else q \<in> fst ` set ?FY \<and> (\<forall>e \<in> set ?FY. q \<le> fst e)"
    using extreme_addr [of "\<lambda>k k'. compare_addr k' k \<le> 0" ?FY q] by (simp add: lub_of_def compare_addr_le split: if_splits)
  note * = this
  show thesis
  proof (rule that [OF q(1)])
    fix Z m
    assume "Y = (m, True) # Z"
    then have FY: "(?r, m) \<in> set ?FY" by simp
    have "?r \<le> fst e" if "e \<in> set ?FY" for e using that by (rule frees_above)
    moreover have "q \<le> ?r" "q \<in> fst ` set ?FY" using * FY by (force split: if_splits)+
    ultimately show "q = ?r" by fastforce
  next
    assume "q \<noteq> NULL"
    with * obtain m where "(q, m) \<in> set ?FY" by (force split: if_splits)
    from frees_split [OF this] obtain Z W where "Y = Z @ (m, True) # W" "q = ?r + grains Z * 2 ^ ?b" by blast
    then have "Y = Z @ (m, True) # W \<and> q = chunk_addr R (X @ (n, False) # Z)"
      by (simp add: chunk_addr_def add_mult_distrib)
    then show "\<exists>Z m W. Y = Z @ (m, True) # W \<and> q = chunk_addr R (X @ (n, False) # Z)" by blast
  qed
qed

subsection \<open>mm_free\<close>

text \<open>The layout after a chunk of \<open>n\<close> grains between \<open>X\<close> and \<open>Y\<close> is freed.\<close>

fun join_left :: "layout \<Rightarrow> nat \<Rightarrow> layout \<times> nat" where
  "join_left X n = (if X \<noteq> [] \<and> snd (last X) then (butlast X, fst (last X) + n) else (X, n))"

fun join_right :: "nat \<Rightarrow> layout \<Rightarrow> nat \<times> layout" where
  "join_right n Y = (if Y \<noteq> [] \<and> snd (hd Y) then (n + fst (hd Y), tl Y) else (n, Y))"

definition freed :: "layout \<Rightarrow> nat \<Rightarrow> layout \<Rightarrow> layout" where
  "freed X n Y = (let (X', k) = join_left X n; (m, Y') = join_right k Y in X' @ (m, True) # Y')"

lemma trees_only:
  assumes "R' = R\<lparr>mmr_size_tree := s, mmr_addr_tree := a\<rparr>"
  shows "chunk_addr R' X = chunk_addr R X" and "grain_addr R' p c = grain_addr R p c"
    and "get_count R' p = get_count R p" and "get_pfx R' p = get_pfx R p"
    and "mmr_pfx R' = mmr_pfx R" and "mmr_lock R' = mmr_lock R"
    and "mm_is_disable_mm_free R' = mm_is_disable_mm_free R"
  unfolding assms by (simp_all add: chunk_addr_def grain_addr_def get_count_def get_pfx_def)

lemma chunk_addr_less:
  "pos W \<Longrightarrow> W \<noteq> [] \<Longrightarrow> chunk_addr R Z < chunk_addr R (Z @ W)"
  by (cases W) (auto simp: chunk_addr_def add_mult_distrib)

lemma coalesce_lesser_correct:
  assumes core: "mm_core R (X @ (n, False) # Y)"
  shows "\<exists>R'. coalesce_lesser (chunk_addr R X) R = Some (chunk_addr R (fst (join_left X n)), R') \<and>
    mm_core R' (fst (join_left X n) @ (snd (join_left X n), False) # Y) \<and>
    (\<forall>Z. chunk_addr R' Z = chunk_addr R Z) \<and> mmr_lock R' = mmr_lock R"
proof -
  let ?p = "chunk_addr R X"
  note c = mm_core_chunk [OF core]
  obtain q where q: "rbt_find_glb (mmr_addr_tree R) ?p = Some q"
    "\<And>Z m. X = Z @ [(m, True)] \<Longrightarrow> q = chunk_addr R Z"
    "q \<noteq> NULL \<Longrightarrow> \<exists>Z m W. X = Z @ (m, True) # W \<and> q = chunk_addr R Z"
    by (rule find_lesser [OF core]) blast
  show ?thesis
  proof (cases "X \<noteq> [] \<and> snd (last X)")
    case True
    then have "X = butlast X @ [(fst (last X), True)]" by (metis append_butlast_last_id prod.collapse)
    then obtain Z m where X: "X = Z @ [(m, True)]" by blast
    have q': "q = chunk_addr R Z" by (rule q(2) [OF X])
    have core': "mm_core R (Z @ (m, True) # (n, False) # Y)" using core X by simp
    note c' = mm_core_chunk [OF core']
    obtain R1 where R1: "mm_trees_del q R = Some R1" "mm_core R1 (Z @ (m, False) # (n, False) # Y)"
      "R1 = R\<lparr>mmr_size_tree := mmr_size_tree R1, mmr_addr_tree := mmr_addr_tree R1\<rparr>"
      using move_take [OF core'] q' by auto
    note same = trees_only [OF R1(3)]
    have "coalesce_lesser ?p R = Some (q, R1\<lparr>mmr_pfx := (mmr_pfx R1)(q :=
        map_option (pfx_count_update (\<lambda>c. c + of_nat n)) (mmr_pfx R1 q))\<rparr>)"
      using c c' q(1) q' R1(1) X same by (simp add: coalesce_lesser_def)
    with move_merge [OF R1(2)] same q' X show ?thesis by (simp add: chunk_addr_def)
  next
    case False
    have "coalesce_lesser ?p R = Some (?p, R)"
    proof (cases "q = NULL")
      case True
      with q(1) c show ?thesis by (simp add: coalesce_lesser_def)
    next
      case neq: False
      then obtain Z m W where X: "X = Z @ (m, True) # W" "q = chunk_addr R Z" using q(3) by auto
      then have "mm_core R (Z @ (m, True) # (W @ (n, False) # Y))" using core by simp
      note c' = mm_core_chunk [OF this]
      have "W \<noteq> []" using False X by auto
      then have "grain_addr R q (of_nat m) \<noteq> ?p"
        using c'(8) X chunk_addr_less [of W R "Z @ [(m, True)]"] c(3) by (simp add: chunk_addr_def)
      with q(1) c c'(6) X(2) neq show ?thesis by (simp add: coalesce_lesser_def)
    qed
    with False core show ?thesis by auto
  qed
qed

lemma coalesce_greater_correct:
  assumes core: "mm_core R (X @ (n, False) # Y)"
  shows "\<exists>R'. coalesce_greater (chunk_addr R X) R = Some R' \<and>
    mm_core R' (X @ (fst (join_right n Y), False) # snd (join_right n Y)) \<and>
    (\<forall>Z. chunk_addr R' Z = chunk_addr R Z) \<and> mmr_lock R' = mmr_lock R"
proof -
  let ?p = "chunk_addr R X"
  note c = mm_core_chunk [OF core]
  obtain q where q: "rbt_find_lub (mmr_addr_tree R) ?p = Some q"
    "\<And>Z m. Y = (m, True) # Z \<Longrightarrow> q = chunk_addr R (X @ [(n, False)])"
    "q \<noteq> NULL \<Longrightarrow> \<exists>Z m W. Y = Z @ (m, True) # W \<and> q = chunk_addr R (X @ (n, False) # Z)"
    by (rule find_greater [OF core]) blast
  show ?thesis
  proof (cases "Y \<noteq> [] \<and> snd (hd Y)")
    case True
    then obtain m Z where Y: "Y = (m, True) # Z" by (cases Y) auto
    have q': "q = chunk_addr R (X @ [(n, False)])" by (rule q(2) [OF Y])
    have core': "mm_core R ((X @ [(n, False)]) @ (m, True) # Z)" using core Y by simp
    note c' = mm_core_chunk [OF core']
    obtain R1 where R1: "mm_trees_del q R = Some R1" "mm_core R1 (X @ (n, False) # (m, False) # Z)"
      "R1 = R\<lparr>mmr_size_tree := mmr_size_tree R1, mmr_addr_tree := mmr_addr_tree R1\<rparr>"
      using move_take [OF core'] q' by auto
    note same = trees_only [OF R1(3)]
    have "coalesce_greater ?p R = Some (R1\<lparr>mmr_pfx := (mmr_pfx R1)(?p :=
        map_option (pfx_count_update (\<lambda>c. c + of_nat m)) (mmr_pfx R1 ?p))\<rparr>)"
      using c c' q(1) q' R1(1) Y same by (simp add: coalesce_greater_def)
    with move_merge [OF R1(2)] same Y show ?thesis by (simp add: chunk_addr_def)
  next
    case False
    have "coalesce_greater ?p R = Some R"
    proof (cases "q = NULL")
      case True
      with q(1) c show ?thesis by (simp add: coalesce_greater_def)
    next
      case neq: False
      then obtain Z m W where Y: "Y = Z @ (m, True) # W" "q = chunk_addr R (X @ (n, False) # Z)" using q(3) by auto
      have "Z \<noteq> []" using False Y by auto
      then have "chunk_addr R (X @ [(n, False)]) < q"
        using Y chunk_addr_less [of Z R "X @ [(n, False)]"] c(4) by simp
      with q(1) c neq show ?thesis by (simp add: coalesce_greater_def)
    qed
    with False core show ?thesis by auto
  qed
qed

lemma mm_core_lock [simp]: "mm_core (R\<lparr>mmr_lock := v\<rparr>) L \<longleftrightarrow> mm_core R L"
  by (simp add: mm_core_def)

lemma chunk_addr_lock [simp]: "chunk_addr (R\<lparr>mmr_lock := v\<rparr>) X = chunk_addr R X"
  by (simp add: chunk_addr_def)

lemma write_pfx_same:
  assumes "mm_core R (X @ (n, f) # Y)"
  shows "write_pfx (chunk_addr R X) (of_nat n) R = R"
proof -
  have "mmr_pfx R (chunk_addr R X) = Some \<lparr>pfx_count = of_nat n, pfx_pfx = chunk_addr R X\<rparr>"
    using assms by (simp add: mm_core_def chunk_addr_def)
  then have "(mmr_pfx R)(chunk_addr R X \<mapsto> \<lparr>pfx_count = of_nat n, pfx_pfx = chunk_addr R X\<rparr>) = mmr_pfx R"
    by (simp add: fun_upd_idem)
  then show ?thesis by (simp add: write_pfx_def)
qed

lemma coalesced_append:
  "coalesced (X @ Y) \<longleftrightarrow> coalesced X \<and> coalesced Y \<and> \<not> (X \<noteq> [] \<and> Y \<noteq> [] \<and> snd (last X) \<and> snd (hd Y))"
proof (induction X)
  case (Cons p X)
  then show ?case by (cases X; cases Y; cases p; cases "hd X"; cases "hd Y") auto
qed simp

lemma coalesced_freed:
  assumes "coalesced (X @ (n, False) # Y)"
  shows "coalesced (freed X n Y)"
proof -
  have X: "coalesced X" and Y: "coalesced Y" using assms coalesced_append [of X] coalesced_append [of "[(n, False)]" Y] by auto
  have X': "coalesced (fst (join_left X n)) \<and> (fst (join_left X n) \<noteq> [] \<longrightarrow> \<not> snd (last (fst (join_left X n))))"
    using X coalesced_append [of "butlast X" "[last X]"] by (cases "X = []") auto
  have Y': "coalesced (snd (join_right k Y)) \<and> (snd (join_right k Y) \<noteq> [] \<longrightarrow> \<not> snd (hd (snd (join_right k Y))))" for k
    using Y by (cases Y rule: coalesced.cases) auto
  show ?thesis unfolding freed_def
    using X' Y' [of "snd (join_left X n)"] coalesced_append [of "[(m, True)]" for m]
    by (auto simp: coalesced_append split: prod.split)
qed

lemma mm_free_inv:
  assumes inv: "mm_inv R (X @ (n, False) # Y)" and en: "\<not> mm_is_disable_mm_free R"
  shows "\<exists>R'. mm_free (chunk_addr R X + sizeof_mm_prefix) R = Some R' \<and> mm_inv R' (freed X n Y) \<and>
    (\<forall>Z. chunk_addr R' Z = chunk_addr R Z)"
proof -
  let ?R = "R\<lparr>mmr_lock := True\<rparr>" and ?X = "fst (join_left X n)" and ?k = "snd (join_left X n)"
  let ?m = "fst (join_right ?k Y)" and ?Y = "snd (join_right ?k Y)"
  have core: "mm_core ?R (X @ (n, False) # Y)" using inv by (simp add: mm_inv_def)
  obtain R1 where R1: "coalesce_lesser (chunk_addr R X) ?R = Some (chunk_addr R ?X, R1)"
      "mm_core R1 (?X @ (?k, False) # Y)" "\<And>Z. chunk_addr R1 Z = chunk_addr R Z" "mmr_lock R1"
    using coalesce_lesser_correct [OF core] by auto
  obtain R2 where R2: "coalesce_greater (chunk_addr R ?X) R1 = Some R2" "mm_core R2 (?X @ (?m, False) # ?Y)"
      "\<And>Z. chunk_addr R2 Z = chunk_addr R Z" "mmr_lock R2"
    using coalesce_greater_correct [OF R1(2)] R1(3,4) by auto
  obtain R3 where R3: "mm_trees_ins (chunk_addr R ?X) R2 = Some R3" "mm_core R3 (?X @ (?m, True) # ?Y)"
      "R3 = R2\<lparr>mmr_size_tree := mmr_size_tree R3, mmr_addr_tree := mmr_addr_tree R3\<rparr>"
    using move_put [OF R2(2)] R2(3) by auto
  have "mm_free (chunk_addr R X + sizeof_mm_prefix) R = Some (mm_unlock R3)"
    using inv en R1(1) R2(1,3) R3(1) write_pfx_same [OF R2(2)] mm_core_chunk(6) [OF R2(2)]
    by (simp add: mm_free_def mm_inv_def mm_lock_def sizeof_mm_prefix_def del: join_left.simps join_right.simps)
  moreover have "freed X n Y = ?X @ (?m, True) # ?Y"
    by (simp add: freed_def split_def Let_def del: join_left.simps join_right.simps)
  moreover have "coalesced (freed X n Y)" using inv coalesced_freed by (simp add: mm_inv_def)
  ultimately show ?thesis using R3(2) trees_only(1) [OF R3(3)] R2(3)
    by (simp add: mm_inv_def mm_unlock_def del: join_left.simps join_right.simps)
qed

subsection \<open>mm_alloc\<close>

lemma frees_small:
  assumes "mm_core R L" and "(p, n) \<in> set (frees (mmr_grain_bits R) (mmr_start R) L)"
  shows "n < 2 ^ 31"
  using frees_split [OF assms(2)] mm_core_chunk(2) assms(1) by blast

lemma find_fit:
  assumes core: "mm_core R L" and k: "k < 2 ^ 31"
  obtains "rbt_find_lub (mmr_size_tree R) (of_nat k) = Some NULL"
      and "\<And>m. (m, True) \<in> set L \<Longrightarrow> m < k"
    | X n Y where "rbt_find_lub (mmr_size_tree R) (of_nat k) = Some (chunk_addr R X)"
      and "L = X @ (n, True) # Y" and "k \<le> n" and "\<And>m. (m, True) \<in> set L \<Longrightarrow> k \<le> m \<Longrightarrow> n \<le> m"
proof -
  let ?F = "frees (mmr_grain_bits R) (mmr_start R) L"
  obtain es where es: "rbt_seq compare_count small_counts (mmr_size_tree R) es"
      "set es = (\<lambda>(p, n). (p, of_nat n)) ` set ?F"
    using core by (auto simp: mm_core_def)
  have small: "of_nat m \<in> small_counts" if "m < 2 ^ 31" for m
    using that by (simp add: small_counts_def unat_count)
  have cmp: "compare_count (of_nat a) (of_nat b) = int a - int b" if "a < 2 ^ 31" "b < 2 ^ 31" for a b
    using that by (simp add: compare_count_small small unat_count)
  obtain p where p: "rbt_find_lub (mmr_size_tree R) (of_nat k) = Some p" "lub_of compare_count (of_nat k) es NULL p"
    using cnt.rbt_search_seq(3) [OF es(1) small [OF k]] by blast
  let ?ps = "filter (\<lambda>e. compare_count (snd e) (of_nat k) \<ge> 0) es"
  have ps: "set ?ps = (\<lambda>(p, n). (p, of_nat n)) ` {(p, n) \<in> set ?F. k \<le> n}"
    unfolding set_filter es(2) using cmp frees_small [OF core] k by force
  have F: "\<exists>p. (p, m) \<in> set ?F" if "(m, True) \<in> set L" for m
  proof -
    from that obtain X Y where "L = X @ (m, True) # Y" by (auto dest: split_list)
    then show ?thesis by auto
  qed
  show thesis
  proof (cases "?ps = []")
    case True
    then have "{(p, n) \<in> set ?F. k \<le> n} = {}" using ps by simp
    then have "m < k" if "(m, True) \<in> set L" for m using F [OF that] by force
    moreover have "p = NULL" using p(2) True by (simp add: lub_of_def extreme_def)
    ultimately show thesis using that(1) p(1) by blast
  next
    case False
    with p(2) obtain c where c: "(p, c) \<in> set ?ps" "\<forall>e \<in> set ?ps. compare_count c (snd e) \<le> 0"
      by (auto simp: lub_of_def extreme_def simp del: set_filter)
    from c(1) obtain n where n: "(p, n) \<in> set ?F" "k \<le> n" "c = of_nat n" unfolding ps by auto
    from frees_split [OF n(1)] obtain X Y where X: "L = X @ (n, True) # Y" "p = chunk_addr R X"
      by (auto simp: chunk_addr_def)
    have "n \<le> m" if m: "(m, True) \<in> set L" "k \<le> m" for m
    proof -
      obtain q where q: "(q, m) \<in> set ?F" using F [OF m(1)] by blast
      then have "(q, of_nat m) \<in> set ?ps" unfolding ps using m(2) by force
      with c(2) have "compare_count c (of_nat m) \<le> 0" by force
      then show "n \<le> m" using cmp [OF frees_small [OF core n(1)] frees_small [OF core q]] n(3) by simp
    qed
    then show thesis using that(2) X n(2) p(1) by blast
  qed
qed

lemma mm_trees_ins_write:
  "p \<noteq> q \<Longrightarrow> mm_trees_ins q (write_pfx p c R) = map_option (write_pfx p c) (mm_trees_ins q R)"
  by (cases "mmr_pfx R q") (auto simp: mm_trees_ins_def write_pfx_def get_count_def get_pfx_def split: Option.bind_splits)

definition allocated :: "layout \<Rightarrow> nat \<Rightarrow> nat \<Rightarrow> layout \<Rightarrow> layout" where
  "allocated X k n Y = X @ (k, False) # (if n = k then [] else [(n - k, True)]) @ Y"

lemma alloc_tail:
  assumes core: "mm_core R (X @ (n, False) # Y)" and k: "0 < k" "k \<le> n"
  shows "\<exists>R'. (if of_nat n - of_nat k \<noteq> (0 :: u64) then
        mm_trees_ins (grain_addr R (chunk_addr R X) (of_nat k))
          (write_pfx (grain_addr R (chunk_addr R X) (of_nat k)) (of_nat n - of_nat k) R)
      else Some R) = Some R' \<and>
    mm_core (write_pfx (chunk_addr R X) (of_nat k) R') (allocated X k n Y) \<and>
    (\<forall>Z. chunk_addr R' Z = chunk_addr R Z) \<and> mmr_lock R' = mmr_lock R \<and>
    mm_is_disable_mm_free R' = mm_is_disable_mm_free R"
proof (cases "n = k")
  case True
  with core write_pfx_same [OF core] show ?thesis by (simp add: allocated_def)
next
  case False
  let ?p = "chunk_addr R X" and ?q = "chunk_addr R (X @ [(k, False)])"
  note c = mm_core_chunk [OF core]
  have diff: "of_nat n - of_nat k = (of_nat (n - k) :: u64)" using k(2) by (simp add: of_nat_diff)
  have "unat (of_nat (n - k) :: u64) \<noteq> 0" using unat_count [of "n - k"] c(2) False k(2) by simp
  then have nz: "(of_nat (n - k) :: u64) \<noteq> 0" by (metis unat_0)
  have core': "mm_core R (X @ (k + (n - k), False) # Y)" using core k(2) by simp
  have split: "mm_core (write_pfx ?p (of_nat k) (write_pfx ?q (of_nat (n - k)) R)) (X @ (k, False) # (n - k, False) # Y)"
    by (rule move_split [OF core']) (use k False in auto)
  let ?R1 = "write_pfx ?q (of_nat (n - k)) R"
  have addr: "chunk_addr (write_pfx a v S) Z = chunk_addr S Z" "grain_addr (write_pfx a v S) x y = grain_addr S x y"
    for a v S Z x y by (simp_all add: chunk_addr_def grain_addr_def write_pfx_def)
  have "k * 2 ^ mmr_grain_bits R \<le> grains (X @ (n, False) # Y) * 2 ^ mmr_grain_bits R"
    using k(2) by (intro mult_le_mono1) simp
  also have "\<dots> < 2 ^ 64" using core unfolding mm_core_def by blast
  finally have q: "grain_addr R ?p (of_nat k) = ?q"
    using core by (simp add: grain_addr_def unat_push_bit_count chunk_addr_def mm_core_def add_mult_distrib)
  have neq: "?p \<noteq> ?q" using chunk_addr_less [of "[(k, False)]" R X] k(1) by simp
  obtain R2 where R2: "mm_trees_ins ?q (write_pfx ?p (of_nat k) ?R1) = Some R2"
      "mm_core R2 (X @ (k, False) # (n - k, True) # Y)"
      "R2 = (write_pfx ?p (of_nat k) ?R1)\<lparr>mmr_size_tree := mmr_size_tree R2, mmr_addr_tree := mmr_addr_tree R2\<rparr>"
    using move_put [of "write_pfx ?p (of_nat k) ?R1" "X @ [(k, False)]" "n - k" Y] split by (auto simp: addr)
  then obtain R' where R': "mm_trees_ins ?q ?R1 = Some R'" "R2 = write_pfx ?p (of_nat k) R'"
    using mm_trees_ins_write [OF neq] by auto
  then obtain s a where "R' = ?R1\<lparr>mmr_size_tree := s, mmr_addr_tree := a\<rparr>"
    by (auto simp: mm_trees_ins_def bind_eq_Some_conv)
  then have "chunk_addr R' Z = chunk_addr R Z" "mmr_lock R' = mmr_lock R"
    "mm_is_disable_mm_free R' = mm_is_disable_mm_free R" for Z
    by (simp_all add: write_pfx_def chunk_addr_def)
  with R' R2(2) nz q diff False show ?thesis by (simp add: allocated_def)
qed

text \<open>The requested bytes and the prefix, in grains.\<close>

abbreviation need :: "mm_region \<Rightarrow> u64 \<Rightarrow> nat" where
  "need R sz \<equiv> grains_for (mmr_grain_bits R) (unat sz + sizeof_mm_prefix)"

definition request_ok :: "mm_region \<Rightarrow> u64 \<Rightarrow> bool" where
  "request_ok R sz \<longleftrightarrow> unat sz + sizeof_mm_prefix + (2 ^ mmr_grain_bits R - 1) < 2 ^ 64 \<and> need R sz < 2 ^ 31"

lemma grains_for_pos: "0 < n \<Longrightarrow> 0 < grains_for b n"
  by (simp add: grains_for_def div_greater_zero_iff)

lemma request_count:
  assumes core: "mm_core R L" and ok: "request_ok R sz"
  shows "drop_bit (mmr_grain_bits R) (MMR_ROUNDUP (sz + of_nat sizeof_mm_prefix) (mmr_grain R)) = of_nat (need R sz)"
proof -
  have "0 < (2 :: nat) ^ mmr_grain_bits R" by simp
  then have "unat sz + sizeof_mm_prefix < 2 ^ 64" using ok unfolding request_ok_def by linarith
  then have "unat (sz + of_nat sizeof_mm_prefix) = unat sz + sizeof_mm_prefix"
    by (simp add: unat_word_ariths unat_of_nat sizeof_mm_prefix_def)
  with roundup_count [of "mmr_grain_bits R" "sz + of_nat sizeof_mm_prefix"] core ok
  show ?thesis by (simp add: mm_core_def request_ok_def)
qed

lemma coalesced_head: "coalesced ((n, True) # Y) \<Longrightarrow> coalesced ((m, f) # Y)"
  by (cases Y) auto

lemma coalesced_allocated:
  "coalesced (X @ (n, True) # Y) \<Longrightarrow> coalesced (allocated X k n Y)"
  by (auto simp: allocated_def coalesced_append intro: coalesced_head)

lemma mm_alloc_inv:
  assumes inv: "mm_inv R L" and ok: "request_ok R sz"
  obtains "mm_alloc sz R = Some (NULL, R)" and "\<And>m. (m, True) \<in> set L \<Longrightarrow> m < need R sz"
    | R' X n Y where "mm_alloc sz R = Some (chunk_addr R X + sizeof_mm_prefix, R')"
      and "L = X @ (n, True) # Y" and "need R sz \<le> n"
      and "\<And>m. (m, True) \<in> set L \<Longrightarrow> need R sz \<le> m \<Longrightarrow> n \<le> m"
      and "mm_inv R' (allocated X (need R sz) n Y)"
proof -
  let ?R = "R\<lparr>mmr_lock := True\<rparr>" and ?k = "need R sz"
  have core: "mm_core ?R L" and free: "\<not> mmr_lock R" using inv by (simp_all add: mm_inv_def)
  then have lock: "mm_lock R = Some ?R" by (simp add: mm_lock_def)
  note count = request_count [OF inv [unfolded mm_inv_def, THEN conjunct1] ok]
  have k: "?k < 2 ^ 31" "0 < ?k" using ok by (simp_all add: request_ok_def grains_for_pos sizeof_mm_prefix_def)
  from find_fit [OF core k(1)] show thesis
  proof cases
    case 1
    then have "mm_alloc sz R = Some (NULL, R)"
      using free by (simp add: mm_alloc_def count lock mm_unlock_def)
    then show thesis using that(1) 1(2) by blast
  next
    case (2 X n Y)
    let ?p = "chunk_addr R X"
    obtain R1 where R1: "mm_trees_del ?p ?R = Some R1" "mm_core R1 (X @ (n, False) # Y)"
        "R1 = ?R\<lparr>mmr_size_tree := mmr_size_tree R1, mmr_addr_tree := mmr_addr_tree R1\<rparr>"
      using move_take [of ?R X n Y] core 2(2) by auto
    note same = trees_only [OF R1(3)]
    have addr: "chunk_addr R1 Z = chunk_addr R Z" for Z by (simp add: same)
    obtain R2 where R2: "(if of_nat n - of_nat ?k \<noteq> (0 :: u64) then
        mm_trees_ins (grain_addr R1 ?p (of_nat ?k))
          (write_pfx (grain_addr R1 ?p (of_nat ?k)) (of_nat n - of_nat ?k) R1)
        else Some R1) = Some R2" "mm_core (write_pfx ?p (of_nat ?k) R2) (allocated X ?k n Y)"
      using alloc_tail [OF R1(2) k(2) 2(3)] unfolding addr by blast
    have pos: "?p \<noteq> 0" and cnt: "get_count R1 ?p = Some (of_nat n)"
      using mm_core_chunk [OF R1(2)] by (simp_all add: addr)
    have "mm_alloc sz R = Some (?p + sizeof_mm_prefix, mm_unlock (write_pfx ?p (of_nat ?k) R2))"
      using 2(1) R1(1) R2(1) pos cnt by (auto simp: mm_alloc_def count lock Let_def split: if_splits)
    moreover have "mm_inv (mm_unlock (write_pfx ?p (of_nat ?k) R2)) (allocated X ?k n Y)"
      using R2(2) coalesced_allocated inv 2(2) by (auto simp: mm_inv_def mm_unlock_def)
    ultimately show thesis using that(2) 2 by blast
  qed
qed

end
