(* ===== verification/MMallocTop.thy ===== *)
theory MMallocTop
  imports MMallocSpec
begin

section \<open>The region allocator: its properties\<close>

text \<open>
  Initialisation, arbitrary histories of \<^verbatim>\<open>mm_alloc\<close> and \<^verbatim>\<open>mm_free\<close>, and the properties of
  \<^verbatim>\<open>mmalloc.c\<close>.
\<close>

subsection \<open>Initialisation\<close>

lemma get_pow2_loop_run:
  "b \<le> i \<Longrightarrow> i < 64 \<Longrightarrow> (\<And>j. b \<le> j \<Longrightarrow> j < i \<Longrightarrow> 2 ^ j < n) \<Longrightarrow> \<not> 2 ^ i < n \<Longrightarrow>
   get_pow2_loop n (2 ^ b) b = Some (2 ^ i, i)"
proof (induction "i - b" arbitrary: b)
  case 0
  then show ?case by (subst get_pow2_loop.simps) simp
next
  case (Suc d)
  then have "2 ^ b < n" by simp
  moreover have "push_bit 1 (2 ^ b :: u64) = 2 ^ (b + 1)" by (simp add: push_bit_eq_mult)
  ultimately show ?case using Suc(1) [of "b + 1"] Suc(2-)
    by (subst get_pow2_loop.simps) (simp add: mult.commute)
qed

lemma unat_pow2: "i < 64 \<Longrightarrow> unat (2 ^ i :: u64) = 2 ^ i"
  using unat_of_nat [of "2 ^ i", where 'a = 64] power_strict_increasing [of i 64 "2 :: nat"] by simp

lemma get_pow2_small:
  assumes n: "unat n \<le> 2 ^ 63"
  obtains i where "get_pow2 n = Some (2 ^ i, i)" and "i < 64" and "unat n \<le> 2 ^ i" and "\<And>j. j < i \<Longrightarrow> 2 ^ j < unat n"
proof -
  define i where "i = (LEAST i. unat n \<le> 2 ^ i)"
  have le: "unat n \<le> 2 ^ i" unfolding i_def using n by (rule LeastI)
  have i: "i \<le> 63" unfolding i_def using n by (rule Least_le)
  have lt: "2 ^ j < unat n" if "j < i" for j using not_less_Least [OF that [unfolded i_def]] by simp
  have "get_pow2_loop n (2 ^ 0) 0 = Some (2 ^ i, i)"
    by (rule get_pow2_loop_run) (use i le lt in \<open>auto simp: word_less_nat_alt unat_pow2\<close>)
  then show thesis using that [of i] i le lt by (simp add: get_pow2_def)
qed

lemma get_pow2_loop_zero: "0 < n \<Longrightarrow> get_pow2_loop n 0 b = None"
proof (rule ccontr)
  assume "0 < n" and "get_pow2_loop n 0 b \<noteq> None"
  moreover have "\<not> (p = 0 \<and> 0 < m)" if "get_pow2_loop m p b = Some y" for m p b y
    using that by (rule get_pow2_loop.raw_induct [of "\<lambda>m p b y. \<not> (p = 0 \<and> 0 < m)", rotated]) (auto split: if_splits)
  ultimately show False by blast
qed

lemma get_pow2_diverges:
  assumes "\<not> unat n \<le> 2 ^ 63"
  shows "get_pow2 n = None"
proof -
  have big: "2 ^ j < n" if "j < 64" for j
  proof -
    have "(2 :: nat) ^ j \<le> 2 ^ 63" using that by (intro power_increasing) auto
    with assms that show ?thesis by (simp add: word_less_nat_alt unat_pow2)
  qed
  have "get_pow2_loop n (2 ^ (64 - d)) (64 - d) = None" if "d \<le> 64" for d
    using that
  proof (induction d)
    case 0
    have "0 < n" using big [of 0] by (metis less_trans word_coorder.not_eq_extremum word_not_simps(1) zero_less_numeral power_0)
    moreover have "(2 :: u64) ^ 64 = 0" using exp_eq_zero_iff [of 64, where 'a = 64] by simp
    ultimately show ?case using get_pow2_loop_zero by (simp only: diff_zero)
  next
    case (Suc d)
    then have e: "64 - d = Suc (64 - Suc d)" by simp
    have "push_bit 1 (2 ^ (64 - Suc d) :: u64) = 2 ^ (64 - d)" "Suc (64 - Suc d) = 64 - d"
      unfolding e by (simp_all add: push_bit_eq_mult)
    with Suc big [of "64 - Suc d"] show ?case by (subst get_pow2_loop.simps) simp
  qed
  from this [of 64] show ?thesis by (simp add: get_pow2_def)
qed

text \<open>A region of \<open>sz\<close> bytes rounded up to pages, and its grains.\<close>

definition init_ok :: "addr \<Rightarrow> u64 \<Rightarrow> u64 \<Rightarrow> bool" where
  "init_ok start sz grain \<longleftrightarrow> 0 < start \<and> 64 < unat grain \<and> unat grain \<le> 2 ^ 63 \<and>
     unat grain \<le> unat (MMR_ROUNDUP sz 4096) div 2 \<and> unat (MMR_ROUNDUP sz 4096) < 2 ^ 31 * unat grain"

lemma mm_init_inv:
  assumes ok: "init_ok start sz grain"
  obtains R n b where "mm_init True (Inr start) env st0 at0 sz grain = Some (Inr R)"
    and "mm_inv R [(n, True)]" and "mmr_start R = start" and "mmr_size R = MMR_ROUNDUP sz 4096"
    and "mmr_grain_bits R = b" and "unat grain \<le> 2 ^ b" and "\<And>j. j < b \<Longrightarrow> 2 ^ j < unat grain"
    and "n = unat (MMR_ROUNDUP sz 4096) div 2 ^ b"
    and "mm_is_disable_mm_free R = (case env of None \<Rightarrow> False | Some v \<Rightarrow> v \<noteq> 0)"
proof -
  let ?s = "MMR_ROUNDUP sz 4096"
  obtain b where b: "get_pow2 grain = Some (2 ^ b, b)" "b < 64" "unat grain \<le> 2 ^ b" "\<And>j. j < b \<Longrightarrow> 2 ^ j < unat grain"
    using ok get_pow2_small [of grain] by (auto simp: init_ok_def)
  define n where "n = unat ?s div 2 ^ b"
  have b7: "7 \<le> b"
  proof (rule ccontr)
    assume "\<not> 7 \<le> b"
    then have "(2 :: nat) ^ b \<le> 2 ^ 6" by (intro power_increasing) auto
    with b(3) ok show False by (simp add: init_ok_def)
  qed
  have "2 ^ (b - 1) < unat grain" using b(4) [of "b - 1"] b7 by simp
  then have "2 ^ b \<le> 2 * unat grain" using b7 by (cases b) auto
  then have "2 ^ b \<le> unat ?s" using ok by (auto simp: init_ok_def)
  then have pos: "0 < n" by (simp add: n_def div_greater_zero_iff)
  have "unat ?s < 2 ^ 31 * 2 ^ b" using ok b(3) mult_le_mono2 [OF b(3), of "2 ^ 31"] unfolding init_ok_def by linarith
  then have small: "n < 2 ^ 31" by (simp add: n_def less_mult_imp_div_less)
  have "n * 2 ^ b \<le> unat ?s" by (simp add: n_def)
  also have "\<dots> < 2 ^ 64" using unsigned_less [of ?s] by simp
  finally have size: "n * 2 ^ b < 2 ^ 64" .
  have "unat (?s div 2 ^ b) = n" using b(2) by (simp add: unat_div unat_pow2 n_def)
  then have "of_nat (unat (?s div 2 ^ b)) = (of_nat n :: u64)" by simp
  then have cnt: "?s div 2 ^ b = of_nat n" by simp
  let ?R = "write_pfx start (of_nat n) \<lparr>mmr_grain = 2 ^ b, mmr_grain_bits = b, mmr_size = ?s, mmr_start = start,
      mmr_lock = False, mmr_size_tree = rbt_init compare_count st0, mmr_addr_tree = rbt_init compare_addr at0,
      mmr_pfx = Map.empty, mm_is_disable_mm_free = False\<rparr>"
  have start: "chunk_addr ?R [] = start" by (simp add: chunk_addr_def write_pfx_def)
  have "mm_core ?R ([] @ (n, False) # [])"
    using b7 b(2) ok pos small size by (auto simp: mm_core_def init_ok_def write_pfx_def rbt_seq_init)
  from move_put [OF this] obtain R where R: "mm_trees_ins start ?R = Some R" "mm_core R ([] @ (n, True) # [])"
      "R = ?R\<lparr>mmr_size_tree := mmr_size_tree R, mmr_addr_tree := mmr_addr_tree R\<rparr>"
    unfolding start by blast
  have fields: "\<not> mmr_lock R" "mmr_start R = start" "mmr_size R = ?s" "mmr_grain_bits R = b" "\<not> mm_is_disable_mm_free R"
    by (subst R(3); simp add: write_pfx_def)+
  let ?Q = "case env of None \<Rightarrow> R | Some v \<Rightarrow> R\<lparr>mm_is_disable_mm_free := (v \<noteq> 0)\<rparr>"
  have "mm_init True (Inr start) env st0 at0 sz grain = Some (Inr ?Q)"
    using R(1) by (simp add: mm_init_def b(1) cnt Let_def split: option.split)
  moreover have "mm_inv ?Q [(n, True)]" using R(2) fields by (auto simp: mm_inv_def mm_core_def split: option.split)
  ultimately show thesis using that [of ?Q n b] fields b(3,4) n_def by (auto split: option.split)
qed

subsection \<open>Allocated pieces\<close>

definition useds :: "nat \<Rightarrow> addr \<Rightarrow> layout \<Rightarrow> (addr \<times> nat) list" where
  "useds b a L = map (\<lambda>(a, n, f). (a, n)) (filter (\<lambda>(a, n, f). \<not> f) (chunks b a L))"

lemma useds_simps [simp]:
  "useds b a [] = []"
  "useds b a ((n, f) # L) = (if f then [] else [(a, n)]) @ useds b (a + n * 2 ^ b) L"
  "useds b a (X @ Y) = useds b a X @ useds b (a + grains X * 2 ^ b) Y"
  by (simp_all add: useds_def)

lemma useds_chunks: "(p, n) \<in> set (useds b a L) \<longleftrightarrow> (p, n, False) \<in> set (chunks b a L)"
  by (force simp: useds_def)

lemma useds_split:
  "(p, n) \<in> set (useds b a L) \<Longrightarrow> \<exists>X Y. L = X @ (n, False) # Y \<and> p = a + grains X * 2 ^ b"
  using chunks_split by (fastforce simp: useds_chunks)

lemma chunks_disjoint:
  "(p, n, f) \<in> set (chunks b a L) \<Longrightarrow> (q, m, g) \<in> set (chunks b a L) \<Longrightarrow> p \<noteq> q \<Longrightarrow>
   p + n * 2 ^ b \<le> q \<or> q + m * 2 ^ b \<le> p"
proof (induction b a L rule: chunks.induct)
  case (2 b a k h L)
  then show ?case
    using chunks_range [of p n f b "a + k * 2 ^ b" L] chunks_range [of q m g b "a + k * 2 ^ b" L] by auto
qed simp

lemma useds_allocated:
  "0 < k \<Longrightarrow> k \<le> n \<Longrightarrow> set (useds b a (allocated X k n Y)) =
   insert (a + grains X * 2 ^ b, k) (set (useds b a (X @ (n, True) # Y)))"
  by (auto simp: allocated_def add_mult_distrib [symmetric] add.assoc)

lemma useds_left: "useds b a (fst (join_left X n)) = useds b a X"
  by (cases X rule: rev_cases) auto

lemma grains_left: "grains (fst (join_left X n)) + snd (join_left X n) = grains X + n"
  by (cases X rule: rev_cases) auto

lemma useds_right:
  "useds b (a + fst (join_right n Y) * 2 ^ b) (snd (join_right n Y)) = useds b (a + n * 2 ^ b) Y"
  by (cases Y) (auto simp: add_mult_distrib add.assoc)

lemma useds_freed:
  "useds b a (freed X n Y) = useds b a X @ useds b (a + (grains X + n) * 2 ^ b) Y"
proof -
  let ?X = "fst (join_left X n)" and ?k = "snd (join_left X n)"
  have "useds b (a + grains ?X * 2 ^ b + fst (join_right ?k Y) * 2 ^ b) (snd (join_right ?k Y)) =
      useds b (a + (grains ?X + ?k) * 2 ^ b) Y"
    unfolding useds_right by (simp add: add_mult_distrib add.assoc del: join_left.simps)
  then show ?thesis
    by (simp add: freed_def split_def Let_def useds_left grains_left del: join_left.simps join_right.simps)
qed

subsection \<open>Histories\<close>

text \<open>
  What a program may do with a region \<open>R0\<close>: allocate pieces (within the sizes the counts
  represent), free the pieces it holds, and \<^verbatim>\<open>mm_free(NULL)\<close>. \<open>A\<close> maps each pointer it holds
  to the size it asked for.
\<close>

inductive mm_history :: "mm_region \<Rightarrow> mm_region \<Rightarrow> (addr \<rightharpoonup> u64) \<Rightarrow> bool" for R0 where
  start: "mm_history R0 R0 Map.empty"
| alloc: "mm_history R0 R A \<Longrightarrow> request_ok R sz \<Longrightarrow> mm_alloc sz R = Some (d, R') \<Longrightarrow>
    mm_history R0 R' (if d = NULL then A else A(d \<mapsto> sz))"
| free: "mm_history R0 R A \<Longrightarrow> d = NULL \<or> d \<in> dom A \<Longrightarrow> mm_free d R = Some R' \<Longrightarrow>
    mm_history R0 R' (A(d := None))"

definition same_region :: "mm_region \<Rightarrow> mm_region \<Rightarrow> bool" where
  "same_region R' R \<longleftrightarrow> mmr_grain_bits R' = mmr_grain_bits R \<and> mmr_start R' = mmr_start R \<and>
     mmr_size R' = mmr_size R \<and> mm_is_disable_mm_free R' = mm_is_disable_mm_free R"

lemma trees_same_region:
  "mm_trees_ins n R = Some R' \<Longrightarrow> same_region R' R"
  "mm_trees_del n R = Some R' \<Longrightarrow> same_region R' R"
  by (auto simp: mm_trees_ins_def mm_trees_del_def same_region_def bind_eq_Some_conv)

lemma same_region_simps [simp]:
  "same_region (write_pfx p c R) S = same_region R S" "same_region R (write_pfx p c S) = same_region R S"
  "same_region (mm_unlock R) S = same_region R S" "same_region R R"
  "same_region (R\<lparr>mmr_pfx := h\<rparr>) S = same_region R S"
  by (simp_all add: same_region_def write_pfx_def mm_unlock_def)

lemma same_region_trans [trans]: "same_region R S \<Longrightarrow> same_region S T \<Longrightarrow> same_region R T"
  by (simp add: same_region_def)

lemma mm_lock_same_region: "mm_lock R = Some R' \<Longrightarrow> same_region R' R"
  by (auto simp: mm_lock_def same_region_def split: if_splits)

lemma mm_alloc_same_region: "mm_alloc sz R = Some (d, R') \<Longrightarrow> same_region R' R"
  by (auto simp: mm_alloc_def Let_def bind_eq_Some_conv split: if_splits
      dest!: trees_same_region mm_lock_same_region intro: same_region_trans)

lemma coalesce_same_region:
  "coalesce_lesser p R = Some (q, R') \<Longrightarrow> same_region R' R"
  "coalesce_greater p R = Some R' \<Longrightarrow> same_region R' R"
  by (auto simp: coalesce_lesser_def coalesce_greater_def Let_def bind_eq_Some_conv split: if_splits
      dest!: trees_same_region)

lemma mm_free_same_region: "mm_free d R = Some R' \<Longrightarrow> same_region R' R"
  by (auto simp: mm_free_def Let_def bind_eq_Some_conv split: if_splits
      dest!: trees_same_region mm_lock_same_region coalesce_same_region) (simp add: same_region_def)

text \<open>Every pointer the program holds is behind the prefix of an allocated chunk that is large enough.\<close>

definition holds :: "mm_region \<Rightarrow> layout \<Rightarrow> (addr \<rightharpoonup> u64) \<Rightarrow> bool" where
  "holds R L A \<longleftrightarrow> (\<forall>d sz. A d = Some sz \<longrightarrow> sizeof_mm_prefix \<le> d \<and>
     (\<exists>n. (d - sizeof_mm_prefix, n) \<in> set (useds (mmr_grain_bits R) (mmr_start R) L) \<and>
        unat sz + sizeof_mm_prefix \<le> n * 2 ^ mmr_grain_bits R))"

lemma grains_for_enough: "n \<le> grains_for b n * 2 ^ b"
proof -
  let ?m = "n + (2 ^ b - 1)"
  have "?m mod 2 ^ b < 2 ^ b" and "?m div 2 ^ b * 2 ^ b + ?m mod 2 ^ b = ?m" by (simp, rule div_mult_mod_eq)
  then show ?thesis unfolding grains_for_def by linarith
qed

definition mm_state_ok :: "mm_region \<Rightarrow> (addr \<rightharpoonup> u64) \<Rightarrow> bool" where
  "mm_state_ok R A \<longleftrightarrow> (\<exists>L. mm_inv R L \<and> holds R L A \<and>
     grains L * 2 ^ mmr_grain_bits R \<le> unat (mmr_size R))"

lemma mm_alloc_state:
  assumes ok: "mm_state_ok R A" and req: "request_ok R sz"
  obtains d R' where "mm_alloc sz R = Some (d, R')" and "mm_state_ok R' (if d = NULL then A else A(d \<mapsto> sz))"
proof -
  obtain L where L: "mm_inv R L" "holds R L A" "grains L * 2 ^ mmr_grain_bits R \<le> unat (mmr_size R)"
    using ok by (auto simp: mm_state_ok_def)
  from mm_alloc_inv [OF L(1) req] show thesis
  proof cases
    case 1
    then show thesis using that [of NULL R] ok by simp
  next
    case (2 R' X n Y)
    let ?d = "chunk_addr R X + sizeof_mm_prefix" and ?k = "need R sz"
    have k: "0 < ?k" by (simp add: grains_for_pos sizeof_mm_prefix_def)
    note same = mm_alloc_same_region [OF 2(1), unfolded same_region_def]
    have "set (useds (mmr_grain_bits R) (mmr_start R) (allocated X ?k n Y)) =
        insert (chunk_addr R X, ?k) (set (useds (mmr_grain_bits R) (mmr_start R) L))"
      unfolding 2(2) chunk_addr_def by (rule useds_allocated [OF k 2(3)])
    then have "holds R' (allocated X ?k n Y) (A(?d \<mapsto> sz))"
      using L(2) grains_for_enough [of "unat sz + sizeof_mm_prefix" "mmr_grain_bits R"] same
      by (auto simp: holds_def) (blast+)
    moreover have "grains (allocated X ?k n Y) = grains L" using 2(2,3) by (simp add: allocated_def)
    ultimately have "mm_state_ok R' (A(?d \<mapsto> sz))"
      using 2(5) L(3) same unfolding mm_state_ok_def by (intro exI [of _ "allocated X ?k n Y"]) simp
    then show thesis using that [OF 2(1)] by (simp add: sizeof_mm_prefix_def)
  qed
qed

lemma mm_free_state:
  assumes ok: "mm_state_ok R A" and d: "d = NULL \<or> d \<in> dom A"
  obtains R' where "mm_free d R = Some R'" and "mm_state_ok R' (A(d := None))"
proof (cases "mm_is_disable_mm_free R \<or> d = NULL")
  case True
  then have "mm_free d R = Some R" by (auto simp: mm_free_def)
  moreover have "mm_state_ok R (A(d := None))" using ok by (auto simp: mm_state_ok_def holds_def)
  ultimately show thesis by (rule that)
next
  case False
  let ?b = "mmr_grain_bits R" and ?a = "mmr_start R"
  obtain L where L: "mm_inv R L" "holds R L A" "grains L * 2 ^ ?b \<le> unat (mmr_size R)"
    using ok by (auto simp: mm_state_ok_def)
  obtain n where n: "(d - sizeof_mm_prefix, n) \<in> set (useds ?b ?a L)" "sizeof_mm_prefix \<le> d"
    using L(2) d False by (auto simp: holds_def)
  obtain X Y where X: "L = X @ (n, False) # Y" "d - sizeof_mm_prefix = chunk_addr R X"
    using useds_split [OF n(1)] by (auto simp: chunk_addr_def)
  then have "chunk_addr R X + sizeof_mm_prefix = d" using n(2) by simp
  then obtain R' where R': "mm_free d R = Some R'" "mm_inv R' (freed X n Y)"
    using mm_free_inv [of R X n Y] L(1) X(1) False by auto
  note same = mm_free_same_region [OF R'(1), unfolded same_region_def]
  have used: "e \<in> set (useds ?b ?a (freed X n Y))" if "e \<in> set (useds ?b ?a L)" "fst e \<noteq> chunk_addr R X" for e
    using that unfolding useds_freed X(1) by (auto simp: chunk_addr_def add_mult_distrib add.assoc)
  have "holds R' (freed X n Y) (A(d := None))" unfolding holds_def
  proof (intro allI impI)
    fix d' sz
    assume "(A(d := None)) d' = Some sz"
    then have d': "A d' = Some sz" "d' \<noteq> d" by (auto split: if_splits)
    then obtain m where m: "sizeof_mm_prefix \<le> d'" "(d' - sizeof_mm_prefix, m) \<in> set (useds ?b ?a L)"
        "unat sz + sizeof_mm_prefix \<le> m * 2 ^ ?b" using L(2) unfolding holds_def by blast
    moreover have "d' - sizeof_mm_prefix \<noteq> chunk_addr R X" using m(1) n(2) X(2) d'(2) by linarith
    ultimately show "sizeof_mm_prefix \<le> d' \<and> (\<exists>n'. (d' - sizeof_mm_prefix, n') \<in>
        set (useds (mmr_grain_bits R') (mmr_start R') (freed X n Y)) \<and>
        unat sz + sizeof_mm_prefix \<le> n' * 2 ^ mmr_grain_bits R')"
      using used [of "(d' - sizeof_mm_prefix, m)"] same by auto
  qed
  moreover have "grains (freed X n Y) = grains L"
    using X(1) by (cases X rule: rev_cases; cases Y) (auto simp: freed_def Let_def)
  ultimately have "mm_state_ok R' (A(d := None))"
    using R'(2) L(3) same unfolding mm_state_ok_def by (intro exI [of _ "freed X n Y"]) simp
  with R'(1) show thesis by (rule that)
qed

lemma mm_init_state:
  assumes init: "mm_init True (Inr start) env st0 at0 bytes grain = Some (Inr R)" and ok: "init_ok start bytes grain"
  shows "mm_state_ok R Map.empty \<and> mmr_start R = start"
proof -
  obtain n where n: "mm_inv R [(n, True)]" "mmr_start R = start" "n = unat (mmr_size R) div 2 ^ mmr_grain_bits R"
    by (rule mm_init_inv [OF ok, of env st0 at0]) (use init in auto)
  then have "grains [(n, True)] * 2 ^ mmr_grain_bits R \<le> unat (mmr_size R)" by simp
  with n(1) have "mm_state_ok R Map.empty" unfolding mm_state_ok_def holds_def by auto
  with n(2) show ?thesis by simp
qed

lemma mm_history_ok: "mm_history R0 R A \<Longrightarrow> mm_state_ok R0 Map.empty \<Longrightarrow> mm_state_ok R A \<and> same_region R R0"
proof (induction rule: mm_history.induct)
  case (alloc R A sz d R')
  then show ?case using mm_alloc_state [of R A sz] mm_alloc_same_region [OF alloc(3)] same_region_trans
    by (metis Pair_inject option.inject)
next
  case (free R A d R')
  then show ?case using mm_free_state [of R A d] mm_free_same_region [OF free(3)] same_region_trans
    by (metis option.inject)
qed simp

subsection \<open>mm_realloc\<close>

lemma unat_count64: "k < 2 ^ 64 \<Longrightarrow> unat (of_nat k :: u64) = k"
  by (simp add: unat_of_nat)

lemma count_le:
  assumes "k < 2 ^ 64" and "n < 2 ^ 31" and "m < 2 ^ 31"
  shows "(of_nat k :: u64) \<le> of_nat n + of_nat m \<longleftrightarrow> k \<le> n + m"
  using assms unat_count64 [of "n + m"] by (simp add: word_le_nat_alt unat_count64)

lemma realloc_blocked:
  assumes core: "mm_core R (X @ (n, False) # Y)" and k: "k < 2 ^ 64"
    and blocked: "\<And>m Z. Y = (m, True) # Z \<Longrightarrow> n + m < k"
  shows "realloc_in_place (chunk_addr R X) (of_nat k) R = Some (Inl R)"
proof -
  note c = mm_core_chunk [OF core]
  obtain q where q: "rbt_find_lub (mmr_addr_tree R) (chunk_addr R X) = Some q"
    "\<And>Z m. Y = (m, True) # Z \<Longrightarrow> q = chunk_addr R (X @ [(n, False)])"
    "q \<noteq> NULL \<Longrightarrow> \<exists>Z m W. Y = Z @ (m, True) # W \<and> q = chunk_addr R (X @ (n, False) # Z)"
    by (rule find_greater [OF core]) blast
  show ?thesis
  proof (cases "q = NULL")
    case True
    with q(1) c show ?thesis by (simp add: realloc_in_place_def)
  next
    case False
    then obtain Z m W where Y: "Y = Z @ (m, True) # W" "q = chunk_addr R (X @ (n, False) # Z)" using q(3) by auto
    show ?thesis
    proof (cases "Z = []")
      case True
      then have core': "mm_core R ((X @ [(n, False)]) @ (m, True) # W)" using core Y by simp
      note c' = mm_core_chunk [OF core']
      have "n + m < k" using blocked Y True by simp
      then show ?thesis using q(1) c c' Y True count_le [OF k c(2) c'(2)] by (simp add: realloc_in_place_def)
    next
      case Z: False
      then have "chunk_addr R (X @ [(n, False)]) < q"
        using Y chunk_addr_less [of Z R "X @ [(n, False)]"] c(4) by simp
      with q(1) c False show ?thesis by (simp add: realloc_in_place_def)
    qed
  qed
qed

lemma write_pfx_twice:
  "write_pfx p c (write_pfx p d R) = write_pfx p c R"
  "p \<noteq> q \<Longrightarrow> write_pfx p c (write_pfx q d R) = write_pfx q d (write_pfx p c R)"
  by (simp_all add: write_pfx_def fun_upd_twist)

lemma write_pfx_update:
  "mmr_pfx R p = Some \<lparr>pfx_count = c, pfx_pfx = p\<rparr> \<Longrightarrow>
   R\<lparr>mmr_pfx := (mmr_pfx R)(p := map_option (pfx_count_update f) (mmr_pfx R p))\<rparr> = write_pfx p (f c) R"
  by (simp add: write_pfx_def)

lemma mm_trees_ins_pfx: "mm_trees_ins q R = Some R' \<Longrightarrow> mmr_pfx R' = mmr_pfx R"
  by (auto simp: mm_trees_ins_def bind_eq_Some_conv)

lemma realloc_tail:
  assumes core: "mm_core R (X @ (n, False) # (m, False) # Y)" and k: "0 < k" "k \<le> n + m"
  defines "p \<equiv> chunk_addr R X" and "r \<equiv> grain_addr R (chunk_addr R X) (of_nat k)"
  shows "\<exists>R'. (if of_nat (n + m) - of_nat k \<noteq> (0 :: u64) then
        mm_trees_ins r (write_pfx r (of_nat (n + m) - of_nat k) R) else Some R) = Some R' \<and>
    mmr_pfx R' p = Some \<lparr>pfx_count = of_nat n, pfx_pfx = p\<rparr> \<and>
    mm_core (write_pfx p (of_nat k) R') (allocated X k (n + m) Y)"
proof -
  let ?R = "write_pfx p (of_nat (n + m)) R" and ?x = "of_nat (n + m) - of_nat k :: u64"
  have px: "mmr_pfx R p = Some \<lparr>pfx_count = of_nat n, pfx_pfx = p\<rparr>"
    using core by (simp add: mm_core_def p_def chunk_addr_def)
  have addr: "chunk_addr ?R X = p" "grain_addr ?R p (of_nat k) = r"
    by (simp_all add: chunk_addr_def grain_addr_def write_pfx_def p_def r_def)
  have core': "mm_core ?R (X @ (n + m, False) # Y)"
    using move_merge [OF core] write_pfx_update [OF px, of "\<lambda>c. c + of_nat m"] by (simp add: p_def)
  have "k * 2 ^ mmr_grain_bits R \<le> grains (X @ (n + m, False) # Y) * 2 ^ mmr_grain_bits R"
    using k(2) by (intro mult_le_mono1) simp
  also have "\<dots> < 2 ^ 64" using core' unfolding mm_core_def write_pfx_def by simp
  finally have "r = p + k * 2 ^ mmr_grain_bits R"
    using core by (simp add: r_def grain_addr_def unat_push_bit_count mm_core_def p_def)
  then have neq: "p \<noteq> r" using k(1) by simp
  obtain S where S: "(if ?x \<noteq> 0 then mm_trees_ins r (write_pfx r ?x ?R) else Some ?R) = Some S"
      "mm_core (write_pfx p (of_nat k) S) (allocated X k (n + m) Y)"
    using alloc_tail [OF core' k] unfolding addr by blast
  have comm: "mm_trees_ins r (write_pfx r ?x ?R) =
      map_option (write_pfx p (of_nat (n + m))) (mm_trees_ins r (write_pfx r ?x R))"
    unfolding mm_trees_ins_write [OF neq, symmetric] by (simp add: write_pfx_twice(2) [OF neq])
  show ?thesis
  proof (cases "?x = 0")
    case True
    then show ?thesis using S px by (auto simp: write_pfx_twice)
  next
    case False
    then have "map_option (write_pfx p (of_nat (n + m))) (mm_trees_ins r (write_pfx r ?x R)) = Some S"
      using S(1) comm by simp
    then obtain R' where R': "mm_trees_ins r (write_pfx r ?x R) = Some R'" "S = write_pfx p (of_nat (n + m)) R'"
      by blast
    then have "mmr_pfx R' p = Some \<lparr>pfx_count = of_nat n, pfx_pfx = p\<rparr>"
      using mm_trees_ins_pfx [OF R'(1)] px neq by (simp add: write_pfx_def)
    then show ?thesis using R' S(2) False by (auto simp: write_pfx_twice)
  qed
qed

lemma realloc_grows:
  assumes core: "mm_core R (X @ (n, False) # (m, True) # Y)" and k: "0 < k" "k \<le> n + m"
  obtains R' where "realloc_in_place (chunk_addr R X) (of_nat k) R = Some (Inr R')"
    and "mm_core R' (allocated X k (n + m) Y)"
proof -
  let ?p = "chunk_addr R X" and ?q = "chunk_addr R (X @ [(n, False)])"
  note c = mm_core_chunk [OF core]
  have core': "mm_core R ((X @ [(n, False)]) @ (m, True) # Y)" using core by simp
  note c' = mm_core_chunk [OF core']
  have k64: "k < 2 ^ 64" using k(2) c(2) c'(2) by simp
  have q: "rbt_find_lub (mmr_addr_tree R) ?p = Some ?q"
    by (rule find_greater [OF core]) auto
  obtain R1 where R1: "mm_trees_del ?q R = Some R1" "mm_core R1 (X @ (n, False) # (m, False) # Y)"
      "R1 = R\<lparr>mmr_size_tree := mmr_size_tree R1, mmr_addr_tree := mmr_addr_tree R1\<rparr>"
    using move_take [OF core'] by auto
  note same = trees_only [OF R1(3)]
  obtain R2 where R2: "(if of_nat (n + m) - of_nat k \<noteq> (0 :: u64) then
        mm_trees_ins (grain_addr R1 ?p (of_nat k)) (write_pfx (grain_addr R1 ?p (of_nat k)) (of_nat (n + m) - of_nat k) R1)
      else Some R1) = Some R2" "mmr_pfx R2 ?p = Some \<lparr>pfx_count = of_nat n, pfx_pfx = ?p\<rparr>"
      "mm_core (write_pfx ?p (of_nat k) R2) (allocated X k (n + m) Y)"
    using realloc_tail [OF R1(2) k] unfolding same(1) by blast
  have "realloc_in_place ?p (of_nat k) R = Some (Inr (write_pfx ?p (of_nat k) R2))"
    using c c' q R1(1) R2(1) count_le [OF k64 c(2) c'(2)] k(2) write_pfx_update [OF R2(2), of "\<lambda>_. of_nat k"]
    by (auto simp: realloc_in_place_def Let_def split: if_splits)
  then show thesis using R2(3) by (rule that)
qed

lemma realloc_count:
  assumes core: "mm_core R L" and ok: "unat sz + (2 ^ mmr_grain_bits R - 1) < 2 ^ 64"
  shows "drop_bit (mmr_grain_bits R) (MMR_ROUNDUP sz (mmr_grain R)) = of_nat (grains_for (mmr_grain_bits R) (unat sz))"
  using roundup_count [of "mmr_grain_bits R" sz] core ok by (simp add: mm_core_def)

subsection \<open>mm_stats\<close>

definition add_stat :: "mm_stat \<Rightarrow> nat list \<Rightarrow> mm_stat" where
  "add_stat s ns = s\<lparr>mms_chunks := mms_chunks s + of_nat (length ns), mms_bytes := mms_bytes s + of_nat (sum_list ns),
     mms_largest := fold max (map of_nat ns) (mms_largest s),
     mms_smallest := fold min (map of_nat ns) (mms_smallest s)\<rparr>"

lemma visit_heap_stat:
  "length ls = length F \<Longrightarrow> (\<And>p n. (p, n) \<in> set F \<Longrightarrow> get_count R p = Some (of_nat n)) \<Longrightarrow>
   visit (heap_stat R) (zip (map fst F) ls) (Some s) = (0, Some (add_stat s (map snd F)))"
proof (induction F arbitrary: s ls)
  case (Cons e F)
  obtain p n where e: "e = (p, n)" by (cases e)
  obtain l ls' where ls: "ls = l # ls'" using Cons(2) by (cases ls) auto
  let ?s = "s\<lparr>mms_chunks := mms_chunks s + 1, mms_bytes := mms_bytes s + of_nat n,
      mms_largest := max (mms_largest s) (of_nat n), mms_smallest := min (mms_smallest s) (of_nat n)\<rparr>"
  have "heap_stat R p (Some s) l = (0, Some ?s)"
    using Cons(3) [of p n] e by (auto simp: heap_stat_def Let_def max_def min_def)
  moreover have "add_stat ?s (map snd F) = add_stat s (map snd (e # F))"
    by (simp add: add_stat_def e add.assoc max.commute min.commute)
  ultimately show ?case using Cons(1) [of ls' ?s] Cons(2,3) by (simp add: e ls)
qed (simp add: add_stat_def)

lemma free_of_allocated:
  assumes "coalesced (X @ (n, True) # Y)" and "k \<le> n"
  shows "freed X k ((if n = k then [] else [(n - k, True)]) @ Y) = X @ (n, True) # Y"
proof -
  have "X \<noteq> [] \<Longrightarrow> \<not> snd (last X)" using assms(1) by (auto simp: coalesced_append)
  moreover have "Y \<noteq> [] \<Longrightarrow> \<not> snd (hd Y)" using assms(1) by (cases Y; cases "hd Y") (auto simp: coalesced_append)
  ultimately show ?thesis using assms(2) by (auto simp: freed_def Let_def)
qed

subsection \<open>Properties\<close>

text \<open>A region to apply the properties to: 64 KiB in grains of 1 KiB.\<close>

abbreviation example_init :: "int option \<Rightarrow> (errno + mm_region) option" where
  "example_init env \<equiv> mm_init True (Inr 4096) env rbt_blank rbt_blank 65536 1024"

lemma MMR_ROUNDUP_example: "MMR_ROUNDUP 65536 4096 = 65536"
  unfolding MMR_ROUNDUP_def by simp

lemma init_ok_example: "init_ok 4096 65536 1024"
  by (simp add: init_ok_def MMR_ROUNDUP_example)

lemma example_region:
  obtains R where "example_init env = Some (Inr R)" and "mm_inv R [(64, True)]" and "mmr_grain_bits R = 10"
    and "mmr_start R = 4096" and "mm_is_disable_mm_free R = (case env of None \<Rightarrow> False | Some v \<Rightarrow> v \<noteq> 0)"
proof (rule mm_init_inv [OF init_ok_example, where env = env])
  fix R n b
  assume a: "example_init env = Some (Inr R)" "mm_inv R [(n, True)]" "mmr_start R = 4096" "mmr_grain_bits R = b"
    "unat (1024 :: u64) \<le> 2 ^ b" "\<And>j. j < b \<Longrightarrow> 2 ^ j < unat (1024 :: u64)"
    "n = unat (MMR_ROUNDUP 65536 4096) div 2 ^ b"
    "mm_is_disable_mm_free R = (case env of None \<Rightarrow> False | Some v \<Rightarrow> v \<noteq> 0)"
  have "b = 10"
  proof (rule antisym)
    show "b \<le> 10" using a(6) [of 10] by (cases "10 < b") auto
    show "10 \<le> b" using a(5) power_le_imp_le_exp [of 2 10 b] by simp
  qed
  then show thesis using that [of R] a by (simp add: MMR_ROUNDUP_example)
qed



text \<open>
  C8. \<^verbatim>\<open>mm_alloc\<close> is best fit: it fails, changing nothing, only when every free chunk is too
  small for the bytes asked for and their prefix; else it takes a smallest chunk that is
  large enough, hands out its first grains behind the prefix and keeps the rest free.
\<close>

theorem mm_alloc_best_fit:
  assumes "mm_inv R L" and "request_ok R sz"
  shows "(mm_alloc sz R = Some (NULL, R) \<and> (\<forall>(m, free) \<in> set L. free \<longrightarrow> m < need R sz)) \<or>
    (\<exists>X n Y R'. L = X @ (n, True) # Y \<and> need R sz \<le> n \<and>
       (\<forall>(m, free) \<in> set L. free \<longrightarrow> need R sz \<le> m \<longrightarrow> n \<le> m) \<and>
       mm_alloc sz R = Some (chunk_addr R X + sizeof_mm_prefix, R') \<and>
       mm_inv R' (allocated X (need R sz) n Y))"
proof (rule mm_alloc_inv [OF assms])
  assume "mm_alloc sz R = Some (NULL, R)" and "\<And>m. (m, True) \<in> set L \<Longrightarrow> m < need R sz"
  then show ?thesis by auto
next
  fix R' X n Y
  assume "mm_alloc sz R = Some (chunk_addr R X + sizeof_mm_prefix, R')" and "L = X @ (n, True) # Y"
    and "need R sz \<le> n" and m: "\<And>m. (m, True) \<in> set L \<Longrightarrow> need R sz \<le> m \<Longrightarrow> n \<le> m"
    and "mm_inv R' (allocated X (need R sz) n Y)"
  moreover have "\<forall>(m, free) \<in> set L. free \<longrightarrow> need R sz \<le> m \<longrightarrow> n \<le> m" using m by auto
  ultimately show ?thesis by blast
qed

lemma example_alloc:
  obtains R R1 where "example_init None = Some (Inr R)" and "mm_alloc 1000 R = Some (4096 + 96, R1)"
    and "mm_inv R1 ([] @ (2, False) # [(62, True)])" and "\<not> mm_is_disable_mm_free R" and "mmr_start R = 4096"
    and "mm_inv R [(64, True)]" and "request_ok R 1000" and "mmr_grain_bits R = 10"
proof -
  obtain R where R: "example_init None = Some (Inr R)" "mm_inv R [(64, True)]" "mmr_grain_bits R = 10"
      "mmr_start R = 4096" "\<not> mm_is_disable_mm_free R"
    by (rule example_region [of None]) simp
  have need: "need R 1000 = 2" by (simp add: R(3) grains_for_def sizeof_mm_prefix_def)
  then have req: "request_ok R 1000" by (simp add: request_ok_def R(3) sizeof_mm_prefix_def)
  show thesis
  proof (rule mm_alloc_inv [OF R(2) req])
    fix R' X n Y
    assume "mm_alloc 1000 R = Some (chunk_addr R X + sizeof_mm_prefix, R')" "[(64, True)] = X @ (n, True) # Y"
      "mm_inv R' (allocated X (need R 1000) n Y)"
    then show thesis unfolding need using that [OF R(1), of R'] R req
      by (cases X) (auto simp: chunk_addr_def sizeof_mm_prefix_def allocated_def)
  qed (use need in simp)
qed

theorem mm_alloc_best_fit_witness:
  "\<exists>R R'. example_init None = Some (Inr R) \<and> mm_alloc 1000 R = Some (4096 + 96, R') \<and>
     mm_inv R' [(2, False), (62, True)]"
proof -
  obtain R where R: "example_init None = Some (Inr R)" "mm_inv R [(64, True)]" "mmr_grain_bits R = 10" "mmr_start R = 4096"
    by (rule example_region [of None])
  have need: "need R 1000 = 2" by (simp add: R(3) grains_for_def sizeof_mm_prefix_def)
  then have "request_ok R 1000" by (simp add: request_ok_def R(3) sizeof_mm_prefix_def)
  from mm_alloc_best_fit [OF R(2) this] obtain X n Y R' where
    "[(64, True)] = X @ (n, True) # Y" "mm_alloc 1000 R = Some (chunk_addr R X + sizeof_mm_prefix, R')"
    "mm_inv R' (allocated X 2 n Y)" unfolding need by auto
  then have "mm_alloc 1000 R = Some (4096 + 96, R') \<and> mm_inv R' [(2, False), (62, True)]"
    by (cases X) (auto simp: chunk_addr_def R sizeof_mm_prefix_def allocated_def)
  with R(1) show ?thesis by blast
qed

text \<open>
  C9. \<^verbatim>\<open>mm_free\<close> of an allocated piece merges it with its free neighbours on both sides, so
  that no two free chunks are ever adjacent, and puts the merged chunk back.
\<close>

theorem mm_free_coalesces:
  assumes "mm_inv R (X @ (n, False) # Y)" and "\<not> mm_is_disable_mm_free R"
  shows "\<exists>R'. mm_free (chunk_addr R X + sizeof_mm_prefix) R = Some R' \<and> mm_inv R' (freed X n Y)"
  using mm_free_inv [OF assms] by blast

theorem mm_free_coalesces_witness:
  "\<exists>R R1 R2. example_init None = Some (Inr R) \<and> mm_alloc 1000 R = Some (4096 + 96, R1) \<and>
     mm_free (4096 + 96) R1 = Some R2 \<and> mm_inv R2 [(64, True)]"
proof -
  obtain R R1 where R: "example_init None = Some (Inr R)" "mm_alloc 1000 R = Some (4096 + 96, R1)"
      "mm_inv R1 ([] @ (2, False) # [(62, True)])" "\<not> mm_is_disable_mm_free R" "mmr_start R = 4096"
    by (rule example_alloc)
  have "chunk_addr R1 [] + sizeof_mm_prefix = 4096 + 96" "\<not> mm_is_disable_mm_free R1"
    using mm_alloc_same_region [OF R(2)] R(4,5) by (auto simp: same_region_def chunk_addr_def sizeof_mm_prefix_def)
  with mm_free_coalesces [OF R(3)] have "\<exists>R2. mm_free (4096 + 96) R1 = Some R2 \<and> mm_inv R2 [(64, True)]"
    by (simp add: freed_def Let_def)
  with R(1,2) show ?thesis by blast
qed

text \<open>
  C10. Freeing what \<^verbatim>\<open>mm_alloc\<close> just returned restores the layout of the heap exactly: the
  same chunks at the same places.
\<close>

theorem mm_alloc_free_roundtrip:
  assumes "mm_inv R L" and "request_ok R sz" and "\<not> mm_is_disable_mm_free R"
    and "mm_alloc sz R = Some (d, R1)" and "d \<noteq> NULL"
  shows "\<exists>R2. mm_free d R1 = Some R2 \<and> mm_inv R2 L"
proof (rule mm_alloc_inv [OF assms(1,2)])
  fix R' X n Y
  assume a: "mm_alloc sz R = Some (chunk_addr R X + sizeof_mm_prefix, R')" "L = X @ (n, True) # Y" "need R sz \<le> n"
    "mm_inv R' (allocated X (need R sz) n Y)"
  have R1: "d = chunk_addr R X + sizeof_mm_prefix" "R1 = R'" using a(1) assms(4) by auto
  have same: "same_region R1 R" by (rule mm_alloc_same_region [OF assms(4)])
  then have "chunk_addr R1 X = chunk_addr R X" "\<not> mm_is_disable_mm_free R1"
    using assms(3) by (simp_all add: same_region_def chunk_addr_def)
  moreover have "coalesced (X @ (n, True) # Y)" using assms(1) a(2) by (simp add: mm_inv_def)
  note free_of_allocated [OF this a(3)]
  ultimately show ?thesis
    using mm_free_inv [of R1 X "need R sz" "(if n = need R sz then [] else [(n - need R sz, True)]) @ Y"] a(2,4) R1
    by (auto simp: allocated_def)
qed (use assms(4,5) in auto)

theorem mm_alloc_free_roundtrip_witness:
  "\<exists>R R1 R2. example_init None = Some (Inr R) \<and> mm_inv R [(64, True)] \<and>
     mm_alloc 1000 R = Some (4096 + 96, R1) \<and> mm_free (4096 + 96) R1 = Some R2 \<and> mm_inv R2 [(64, True)]"
proof (rule example_alloc)
  fix R R1
  assume a: "example_init None = Some (Inr R)" "mm_alloc 1000 R = Some (4096 + 96, R1)"
    "\<not> mm_is_disable_mm_free R" "mm_inv R [(64, True)]" "request_ok R 1000"
  then show ?thesis using mm_alloc_free_roundtrip [OF a(4,5,3,2)] by auto
qed

text \<open>
  C11. \<^verbatim>\<open>mm_init\<close> leaves one free chunk: as many whole grains as fit in the page-rounded size, the
  grain rounded up to the least power of two; its errors are those of \<^verbatim>\<open>calloc\<close> and \<^verbatim>\<open>mmap\<close>.
\<close>

theorem mm_init_correct:
  assumes "init_ok start sz grain"
  shows "mm_init False mapped env st0 at0 sz grain = Some (Inl ENOMEM) \<and>
    mm_init True (Inl e) env st0 at0 sz grain = Some (Inl e) \<and>
    (\<exists>R b. mm_init True (Inr start) env st0 at0 sz grain = Some (Inr R) \<and> mmr_grain R = 2 ^ b \<and>
       unat grain \<le> 2 ^ b \<and> (\<forall>j<b. 2 ^ j < unat grain) \<and>
       mm_inv R [(unat (MMR_ROUNDUP sz 4096) div 2 ^ b, True)])"
proof (rule mm_init_inv [OF assms, of env st0 at0], goal_cases)
  case (1 R n b)
  have "mmr_grain R = 2 ^ b" using 1(2,5) by (simp add: mm_inv_def mm_core_def)
  with 1 have "\<exists>R b. mm_init True (Inr start) env st0 at0 sz grain = Some (Inr R) \<and> mmr_grain R = 2 ^ b \<and>
       unat grain \<le> 2 ^ b \<and> (\<forall>j<b. 2 ^ j < unat grain) \<and>
       mm_inv R [(unat (MMR_ROUNDUP sz 4096) div 2 ^ b, True)]" by blast
  then show ?case by (simp add: mm_init_def)
qed

theorem mm_init_correct_witness:
  "\<exists>R b. example_init None = Some (Inr R) \<and> (1024 :: nat) \<le> 2 ^ b \<and> mm_inv R [(65536 div 2 ^ b, True)]"
  using mm_init_correct [OF init_ok_example, of "Inr 4096" None rbt_blank rbt_blank ENOMEM]
  by (auto simp: MMR_ROUNDUP_example)

text \<open>
  \<^verbatim>\<open>get_pow2\<close> returns the least power of two that is not below its argument, and its
  exponent, when there is one in 64 bits; above that the doubling wraps to 0 and the loop never ends.
\<close>

theorem get_pow2_correct:
  "get_pow2 n = (if unat n \<le> 2 ^ 63 then (let i = (LEAST i. unat n \<le> 2 ^ i) in Some (2 ^ i, i)) else None)"
proof (cases "unat n \<le> 2 ^ 63")
  case True
  from get_pow2_small [OF this] obtain i where i: "get_pow2 n = Some (2 ^ i, i)" "unat n \<le> 2 ^ i" "\<And>j. j < i \<Longrightarrow> 2 ^ j < unat n"
    by blast
  then have "(LEAST i. unat n \<le> 2 ^ i) = i" by (intro Least_equality) (auto simp: not_less [symmetric])
  with i True show ?thesis by simp
next
  case False
  then show ?thesis by (simp add: get_pow2_diverges)
qed

text \<open>
  C12. What \<^verbatim>\<open>mm_realloc\<close> does. If the next chunk is free and large enough, it grows (or
  shrinks) the piece in place to the grains of the new size alone: no grains are counted for
  the prefix. In every other case it calls \<^verbatim>\<open>mm_alloc\<close> with its own lock held and never returns.
\<close>

theorem mm_realloc_behaviour:
  assumes "mm_inv R (X @ (n, False) # Y)" and "0 < unat sz" and "unat sz + (2 ^ mmr_grain_bits R - 1) < 2 ^ 64"
  shows "let d = chunk_addr R X + sizeof_mm_prefix; k = grains_for (mmr_grain_bits R) (unat sz) in
    if Y \<noteq> [] \<and> snd (hd Y) \<and> k \<le> n + fst (hd Y)
    then \<exists>R'. mm_realloc d sz R = Some (d, R') \<and> mm_inv R' (allocated X k (n + fst (hd Y)) (tl Y))
    else mm_realloc d sz R = None"
proof -
  let ?k = "grains_for (mmr_grain_bits R) (unat sz)" and ?R = "R\<lparr>mmr_lock := True\<rparr>" and ?p = "chunk_addr R X"
  have core: "mm_core ?R (X @ (n, False) # Y)" using assms(1) by (simp add: mm_inv_def)
  have lock: "mm_lock R = Some ?R" "mm_alloc s ?R = None" for s
    using assms(1) by (simp_all add: mm_inv_def mm_lock_def mm_alloc_def)
  note count = realloc_count [OF assms(1) [unfolded mm_inv_def, THEN conjunct1] assms(3)]
  have k: "0 < ?k" by (rule grains_for_pos [OF assms(2)])
  show ?thesis
  proof (cases "Y \<noteq> [] \<and> snd (hd Y) \<and> ?k \<le> n + fst (hd Y)")
    case True
    then obtain m Z where Y: "Y = (m, True) # Z" "?k \<le> n + m" by (cases Y) auto
    obtain R' where R': "realloc_in_place ?p (of_nat ?k) ?R = Some (Inr R')" "mm_core R' (allocated X ?k (n + m) Z)"
      using realloc_grows [OF core [unfolded Y(1)] k Y(2)] by auto
    have "coalesced (allocated X ?k (n + m) Z)"
      using assms(1) Y(1) by (auto simp: mm_inv_def allocated_def coalesced_append intro: coalesced_head)
    then have "mm_inv (mm_unlock R') (allocated X ?k (n + m) Z)"
      using R'(2) by (simp add: mm_inv_def mm_unlock_def)
    with R'(1) Y show ?thesis by (auto simp: mm_realloc_def count lock Let_def)
  next
    case False
    have "grains_for (mmr_grain_bits R) (unat sz) < 2 ^ 64"
      using assms(3) by (auto simp: grains_for_def intro: le_less_trans [OF div_le_dividend])
    moreover have "n + m < ?k" if "Y = (m, True) # Z" for m Z using False that by simp
    ultimately have "realloc_in_place ?p (of_nat ?k) ?R = Some (Inl ?R)"
      using realloc_blocked [OF core] unfolding chunk_addr_lock by blast
    with False show ?thesis by (auto simp: mm_realloc_def count lock Let_def)
  qed
qed

theorem mm_realloc_behaviour_witness:
  "\<exists>R R1. example_init None = Some (Inr R) \<and> mm_alloc 1000 R = Some (4096 + 96, R1) \<and>
     mm_realloc (4096 + 96) 2048 R1 \<noteq> None \<and> mm_realloc (4096 + 96) 65537 R1 = None"
proof (rule example_alloc)
  fix R R1
  assume a: "example_init None = Some (Inr R)" "mm_alloc 1000 R = Some (4096 + 96, R1)" "mmr_start R = 4096"
    "mm_inv R1 ([] @ (2, False) # [(62, True)])" "mmr_grain_bits R = 10"
  have "chunk_addr R1 [] + sizeof_mm_prefix = 4096 + 96" "mmr_grain_bits R1 = 10"
    using mm_alloc_same_region [OF a(2)] a(3,5) by (auto simp: same_region_def chunk_addr_def sizeof_mm_prefix_def)
  then have "mm_realloc (4096 + 96) 2048 R1 \<noteq> None" "mm_realloc (4096 + 96) 65537 R1 = None"
    using mm_realloc_behaviour [OF a(4), of 2048] mm_realloc_behaviour [OF a(4), of 65537]
    by (auto simp: grains_for_def Let_def)
  with a show ?thesis by blast
qed

text \<open>
  \<^verbatim>\<open>mm_stats\<close> reports the free chunks of the heap: how many there are, their grains, the
  largest and the smallest (one more than the heap size when there is none).
\<close>

theorem mm_stats_correct:
  assumes "mm_inv R L"
  shows "\<exists>s. mm_stats (Some R) = Some s \<and> mms_size s = mmr_size R \<and> mms_grain s = mmr_grain R \<and>
    mms_chunks s = of_nat (length (filter snd L)) \<and> mms_bytes s = of_nat (sum_list (map fst (filter snd L))) \<and>
    mms_largest s = Max (insert 0 (of_nat ` fst ` {c \<in> set L. snd c})) \<and>
    mms_smallest s = Min (insert (mmr_size R + 1) (of_nat ` fst ` {c \<in> set L. snd c}))"
proof -
  let ?F = "frees (mmr_grain_bits R) (mmr_start R) L" and ?R = "R\<lparr>mmr_lock := True\<rparr>"
  let ?s = "\<lparr>mms_size = mmr_size R, mms_grain = mmr_grain R, mms_chunks = 0, mms_bytes = 0,
    mms_largest = 0, mms_smallest = mmr_size R + 1\<rparr>"
  have core: "mm_core R L" and lock: "mm_lock R = Some ?R" using assms by (simp_all add: mm_inv_def mm_lock_def)
  have "rbt_rep (mmr_addr_tree R) (map (\<lambda>(p, n). (p, p)) ?F)" using core by (simp add: mm_core_def rbt_seq_def)
  from rbt_traverse_rep [OF this, of "heap_stat ?R" "Some ?s"] obtain ls where
    ls: "length ls = length ?F" "rbt_traverse (mmr_addr_tree R) (heap_stat ?R) (Some ?s) =
      Some (visit (heap_stat ?R) (zip (map fst ?F) ls) (Some ?s))"
    by (auto simp: split_def comp_def)
  have "get_count ?R p = Some (of_nat n)" if "(p, n) \<in> set ?F" for p n
    using core that frees_chunks [of p n "mmr_grain_bits R" "mmr_start R" L]
    by (auto simp: mm_core_def get_count_def)
  note v = visit_heap_stat [OF ls(1) this, of ?s]
  have F: "map snd (frees b a L) = map fst (filter snd L)" for b a
    by (induction b a L rule: chunks.induct) auto
  have "mm_stats (Some R) = Some (add_stat ?s (map fst (filter snd L)))"
    using ls(2) v F by (simp add: mm_stats_def lock)
  moreover have "set (map of_nat (map fst (filter snd L))) = of_nat ` fst ` {c \<in> set L. snd c}" by auto
  ultimately show ?thesis
    by (simp add: add_stat_def Max.set_eq_fold [symmetric] Min.set_eq_fold [symmetric] image_image)
qed

theorem mm_stats_correct_witness:
  "\<exists>R s. example_init None = Some (Inr R) \<and> mm_stats (Some R) = Some s \<and> mms_chunks s = 1 \<and> mms_bytes s = 64"
proof (rule example_alloc)
  fix R R1
  assume a: "example_init None = Some (Inr R)" "mm_inv R [(64, True)]"
  then show ?thesis using mm_stats_correct [OF a(2)] by auto
qed

end
