(* ===== verification/OvisEvent.thy ===== *)
theory OvisEvent
  imports Prelude
begin

section \<open>The event scheduler (lib/src/ovis_event): the code\<close>

text \<open>
  An \<^verbatim>\<open>ovis_scheduler\<close> keeps timed events in a binary heap ordered by wake-up time, one-shot
  events in a queue, and polls file descriptors. Events are objects in a store, named
  by address; each carries its position in the heap (\<^verbatim>\<open>priv.idx\<close>, -1 outside). The mutex
  is not part of the model: every definition is what runs between one lock and its
  unlock, or a sequence of such sections. The clock, \<^verbatim>\<open>epoll_ctl\<close>, \<^verbatim>\<open>epoll_wait\<close>, \<^verbatim>\<open>write\<close> on the
  notification pipe and the application's callbacks are arguments.
\<close>

unbundle bit_operations_syntax

subsection \<open>Time\<close>

record timeval =
  tv_sec :: int
  tv_usec :: int

text \<open>The macros of \<^verbatim>\<open>sys/time.h\<close> the code uses.\<close>

definition timercmp_lt :: "timeval \<Rightarrow> timeval \<Rightarrow> bool" where
  "timercmp_lt a b = (if tv_sec a = tv_sec b then tv_usec a < tv_usec b else tv_sec a < tv_sec b)"

definition timeradd :: "timeval \<Rightarrow> timeval \<Rightarrow> timeval" where
  "timeradd a b = (let s = tv_sec a + tv_sec b; u = tv_usec a + tv_usec b in
     if u \<ge> 1000000 then \<lparr>tv_sec = s + 1, tv_usec = u - 1000000\<rparr> else \<lparr>tv_sec = s, tv_usec = u\<rparr>)"

definition timersub :: "timeval \<Rightarrow> timeval \<Rightarrow> timeval" where
  "timersub a b = (let s = tv_sec a - tv_sec b; u = tv_usec a - tv_usec b in
     if u < 0 then \<lparr>tv_sec = s - 1, tv_usec = u + 1000000\<rparr> else \<lparr>tv_sec = s, tv_usec = u\<rparr>)"

subsection \<open>Events and the scheduler\<close>

datatype ovis_event_type =
  OVIS_EVENT_EPOLL | OVIS_EVENT_TIMEOUT | OVIS_EVENT_EPOLL_TIMEOUT | OVIS_EVENT_PERIODIC | OVIS_EVENT_ONESHOT

fun type_val :: "ovis_event_type \<Rightarrow> u32" where
  "type_val OVIS_EVENT_EPOLL = 0x1"
| "type_val OVIS_EVENT_TIMEOUT = 0x2"
| "type_val OVIS_EVENT_EPOLL_TIMEOUT = 0x3"
| "type_val OVIS_EVENT_PERIODIC = 0x4"
| "type_val OVIS_EVENT_ONESHOT = 0x8"

record ovis_periodic =
  period_us :: u64
  phase_us :: u64

text \<open>The two members of the anonymous union are separate fields; \<open>ev_type\<close> tells which one counts.\<close>

record ovis_event =
  ev_type :: ovis_event_type
  ev_epoll_events :: u32
  ev_fd :: int
  ev_cb_fn :: addr
  ev_timeout :: timeval
  ev_periodic :: ovis_periodic
  ev_ctxt :: addr
  ev_cb_type :: "ovis_event_type option"
  ev_cb_epoll_events :: u32
  ev_tv :: timeval
  ev_idx :: int

type_synonym ev_store = "addr \<Rightarrow> ovis_event option"

text \<open>
  The array \<^verbatim>\<open>ev[]\<close> has \<^verbatim>\<open>alloc_len\<close> slots. Indices are natural numbers: with the sizes
  the allocation allows (\<^verbatim>\<open>2*idx+2\<close> within \<^verbatim>\<open>int\<close>) they do not wrap.
\<close>

record ovis_event_heap =
  heap_len :: nat
  heap_ev :: "addr list"

definition alloc_len :: "ovis_event_heap \<Rightarrow> nat" where
  "alloc_len h = length (heap_ev h)"

datatype manager_state =
  OVIS_EVENT_MANAGER_INIT | OVIS_EVENT_MANAGER_RUNNING | OVIS_EVENT_MANAGER_WAITING | OVIS_EVENT_MANAGER_TERM

record ovis_scheduler =
  sc_evs :: ev_store
  sc_evcount :: int
  sc_refcount :: int
  sc_state :: manager_state
  sc_heap :: ovis_event_heap
  sc_oneshot :: "addr list"
  sc_pipe :: "addr list"
  sc_clock :: nat
  sc_polls :: nat
  sc_destroyed :: bool

definition set_idx :: "addr \<Rightarrow> int \<Rightarrow> ev_store \<Rightarrow> ev_store option" where
  "set_idx a i E = do { e \<leftarrow> E a; Some (E(a \<mapsto> e\<lparr>ev_idx := i\<rparr>)) }"

definition get_slot :: "ovis_event_heap \<Rightarrow> nat \<Rightarrow> addr option" where
  "get_slot h i = (if i < alloc_len h then Some (heap_ev h ! i) else None)"

definition set_slot :: "nat \<Rightarrow> addr \<Rightarrow> ovis_event_heap \<Rightarrow> ovis_event_heap option" where
  "set_slot i a h = (if i < alloc_len h then Some (h\<lparr>heap_ev := (heap_ev h)[i := a]\<rparr>) else None)"

subsection \<open>The event heap\<close>

text \<open>\<^verbatim>\<open>malloc\<close> leaves the slots with whatever the memory held: \<open>junk\<close>.\<close>

definition ovis_event_heap_create :: "bool \<Rightarrow> addr list \<Rightarrow> ovis_event_heap option" where
  "ovis_event_heap_create malloc_ok junk =
     (if malloc_ok then Some \<lparr>heap_len = 0, heap_ev = junk\<rparr> else None)"

definition ovis_event_lt :: "ev_store \<Rightarrow> addr \<Rightarrow> addr \<Rightarrow> bool option" where
  "ovis_event_lt E e0 e1 = do { a \<leftarrow> E e0; b \<leftarrow> E e1; Some (timercmp_lt (ev_tv a) (ev_tv b)) }"

fun heap_float_loop ::
  "addr \<Rightarrow> nat \<Rightarrow> ev_store \<times> ovis_event_heap \<Rightarrow> (nat \<times> ev_store \<times> ovis_event_heap) option" where
  "heap_float_loop ev idx (E, h) =
     (if idx = 0 then Some (idx, E, h)
      else do {
        let pidx = (idx - 1) div 2;
        p \<leftarrow> get_slot h pidx;
        lt \<leftarrow> ovis_event_lt E ev p;
        if \<not> lt then Some (idx, E, h)
        else do {
          h \<leftarrow> set_slot idx p h;
          E \<leftarrow> set_idx p (int idx) E;
          heap_float_loop ev ((idx - 1) div 2) (E, h) } })"

definition ovis_event_heap_float :: "nat \<Rightarrow> ev_store \<times> ovis_event_heap \<Rightarrow> (ev_store \<times> ovis_event_heap) option" where
  "ovis_event_heap_float idx S = do {
     ev \<leftarrow> get_slot (snd S) idx;
     (idx, E, h) \<leftarrow> heap_float_loop ev idx S;
     h \<leftarrow> set_slot idx ev h;
     E \<leftarrow> set_idx ev (int idx) E;
     Some (E, h) }"

text \<open>The index \<^verbatim>\<open>x\<close> of the child to compare with.\<close>

definition smaller_child :: "ev_store \<Rightarrow> ovis_event_heap \<Rightarrow> nat \<Rightarrow> nat \<Rightarrow> nat option" where
  "smaller_child E h l r =
     (if r \<ge> heap_len h then Some l
      else do {
        el \<leftarrow> get_slot h l;
        er \<leftarrow> get_slot h r;
        lt \<leftarrow> ovis_event_lt E el er;
        Some (if lt then l else r) })"

lemma smaller_child_greater: "smaller_child E h (Suc (idx * 2)) (Suc (Suc (idx * 2))) = Some x \<Longrightarrow> idx < x"
  by (auto simp: smaller_child_def bind_eq_Some_conv split: if_splits)

function heap_sink_loop ::
  "addr \<Rightarrow> nat \<Rightarrow> ev_store \<times> ovis_event_heap \<Rightarrow> (nat \<times> ev_store \<times> ovis_event_heap) option" where
  "heap_sink_loop ev idx (E, h) =
     (let l = idx * 2 + 1; r = l + 1 in
      if l < heap_len h then do {
        x \<leftarrow> smaller_child E h l r;
        ex \<leftarrow> get_slot h x;
        lt \<leftarrow> ovis_event_lt E ex ev;
        if \<not> lt then Some (idx, E, h)
        else do {
          h' \<leftarrow> set_slot idx ex h;
          E \<leftarrow> set_idx ex (int idx) E;
          heap_sink_loop ev x (E, h') } }
      else Some (idx, E, h))"
  by pat_completeness auto
termination
  by (relation "measure (\<lambda>(ev, idx, E, h). heap_len h - idx)") 
    (auto split: if_splits simp: bind_eq_Some_conv set_slot_def dest!: smaller_child_greater)

definition ovis_event_heap_sink :: "nat \<Rightarrow> ev_store \<times> ovis_event_heap \<Rightarrow> (ev_store \<times> ovis_event_heap) option" where
  "ovis_event_heap_sink idx S = do {
     ev \<leftarrow> get_slot (snd S) idx;
     (idx, E, h) \<leftarrow> heap_sink_loop ev idx S;
     h \<leftarrow> set_slot idx ev h;
     E \<leftarrow> set_idx ev (int idx) E;
     Some (E, h) }"

definition ovis_event_heap_insert ::
  "addr \<Rightarrow> ev_store \<times> ovis_event_heap \<Rightarrow> (errno \<times> ev_store \<times> ovis_event_heap) option" where
  "ovis_event_heap_insert ev S = (case S of (E, h) \<Rightarrow>
     if heap_len h = alloc_len h then Some (ENOMEM, E, h)
     else do {
       h \<leftarrow> set_slot (heap_len h) ev h;
       let h = h\<lparr>heap_len := heap_len h + 1\<rparr>;
       (E, h) \<leftarrow> ovis_event_heap_float (heap_len h - 1) (E, h);
       Some (EOK, E, h) })"

text \<open>With \<^verbatim>\<open>heap_len\<close> 0 the decrement wraps and the slot read is far outside of the array: a fault.\<close>

definition ovis_event_heap_remove :: "addr \<Rightarrow> ev_store \<times> ovis_event_heap \<Rightarrow> (ev_store \<times> ovis_event_heap) option" where
  "ovis_event_heap_remove ev S = (case S of (E, h) \<Rightarrow> do {
     e \<leftarrow> E ev;
     let i = ev_idx e;
     if i \<ge> 0 then
       if heap_len h = 0 then None
       else do {
         let h = h\<lparr>heap_len := heap_len h - 1\<rparr>;
         last \<leftarrow> get_slot h (heap_len h);
         h \<leftarrow> set_slot (nat i) last h;
         E \<leftarrow> set_idx last i E;
         (E, h) \<leftarrow> ovis_event_heap_sink (nat i) (E, h);
         E \<leftarrow> set_idx ev (-1) E;
         Some (E, h) }
     else Some (E, h) })"

definition ovis_event_heap_update :: "int \<Rightarrow> ev_store \<times> ovis_event_heap \<Rightarrow> (ev_store \<times> ovis_event_heap) option" where
  "ovis_event_heap_update idx S =
     (if idx < 0 then None
      else do {
        ev \<leftarrow> get_slot (snd S) (nat idx);
        (E, h) \<leftarrow> ovis_event_heap_float (nat idx) S;
        e \<leftarrow> E ev;
        if ev_idx e = idx then ovis_event_heap_sink (nat idx) (E, h) else Some (E, h) })"

definition ovis_event_heap_pop :: "ev_store \<times> ovis_event_heap \<Rightarrow> (addr \<times> ev_store \<times> ovis_event_heap) option" where
  "ovis_event_heap_pop S = do {
     ev \<leftarrow> get_slot (snd S) 0;
     S \<leftarrow> ovis_event_heap_remove ev S;
     Some (ev, S) }"

definition ovis_event_heap_top :: "ovis_event_heap \<Rightarrow> addr option" where
  "ovis_event_heap_top h = (if heap_len h > 0 then get_slot h 0 else Some NULL)"

subsection \<open>Creating and freeing a scheduler\<close>

definition OVIS_EVENT_HEAP_SIZE_DEFAULT :: nat where
  "OVIS_EVENT_HEAP_SIZE_DEFAULT = 16384"

text \<open>\<open>env\<close> is \<^verbatim>\<open>OVIS_EVENT_HEAP_SIZE\<close> as \<^verbatim>\<open>strtoul\<close> reads it, when it is set.\<close>

definition ovis_event_get_heap_size :: "nat option \<Rightarrow> nat" where
  "ovis_event_get_heap_size env = (case env of None \<Rightarrow> OVIS_EVENT_HEAP_SIZE_DEFAULT | Some n \<Rightarrow> n)"

definition ovis_scheduler_destroy :: "ovis_scheduler \<Rightarrow> ovis_scheduler" where
  "ovis_scheduler_destroy m = m\<lparr>sc_destroyed := True\<rparr>"

definition ovis_scheduler_ref_get :: "ovis_scheduler \<Rightarrow> ovis_scheduler" where
  "ovis_scheduler_ref_get m = m\<lparr>sc_refcount := sc_refcount m + 1\<rparr>"

definition ovis_scheduler_ref_put :: "ovis_scheduler \<Rightarrow> ovis_scheduler option" where
  "ovis_scheduler_ref_put m = do {
     c_assert (sc_refcount m > 0);
     let m = m\<lparr>sc_refcount := sc_refcount m - 1\<rparr>;
     Some (if sc_refcount m = 0 then ovis_scheduler_destroy m else m) }"

definition ovis_scheduler_free :: "ovis_scheduler option \<Rightarrow> ovis_scheduler option option" where
  "ovis_scheduler_free mo = (case mo of
     None \<Rightarrow> Some None
   | Some m \<Rightarrow> do { m \<leftarrow> ovis_scheduler_ref_put m; Some (Some m) })"

text \<open>The outcomes of the system calls of \<^verbatim>\<open>ovis_scheduler_new\<close>, in order.\<close>

record new_env =
  calloc_ok :: bool
  mutex_ok :: bool
  heap_malloc_ok :: bool
  epoll_create_ok :: bool
  pipe_ok :: bool
  fcntl0_ok :: bool
  fcntl1_ok :: bool
  epoll_add_ok :: bool

text \<open>\<open>self\<close> is the address of the scheduler's own event \<^verbatim>\<open>ovis_ev\<close>, \<open>pipe_cb\<close> of \<^verbatim>\<open>__ovis_event_pipe_cb\<close>.\<close>

definition ovis_scheduler_new ::
  "new_env \<Rightarrow> addr list \<Rightarrow> addr \<Rightarrow> addr \<Rightarrow> int \<Rightarrow> ovis_scheduler option option" where
  "ovis_scheduler_new env junk self pipe_cb pfd0 =
     (if \<not> calloc_ok env \<or> \<not> mutex_ok env then Some None
      else let
        m = \<lparr>sc_evs = Map.empty, sc_evcount = 0, sc_refcount = 1, sc_state = OVIS_EVENT_MANAGER_INIT,
             sc_heap = \<lparr>heap_len = 0, heap_ev = []\<rparr>, sc_oneshot = [], sc_pipe = [], sc_clock = 0,
             sc_polls = 0, sc_destroyed = False\<rparr>
        in
        case ovis_event_heap_create (heap_malloc_ok env) junk of
          None \<Rightarrow> do { ovis_scheduler_ref_put m; Some None }
        | Some h \<Rightarrow>
            if \<not> epoll_create_ok env \<or> \<not> pipe_ok env \<or> \<not> fcntl0_ok env \<or> \<not> fcntl1_ok env \<or> \<not> epoll_add_ok env
            then do { ovis_scheduler_ref_put m; Some None }
            else Some (Some (m\<lparr>sc_heap := h, sc_evs := [self \<mapsto>
              \<lparr>ev_type = OVIS_EVENT_EPOLL, ev_epoll_events = 1, ev_fd = pfd0, ev_cb_fn = pipe_cb,
               ev_timeout = \<lparr>tv_sec = 0, tv_usec = 0\<rparr>, ev_periodic = \<lparr>period_us = 0, phase_us = 0\<rparr>,
               ev_ctxt = self, ev_cb_type = None, ev_cb_epoll_events = 0,
               ev_tv = \<lparr>tv_sec = -1, tv_usec = 0\<rparr>, ev_idx = -1\<rparr>]\<rparr>)))"

definition ovis_event_pipe_cb :: "ovis_scheduler \<Rightarrow> ovis_scheduler" where
  "ovis_event_pipe_cb m = m\<lparr>sc_pipe := []\<rparr>"

subsection \<open>Wake-up times\<close>

definition USEC :: u64 where
  "USEC = 1000000"

definition ROUND :: "u64 \<Rightarrow> u64 \<Rightarrow> u64" where
  "ROUND x p = (x + (p - 1)) div p * p"

text \<open>A zero period divides by zero.\<close>

definition next_periodic :: "ovis_periodic \<Rightarrow> timeval \<Rightarrow> timeval option" where
  "next_periodic p tv =
     (if period_us p = 0 then None
      else let
        now = word_of_int (tv_sec tv * 1000000 + tv_usec tv) :: u64;
        us = ROUND now (period_us p);
        us = us + phase_us p;
        diff = us - now;
        diff = (if sint diff \<le> 0 then diff + period_us p
                else if diff > period_us p then diff mod period_us p
                else diff);
        us = now + diff
      in Some \<lparr>tv_sec = uint (us div USEC), tv_usec = uint (us mod USEC)\<rparr>)"

definition set_next_periodic_time :: "addr \<Rightarrow> timeval \<Rightarrow> ev_store \<Rightarrow> ev_store option" where
  "set_next_periodic_time ev tv E = do {
     e \<leftarrow> E ev;
     t \<leftarrow> next_periodic (ev_periodic e) tv;
     Some (E(ev \<mapsto> e\<lparr>ev_tv := t\<rparr>)) }"

definition ovis_event_next_wakeup :: "timeval \<Rightarrow> addr \<Rightarrow> ev_store \<Rightarrow> ev_store option" where
  "ovis_event_next_wakeup now ev E = do {
     e \<leftarrow> E ev;
     case ev_type e of
       OVIS_EVENT_TIMEOUT \<Rightarrow> Some (E(ev \<mapsto> e\<lparr>ev_tv := timeradd now (ev_timeout e)\<rparr>))
     | OVIS_EVENT_EPOLL_TIMEOUT \<Rightarrow> Some (E(ev \<mapsto> e\<lparr>ev_tv := timeradd now (ev_timeout e)\<rparr>))
     | OVIS_EVENT_PERIODIC \<Rightarrow> set_next_periodic_time ev now E
     | _ \<Rightarrow> None }"

subsection \<open>Creating events\<close>

text \<open>\<^verbatim>\<open>calloc\<close> zeroes the fields a constructor does not set; \<open>None\<close> is a failed allocation.\<close>

definition blank_event :: ovis_event where
  "blank_event = \<lparr>ev_type = OVIS_EVENT_EPOLL, ev_epoll_events = 0, ev_fd = 0, ev_cb_fn = NULL,
     ev_timeout = \<lparr>tv_sec = 0, tv_usec = 0\<rparr>, ev_periodic = \<lparr>period_us = 0, phase_us = 0\<rparr>,
     ev_ctxt = NULL, ev_cb_type = None, ev_cb_epoll_events = 0,
     ev_tv = \<lparr>tv_sec = 0, tv_usec = 0\<rparr>, ev_idx = 0\<rparr>"

definition ovis_event_epoll_new :: "bool \<Rightarrow> addr \<Rightarrow> addr \<Rightarrow> int \<Rightarrow> u32 \<Rightarrow> ovis_event option" where
  "ovis_event_epoll_new alloc_ok cb_fn ctxt fd epoll_events =
     (if \<not> alloc_ok then None
      else Some (blank_event\<lparr>ev_type := OVIS_EVENT_EPOLL, ev_fd := fd, ev_epoll_events := epoll_events,
        ev_cb_fn := cb_fn, ev_ctxt := ctxt, ev_idx := -1\<rparr>))"

definition ovis_event_timeout_new :: "bool \<Rightarrow> addr \<Rightarrow> addr \<Rightarrow> timeval \<Rightarrow> ovis_event option" where
  "ovis_event_timeout_new alloc_ok cb_fn ctxt timeout =
     (if \<not> alloc_ok then None
      else Some (blank_event\<lparr>ev_type := OVIS_EVENT_TIMEOUT, ev_timeout := timeout,
        ev_cb_fn := cb_fn, ev_ctxt := ctxt, ev_idx := -1\<rparr>))"

definition ovis_event_epoll_timeout_new ::
  "bool \<Rightarrow> addr \<Rightarrow> addr \<Rightarrow> int \<Rightarrow> u32 \<Rightarrow> timeval \<Rightarrow> ovis_event option" where
  "ovis_event_epoll_timeout_new alloc_ok cb_fn ctxt fd epoll_events timeout =
     (if \<not> alloc_ok then None
      else Some (blank_event\<lparr>ev_type := OVIS_EVENT_EPOLL_TIMEOUT, ev_fd := fd, ev_epoll_events := epoll_events,
        ev_timeout := timeout, ev_cb_fn := cb_fn, ev_ctxt := ctxt, ev_idx := -1\<rparr>))"

definition ovis_event_periodic_new :: "bool \<Rightarrow> addr \<Rightarrow> addr \<Rightarrow> ovis_periodic \<Rightarrow> ovis_event option" where
  "ovis_event_periodic_new alloc_ok cb_fn ctxt p =
     (if \<not> alloc_ok then None
      else Some (blank_event\<lparr>ev_type := OVIS_EVENT_PERIODIC, ev_periodic := p, ev_fd := -1,
        ev_cb_fn := cb_fn, ev_ctxt := ctxt, ev_idx := -1\<rparr>))"

subsection \<open>Adding and deleting events\<close>

definition is_epoll :: "ovis_event \<Rightarrow> bool" where
  "is_epoll e \<longleftrightarrow> type_val (ev_type e) AND type_val OVIS_EVENT_EPOLL \<noteq> 0"

definition is_timed :: "ovis_event \<Rightarrow> bool" where
  "is_timed e \<longleftrightarrow> type_val (ev_type e) AND (type_val OVIS_EVENT_TIMEOUT OR type_val OVIS_EVENT_PERIODIC) \<noteq> 0"

definition is_timeout :: "ovis_event \<Rightarrow> bool" where
  "is_timeout e \<longleftrightarrow> type_val (ev_type e) AND type_val OVIS_EVENT_TIMEOUT \<noteq> 0"

definition gettimeofday :: "(nat \<Rightarrow> timeval) \<Rightarrow> ovis_scheduler \<Rightarrow> timeval \<times> ovis_scheduler" where
  "gettimeofday clk m = (clk (sc_clock m), m\<lparr>sc_clock := sc_clock m + 1\<rparr>)"

text \<open>A notification through the pipe; \<open>wr\<close> is the \<^verbatim>\<open>errno\<close> of \<^verbatim>\<open>write\<close>, \<open>EOK\<close> when it succeeds.\<close>

definition notify :: "errno \<Rightarrow> addr \<Rightarrow> ovis_scheduler \<Rightarrow> errno \<times> ovis_scheduler" where
  "notify wr ev m = (if wr = EOK then (EOK, m\<lparr>sc_pipe := sc_pipe m @ [ev]\<rparr>) else (wr, m))"

definition add_timed :: "(nat \<Rightarrow> timeval) \<Rightarrow> errno \<Rightarrow> addr \<Rightarrow> ovis_scheduler \<Rightarrow> (errno \<times> ovis_scheduler) option" where
  "add_timed clk wr ev m = do {
     e \<leftarrow> sc_evs m ev;
     if ev_idx e \<noteq> -1 then Some (EEXIST, m)
     else do {
       let (tv, m) = gettimeofday clk m;
       E \<leftarrow> ovis_event_next_wakeup tv ev (sc_evs m);
       (rc, E, h) \<leftarrow> ovis_event_heap_insert ev (E, sc_heap m);
       let m = m\<lparr>sc_evs := E, sc_heap := h\<rparr>;
       if rc \<noteq> EOK then Some (rc, m)
       else do {
         let m = m\<lparr>sc_evcount := sc_evcount m + 1\<rparr>;
         e \<leftarrow> sc_evs m ev;
         Some (if sc_state m = OVIS_EVENT_MANAGER_WAITING \<and> ev_idx e = 0 then notify wr ev m else (EOK, m)) } } }"

definition add_oneshot :: "errno \<Rightarrow> addr \<Rightarrow> ovis_scheduler \<Rightarrow> (errno \<times> ovis_scheduler) option" where
  "add_oneshot wr ev m = do {
     e \<leftarrow> sc_evs m ev;
     if ev_idx e \<noteq> -1 then Some (EEXIST, m)
     else do {
       E \<leftarrow> set_idx ev 0 (sc_evs m);
       let m = m\<lparr>sc_evs := E, sc_evcount := sc_evcount m + 1, sc_oneshot := sc_oneshot m @ [ev]\<rparr>;
       Some (if sc_state m = OVIS_EVENT_MANAGER_WAITING then notify wr ev m else (EOK, m)) } }"

text \<open>\<open>ctl_ok\<close> is whether \<^verbatim>\<open>epoll_ctl\<close> succeeds.\<close>

definition ovis_scheduler_event_add ::
  "bool \<Rightarrow> (nat \<Rightarrow> timeval) \<Rightarrow> errno \<Rightarrow> addr \<Rightarrow> ovis_scheduler \<Rightarrow> (errno \<times> ovis_scheduler) option" where
  "ovis_scheduler_event_add ctl_ok clk wr ev m = do {
     e \<leftarrow> sc_evs m ev;
     if is_epoll e \<and> \<not> ctl_ok then Some (EFAIL, m)
     else do {
       let m = (if is_epoll e then m\<lparr>sc_evcount := sc_evcount m + 1\<rparr> else m);
       (rc, m) \<leftarrow> (if is_timed e then add_timed clk wr ev m else Some (EOK, m));
       if rc \<noteq> EOK then Some (rc, m)
       else if ev_type e = OVIS_EVENT_ONESHOT then add_oneshot wr ev m
       else Some (EOK, m) } }"

definition ovis_scheduler_event_del ::
  "bool \<Rightarrow> errno \<Rightarrow> addr \<Rightarrow> ovis_scheduler \<Rightarrow> (errno \<times> ovis_scheduler) option" where
  "ovis_scheduler_event_del ctl_ok wr ev m = do {
     e \<leftarrow> sc_evs m ev;
     if is_epoll e \<and> \<not> ctl_ok then Some (EFAIL, m)
     else do {
       let m = (if is_epoll e then m\<lparr>sc_evcount := sc_evcount m - 1\<rparr> else m);
       if ev_idx e \<ge> 0 then do {
         (E, h) \<leftarrow> ovis_event_heap_remove ev (sc_evs m, sc_heap m);
         let m = m\<lparr>sc_evs := E, sc_heap := h, sc_evcount := sc_evcount m - 1\<rparr>;
         Some (if sc_state m = OVIS_EVENT_MANAGER_WAITING \<and> sc_evcount m = 0 then notify wr ev m else (EOK, m)) }
       else Some (EOK, m) } }"

definition ovis_scheduler_epoll_event_mod :: "errno \<Rightarrow> addr \<Rightarrow> u32 \<Rightarrow> ovis_scheduler \<Rightarrow> (errno \<times> ovis_scheduler) option" where
  "ovis_scheduler_epoll_event_mod ctl ev epoll_events m = do {
     e \<leftarrow> sc_evs m ev;
     Some (if ctl \<noteq> EOK then (ctl, m)
           else (EOK, m\<lparr>sc_evs := (sc_evs m)(ev \<mapsto> e\<lparr>ev_epoll_events := epoll_events\<rparr>)\<rparr>)) }"

subsection \<open>The scheduler loop\<close>

definition rearm :: "addr \<Rightarrow> ovis_scheduler \<Rightarrow> ovis_scheduler option" where
  "rearm ev m = do {
     e \<leftarrow> sc_evs m ev;
     (E, h) \<leftarrow> ovis_event_heap_update (ev_idx e) (sc_evs m, sc_heap m);
     Some (m\<lparr>sc_evs := E, sc_heap := h\<rparr>) }"

definition set_cb_type :: "ovis_event_type \<Rightarrow> addr \<Rightarrow> ovis_scheduler \<Rightarrow> ovis_scheduler option" where
  "set_cb_type t ev m = do {
     e \<leftarrow> sc_evs m ev;
     Some (m\<lparr>sc_evs := (sc_evs m)(ev \<mapsto> e\<lparr>ev_cb_type := Some t\<rparr>)\<rparr>) }"

text \<open>The \<^verbatim>\<open>process_event\<close> part of \<^verbatim>\<open>ovis_event_heap_process\<close> up to the callback.\<close>

definition process_event :: "(nat \<Rightarrow> timeval) \<Rightarrow> addr \<Rightarrow> ovis_scheduler \<Rightarrow> ovis_scheduler option" where
  "process_event clk ev m = do {
     e \<leftarrow> sc_evs m ev;
     case ev_type e of
       OVIS_EVENT_ONESHOT \<Rightarrow> set_cb_type OVIS_EVENT_ONESHOT ev m
     | OVIS_EVENT_PERIODIC \<Rightarrow> do {
         let (tv, m) = gettimeofday clk m;
         E \<leftarrow> set_next_periodic_time ev tv (sc_evs m);
         m \<leftarrow> rearm ev (m\<lparr>sc_evs := E\<rparr>);
         set_cb_type OVIS_EVENT_PERIODIC ev m }
     | OVIS_EVENT_EPOLL \<Rightarrow> None
     | _ \<Rightarrow> do {
         let (tv, m) = gettimeofday clk m;
         m \<leftarrow> rearm ev (m\<lparr>sc_evs := (sc_evs m)(ev \<mapsto> e\<lparr>ev_tv := timeradd tv (ev_timeout e)\<rparr>)\<rparr>);
         set_cb_type OVIS_EVENT_TIMEOUT ev m } }"

text \<open>
  \<open>call f ev m\<close> is what the callback \<open>f\<close> does when called on \<open>ev\<close>. The timeout in milliseconds is
  stored into an \<^verbatim>\<open>int\<close>.
\<close>

type_synonym callbacks = "addr \<Rightarrow> addr \<Rightarrow> ovis_scheduler \<Rightarrow> ovis_scheduler option"

definition run_cb :: "callbacks \<Rightarrow> addr \<Rightarrow> ovis_scheduler \<Rightarrow> ovis_scheduler option" where
  "run_cb call ev m = do {
     e \<leftarrow> sc_evs m ev;
     if ev_cb_fn e = NULL then None else call (ev_cb_fn e) ev m }"

definition wait_ms :: "timeval \<Rightarrow> timeval \<Rightarrow> int option" where
  "wait_ms t now = (let d = timersub t now in do {
     c_assert (tv_sec d \<ge> 0);
     c_assert (tv_usec d \<ge> 0);
     Some (sint (word_of_int (tv_sec d * 1000 + (tv_usec d + 999) div 1000) :: u32)) })"

definition stop_running :: "ovis_scheduler \<Rightarrow> ovis_scheduler" where
  "stop_running m = (if sc_state m = OVIS_EVENT_MANAGER_RUNNING then m\<lparr>sc_state := OVIS_EVENT_MANAGER_WAITING\<rparr> else m)"

partial_function (option) ovis_event_heap_process ::
  "(nat \<Rightarrow> timeval) \<Rightarrow> callbacks \<Rightarrow> ovis_scheduler \<Rightarrow> (int \<times> ovis_scheduler) option" where
  "ovis_event_heap_process clk call m =
     (case sc_oneshot m of
        ev # q \<Rightarrow> do {
          E \<leftarrow> set_idx ev (-1) (sc_evs m);
          m \<leftarrow> process_event clk ev (m\<lparr>sc_oneshot := q, sc_evcount := sc_evcount m - 1, sc_evs := E\<rparr>);
          m \<leftarrow> run_cb call ev m;
          ovis_event_heap_process clk call m }
      | [] \<Rightarrow> do {
          ev \<leftarrow> ovis_event_heap_top (sc_heap m);
          if ev = NULL then Some (-1, stop_running m)
          else do {
            let (tv, m) = gettimeofday clk m;
            e \<leftarrow> sc_evs m ev;
            if \<not> timercmp_lt tv (ev_tv e) then do {
              m \<leftarrow> process_event clk ev m;
              m \<leftarrow> run_cb call ev m;
              ovis_event_heap_process clk call m }
            else do {
              timeout \<leftarrow> wait_ms (ev_tv e) tv;
              Some (timeout, stop_running m) } } })"

definition ovis_event_timer_update :: "(nat \<Rightarrow> timeval) \<Rightarrow> addr \<Rightarrow> ovis_scheduler \<Rightarrow> ovis_scheduler option" where
  "ovis_event_timer_update clk ev m = do {
     let (tv, m) = gettimeofday clk m;
     e \<leftarrow> sc_evs m ev;
     rearm ev (m\<lparr>sc_evs := (sc_evs m)(ev \<mapsto> e\<lparr>ev_tv := timeradd tv (ev_timeout e)\<rparr>)\<rparr>) }"

definition ovis_event_term_check :: "ovis_scheduler \<Rightarrow> errno option" where
  "ovis_event_term_check m = (case sc_state m of
     OVIS_EVENT_MANAGER_INIT \<Rightarrow> None
   | OVIS_EVENT_MANAGER_TERM \<Rightarrow> Some EINTR
   | _ \<Rightarrow> Some EOK)"

text \<open>The \<^verbatim>\<open>for\<close> loop over what \<^verbatim>\<open>epoll_wait\<close> reported; it stops when the scheduler is terminated.\<close>

fun dispatch ::
  "(nat \<Rightarrow> timeval) \<Rightarrow> callbacks \<Rightarrow> (addr \<times> u32) list \<Rightarrow> ovis_scheduler \<Rightarrow> (errno \<times> ovis_scheduler) option" where
  "dispatch clk call [] m = do { rc \<leftarrow> ovis_event_term_check m; Some (rc, m) }"
| "dispatch clk call ((ev, events) # rest) m = do {
     rc \<leftarrow> ovis_event_term_check m;
     if rc \<noteq> EOK then Some (rc, m)
     else do {
       e \<leftarrow> sc_evs m ev;
       let m = m\<lparr>sc_evs := (sc_evs m)(ev \<mapsto> e\<lparr>ev_cb_type := Some OVIS_EVENT_EPOLL, ev_cb_epoll_events := events\<rparr>)\<rparr>;
       m \<leftarrow> (if is_timeout e \<and> ev_idx e \<noteq> -1 then ovis_event_timer_update clk ev m else Some m);
       m \<leftarrow> (if ev_cb_fn e \<noteq> NULL then run_cb call ev m else Some m);
       dispatch clk call rest m } }"

text \<open>\<open>poll k\<close> is the outcome of the \<open>k\<close>-th \<^verbatim>\<open>epoll_wait\<close>: an \<^verbatim>\<open>errno\<close>, or the ready events.\<close>

partial_function (option) scheduler_rounds ::
  "(nat \<Rightarrow> timeval) \<Rightarrow> callbacks \<Rightarrow> (nat \<Rightarrow> errno + (addr \<times> u32) list) \<Rightarrow> bool \<Rightarrow> ovis_scheduler \<Rightarrow>
   (errno \<times> ovis_scheduler) option" where
  "scheduler_rounds clk call poll return_on_empty m = do {
     (timeout, m) \<leftarrow> ovis_event_heap_process clk call m;
     if sc_evcount m = 0 \<and> return_on_empty then Some (ENOENT, m)
     else do {
       let k = sc_polls m;
       let m = m\<lparr>sc_polls := k + 1\<rparr>;
       case poll k of
         Inl e \<Rightarrow> if e = EINTR then scheduler_rounds clk call poll return_on_empty m else Some (e, m)
       | Inr evs \<Rightarrow>
           if evs = [] then scheduler_rounds clk call poll return_on_empty m
           else do {
             let m = (if sc_state m = OVIS_EVENT_MANAGER_WAITING then m\<lparr>sc_state := OVIS_EVENT_MANAGER_RUNNING\<rparr> else m);
             (rc, m) \<leftarrow> dispatch clk call evs m;
             if rc \<noteq> EOK then do { m \<leftarrow> ovis_scheduler_ref_put m; Some (rc, m) }
             else scheduler_rounds clk call poll return_on_empty m } } }"

definition ovis_scheduler_loop ::
  "(nat \<Rightarrow> timeval) \<Rightarrow> callbacks \<Rightarrow> (nat \<Rightarrow> errno + (addr \<times> u32) list) \<Rightarrow> bool \<Rightarrow> ovis_scheduler \<Rightarrow>
   (errno \<times> ovis_scheduler) option" where
  "ovis_scheduler_loop clk call poll return_on_empty m = (let m = ovis_scheduler_ref_get m in
     if sc_state m = OVIS_EVENT_MANAGER_INIT \<or> sc_state m = OVIS_EVENT_MANAGER_TERM
     then scheduler_rounds clk call poll return_on_empty (m\<lparr>sc_state := OVIS_EVENT_MANAGER_RUNNING\<rparr>)
     else do { m \<leftarrow> ovis_scheduler_ref_put m; Some (EINVAL, m) })"

definition ovis_scheduler_term :: "errno \<Rightarrow> ovis_scheduler \<Rightarrow> errno \<times> ovis_scheduler" where
  "ovis_scheduler_term wr m =
     (if sc_state m = OVIS_EVENT_MANAGER_RUNNING \<or> sc_state m = OVIS_EVENT_MANAGER_WAITING
      then notify wr NULL (m\<lparr>sc_state := OVIS_EVENT_MANAGER_TERM\<rparr>)
      else (EINVAL, m))"

declare ovis_event_heap_process.simps [code]
  scheduler_rounds.simps [code]

end
