(* ===== verification/HeapOrder.thy ===== *)
theory HeapOrder
  imports Prelude "HOL-Library.Multiset"
begin

section \<open>Binary heaps in arrays\<close>

text \<open>
  The order of a binary min-heap stored in an array, for a strict weak order, and what
  one exchange of a slot with its parent or with its smaller child does to it. The
  float and sink loops of the event scheduler are sequences of such exchanges.
\<close>

locale strict_weak =
  fixes lt :: "'a \<Rightarrow> 'a \<Rightarrow> bool"
  assumes lt_irrefl: "\<not> lt a a"
    and lt_trans: "lt a b \<Longrightarrow> lt b c \<Longrightarrow> lt a c"
    and not_lt_trans: "\<not> lt a b \<Longrightarrow> \<not> lt b c \<Longrightarrow> \<not> lt a c"

definition par :: "nat \<Rightarrow> nat" where
  "par i = (i - 1) div 2"

lemma par_less: "0 < i \<Longrightarrow> par i < i"
  by (simp add: par_def)

lemma par_children: "0 < j \<Longrightarrow> par j = i \<longleftrightarrow> j = 2 * i + 1 \<or> j = 2 * i + 2"
  by (auto simp: par_def)

definition heap_ordered :: "('a \<Rightarrow> 'a \<Rightarrow> bool) \<Rightarrow> 'a list \<Rightarrow> nat \<Rightarrow> bool" where
  "heap_ordered lt xs n \<longleftrightarrow> (\<forall>j. 0 < j \<and> j < n \<longrightarrow> \<not> lt (xs ! j) (xs ! par j))"

text \<open>Ordered but for the slot \<open>i\<close>, whose neighbours are in order around it.\<close>

definition hole :: "('a \<Rightarrow> 'a \<Rightarrow> bool) \<Rightarrow> 'a list \<Rightarrow> nat \<Rightarrow> nat \<Rightarrow> bool" where
  "hole lt xs n i \<longleftrightarrow>
     (\<forall>j. 0 < j \<and> j < n \<and> j \<noteq> i \<and> par j \<noteq> i \<longrightarrow> \<not> lt (xs ! j) (xs ! par j)) \<and>
     (\<forall>c. 0 < c \<and> c < n \<and> par c = i \<and> 0 < i \<longrightarrow> \<not> lt (xs ! c) (xs ! par i))"

definition above_children :: "('a \<Rightarrow> 'a \<Rightarrow> bool) \<Rightarrow> 'a list \<Rightarrow> nat \<Rightarrow> nat \<Rightarrow> bool" where
  "above_children lt xs n i \<longleftrightarrow> (\<forall>c. 0 < c \<and> c < n \<and> par c = i \<longrightarrow> \<not> lt (xs ! c) (xs ! i))"

definition below_parent :: "('a \<Rightarrow> 'a \<Rightarrow> bool) \<Rightarrow> 'a list \<Rightarrow> nat \<Rightarrow> bool" where
  "below_parent lt xs i \<longleftrightarrow> (0 < i \<longrightarrow> \<not> lt (xs ! i) (xs ! par i))"

definition swap :: "'a list \<Rightarrow> nat \<Rightarrow> nat \<Rightarrow> 'a list" where
  "swap xs i j = xs[i := xs ! j, j := xs ! i]"

lemma swap_props:
  assumes "i < n" and "j < n" and "n \<le> length xs"
  shows "length (swap xs i j) = length xs" and "mset (take n (swap xs i j)) = mset (take n xs)"
proof -
  have "take n (swap xs i j) = (take n xs)[i := take n xs ! j, j := take n xs ! i]"
    using assms by (simp add: swap_def take_update_swap)
  moreover have "mset ((take n xs)[i := take n xs ! j, j := take n xs ! i]) = mset (take n xs)"
    using assms by (intro mset_swap) auto
  ultimately show "mset (take n (swap xs i j)) = mset (take n xs)" by simp
qed (simp add: swap_def)

lemma heap_orderedI: "hole lt xs n i \<Longrightarrow> above_children lt xs n i \<Longrightarrow> below_parent lt xs i \<Longrightarrow> heap_ordered lt xs n"
  unfolding hole_def above_children_def below_parent_def heap_ordered_def by metis

context strict_weak
begin

lemma lt_asym: "lt a b \<Longrightarrow> \<not> lt b a"
  using lt_irrefl lt_trans by blast

lemma root_least:
  assumes "heap_ordered lt xs n"
  shows "i < n \<Longrightarrow> \<not> lt (xs ! i) (xs ! 0)"
proof (induction i rule: less_induct)
  case (less i)
  show ?case
  proof (cases "i = 0")
    case False
    then have "\<not> lt (xs ! i) (xs ! par i)" using assms less(2) by (simp add: heap_ordered_def)
    moreover have "\<not> lt (xs ! par i) (xs ! 0)" using less par_less [of i] False by simp
    ultimately show ?thesis by (rule not_lt_trans)
  qed (simp add: lt_irrefl)
qed

lemma hole_update:
  assumes "heap_ordered lt xs n" and "n \<le> length xs" and "i < n" and "m \<le> n"
  shows "hole lt (xs[i := v]) m i"
  unfolding hole_def
proof (intro conjI allI impI)
  fix j
  assume "0 < j \<and> j < m \<and> j \<noteq> i \<and> par j \<noteq> i"
  then show "\<not> lt (xs[i := v] ! j) (xs[i := v] ! par j)"
    using assms(1,4) by (simp add: heap_ordered_def)
next
  fix c
  assume c: "0 < c \<and> c < m \<and> par c = i \<and> 0 < i"
  then have "\<not> lt (xs ! c) (xs ! i)" "\<not> lt (xs ! i) (xs ! par i)"
    using assms(1,3,4) by (auto simp: heap_ordered_def)
  then have "\<not> lt (xs ! c) (xs ! par i)" by (rule not_lt_trans)
  then show "\<not> lt (xs[i := v] ! c) (xs[i := v] ! par i)" using c par_less [of i] par_less [of c] by auto
qed

lemma swap_up:
  assumes "hole lt xs n i" and "above_children lt xs n i" and "0 < i" and "i < n" and "n \<le> length xs"
    and less: "lt (xs ! i) (xs ! par i)"
  shows "hole lt (swap xs i (par i)) n (par i) \<and> above_children lt (swap xs i (par i)) n (par i)"
proof -
  let ?p = "par i" and ?ys = "swap xs i (par i)"
  have p: "?p < i" using par_less assms(3) by simp
  have nth: "?ys ! j = (if j = i then xs ! ?p else if j = ?p then xs ! i else xs ! j)" for j
    using p assms(4,5) by (auto simp: swap_def nth_list_update)
  have ord: "\<not> lt (xs ! j) (xs ! par j)" if "0 < j" "j < n" "j \<noteq> i" for j
    using assms(1,2) that by (cases "par j = i") (auto simp: hole_def above_children_def)
  have grand: "\<not> lt (xs ! c) (xs ! ?p)" if "0 < c" "c < n" "par c = i" for c
    using assms(1,3) that by (simp add: hole_def)
  have asym: "\<not> lt (xs ! ?p) (xs ! i)" using less by (rule lt_asym)
  have sib: "\<not> lt (xs ! c) (xs ! i)" if "0 < c" "c < n" "par c = ?p" "c \<noteq> i" for c
    using ord [OF that(1,2,4)] that(3) asym not_lt_trans by auto
  have "\<not> lt (?ys ! j) (?ys ! par j)" if "0 < j" "j < n" "j \<noteq> ?p" "par j \<noteq> ?p" for j
    using that ord [of j] grand [of j] par_less [of j] by (auto simp: nth)
  moreover have "\<not> lt (?ys ! c) (?ys ! par ?p)" if "0 < c" "c < n" "par c = ?p" "0 < ?p" for c
  proof -
    have pp: "\<not> lt (xs ! ?p) (xs ! par ?p)" using ord [of ?p] that(4) p assms(4) by simp
    show ?thesis using that p par_less [of ?p] par_less [of c] pp ord [of c] not_lt_trans [of "xs ! c" "xs ! ?p" "xs ! par ?p"]
      by (auto simp: nth)
  qed
  moreover have "\<not> lt (?ys ! c) (?ys ! ?p)" if "0 < c" "c < n" "par c = ?p" for c
    using that p asym sib [of c] par_less [of c] by (auto simp: nth)
  ultimately show ?thesis by (simp add: hole_def above_children_def)
qed

lemma swap_down:
  assumes "hole lt xs n i" and "below_parent lt xs i" and "x < n" and "n \<le> length xs"
    and x: "0 < x" "par x = i" and least: "\<And>c. 0 < c \<Longrightarrow> c < n \<Longrightarrow> par c = i \<Longrightarrow> \<not> lt (xs ! c) (xs ! x)"
    and less: "lt (xs ! x) (xs ! i)"
  shows "hole lt (swap xs i x) n x \<and> below_parent lt (swap xs i x) x"
proof -
  let ?ys = "swap xs i x"
  have i: "i < x" using par_less [OF x(1)] x(2) by simp
  have nth: "?ys ! j = (if j = i then xs ! x else if j = x then xs ! i else xs ! j)" for j
    using i assms(3,4) by (auto simp: swap_def nth_list_update)
  have ord: "\<not> lt (xs ! j) (xs ! par j)" if "0 < j" "j < n" "par j \<noteq> i" for j
    using assms(1,2) that by (cases "j = i") (auto simp: hole_def below_parent_def)
  have grand: "\<not> lt (xs ! x) (xs ! par i)" if "0 < i" using assms(1,3) x that by (simp add: hole_def)
  have asym: "\<not> lt (xs ! i) (xs ! x)" using less by (rule lt_asym)
  have "\<not> lt (?ys ! j) (?ys ! par j)" if "0 < j" "j < n" "j \<noteq> x" "par j \<noteq> x" for j
    using that ord [of j] grand least [of j] par_less [of j] by (auto simp: nth)
  moreover have "\<not> lt (?ys ! c) (?ys ! par x)" if "0 < c" "c < n" "par c = x" for c
    using that x i ord [of c] par_less [of c] by (auto simp: nth)
  moreover have "\<not> lt (?ys ! x) (?ys ! par x)" using x i asym by (auto simp: nth)
  ultimately show ?thesis by (simp add: hole_def below_parent_def)
qed

end

end
