(* ===== verification/OvisEventHeap.thy ===== *)
theory OvisEventHeap
  imports OvisEvent HeapOrder
begin

section \<open>The event heap: order and indices\<close>

text \<open>
  What the operations of the scheduler's heap keep: the events of the heap are
  distinct, each carries its own position, parents are not due later than their children,
  and nothing but the positions of the events of the heap changes.
\<close>

definition wake :: "ev_store \<Rightarrow> addr \<Rightarrow> timeval" where
  "wake E a = ev_tv (the (E a))"

abbreviation sooner :: "ev_store \<Rightarrow> addr \<Rightarrow> addr \<Rightarrow> bool" where
  "sooner E a b \<equiv> timercmp_lt (wake E a) (wake E b)"

interpretation tv: strict_weak "\<lambda>a b. timercmp_lt (t a) (t b)" for t :: "addr \<Rightarrow> timeval"
  by unfold_locales (auto simp: timercmp_lt_def split: if_splits)

definition heap_set :: "ovis_event_heap \<Rightarrow> addr set" where
  "heap_set h = set (take (heap_len h) (heap_ev h))"

text \<open>The stores differ only in the positions of the events \<open>S\<close>.\<close>

definition only_idx :: "addr set \<Rightarrow> ev_store \<Rightarrow> ev_store \<Rightarrow> bool" where
  "only_idx S E0 E \<longleftrightarrow> (\<forall>a. a \<notin> S \<longrightarrow> E a = E0 a) \<and>
     (\<forall>a. map_option (ev_idx_update (\<lambda>_. 0)) (E a) = map_option (ev_idx_update (\<lambda>_. 0)) (E0 a))"

definition heap_inv :: "ev_store \<Rightarrow> ovis_event_heap \<Rightarrow> bool" where
  "heap_inv E h \<longleftrightarrow> heap_len h \<le> alloc_len h \<and> distinct (take (heap_len h) (heap_ev h)) \<and>
     (\<forall>i < heap_len h. \<exists>e. E (heap_ev h ! i) = Some e \<and> ev_idx e = int i)"

definition event_heap_ok :: "ev_store \<Rightarrow> ovis_event_heap \<Rightarrow> bool" where
  "event_heap_ok E h \<longleftrightarrow> heap_inv E h \<and> heap_ordered (sooner E) (heap_ev h) (heap_len h)"

text \<open>The state of a float or sink loop: \<open>ev\<close> belongs into the slot \<open>i\<close>, which is not yet written.\<close>

definition heap_at :: "addr \<Rightarrow> nat \<Rightarrow> ev_store \<Rightarrow> ovis_event_heap \<Rightarrow> addr set \<Rightarrow> ev_store \<Rightarrow> bool" where
  "heap_at ev i E h S E0 \<longleftrightarrow> (let ys = (heap_ev h)[i := ev]; n = heap_len h in
     i < n \<and> n \<le> alloc_len h \<and> distinct (take n ys) \<and> set (take n ys) = S \<and>
     (\<forall>j < n. j \<noteq> i \<longrightarrow> (\<exists>e. E (ys ! j) = Some e \<and> ev_idx e = int j)) \<and>
     E ev \<noteq> None \<and> only_idx S E0 E)"

abbreviation slots :: "addr \<Rightarrow> nat \<Rightarrow> ovis_event_heap \<Rightarrow> addr list" where
  "slots ev i h \<equiv> (heap_ev h)[i := ev]"

lemma only_idx_refl [simp]: "only_idx S E E"
  by (simp add: only_idx_def)

lemma only_idx_trans: "only_idx S E E' \<Longrightarrow> only_idx T E' E'' \<Longrightarrow> S \<subseteq> T \<Longrightarrow> only_idx T E E''"
  by (auto simp: only_idx_def)

lemma idx_overwritten: "ev_idx_update (\<lambda>_. 0) (e\<lparr>ev_idx := i\<rparr>) = ev_idx_update (\<lambda>_. 0) e"
  by simp

lemma only_idx_upd:
  "only_idx S E0 E \<Longrightarrow> E a = Some e \<Longrightarrow> a \<in> S \<Longrightarrow> only_idx S E0 (E(a \<mapsto> e\<lparr>ev_idx := i\<rparr>))"
  unfolding only_idx_def by (metis (mono_tags, lifting) fun_upd_apply option.simps(9) idx_overwritten)

lemma only_idx_self: "E a = Some e \<Longrightarrow> a \<in> S \<Longrightarrow> only_idx S E (E(a \<mapsto> e\<lparr>ev_idx := i\<rparr>))"
  using only_idx_upd [of S E E] by simp

lemma only_idx_wake: "only_idx S E0 E \<Longrightarrow> wake E = wake E0"
proof
  fix a
  assume "only_idx S E0 E"
  then have "map_option (ev_idx_update (\<lambda>_. 0)) (E a) = map_option (ev_idx_update (\<lambda>_. 0)) (E0 a)"
    by (simp add: only_idx_def)
  then have "map_option ev_tv (E a) = map_option ev_tv (E0 a)"
    by (cases "E a"; cases "E0 a") (auto dest: arg_cong [of _ _ ev_tv])
  then show "wake E a = wake E0 a" by (cases "E a"; cases "E0 a") (auto simp: wake_def)
qed

lemma heap_atD:
  assumes "heap_at ev i E h S E0"
  shows "i < heap_len h" and "heap_len h \<le> alloc_len h" and "E ev \<noteq> None" and "wake E = wake E0" and "ev \<in> S"
proof -
  note a = assms [unfolded heap_at_def Let_def alloc_len_def]
  have "take (heap_len h) (slots ev i h) ! i \<in> set (take (heap_len h) (slots ev i h))"
    by (rule nth_mem) (use a in simp)
  then show "ev \<in> S" using a by simp
qed (use assms only_idx_wake in \<open>auto simp: heap_at_def Let_def\<close>)

lemma heap_at_slot:
  assumes "heap_at ev i E h S E0" and "j < heap_len h" and "j \<noteq> i"
  obtains e where "get_slot h j = Some (slots ev i h ! j)" and "E (slots ev i h ! j) = Some e"
    and "slots ev i h ! j \<noteq> ev" and "slots ev i h ! j \<in> S"
proof -
  let ?ys = "slots ev i h"
  note a = assms(1) [unfolded heap_at_def Let_def]
  have len: "heap_len h \<le> length ?ys" using a by (simp add: alloc_len_def)
  have j: "?ys ! j = heap_ev h ! j" using assms(3) by simp
  have "?ys ! j \<noteq> ?ys ! i" using a len assms(2,3) nth_eq_iff_index_eq [of "take (heap_len h) ?ys" i j] by simp
  then have "?ys ! j \<noteq> ev" using a len by simp
  moreover have "?ys ! j \<in> S" using a len assms(2) by (metis in_set_conv_nth length_take min.absorb2 nth_take)
  ultimately show thesis using that a assms(2,3) j by (auto simp: get_slot_def)
qed

text \<open>One exchange of the open slot with another slot.\<close>

lemma heap_at_step:
  assumes at: "heap_at ev i E h S E0" and j: "j < heap_len h" "j \<noteq> i"
  defines "p \<equiv> slots ev i h ! j"
  obtains h' E' where "set_slot i p h = Some h'" and "set_idx p (int i) E = Some E'"
    and "heap_at ev j E' h' S E0" and "slots ev j h' = swap (slots ev i h) i j" and "heap_len h' = heap_len h"
    and "alloc_len h' = alloc_len h"
proof -
  let ?n = "heap_len h" and ?ys = "slots ev i h"
  let ?h = "h\<lparr>heap_ev := (heap_ev h)[i := p]\<rparr>"
  note a = at [unfolded heap_at_def Let_def]
  obtain e where e: "E p = Some e" "p \<noteq> ev" "p \<in> S" unfolding p_def by (rule heap_at_slot [OF at j])
  let ?E = "E(p \<mapsto> e\<lparr>ev_idx := int i\<rparr>)"
  have len: "?n \<le> length (heap_ev h)" using a by (simp add: alloc_len_def)
  have sl: "slots ev j ?h = swap ?ys i j" using a j len by (simp add: swap_def p_def)
  note sw = swap_props [of i ?n j ?ys]
  have m: "mset (take ?n (swap ?ys i j)) = mset (take ?n ?ys)" using sw a j len by simp
  have d: "distinct (take ?n (swap ?ys i j))" "set (take ?n (swap ?ys i j)) = S"
    using a mset_eq_imp_distinct_iff [OF m] mset_eq_setD [OF m] by auto
  have nth: "swap ?ys i j ! k = (if k = i then p else if k = j then ev else ?ys ! k)" if "k < ?n" for k
    using that a j len by (auto simp: swap_def p_def nth_list_update)
  have "\<exists>e. ?E (swap ?ys i j ! k) = Some e \<and> ev_idx e = int k" if "k < ?n" "k \<noteq> j" for k
  proof (cases "k = i")
    case False
    then have "?ys ! k \<noteq> p"
      using a j that len nth_eq_iff_index_eq [of "take ?n ?ys" k j] by (simp add: p_def)
    then show ?thesis using a that False by (simp add: nth)
  qed (use nth [OF that(1)] in simp)
  moreover have "only_idx S E0 ?E" using a e only_idx_upd by blast
  ultimately have "heap_at ev j ?E ?h S E0"
    unfolding heap_at_def Let_def using sl d j a e by (simp add: alloc_len_def)
  moreover have "set_slot i p h = Some ?h" using a len by (simp add: set_slot_def alloc_len_def)
  moreover have "set_idx p (int i) E = Some ?E" using e by (simp add: set_idx_def)
  ultimately show thesis using that sl by (simp add: alloc_len_def)
qed

lemma heap_at_done:
  assumes at: "heap_at ev i E h S E0"
  obtains h' E' where "set_slot i ev h = Some h'" and "set_idx ev (int i) E = Some E'"
    and "heap_inv E' h'" and "heap_set h' = S" and "heap_ev h' = slots ev i h" and "heap_len h' = heap_len h"
    and "only_idx S E0 E'" and "\<exists>e. E' ev = Some e \<and> ev_idx e = int i"
proof -
  let ?n = "heap_len h" and ?ys = "slots ev i h" and ?h = "h\<lparr>heap_ev := (heap_ev h)[i := ev]\<rparr>"
  note a = at [unfolded heap_at_def Let_def]
  obtain e where e: "E ev = Some e" using a by auto
  let ?E = "E(ev \<mapsto> e\<lparr>ev_idx := int i\<rparr>)"
  have len: "?n \<le> length (heap_ev h)" using a by (simp add: alloc_len_def)
  have "\<exists>e. ?E (?ys ! k) = Some e \<and> ev_idx e = int k" if "k < ?n" for k
  proof (cases "k = i")
    case False
    then have "?ys ! k \<noteq> ev" using a that len nth_eq_iff_index_eq [of "take ?n ?ys" k i] by simp
    then show ?thesis using a that False by simp
  qed (use len that in simp)
  then have "heap_inv ?E ?h" using a by (simp add: heap_inv_def alloc_len_def)
  moreover have "set_slot i ev h = Some ?h" using a len by (simp add: set_slot_def alloc_len_def)
  moreover have "set_idx ev (int i) E = Some ?E" using e by (simp add: set_idx_def)
  moreover have "only_idx S E0 ?E" using a e only_idx_upd heap_atD(5) [OF at] by blast
  ultimately show thesis using that a by (simp add: heap_set_def)
qed

lemma lt_defined:
  assumes "E a \<noteq> None" and "E b \<noteq> None" and "wake E = wake E0"
  shows "ovis_event_lt E a b = Some (sooner E0 a b)"
proof -
  have "ovis_event_lt E a b = Some (sooner E a b)" using assms(1,2) by (auto simp: ovis_event_lt_def wake_def)
  then show ?thesis using assms(3) by simp
qed

declare heap_float_loop.simps [simp del] heap_sink_loop.simps [simp del]

lemma slots_self: "heap_at ev i E h S E0 \<Longrightarrow> slots ev i h ! i = ev"
  by (simp add: heap_at_def alloc_len_def Let_def)

lemma slots_length: "heap_at ev i E h S E0 \<Longrightarrow> heap_len h \<le> length (slots ev i h)"
  by (simp add: heap_at_def alloc_len_def Let_def)

lemma float_loop_correct:
  assumes "heap_at ev i E h S E0" and "hole (sooner E0) (slots ev i h) (heap_len h) i"
    and "above_children (sooner E0) (slots ev i h) (heap_len h) i"
  shows "\<exists>k E' h'. heap_float_loop ev i (E, h) = Some (k, E', h') \<and> heap_at ev k E' h' S E0 \<and>
    heap_ordered (sooner E0) (slots ev k h') (heap_len h') \<and> heap_len h' = heap_len h \<and> alloc_len h' = alloc_len h \<and>
    k \<le> i \<and> (\<not> below_parent (sooner E0) (slots ev i h) i \<longrightarrow> k < i)"
  using assms
proof (induction i arbitrary: E h rule: less_induct)
  case (less i)
  let ?ys = "slots ev i h" and ?n = "heap_len h"
  note at = heap_atD [OF less(2)]
  show ?case
  proof (cases "below_parent (sooner E0) ?ys i")
    case True
    have "heap_ordered (sooner E0) ?ys ?n" by (rule heap_orderedI [OF less(3,4) True])
    moreover have "heap_float_loop ev i (E, h) = Some (i, E, h)"
    proof (cases "i = 0")
      case False
      obtain e where e: "get_slot h (par i) = Some (?ys ! par i)" "E (?ys ! par i) = Some e"
        by (rule heap_at_slot [OF less(2), of "par i"]) (use at(1) par_less [of i] False in auto)
      moreover have "\<not> sooner E0 ev (?ys ! par i)" using True False slots_self [OF less(2)] by (simp add: below_parent_def)
      ultimately show ?thesis using lt_defined [OF at(3) _ at(4), of "?ys ! par i"] False 
        by (subst heap_float_loop.simps) (simp add: par_def)
    qed (simp add: heap_float_loop.simps)
    ultimately show ?thesis using less(2) True by blast
  next
    case False
    then have i: "0 < i" and lt: "sooner E0 (?ys ! i) (?ys ! par i)" by (auto simp: below_parent_def)
    have p: "par i < ?n" "par i \<noteq> i" using par_less [OF i] at(1) by auto
    obtain e where e: "get_slot h (par i) = Some (?ys ! par i)" "E (?ys ! par i) = Some e"
      by (rule heap_at_slot [OF less(2) p])
    obtain h' E' where s: "set_slot i (?ys ! par i) h = Some h'" "set_idx (?ys ! par i) (int i) E = Some E'"
        "heap_at ev (par i) E' h' S E0" "slots ev (par i) h' = swap ?ys i (par i)" "heap_len h' = ?n"
        "alloc_len h' = alloc_len h"
      by (rule heap_at_step [OF less(2) p])
    have sw: "hole (sooner E0) (slots ev (par i) h') (heap_len h') (par i)"
      "above_children (sooner E0) (slots ev (par i) h') (heap_len h') (par i)"
      using tv.swap_up [of "wake E0", OF less(3,4) i at(1) slots_length [OF less(2)] lt] s(4,5) by auto
    obtain k E'' h'' where k: "heap_float_loop ev (par i) (E', h') = Some (k, E'', h'')" "heap_at ev k E'' h'' S E0"
        "heap_ordered (sooner E0) (slots ev k h'') (heap_len h'')" "heap_len h'' = heap_len h'"
        "alloc_len h'' = alloc_len h'" "k \<le> par i"
      using less(1) [OF par_less [OF i] s(3) sw] by blast
    have "ovis_event_lt E ev (?ys ! par i) = Some True"
      using lt_defined [OF at(3) _ at(4), of "?ys ! par i"] e(2) lt slots_self [OF less(2)] by simp
    then have "heap_float_loop ev i (E, h) = Some (k, E'', h'')"
      using i e(1) s(1,2) k(1) by (subst heap_float_loop.simps) (simp add: par_def)
    moreover have "k < i" "heap_len h'' = ?n" "alloc_len h'' = alloc_len h" using k(4-6) s(5,6) par_less [OF i] by auto
    ultimately show ?thesis using k(2,3) by (meson less_imp_le)
  qed
qed

lemma sink_loop_correct:
  assumes "heap_at ev i E h S E0" and "hole (sooner E0) (slots ev i h) (heap_len h) i"
    and "below_parent (sooner E0) (slots ev i h) i"
  shows "\<exists>k E' h'. heap_sink_loop ev i (E, h) = Some (k, E', h') \<and> heap_at ev k E' h' S E0 \<and>
    heap_ordered (sooner E0) (slots ev k h') (heap_len h') \<and> heap_len h' = heap_len h \<and> alloc_len h' = alloc_len h"
  using assms
proof (induction "heap_len h - i" arbitrary: i E h rule: less_induct)
  case (less i h E)
  let ?ys = "slots ev i h" and ?n = "heap_len h" and ?l = "i * 2 + 1"
  note at = heap_atD [OF less(2)]
  have stop: ?case if "heap_sink_loop ev i (E, h) = Some (i, E, h)" "above_children (sooner E0) ?ys ?n i"
    using that less(2) heap_orderedI [OF less(3) that(2) less(4)] by blast
  show ?case
  proof (cases "?l < ?n")
    case False
    then have "above_children (sooner E0) ?ys ?n i" by (auto simp: above_children_def par_def)
    moreover have "heap_sink_loop ev i (E, h) = Some (i, E, h)" using False by (subst heap_sink_loop.simps) simp
    ultimately show ?thesis using stop by blast
  next
    case l: True
    define x where "x = (if ?l + 1 \<ge> ?n \<or> sooner E0 (?ys ! ?l) (?ys ! (?l + 1)) then ?l else ?l + 1)"
    have x: "x < ?n" "x \<noteq> i" "0 < x" "par x = i" using l by (auto simp: x_def par_def)
    have least: "\<not> sooner E0 (?ys ! c) (?ys ! x)" if "0 < c" "c < ?n" "par c = i" for c
      using that tv.lt_irrefl tv.lt_asym [of "wake E0"] unfolding x_def by (auto simp: par_children add.commute mult.commute)
    obtain ex where ex: "get_slot h x = Some (?ys ! x)" "E (?ys ! x) = Some ex"
      by (rule heap_at_slot [OF less(2) x(1,2)])
    have "smaller_child E h ?l (?l + 1) = Some x"
    proof (cases "?l + 1 \<ge> ?n")
      case False
      obtain el where "get_slot h ?l = Some (?ys ! ?l)" "E (?ys ! ?l) = Some el"
        by (rule heap_at_slot [OF less(2) l]) auto
      moreover obtain er where "get_slot h (?l + 1) = Some (?ys ! (?l + 1))" "E (?ys ! (?l + 1)) = Some er"
        by (rule heap_at_slot [OF less(2), of "?l + 1"]) (use False in auto)
      ultimately show ?thesis using lt_defined [of E "?ys ! ?l" "?ys ! (?l + 1)", OF _ _ at(4)] False
        by (simp add: x_def smaller_child_def)
    qed (simp add: x_def smaller_child_def)
    then have run: "heap_sink_loop ev i (E, h) =
        (if \<not> sooner E0 (?ys ! x) ev then Some (i, E, h)
         else do { h' \<leftarrow> set_slot i (?ys ! x) h; E \<leftarrow> set_idx (?ys ! x) (int i) E; heap_sink_loop ev x (E, h') })"
      using l ex lt_defined [of E "?ys ! x" ev, OF _ at(3,4)] by (subst heap_sink_loop.simps) (simp add: Let_def)
    show ?thesis
    proof (cases "sooner E0 (?ys ! x) ev")
      case False
      have "above_children (sooner E0) ?ys ?n i"
        using least False tv.not_lt_trans [of "wake E0"] slots_self [OF less(2)] by (auto simp: above_children_def)
      then show ?thesis using run False stop by simp
    next
      case True
      obtain h' E' where s: "set_slot i (?ys ! x) h = Some h'" "set_idx (?ys ! x) (int i) E = Some E'"
          "heap_at ev x E' h' S E0" "slots ev x h' = swap ?ys i x" "heap_len h' = ?n" "alloc_len h' = alloc_len h"
        by (rule heap_at_step [OF less(2) x(1,2)])
      have "sooner E0 (?ys ! x) (?ys ! i)" using True unfolding slots_self [OF less(2)] .
      from tv.swap_down [of "wake E0", OF less(3,4) x(1) slots_length [OF less(2)] x(3,4) least this]
      have "hole (sooner E0) (slots ev x h') (heap_len h') x" "below_parent (sooner E0) (slots ev x h') x"
        unfolding s(4,5) by blast+
      moreover have "heap_len h' - x < heap_len h - i" using s(5) x par_less [OF x(3)] by simp
      ultimately show ?thesis using less(1) [OF _ s(3)] run True s(1,2,5,6) by simp
    qed
  qed
qed

subsection \<open>The operations\<close>

text \<open>A run of the loop, then the store of the event into its slot.\<close>

lemma float_correct:
  assumes "heap_at ev i E h S E0" and "get_slot h i = Some ev"
    and "hole (sooner E0) (slots ev i h) (heap_len h) i" and "above_children (sooner E0) (slots ev i h) (heap_len h) i"
  obtains E' h' k where "ovis_event_heap_float i (E, h) = Some (E', h')" and "event_heap_ok E' h'" and "heap_set h' = S"
    and "only_idx S E0 E'" and "heap_len h' = heap_len h" and "alloc_len h' = alloc_len h"
    and "E' ev \<noteq> None" and "ev_idx (the (E' ev)) = int k" and "k \<le> i"
    and "\<not> below_parent (sooner E0) (slots ev i h) i \<Longrightarrow> k < i"
proof -
  obtain k E1 h1 where l: "heap_float_loop ev i (E, h) = Some (k, E1, h1)" "heap_at ev k E1 h1 S E0"
      "heap_ordered (sooner E0) (slots ev k h1) (heap_len h1)" "heap_len h1 = heap_len h" "alloc_len h1 = alloc_len h"
      "k \<le> i" "\<not> below_parent (sooner E0) (slots ev i h) i \<longrightarrow> k < i"
    using float_loop_correct [OF assms(1,3,4)] by blast
  obtain h' E' where d: "set_slot k ev h1 = Some h'" "set_idx ev (int k) E1 = Some E'" "heap_inv E' h'" "heap_set h' = S"
      "heap_ev h' = slots ev k h1" "heap_len h' = heap_len h1" "only_idx S E0 E'" "\<exists>e. E' ev = Some e \<and> ev_idx e = int k"
    by (rule heap_at_done [OF l(2)])
  have "ovis_event_heap_float i (E, h) = Some (E', h')"
    using assms(2) l(1) d(1,2) by (simp add: ovis_event_heap_float_def)
  moreover have "event_heap_ok E' h'"
    using d(3,5,6) l(3) only_idx_wake [OF d(7)] by (simp add: event_heap_ok_def)
  moreover have "alloc_len h' = alloc_len h" using d(5) l(5) by (simp add: alloc_len_def)
  ultimately show thesis using that [of E' h' k] d(4,6,7,8) l(4,6,7) by auto
qed

lemma sink_correct:
  assumes "heap_at ev i E h S E0" and "get_slot h i = Some ev"
    and "hole (sooner E0) (slots ev i h) (heap_len h) i" and "below_parent (sooner E0) (slots ev i h) i"
  obtains E' h' where "ovis_event_heap_sink i (E, h) = Some (E', h')" and "event_heap_ok E' h'" and "heap_set h' = S"
    and "only_idx S E0 E'" and "heap_len h' = heap_len h" and "alloc_len h' = alloc_len h"
proof -
  obtain k E1 h1 where l: "heap_sink_loop ev i (E, h) = Some (k, E1, h1)" "heap_at ev k E1 h1 S E0"
      "heap_ordered (sooner E0) (slots ev k h1) (heap_len h1)" "heap_len h1 = heap_len h" "alloc_len h1 = alloc_len h"
    using sink_loop_correct [OF assms(1,3,4)] by blast
  obtain h' E' where d: "set_slot k ev h1 = Some h'" "set_idx ev (int k) E1 = Some E'" "heap_inv E' h'" "heap_set h' = S"
      "heap_ev h' = slots ev k h1" "heap_len h' = heap_len h1" "only_idx S E0 E'"
    by (rule heap_at_done [OF l(2)])
  have "ovis_event_heap_sink i (E, h) = Some (E', h')"
    using assms(2) l(1) d(1,2) by (simp add: ovis_event_heap_sink_def)
  moreover have "event_heap_ok E' h'"
    using d(3,5,6) l(3) only_idx_wake [OF d(7)] by (simp add: event_heap_ok_def)
  moreover have "alloc_len h' = alloc_len h" using d(5) l(5) by (simp add: alloc_len_def)
  ultimately show thesis using that [of E' h'] d(4,6,7) l(4) by auto
qed

lemma insert_correct:
  assumes ok: "event_heap_ok E h" and ev: "E ev \<noteq> None" "ev \<notin> heap_set h" and room: "heap_len h \<noteq> alloc_len h"
  obtains E' h' where "ovis_event_heap_insert ev (E, h) = Some (EOK, E', h')" and "event_heap_ok E' h'"
    and "heap_set h' = insert ev (heap_set h)" and "heap_len h' = heap_len h + 1" and "alloc_len h' = alloc_len h"
    and "only_idx (insert ev (heap_set h)) E E'"
proof -
  let ?n = "heap_len h" and ?xs = "heap_ev h" and ?S = "insert ev (heap_set h)"
  let ?h = "h\<lparr>heap_ev := ?xs[?n := ev], heap_len := ?n + 1\<rparr>"
  note inv = ok [unfolded event_heap_ok_def heap_inv_def alloc_len_def]
  have len: "?n < length ?xs" using inv room by (simp add: alloc_len_def)
  then have take: "take (?n + 1) (?xs[?n := ev]) = take ?n ?xs @ [ev]" by (simp add: take_Suc_conv_app_nth)
  have "heap_at ev ?n E ?h ?S E"
    unfolding heap_at_def Let_def using inv len ev take
    by (auto simp: alloc_len_def heap_set_def nth_list_update less_Suc_eq)
  moreover have "get_slot ?h ?n = Some ev" using len by (simp add: get_slot_def alloc_len_def)
  moreover have ord: "\<not> sooner E (?xs[?n := ev] ! j) (?xs[?n := ev] ! par j)" if "0 < j" "j < ?n" for j
    using inv that par_less [of j] by (simp add: heap_ordered_def)
  have none: "\<not> (0 < c \<and> c < ?n + 1 \<and> par c = ?n)" for c using par_less [of c] by auto
  have "hole (sooner E) (slots ev ?n ?h) (heap_len ?h) ?n" unfolding hole_def
  proof (intro conjI allI impI)
    fix j
    assume "0 < j \<and> j < heap_len ?h \<and> j \<noteq> ?n \<and> par j \<noteq> ?n"
    then show "\<not> sooner E (slots ev ?n ?h ! j) (slots ev ?n ?h ! par j)" using ord [of j] by simp
  qed (use none in auto)
  moreover have "above_children (sooner E) (slots ev ?n ?h) (heap_len ?h) ?n"
    unfolding above_children_def using none by auto
  ultimately obtain E' h' where f: "ovis_event_heap_float ?n (E, ?h) = Some (E', h')" "event_heap_ok E' h'"
      "heap_set h' = ?S" "only_idx ?S E E'" "heap_len h' = heap_len ?h" "alloc_len h' = alloc_len ?h"
    by (rule float_correct)
  have "ovis_event_heap_insert ev (E, h) = Some (EOK, E', h')"
    using f(1) room len by (simp add: ovis_event_heap_insert_def set_slot_def alloc_len_def)
  then show thesis using that f by (simp add: alloc_len_def)
qed

lemma inv_at:
  assumes "heap_inv E h" and "i < heap_len h"
  shows "heap_at (heap_ev h ! i) i E h (heap_set h) E" and "get_slot h i = Some (heap_ev h ! i)"
    and "slots (heap_ev h ! i) i h = heap_ev h"
  using assms unfolding heap_inv_def heap_at_def Let_def
  by (auto simp: heap_set_def get_slot_def alloc_len_def)

text \<open>After a change of the time of the event in the slot \<open>i\<close>.\<close>

lemma update_correct:
  assumes inv: "heap_inv E h" and i: "i < heap_len h" and hole: "hole (sooner E) (heap_ev h) (heap_len h) i"
  obtains E' h' where "ovis_event_heap_update (int i) (E, h) = Some (E', h')" and "event_heap_ok E' h'"
    and "heap_set h' = heap_set h" and "only_idx (heap_set h) E E'" and "heap_len h' = heap_len h"
    and "alloc_len h' = alloc_len h"
proof -
  let ?ev = "heap_ev h ! i" and ?n = "heap_len h" and ?xs = "heap_ev h"
  note at = inv_at [OF inv i]
  obtain e where e: "E ?ev = Some e" "ev_idx e = int i" using inv i by (auto simp: heap_inv_def)
  show thesis
  proof (cases "below_parent (sooner E) ?xs i")
    case True
    have run: "heap_float_loop ?ev i (E, h) = Some (i, E, h)"
    proof (cases "i = 0")
      case False
      obtain p where p: "get_slot h (par i) = Some (?xs ! par i)" "E (?xs ! par i) = Some p"
        by (rule heap_at_slot [OF at(1), of "par i"]) (use i par_less [of i] False at(3) in auto)
      have "\<not> sooner E ?ev (?xs ! par i)" using True False by (simp add: below_parent_def)
      then show ?thesis using p e lt_defined [of E ?ev "?xs ! par i" E] False
        by (subst heap_float_loop.simps) (simp add: par_def)
    qed (simp add: heap_float_loop.simps)
    have same: "set_slot i ?ev h = Some h" "set_idx ?ev (int i) E = Some E"
      using at(2,3) e by (auto simp: set_slot_def get_slot_def set_idx_def fun_upd_idem split: if_splits)
    then have fl: "ovis_event_heap_float i (E, h) = Some (E, h)" using run at(2) by (simp add: ovis_event_heap_float_def)
    obtain E' h' where s: "ovis_event_heap_sink i (E, h) = Some (E', h')" "event_heap_ok E' h'" "heap_set h' = heap_set h"
        "only_idx (heap_set h) E E'" "heap_len h' = heap_len h" "alloc_len h' = alloc_len h"
      by (rule sink_correct [OF at(1,2)]) (use hole True at(3) in auto)
    have "ovis_event_heap_update (int i) (E, h) = Some (E', h')"
      using fl s(1) at(2) e by (simp add: ovis_event_heap_update_def)
    then show thesis using that s by blast
  next
    case False
    then have lt: "sooner E ?ev (?xs ! par i)" "0 < i" by (auto simp: below_parent_def)
    have "above_children (sooner E) ?xs ?n i" unfolding above_children_def
    proof (intro allI impI)
      fix c
      assume "0 < c \<and> c < ?n \<and> par c = i"
      then have "\<not> sooner E (?xs ! c) (?xs ! par i)" using hole lt(2) by (simp add: hole_def)
      then show "\<not> sooner E (?xs ! c) ?ev" using lt(1) tv.lt_trans [of "wake E" "?xs ! c" ?ev "?xs ! par i"] by blast
    qed
    then obtain E' h' k where f: "ovis_event_heap_float i (E, h) = Some (E', h')" "event_heap_ok E' h'"
        "heap_set h' = heap_set h" "only_idx (heap_set h) E E'" "heap_len h' = heap_len h" "alloc_len h' = alloc_len h"
        "E' ?ev \<noteq> None" "ev_idx (the (E' ?ev)) = int k" "k < i"
      using float_correct [OF at(1,2)] hole False unfolding at(3) by metis
    have "ovis_event_heap_update (int i) (E, h) = Some (E', h')"
      using f at(2) by (auto simp: ovis_event_heap_update_def)
    then show thesis using that f by blast
  qed
qed

lemma heap_event_kept:
  assumes "event_heap_ok E h" and "ev \<in> heap_set h" and "only_idx S E E'"
  shows "\<exists>e. E' ev = Some e"
proof -
  obtain i where "i < heap_len h" "heap_ev h ! i = ev"
    using assms(2) by (auto simp: heap_set_def in_set_conv_nth)
  then obtain e where "E ev = Some e" using assms(1) by (auto simp: event_heap_ok_def heap_inv_def)
  moreover have "map_option (ev_idx_update (\<lambda>_. 0)) (E' ev) = map_option (ev_idx_update (\<lambda>_. 0)) (E ev)"
    using assms(3) by (simp add: only_idx_def)
  ultimately show ?thesis by auto
qed

text \<open>The state of \<^verbatim>\<open>ovis_event_heap_remove\<close> at its call of the sink, for a slot that is not the last.\<close>

lemma remove_start:
  assumes ok: "event_heap_ok E h" and i: "i < heap_len h - 1"
  defines "z \<equiv> heap_ev h ! (heap_len h - 1)" and "ev \<equiv> heap_ev h ! i"
    and "h1 \<equiv> h\<lparr>heap_len := heap_len h - 1, heap_ev := (heap_ev h)[i := heap_ev h ! (heap_len h - 1)]\<rparr>"
  obtains E1 where "ovis_event_heap_remove ev (E, h) = do {
      (E, h) \<leftarrow> ovis_event_heap_sink i (E1, h1); E \<leftarrow> set_idx ev (-1) E; Some (E, h) }"
    and "heap_at z i E1 h1 (heap_set h - {ev}) E1" and "get_slot h1 i = Some z"
    and "slots z i h1 = (heap_ev h)[i := z]" and "only_idx (heap_set h) E E1" and "ev \<in> heap_set h"
    and "wake E1 = wake E" and "heap_len h1 = heap_len h - 1" and "alloc_len h1 = alloc_len h"
    and "hole (sooner E) ((heap_ev h)[i := z]) (heap_len h - 1) i"
proof -
  let ?n = "heap_len h" and ?xs = "heap_ev h"
  note inv = ok [unfolded event_heap_ok_def heap_inv_def alloc_len_def]
  have len: "?n \<le> length ?xs" using inv by blast
  have all: "\<exists>e. E (?xs ! k) = Some e \<and> ev_idx e = int k" if "k < ?n" for k using inv that by blast
  obtain e where e: "E ev = Some e" "ev_idx e = int i" using all [of i] i unfolding ev_def by (meson less_imp_diff_less less_trans diff_le_self less_le_trans)
  obtain ze where ze: "E z = Some ze" using all [of "?n - 1"] i by (auto simp: z_def)
  have n0: "?n \<noteq> 0" "?n - Suc 0 < length ?xs" using i len by auto
  have tk: "take ?n ?xs = take (?n - 1) ?xs @ [z]"
    using i len take_Suc_conv_app_nth [of "?n - 1" ?xs] by (simp add: z_def)
  then have d: "distinct (take (?n - 1) ?xs)" "z \<notin> set (take (?n - 1) ?xs)" using inv by auto
  have nth: "take (?n - 1) ?xs ! i = ev" using i by (simp add: ev_def)
  have len': "i < length (take (?n - 1) ?xs)" using i len by simp
  have ev: "ev \<in> heap_set h" "ev \<noteq> z" using nth_mem [OF len'] nth d(2) tk by (auto simp: heap_set_def)
  let ?E = "E(z \<mapsto> ze\<lparr>ev_idx := int i\<rparr>)"
  have only: "only_idx (heap_set h) E ?E"
    by (rule only_idx_self, rule ze) (simp add: heap_set_def tk)
  have sl: "slots z i h1 = ?xs[i := z]" by (simp add: h1_def z_def)
  have upd: "take (?n - 1) (?xs[i := z]) = (take (?n - 1) ?xs)[i := z]" by (simp add: take_update_swap)
  have "distinct (take (?n - 1) (?xs[i := z]))" unfolding upd using d by (simp add: distinct_list_update)
  moreover have "set (take (?n - 1) (?xs[i := z])) = heap_set h - {ev}"
    unfolding upd using set_update_distinct [OF d(1) len', of z] d nth ev(2) tk by (auto simp: heap_set_def)
  moreover have "\<exists>e. ?E (?xs[i := z] ! j) = Some e \<and> ev_idx e = int j" if "j < ?n - 1" "j \<noteq> i" for j
  proof -
    have "take (?n - 1) ?xs ! j \<noteq> z" using that len d(2) nth_mem [of j "take (?n - 1) ?xs"] by auto
    then show ?thesis using that inv by simp
  qed
  ultimately have "heap_at z i ?E h1 (heap_set h - {ev}) ?E"
    unfolding heap_at_def Let_def sl using i len by (auto simp: h1_def alloc_len_def)
  moreover have "get_slot h1 i = Some z" using i len by (simp add: get_slot_def alloc_len_def h1_def z_def)
  moreover have "ovis_event_heap_remove ev (E, h) = do {
      (E, h) \<leftarrow> ovis_event_heap_sink i (?E, h1); E \<leftarrow> set_idx ev (-1) E; Some (E, h) }"
    using e ze i len n0 by (simp add: ovis_event_heap_remove_def Let_def get_slot_def set_slot_def set_idx_def alloc_len_def h1_def z_def)
  moreover have "hole (sooner E) (?xs[i := z]) (?n - 1) i"
    by (rule tv.hole_update [where n = ?n]) (use inv i len in auto)
  ultimately show thesis using that only sl ev(1) only_idx_wake [OF only] by (simp add: h1_def alloc_len_def)
qed

lemma idx_outside:
  assumes "event_heap_ok E h" and "ev \<notin> heap_set h" and "E ev = Some e"
  shows "event_heap_ok (E(ev \<mapsto> e\<lparr>ev_idx := k\<rparr>)) h"
proof -
  have "only_idx {ev} E (E(ev \<mapsto> e\<lparr>ev_idx := k\<rparr>))" by (rule only_idx_self, rule assms(3)) simp
  note w = only_idx_wake [OF this]
  have "heap_ev h ! i \<noteq> ev" if "i < heap_len h" for i
    using assms(1,2) that nth_mem [of i "take (heap_len h) (heap_ev h)"]
    by (auto simp: heap_set_def event_heap_ok_def heap_inv_def alloc_len_def)
  then show ?thesis using assms(1) by (simp add: event_heap_ok_def heap_inv_def w)
qed

lemma heap_set_pos:
  assumes "heap_inv E h" and "ev \<in> heap_set h"
  obtains i where "i < heap_len h" and "heap_ev h ! i = ev" and "E ev \<noteq> None" and "ev_idx (the (E ev)) = int i"
  using assms by (fastforce simp: heap_set_def heap_inv_def in_set_conv_nth alloc_len_def)

lemma remove_last:
  assumes ok: "event_heap_ok E h" and n: "0 < heap_len h"
  defines "ev \<equiv> heap_ev h ! (heap_len h - 1)"
  obtains E' h' where "ovis_event_heap_remove ev (E, h) = Some (E', h')" and "event_heap_ok E' h'"
    and "heap_set h' = heap_set h - {ev}" and "heap_len h' = heap_len h - 1" and "alloc_len h' = alloc_len h"
    and "only_idx (heap_set h) E E'" and "E' ev \<noteq> None" and "ev_idx (the (E' ev)) = -1"
proof -
  let ?n = "heap_len h" and ?xs = "heap_ev h" and ?h = "h\<lparr>heap_len := heap_len h - 1\<rparr>"
  note inv = ok [unfolded event_heap_ok_def heap_inv_def alloc_len_def]
  have len: "?n \<le> length ?xs" using inv by blast
  have "\<exists>e. E (?xs ! k) = Some e \<and> ev_idx e = int k" if "k < ?n" for k using inv that by blast
  from this [of "?n - 1"] n obtain e where e: "E ev = Some e" "ev_idx e = int (?n - 1)" by (auto simp: ev_def)
  let ?E = "E(ev \<mapsto> e\<lparr>ev_idx := -1\<rparr>)"
  have tk: "take ?n ?xs = take (?n - 1) ?xs @ [ev]"
    using n len take_Suc_conv_app_nth [of "?n - 1" ?xs] by (simp add: ev_def)
  have S: "heap_set ?h = heap_set h - {ev}" using inv tk by (auto simp: heap_set_def)
  have slot: "get_slot ?h (?n - 1) = Some ev" "set_slot (?n - 1) ev ?h = Some ?h" "set_idx ev (int (?n - 1)) E = Some E"
    using n len e by (auto simp: get_slot_def set_slot_def alloc_len_def ev_def set_idx_def fun_upd_idem)
  have "heap_sink_loop ev (?n - 1) (E, ?h) = Some (?n - 1, E, ?h)"
    by (subst heap_sink_loop.simps) simp
  then have "ovis_event_heap_sink (?n - 1) (E, ?h) = Some (E, ?h)"
    using slot by (simp add: ovis_event_heap_sink_def)
  then have "ovis_event_heap_remove ev (E, h) = Some (?E, ?h)"
    using e n slot nat_diff_distrib [of 1 "int ?n"]
    by (simp add: ovis_event_heap_remove_def Let_def) (simp add: set_idx_def)
  moreover have "event_heap_ok E ?h"
    using inv tk n by (auto simp: event_heap_ok_def heap_inv_def heap_ordered_def alloc_len_def)
  then have "event_heap_ok ?E ?h" using idx_outside [of E ?h ev e] e(1) S by simp
  moreover have "only_idx (heap_set h) E ?E"
    by (rule only_idx_self, rule e(1)) (simp add: heap_set_def tk)
  ultimately show thesis using that S by (simp add: alloc_len_def)
qed

lemma remove_correct:
  assumes ok: "event_heap_ok E h" and i: "i < heap_len h"
    and ord: "i = heap_len h - 1 \<or> below_parent (sooner E) ((heap_ev h)[i := heap_ev h ! (heap_len h - 1)]) i"
  defines "ev \<equiv> heap_ev h ! i"
  obtains E' h' where "ovis_event_heap_remove ev (E, h) = Some (E', h')" and "event_heap_ok E' h'"
    and "heap_set h' = heap_set h - {ev}" and "heap_len h' = heap_len h - 1" and "alloc_len h' = alloc_len h"
    and "only_idx (heap_set h) E E'" and "E' ev \<noteq> None" and "ev_idx (the (E' ev)) = -1"
proof (cases "i = heap_len h - 1")
  case True
  then show thesis using remove_last [OF ok] i that unfolding ev_def by auto
next
  case False
  let ?z = "heap_ev h ! (heap_len h - 1)" and ?n = "heap_len h" and ?S = "heap_set h - {ev}"
  let ?h1 = "h\<lparr>heap_len := ?n - 1, heap_ev := (heap_ev h)[i := ?z]\<rparr>"
  have lt: "i < ?n - 1" using i False by simp
  obtain E1 where st: "ovis_event_heap_remove ev (E, h) = do {
      (E, h) \<leftarrow> ovis_event_heap_sink i (E1, ?h1); E \<leftarrow> set_idx ev (-1) E; Some (E, h) }"
    "heap_at ?z i E1 ?h1 ?S E1" "get_slot ?h1 i = Some ?z" "slots ?z i ?h1 = (heap_ev h)[i := ?z]"
    "only_idx (heap_set h) E E1" "ev \<in> heap_set h" "wake E1 = wake E" "hole (sooner E) ((heap_ev h)[i := ?z]) (?n - 1) i"
    unfolding ev_def by (rule remove_start [OF ok lt])
  obtain E2 h2 where s: "ovis_event_heap_sink i (E1, ?h1) = Some (E2, h2)" "event_heap_ok E2 h2" "heap_set h2 = ?S"
      "only_idx ?S E1 E2" "heap_len h2 = heap_len ?h1" "alloc_len h2 = alloc_len ?h1"
    by (rule sink_correct [OF st(2,3)]) (use st(4,7,8) ord False in auto)
  have only: "only_idx (heap_set h) E E2" using st(5) s(4) by (auto simp: only_idx_def)
  obtain e where e: "E2 ev = Some e" using heap_event_kept [OF ok st(6) only] by blast
  let ?E = "E2(ev \<mapsto> e\<lparr>ev_idx := -1\<rparr>)"
  have "ovis_event_heap_remove ev (E, h) = Some (?E, h2)" using st(1) s(1) e by (simp add: set_idx_def)
  moreover have "event_heap_ok ?E h2" using idx_outside [of E2 h2 ev e] s(2,3) e by simp
  moreover have "only_idx (heap_set h) E ?E" by (rule only_idx_upd, rule only, rule e, rule st(6))
  ultimately show thesis using that s(3,5,6) by (simp add: alloc_len_def)
qed

text \<open>When the moved event is due before the parent of its new slot, sinking does not repair the order.\<close>

lemma remove_unordered:
  assumes ok: "event_heap_ok E h" and i: "i < heap_len h - 1"
    and bad: "\<not> below_parent (sooner E) ((heap_ev h)[i := heap_ev h ! (heap_len h - 1)]) i"
  defines "ev \<equiv> heap_ev h ! i"
  obtains E' h' where "ovis_event_heap_remove ev (E, h) = Some (E', h')" and "heap_set h' = heap_set h - {ev}"
    and "\<not> heap_ordered (sooner E') (heap_ev h') (heap_len h')"
proof -
  let ?z = "heap_ev h ! (heap_len h - 1)" and ?n = "heap_len h" and ?S = "heap_set h - {ev}"
  let ?h1 = "h\<lparr>heap_len := ?n - 1, heap_ev := (heap_ev h)[i := ?z]\<rparr>" and ?ys = "(heap_ev h)[i := ?z]"
  obtain E1 where st: "ovis_event_heap_remove ev (E, h) = do {
      (E, h) \<leftarrow> ovis_event_heap_sink i (E1, ?h1); E \<leftarrow> set_idx ev (-1) E; Some (E, h) }"
    "heap_at ?z i E1 ?h1 ?S E1" "get_slot ?h1 i = Some ?z" "slots ?z i ?h1 = ?ys"
    "only_idx (heap_set h) E E1" "ev \<in> heap_set h" "wake E1 = wake E" "hole (sooner E) ?ys (?n - 1) i"
    unfolding ev_def by (rule remove_start [OF ok i])
  note at = heap_atD [OF st(2)]
  have p: "0 < i" "sooner E (?ys ! i) (?ys ! par i)" using bad by (auto simp: below_parent_def)
  have z: "?ys ! i = ?z" using slots_self [OF st(2)] st(4) by simp
  have child: "\<not> sooner E (?ys ! c) ?z" if "0 < c" "c < ?n - 1" "par c = i" for c
  proof
    assume "sooner E (?ys ! c) ?z"
    then have "sooner E (?ys ! c) (?ys ! par i)" using p(2) z tv.lt_trans [of "wake E"] by metis
    then show False using st(8) that p(1) by (auto simp: hole_def)
  qed
  have "heap_sink_loop ?z i (E1, ?h1) = Some (i, E1, ?h1)"
  proof (cases "i * 2 + 1 < ?n - 1")
    case l: True
    have kid: "\<exists>e. get_slot ?h1 c = Some (?ys ! c) \<and> E1 (?ys ! c) = Some e" if "c < ?n - 1" "c \<noteq> i" for c
      by (rule heap_at_slot [OF st(2), of c]) (use that st(4) in auto)
    obtain x where x: "smaller_child E1 ?h1 (i * 2 + 1) (i * 2 + 1 + 1) = Some x" "x < ?n - 1" "0 < x" "par x = i"
    proof (cases "i * 2 + 1 + 1 \<ge> ?n - 1")
      case True
      then show thesis using that [of "i * 2 + 1"] l by (simp add: smaller_child_def par_def)
    next
      case False
      let ?x = "if sooner E (?ys ! (i * 2 + 1)) (?ys ! (i * 2 + 1 + 1)) then i * 2 + 1 else i * 2 + 1 + 1"
      have "smaller_child E1 ?h1 (i * 2 + 1) (i * 2 + 1 + 1) = Some ?x"
        using kid [of "i * 2 + 1"] kid [of "i * 2 + 1 + 1"] False
          lt_defined [of E1 "?ys ! (i * 2 + 1)" "?ys ! (i * 2 + 1 + 1)", OF _ _ st(7)]
        by (auto simp: smaller_child_def)
      then show thesis using that [of ?x] False by (auto simp: par_def split: if_splits)
    qed
    have "x \<noteq> i" using x(3,4) par_less [of x] by auto
    from kid [OF x(2) this] obtain ex where ex: "get_slot ?h1 x = Some (?ys ! x)" "E1 (?ys ! x) = Some ex" by blast
    have "ovis_event_lt E1 (?ys ! x) ?z = Some False"
      using lt_defined [OF _ at(3) st(7), of "?ys ! x"] ex(2) child [OF x(3,2,4)] by simp
    then show ?thesis using l x(1) ex(1) by (subst heap_sink_loop.simps) (simp add: Let_def)
  qed (subst heap_sink_loop.simps, simp)
  moreover obtain h' E2 where d: "set_slot i ?z ?h1 = Some h'" "set_idx ?z (int i) E1 = Some E2" "heap_set h' = ?S"
      "heap_ev h' = ?ys" "heap_len h' = ?n - 1" "only_idx ?S E1 E2"
    by (rule heap_at_done [OF st(2)]) (use st(4) in auto)
  ultimately have sink: "ovis_event_heap_sink i (E1, ?h1) = Some (E2, h')"
    using st(3) by (simp add: ovis_event_heap_sink_def)
  have only: "only_idx (heap_set h) E E2" using st(5) d(6) by (auto simp: only_idx_def)
  obtain e where e: "E2 ev = Some e" using heap_event_kept [OF ok st(6) only] by blast
  let ?E = "E2(ev \<mapsto> e\<lparr>ev_idx := -1\<rparr>)"
  have "only_idx (heap_set h) E ?E" by (rule only_idx_upd, rule only, rule e, rule st(6))
  note w = only_idx_wake [OF this]
  have "\<not> heap_ordered (sooner ?E) (heap_ev h') (heap_len h')"
    unfolding heap_ordered_def d(4,5) w using p i by blast
  moreover have "ovis_event_heap_remove ev (E, h) = Some (?E, h')" using st(1) sink e by (simp add: set_idx_def)
  ultimately show thesis using that d(3) by blast
qed

end
