(* ===== verification/OvisEventSpec.thy ===== *)
theory OvisEventSpec
  imports OvisEventHeap
begin

section \<open>The event scheduler: its properties\<close>

text \<open>
  The heap operations as the scheduler uses them, the wake-up times, and the bookkeeping
  of \<^verbatim>\<open>ovis_scheduler_event_add\<close> and \<^verbatim>\<open>ovis_event_heap_process\<close>.
\<close>

subsection \<open>Examples\<close>

definition example_event :: "int \<Rightarrow> int \<Rightarrow> ovis_event" where
  "example_event s i = blank_event\<lparr>ev_type := OVIS_EVENT_TIMEOUT, ev_tv := \<lparr>tv_sec = s, tv_usec = 0\<rparr>, ev_idx := i\<rparr>"

definition example_store :: ev_store where
  "example_store = [16 \<mapsto> example_event 1 0, 32 \<mapsto> example_event 10 1, 48 \<mapsto> example_event 2 2,
     64 \<mapsto> example_event 11 3, 80 \<mapsto> example_event 12 4, 96 \<mapsto> example_event 3 5, 112 \<mapsto> example_event 0 (-1)]"

definition example_heap :: ovis_event_heap where
  "example_heap = \<lparr>heap_len = 6, heap_ev = [16, 32, 48, 64, 80, 96, 0, 0]\<rparr>"

lemma less_six: "i < (6 :: nat) \<longleftrightarrow> i = 0 \<or> i = 1 \<or> i = 2 \<or> i = 3 \<or> i = 4 \<or> i = 5"
  by auto

lemma example_wake:
  "wake example_store 16 = \<lparr>tv_sec = 1, tv_usec = 0\<rparr>" "wake example_store 32 = \<lparr>tv_sec = 10, tv_usec = 0\<rparr>"
  "wake example_store 48 = \<lparr>tv_sec = 2, tv_usec = 0\<rparr>" "wake example_store 64 = \<lparr>tv_sec = 11, tv_usec = 0\<rparr>"
  "wake example_store 80 = \<lparr>tv_sec = 12, tv_usec = 0\<rparr>" "wake example_store 96 = \<lparr>tv_sec = 3, tv_usec = 0\<rparr>"
  by (simp_all add: wake_def example_store_def example_event_def)

lemma example_ok: "event_heap_ok example_store example_heap"
proof -
  have "heap_inv example_store example_heap"
    unfolding heap_inv_def by (auto simp: example_heap_def example_store_def alloc_len_def example_event_def less_six)
  moreover have "heap_ordered (sooner example_store) (heap_ev example_heap) (heap_len example_heap)"
    unfolding heap_ordered_def
  proof (intro allI impI)
    fix j
    assume "0 < j \<and> j < heap_len example_heap"
    then consider "j = 1" | "j = 2" | "j = 3" | "j = 4" | "j = 5" using less_six [of j] by (auto simp: example_heap_def)
    then show "\<not> sooner example_store (heap_ev example_heap ! j) (heap_ev example_heap ! par j)"
      by cases (simp_all add: example_heap_def par_def example_wake timercmp_lt_def)
  qed
  ultimately show ?thesis by (simp add: event_heap_ok_def)
qed

lemma example_set: "heap_set example_heap = {16, 32, 48, 64, 80, 96}"
  by (auto simp: heap_set_def example_heap_def numeral_eq_Suc)

subsection \<open>The heap\<close>

text \<open>
  C13. Inserting a new event keeps the heap: a full heap answers \<^verbatim>\<open>ENOMEM\<close> and does not
  change; else exactly the event is added, the heap stays ordered by wake-up time with every
  event carrying its position, and nothing but positions of events of the heap changes.
\<close>

theorem event_heap_insert_correct:
  assumes "event_heap_ok E h" and "E ev \<noteq> None" and "ev \<notin> heap_set h"
  shows "if heap_len h = alloc_len h then ovis_event_heap_insert ev (E, h) = Some (ENOMEM, E, h)
    else \<exists>E' h'. ovis_event_heap_insert ev (E, h) = Some (EOK, E', h') \<and> event_heap_ok E' h' \<and>
      heap_set h' = insert ev (heap_set h) \<and> heap_len h' = heap_len h + 1 \<and> alloc_len h' = alloc_len h \<and>
      only_idx (insert ev (heap_set h)) E E'"
proof (cases "heap_len h = alloc_len h")
  case True
  then show ?thesis by (simp add: ovis_event_heap_insert_def)
next
  case False
  show ?thesis by (rule insert_correct [OF assms False]) (use False in auto)
qed

theorem event_heap_insert_correct_witness:
  "\<exists>E' h'. ovis_event_heap_insert 112 (example_store, example_heap) = Some (EOK, E', h') \<and>
     event_heap_ok E' h' \<and> heap_set h' = {112, 16, 32, 48, 64, 80, 96}"
proof -
  have "example_store 112 \<noteq> None" "112 \<notin> heap_set example_heap" "heap_len example_heap \<noteq> alloc_len example_heap"
    by (simp_all add: example_set) (simp_all add: example_store_def example_heap_def alloc_len_def)
  then show ?thesis using event_heap_insert_correct [OF example_ok, of 112] by (auto simp: example_set)
qed

text \<open>
  C14. \<^verbatim>\<open>ovis_event_heap_pop\<close> of a non-empty heap returns an event that is due first, takes
  exactly it out, marks it as outside (index -1) and keeps the heap.
\<close>

theorem event_heap_pop_earliest:
  assumes "event_heap_ok E h" and "0 < heap_len h"
  shows "\<exists>ev E' h'. ovis_event_heap_pop (E, h) = Some (ev, E', h') \<and> ovis_event_heap_top h = Some ev \<and>
    ev \<in> heap_set h \<and> (\<forall>a \<in> heap_set h. \<not> sooner E a ev) \<and> event_heap_ok E' h' \<and>
    heap_set h' = heap_set h - {ev} \<and> ev_idx (the (E' ev)) = -1"
proof -
  let ?ev = "heap_ev h ! 0"
  have inv: "heap_inv E h" and ord: "heap_ordered (sooner E) (heap_ev h) (heap_len h)"
    using assms(1) by (simp_all add: event_heap_ok_def)
  have slot: "get_slot h 0 = Some ?ev" using inv_at(2) [OF inv assms(2)] .
  have mem: "?ev \<in> heap_set h" using heap_atD(5) [OF inv_at(1) [OF inv assms(2)]] .
  have least: "\<not> sooner E a ?ev" if "a \<in> heap_set h" for a
    using that tv.root_least [of "wake E", OF ord] by (auto simp: heap_set_def in_set_conv_nth)
  obtain E' h' where "ovis_event_heap_remove ?ev (E, h) = Some (E', h')" "event_heap_ok E' h'"
      "heap_set h' = heap_set h - {?ev}" "ev_idx (the (E' ?ev)) = -1"
    by (rule remove_correct [OF assms]) (auto simp: below_parent_def)
  then show ?thesis using slot mem least assms(2)
    by (intro exI [of _ ?ev] exI [of _ E'] exI [of _ h'])
      (simp add: ovis_event_heap_pop_def ovis_event_heap_top_def)
qed

theorem event_heap_pop_earliest_witness:
  "\<exists>E' h'. ovis_event_heap_pop (example_store, example_heap) = Some (16, E', h') \<and> event_heap_ok E' h' \<and>
     heap_set h' = {32, 48, 64, 80, 96}"
proof -
  have "0 < heap_len example_heap" "ovis_event_heap_top example_heap = Some 16"
    by (simp_all add: example_heap_def ovis_event_heap_top_def get_slot_def alloc_len_def)
  then show ?thesis using event_heap_pop_earliest [OF example_ok] by (auto simp: example_set)
qed

text \<open>
  C15. Removing an event from the middle of the heap takes exactly it out, but it keeps the
  order exactly when the event moved into the gap is not due before the parent of the gap: the
  code sinks that event and never lets it float.
\<close>

theorem event_heap_remove_order:
  assumes "event_heap_ok E h" and "i < heap_len h"
  shows "\<exists>E' h'. ovis_event_heap_remove (heap_ev h ! i) (E, h) = Some (E', h') \<and>
    heap_set h' = heap_set h - {heap_ev h ! i} \<and>
    (heap_ordered (sooner E') (heap_ev h') (heap_len h') \<longleftrightarrow>
       i = 0 \<or> i = heap_len h - 1 \<or> \<not> sooner E (heap_ev h ! (heap_len h - 1)) (heap_ev h ! par i))"
proof (cases "i = heap_len h - 1 \<or> below_parent (sooner E) ((heap_ev h)[i := heap_ev h ! (heap_len h - 1)]) i")
  case True
  have "i = 0 \<or> i = heap_len h - 1 \<or> \<not> sooner E (heap_ev h ! (heap_len h - 1)) (heap_ev h ! par i)"
    using True par_less [of i] assms by (auto simp: below_parent_def event_heap_ok_def heap_inv_def alloc_len_def)
  moreover obtain E' h' where "ovis_event_heap_remove (heap_ev h ! i) (E, h) = Some (E', h')" "event_heap_ok E' h'"
      "heap_set h' = heap_set h - {heap_ev h ! i}"
    by (rule remove_correct [OF assms True])
  ultimately show ?thesis by (auto simp: event_heap_ok_def)
next
  case False
  then have i: "i < heap_len h - 1" "\<not> below_parent (sooner E) ((heap_ev h)[i := heap_ev h ! (heap_len h - 1)]) i"
    using assms(2) by auto
  then have "\<not> (i = 0 \<or> i = heap_len h - 1 \<or> \<not> sooner E (heap_ev h ! (heap_len h - 1)) (heap_ev h ! par i))"
    using par_less [of i] assms by (auto simp: below_parent_def event_heap_ok_def heap_inv_def alloc_len_def)
  moreover obtain E' h' where "ovis_event_heap_remove (heap_ev h ! i) (E, h) = Some (E', h')"
      "heap_set h' = heap_set h - {heap_ev h ! i}" "\<not> heap_ordered (sooner E') (heap_ev h') (heap_len h')"
    by (rule remove_unordered [OF assms(1) i])
  ultimately show ?thesis by auto
qed

theorem event_heap_remove_order_witness:
  "\<exists>E' h'. ovis_event_heap_remove 64 (example_store, example_heap) = Some (E', h') \<and>
     heap_set h' = {16, 32, 48, 80, 96} \<and> \<not> heap_ordered (sooner E') (heap_ev h') (heap_len h')"
proof -
  have e: "heap_ev example_heap ! 3 = 64" "heap_len example_heap = 6" "heap_ev example_heap ! 5 = 96"
    "heap_ev example_heap ! par 3 = 32" by (simp_all add: example_heap_def par_def)
  have "sooner example_store 96 32"
    by (simp add: example_wake timercmp_lt_def)
  then show ?thesis using event_heap_remove_order [OF example_ok, of 3] by (auto simp: e example_set)
qed

subsection \<open>Wake-up times\<close>

text \<open>A time of day in microseconds.\<close>

definition us :: "timeval \<Rightarrow> int" where
  "us t = tv_sec t * 1000000 + tv_usec t"

definition valid_tv :: "timeval \<Rightarrow> bool" where
  "valid_tv t \<longleftrightarrow> 0 \<le> tv_usec t \<and> tv_usec t < 1000000"

lemma timercmp_us: "valid_tv a \<Longrightarrow> valid_tv b \<Longrightarrow> timercmp_lt a b \<longleftrightarrow> us a < us b"
  by (auto simp: timercmp_lt_def us_def valid_tv_def)

lemma timer_us:
  assumes "valid_tv a" and "valid_tv b"
  shows "us (timeradd a b) = us a + us b" and "valid_tv (timeradd a b)"
    and "us (timersub a b) = us a - us b" and "valid_tv (timersub a b)"
  using assms by (auto simp: timeradd_def timersub_def us_def valid_tv_def Let_def)

lemma word_div_of_int: "0 \<le> a \<Longrightarrow> a < 2 ^ 64 \<Longrightarrow> 0 \<le> b \<Longrightarrow> b < 2 ^ 64 \<Longrightarrow>
  (word_of_int a :: u64) div word_of_int b = word_of_int (a div b)"
  by (simp add: word_div_def uint_word)

lemma word_mod_of_int: "0 \<le> a \<Longrightarrow> a < 2 ^ 64 \<Longrightarrow> 0 \<le> b \<Longrightarrow> b < 2 ^ 64 \<Longrightarrow>
  (word_of_int a :: u64) mod word_of_int b = word_of_int (a mod b)"
  by (simp add: word_mod_def uint_word)

lemma ROUND_int:
  assumes "0 \<le> x" and "0 < p" and "x < 2 ^ 62" and "p < 2 ^ 62"
  shows "ROUND (word_of_int x) (word_of_int p) = word_of_int ((x + (p - 1)) div p * p)"
proof -
  have "word_of_int x + (word_of_int p - 1) = (word_of_int (x + (p - 1)) :: u64)" by simp
  then show ?thesis unfolding ROUND_def
    using assms word_div_of_int [of "x + (p - 1)" p] by (simp del: of_int_add of_int_diff)
qed

lemma round_up: 
  fixes x p :: int
  assumes "0 < p"
  shows "x \<le> (x + (p - 1)) div p * p" and "(x + (p - 1)) div p * p < x + p"
proof -
  have "(x + (p - 1)) div p * p = x + (p - 1) - (x + (p - 1)) mod p" by (simp add: minus_mod_eq_div_mult)
  then show "x \<le> (x + (p - 1)) div p * p" "(x + (p - 1)) div p * p < x + p"
    using pos_mod_bound [OF assms, of "x + (p - 1)"] pos_mod_sign [OF assms, of "x + (p - 1)"] by auto
qed

text \<open>The choice of the wait in \<^verbatim>\<open>set_next_periodic_time\<close>, on integers.\<close>

lemma periodic_step:
  fixes N p s :: int
  assumes p: "0 < p" and s: "- p < s" "s < p"
  defines "D \<equiv> (N + (p - 1)) div p * p + s - N"
  defines "W \<equiv> if D \<le> 0 then D + p else if D > p then D mod p else D"
  shows "- p < D" and "D < 2 * p" and "0 < W" and "W \<le> p" and "(N + W - s) mod p = 0"
proof -
  have D: "- p < D" "D < 2 * p" using round_up [OF p, of N] s by (auto simp: D_def)
  moreover have "D mod p = D - p" if "D > p"
    using that D(2) mod_pos_pos_trivial [of "D - p" p] by (simp add: mod_diff_right_eq flip: mod_diff_left_eq)
  ultimately show "- p < D" "D < 2 * p" "0 < W" "W \<le> p" by (auto simp: W_def)
  have "p dvd W - D" using dvd_minus_mod [of p D] dvd_diff_commute [of p D "D mod p"] by (auto simp: W_def)
  then have "(N + W - s) mod p = (N + D - s) mod p" by (simp add: mod_eq_dvd_iff)
  also have "\<dots> = 0" by (simp add: D_def)
  finally show "(N + W - s) mod p = 0" .
qed

text \<open>
  C16. The next wake-up of a periodic event is after now, at most one period away, and lies on
  the grid of multiples of the period shifted by the phase, for a phase of less than a period
  either way (a negative phase is an unsigned number that wraps).
\<close>

theorem next_periodic_correct:
  fixes pr :: ovis_periodic and now :: timeval
  defines "p \<equiv> uint (period_us pr)" and "s \<equiv> sint (phase_us pr)"
  assumes now: "0 \<le> us now" "us now < 2 ^ 62" and p: "0 < p" "p < 2 ^ 60" and s: "\<bar>s\<bar> < p"
  shows "\<exists>t. next_periodic pr now = Some t \<and> valid_tv t \<and> us now < us t \<and> us t \<le> us now + p \<and> (us t - s) mod p = 0"
proof -
  let ?N = "us now" and ?P = "period_us pr"
  define D where "D = (?N + (p - 1)) div p * p + s - ?N"
  define W where "W = (if D \<le> 0 then D + p else if D > p then D mod p else D)"
  note st = periodic_step [of p s ?N, folded D_def, folded W_def]
  have st': "- p < D" "D < 2 * p" "0 < W" "W \<le> p" "(?N + W - s) mod p = 0" using st p s by auto
  have P: "?P = word_of_int p" "phase_us pr = word_of_int s" by (simp_all add: p_def s_def)
  have nz: "?P \<noteq> 0" using p(1) by (auto simp: p_def)
  have diff: "ROUND (word_of_int ?N) ?P + phase_us pr - word_of_int ?N = word_of_int D"
    unfolding P using ROUND_int [of ?N p] now p by (simp add: D_def)
  have wait: "(if sint (word_of_int D :: u64) \<le> 0 then word_of_int D + ?P
      else if word_of_int D > ?P then word_of_int D mod ?P else word_of_int D) = (word_of_int W :: u64)"
  proof -
    have sD: "sint (word_of_int D :: u64) = D" using st'(1,2) p by (intro sint_word) auto
    have uD: "uint (word_of_int D :: u64) = D" if "0 < D" using that st'(2) p by (intro uint_word) auto
    have "word_of_int D mod ?P = (word_of_int (D mod p) :: u64)" if "0 < D"
      unfolding P by (rule word_mod_of_int) (use that st'(2) p in auto)
    moreover have "uint (word_of_int p :: u64) = p" using p by (intro uint_word) auto
    ultimately show ?thesis using sD uD by (auto simp: W_def P(1) word_less_def)
  qed
  have "next_periodic pr now = Some \<lparr>tv_sec = uint ((word_of_int (?N + W) :: u64) div USEC),
      tv_usec = uint ((word_of_int (?N + W) :: u64) mod USEC)\<rparr>"
    unfolding next_periodic_def Let_def us_def [symmetric] if_not_P [OF nz] diff wait by simp
  moreover have "uint ((word_of_int (?N + W) :: u64) div USEC) = (?N + W) div 1000000"
    "uint ((word_of_int (?N + W) :: u64) mod USEC) = (?N + W) mod 1000000"
    using now p st' uint_word [of "?N + W"] by (simp_all add: uint_div uint_mod USEC_def)
  ultimately show ?thesis using st' by (auto simp: us_def [of "\<lparr>tv_sec = a, tv_usec = b\<rparr>" for a b] valid_tv_def)
qed

theorem next_periodic_correct_witness:
  "\<exists>t. next_periodic \<lparr>period_us = 1000000, phase_us = -250000\<rparr> \<lparr>tv_sec = 5, tv_usec = 800000\<rparr> = Some t \<and>
     us t = 6750000"
proof -
  let ?p = "\<lparr>period_us = 1000000, phase_us = -250000\<rparr>" and ?n = "\<lparr>tv_sec = 5, tv_usec = 800000\<rparr>"
  have n: "us ?n = 5800000" by (simp add: us_def)
  have p: "uint (period_us ?p) = 1000000" "sint (phase_us ?p) = -250000" by simp_all
  have "\<exists>t. next_periodic ?p ?n = Some t \<and> valid_tv t \<and> 5800000 < us t \<and> us t \<le> 5800000 + 1000000 \<and>
      (us t - - 250000) mod 1000000 = 0"
    by (rule next_periodic_correct [of ?n ?p, unfolded n p]) simp_all
  then obtain t where t: "next_periodic ?p ?n = Some t" "5800000 < us t" "us t \<le> 5800000 + 1000000"
    "(us t - - 250000) mod 1000000 = 0" by (elim exE conjE) (rule that)
  obtain k where k: "us t - - 250000 = 1000000 * k" using t(4) unfolding mod_eq_0_iff_dvd by (rule dvdE)
  then have "k = 7" using t(2,3) by simp
  then have "us t = 6750000" using k by simp
  with t(1) show ?thesis by blast
qed


lemma wait_ms_us:
  assumes "valid_tv t" and "valid_tv now" and "us now < us t" and "us t - us now \<le> 2147483647 * 1000"
  shows "\<exists>ms. wait_ms t now = Some ms \<and> us t \<le> us now + ms * 1000 \<and> us now + (ms - 1) * 1000 < us t"
proof -
  let ?d = "timersub t now"
  let ?ms = "tv_sec ?d * 1000 + (tv_usec ?d + 999) div 1000"
  have d: "us ?d = us t - us now" "0 \<le> tv_usec ?d" "tv_usec ?d < 1000000"
    using timer_us [OF assms(1,2)] by (auto simp: valid_tv_def)
  have bounds: "us ?d \<le> ?ms * 1000" "(?ms - 1) * 1000 < us ?d" by (auto simp: us_def)
  have sec: "0 \<le> tv_sec ?d" using d assms(3) by (auto simp: us_def)
  have "m \<le> 2147483647" if "(m - 1) * 1000 < us t - us now" for m using that assms(4) by simp
  then have "?ms \<le> 2147483647" using bounds(2) d(1) by simp
  moreover have "0 \<le> ?ms" using sec d(2) by (simp add: pos_imp_zdiv_nonneg_iff)
  ultimately have "sint (word_of_int ?ms :: u32) = ?ms"
    unfolding sint_sbintrunc' by (intro signed_take_bit_int_eq_self) auto
  then have "wait_ms t now = Some ?ms" using sec d(2) by (simp add: wait_ms_def Let_def)
  then show ?thesis using bounds d(1) by auto
qed

subsection \<open>The scheduler\<close>

text \<open>
  The bookkeeping of a scheduler whose polled events are \<open>P\<close>: the heap is in order, the
  one-shot events are distinct and outside of the heap, the events known to the heap or the
  queue are exactly those with an index, and \<^verbatim>\<open>evcount\<close> counts all of them.
\<close>

definition sched_ok :: "ovis_scheduler \<Rightarrow> addr set \<Rightarrow> bool" where
  "sched_ok m P \<longleftrightarrow> event_heap_ok (sc_evs m) (sc_heap m) \<and> distinct (sc_oneshot m) \<and>
     set (sc_oneshot m) \<inter> heap_set (sc_heap m) = {} \<and>
     (\<forall>a e. sc_evs m a = Some e \<longrightarrow> (ev_idx e = -1 \<longleftrightarrow> a \<notin> heap_set (sc_heap m) \<union> set (sc_oneshot m))) \<and>
     (\<forall>a \<in> set (sc_oneshot m). \<exists>e. sc_evs m a = Some e \<and> ev_type e = OVIS_EVENT_ONESHOT \<and> ev_idx e = 0) \<and>
     finite P \<and> sc_evcount m = int (heap_len (sc_heap m)) + int (length (sc_oneshot m)) + int (card P)"

lemma type_tests [simp]:
  "is_epoll e \<longleftrightarrow> ev_type e = OVIS_EVENT_EPOLL \<or> ev_type e = OVIS_EVENT_EPOLL_TIMEOUT"
  "is_timed e \<longleftrightarrow> ev_type e \<in> {OVIS_EVENT_TIMEOUT, OVIS_EVENT_EPOLL_TIMEOUT, OVIS_EVENT_PERIODIC}"
  "is_timeout e \<longleftrightarrow> ev_type e = OVIS_EVENT_TIMEOUT \<or> ev_type e = OVIS_EVENT_EPOLL_TIMEOUT"
  by (cases "ev_type e"; simp add: is_epoll_def is_timed_def is_timeout_def)+

lemma retime_outside:
  assumes "event_heap_ok E h" and "a \<notin> heap_set h"
  shows "event_heap_ok (E(a := v)) h"
proof -
  have ne: "heap_ev h ! i \<noteq> a" if "i < heap_len h" for i
    using assms that nth_mem [of i "take (heap_len h) (heap_ev h)"]
    by (auto simp: heap_set_def event_heap_ok_def heap_inv_def alloc_len_def)
  have "wake (E(a := v)) (heap_ev h ! i) = wake E (heap_ev h ! i)" if "i < heap_len h" for i
    using ne [OF that] by (simp add: wake_def)
  then show ?thesis using assms(1) ne par_less
    by (auto simp: event_heap_ok_def heap_inv_def heap_ordered_def) (metis less_trans)
qed

lemma notify_simps [simp]:
  "sc_evs (snd (notify wr ev m)) = sc_evs m" "sc_heap (snd (notify wr ev m)) = sc_heap m"
  "sc_oneshot (snd (notify wr ev m)) = sc_oneshot m" "sc_evcount (snd (notify wr ev m)) = sc_evcount m"
  by (simp_all add: notify_def)

lemma sched_ok_cong:
  "sc_evs m' = sc_evs m \<Longrightarrow> sc_heap m' = sc_heap m \<Longrightarrow> sc_oneshot m' = sc_oneshot m \<Longrightarrow>
   sc_evcount m' = sc_evcount m \<Longrightarrow> sched_ok m' P \<longleftrightarrow> sched_ok m P"
  by (simp add: sched_ok_def)

lemma sched_ok_idx:
  assumes "sched_ok m P" and "sc_evs m a = Some e"
  shows "ev_idx e = -1 \<longleftrightarrow> a \<notin> heap_set (sc_heap m) \<and> a \<notin> set (sc_oneshot m)"
proof -
  have "ev_idx e = -1 \<longleftrightarrow> a \<notin> heap_set (sc_heap m) \<union> set (sc_oneshot m)"
    using assms unfolding sched_ok_def by blast
  then show ?thesis by blast
qed

lemma next_wakeup_defined:
  assumes "E ev = Some e" and "is_timed e" and "ev_type e = OVIS_EVENT_PERIODIC \<Longrightarrow> period_us (ev_periodic e) \<noteq> 0"
  obtains t where "ovis_event_next_wakeup now ev E = Some (E(ev \<mapsto> e\<lparr>ev_tv := t\<rparr>))"
proof (cases "ev_type e = OVIS_EVENT_PERIODIC")
  case True
  then obtain t where "next_periodic (ev_periodic e) now = Some t"
    using assms(3) by (auto simp: next_periodic_def Let_def)
  then show thesis using that [of t] True assms(1) by (simp add: ovis_event_next_wakeup_def set_next_periodic_time_def)
next
  case False
  then show thesis using that [of "timeradd now (ev_timeout e)"] assms(1,2) by (auto simp: ovis_event_next_wakeup_def)
qed

lemma heap_ok_idx: "event_heap_ok E h \<Longrightarrow> a \<in> heap_set h \<Longrightarrow> E a = Some e \<Longrightarrow> ev_idx e \<noteq> -1"
  by (fastforce simp: event_heap_ok_def heap_inv_def heap_set_def in_set_conv_nth alloc_len_def)

lemma add_timed_ok:
  assumes ok: "sched_ok m P" and e: "sc_evs m ev = Some e" "is_timed e"
    and period: "ev_type e = OVIS_EVENT_PERIODIC \<Longrightarrow> period_us (ev_periodic e) \<noteq> 0"
  shows "\<exists>rc m'. add_timed clk wr ev m = Some (rc, m') \<and> sched_ok m' P \<and> sc_oneshot m' = sc_oneshot m \<and>
    (if ev_idx e \<noteq> -1 then rc = EEXIST \<and> m' = m
     else if heap_len (sc_heap m) = alloc_len (sc_heap m) then rc = ENOMEM \<and> sc_heap m' = sc_heap m
     else rc \<in> {EOK, wr} \<and> heap_set (sc_heap m') = insert ev (heap_set (sc_heap m)))"
proof (cases "ev_idx e = -1")
  case False
  then show ?thesis using ok e(1) by (simp add: add_timed_def)
next
  case True
  let ?h = "sc_heap m" and ?Q = "set (sc_oneshot m)"
  have out: "ev \<notin> heap_set ?h" "ev \<notin> ?Q" using sched_ok_idx [OF ok e(1)] True by auto
  obtain t where t: "ovis_event_next_wakeup (clk (sc_clock m)) ev (sc_evs m) = Some ((sc_evs m)(ev \<mapsto> e\<lparr>ev_tv := t\<rparr>))"
    by (rule next_wakeup_defined [of "sc_evs m" ev e]) (use e period in auto)
  define E where "E = (sc_evs m)(ev \<mapsto> e\<lparr>ev_tv := t\<rparr>)"
  have hok: "event_heap_ok E ?h" using ok out by (auto simp: E_def sched_ok_def intro: retime_outside)
  have old: "sc_evs m a = Some x" if "E a = Some x" "a \<noteq> ev" for a x using that by (simp add: E_def)
  show ?thesis
  proof (cases "heap_len ?h = alloc_len ?h")
    case full: True
    let ?m = "m\<lparr>sc_clock := sc_clock m + 1, sc_evs := E, sc_heap := ?h\<rparr>"
    have "add_timed clk wr ev m = Some (ENOMEM, ?m)"
      using e t full True by (simp add: add_timed_def gettimeofday_def E_def ovis_event_heap_insert_def)
    moreover have "sched_ok ?m P"
      using ok hok e(2) True out by (auto simp: sched_ok_def E_def)
    ultimately show ?thesis using True full by simp
  next
    case room: False
    obtain E' h' where ins: "ovis_event_heap_insert ev (E, ?h) = Some (EOK, E', h')" "event_heap_ok E' h'"
        "heap_set h' = insert ev (heap_set ?h)" "heap_len h' = heap_len ?h + 1" "only_idx (insert ev (heap_set ?h)) E E'"
      by (rule insert_correct [OF hok _ out(1) room]) (auto simp: E_def)
    let ?m = "m\<lparr>sc_clock := sc_clock m + 1, sc_evs := E', sc_heap := h', sc_evcount := sc_evcount m + 1\<rparr>"
    obtain e' where e': "E' ev = Some e'" using heap_event_kept [OF ins(2) _ only_idx_refl, of ev] ins(3) by auto
    have run: "add_timed clk wr ev m = Some (if sc_state m = OVIS_EVENT_MANAGER_WAITING \<and> ev_idx e' = 0 then notify wr ev ?m else (EOK, ?m))"
      using e t True ins(1) e' by (auto simp: add_timed_def gettimeofday_def E_def Let_def)
    have same: "E' a = sc_evs m a" if "a \<noteq> ev" "a \<notin> heap_set ?h" for a
      using ins(5) that by (simp add: only_idx_def E_def)
    have queue: "E' a = sc_evs m a" if "a \<in> ?Q" for a
      using same [of a] that out ok unfolding sched_ok_def by blast
    have "sched_ok ?m P"
      unfolding sched_ok_def
    proof (intro conjI allI impI)
      fix a x
      assume "sc_evs ?m a = Some x"
      then show "(ev_idx x = -1) = (a \<notin> heap_set (sc_heap ?m) \<union> set (sc_oneshot ?m))"
        using heap_ok_idx [OF ins(2)] ins(3) same [of a] sched_ok_idx [OF ok, of a x] by fastforce
    qed (use ok ins out queue in \<open>auto simp: sched_ok_def\<close>)
    then show ?thesis using run True room ins(3) sched_ok_cong [of "snd (notify wr ev ?m)" ?m P]
      by (auto simp: notify_def)
  qed
qed

lemma add_oneshot_ok:
  assumes ok: "sched_ok m P" and e: "sc_evs m ev = Some e" "ev_type e = OVIS_EVENT_ONESHOT"
  shows "\<exists>rc m'. add_oneshot wr ev m = Some (rc, m') \<and> sched_ok m' P \<and> sc_heap m' = sc_heap m \<and>
    (if ev_idx e \<noteq> -1 then rc = EEXIST \<and> m' = m
     else rc \<in> {EOK, wr} \<and> sc_oneshot m' = sc_oneshot m @ [ev])"
proof (cases "ev_idx e = -1")
  case False
  then show ?thesis using ok e(1) by (simp add: add_oneshot_def)
next
  case True
  let ?E = "(sc_evs m)(ev \<mapsto> e\<lparr>ev_idx := 0\<rparr>)"
  let ?m = "m\<lparr>sc_evs := ?E, sc_evcount := sc_evcount m + 1, sc_oneshot := sc_oneshot m @ [ev]\<rparr>"
  have out: "ev \<notin> heap_set (sc_heap m)" "ev \<notin> set (sc_oneshot m)" using sched_ok_idx [OF ok e(1)] True by auto
  have run: "add_oneshot wr ev m = Some (if sc_state m = OVIS_EVENT_MANAGER_WAITING then notify wr ev ?m else (EOK, ?m))"
    using e True by (simp add: add_oneshot_def set_idx_def)
  have "sched_ok ?m P" unfolding sched_ok_def
  proof (intro conjI allI impI)
    fix a x
    assume "sc_evs ?m a = Some x"
    then show "(ev_idx x = -1) = (a \<notin> heap_set (sc_heap ?m) \<union> set (sc_oneshot ?m))"
      using sched_ok_idx [OF ok, of a x] by (cases "a = ev") auto
  qed (use ok e out in \<open>auto simp: sched_ok_def intro: retime_outside\<close>)
  then show ?thesis using run True sched_ok_cong [of "snd (notify wr ev ?m)" ?m P] by (auto simp: notify_def)
qed


text \<open>A waiting scheduler with the six timers of the example and nothing else.\<close>

definition example_sched :: ovis_scheduler where
  "example_sched = \<lparr>sc_evs = example_store, sc_evcount = 6, sc_refcount = 1, sc_state = OVIS_EVENT_MANAGER_WAITING,
     sc_heap = example_heap, sc_oneshot = [], sc_pipe = [], sc_clock = 0, sc_polls = 0, sc_destroyed = False\<rparr>"

lemma example_sched_ok: "sched_ok example_sched {}"
proof -
  have "ev_idx e = -1 \<longleftrightarrow> a \<notin> heap_set example_heap" if "example_store a = Some e" for a e
    using that by (auto simp: example_set example_store_def example_event_def split: if_splits)
  then show ?thesis using example_ok by (simp add: sched_ok_def example_sched_def) (simp add: example_heap_def)
qed


text \<open>Changing the time of the event in a slot leaves a hole there.\<close>

lemma retime_hole:
  assumes "event_heap_ok E h" and "i < heap_len h" and "heap_ev h ! i = ev" and "E ev = Some e"
  shows "heap_inv (E(ev \<mapsto> e\<lparr>ev_tv := t\<rparr>)) h" and "hole (sooner (E(ev \<mapsto> e\<lparr>ev_tv := t\<rparr>))) (heap_ev h) (heap_len h) i"
proof -
  let ?E = "E(ev \<mapsto> e\<lparr>ev_tv := t\<rparr>)" and ?xs = "heap_ev h" and ?n = "heap_len h"
  have inv: "heap_inv E h" and ord: "heap_ordered (sooner E) ?xs ?n" using assms(1) by (simp_all add: event_heap_ok_def)
  then show "heap_inv ?E h" using assms(2-4) by (auto simp: heap_inv_def)
  have ne: "?xs ! j \<noteq> ev" if "j < ?n" "j \<noteq> i" for j
    using inv that assms(2,3) nth_eq_iff_index_eq [of "take ?n ?xs" j i] by (auto simp: heap_inv_def alloc_len_def)
  then have w: "wake ?E (?xs ! j) = wake E (?xs ! j)" if "j < ?n" "j \<noteq> i" for j using that by (simp add: wake_def)
  have "hole (sooner E) (?xs[i := ?xs ! i]) ?n i"
    by (rule tv.hole_update [OF ord]) (use inv assms(2) in \<open>auto simp: heap_inv_def alloc_len_def\<close>)
  then have hole: "hole (sooner E) ?xs ?n i" by simp
  show "hole (sooner ?E) ?xs ?n i" unfolding hole_def
  proof (intro conjI allI impI)
    fix j
    assume j: "0 < j \<and> j < ?n \<and> j \<noteq> i \<and> par j \<noteq> i"
    then have "par j < ?n" using par_less [of j] by simp
    then show "\<not> sooner ?E (?xs ! j) (?xs ! par j)" using hole j w [of j] w [of "par j"] by (auto simp: hole_def)
  next
    fix c
    assume c: "0 < c \<and> c < ?n \<and> par c = i \<and> 0 < i"
    then have "par i < ?n" "par i \<noteq> i" "c \<noteq> i" using par_less [of c] par_less [of i] assms(2) by auto
    then show "\<not> sooner ?E (?xs ! c) (?xs ! par i)" using hole c w [of c] w [of "par i"] by (auto simp: hole_def)
  qed
qed

lemma rearm_ok:
  assumes ok: "sched_ok m P" and ev: "ev \<in> heap_set (sc_heap m)" and e: "sc_evs m ev = Some e"
  shows "\<exists>m'. rearm ev (m\<lparr>sc_evs := (sc_evs m)(ev \<mapsto> e\<lparr>ev_tv := t\<rparr>)\<rparr>) = Some m' \<and> sched_ok m' P \<and>
    heap_set (sc_heap m') = heap_set (sc_heap m) \<and> sc_oneshot m' = sc_oneshot m \<and> sc_state m' = sc_state m \<and>
    wake (sc_evs m') ev = t \<and> (\<exists>e'. sc_evs m' ev = Some e')"
proof -
  let ?h = "sc_heap m" and ?E = "(sc_evs m)(ev \<mapsto> e\<lparr>ev_tv := t\<rparr>)"
  have hok: "event_heap_ok (sc_evs m) ?h" using ok by (simp add: sched_ok_def)
  obtain i where i: "i < heap_len ?h" "heap_ev ?h ! i = ev" "ev_idx e = int i"
    by (rule heap_set_pos [OF _ ev]) (use hok e in \<open>auto simp: event_heap_ok_def\<close>)
  note r = retime_hole [of "sc_evs m" ?h i ev e t, OF hok i(1,2) e]
  obtain E' h' where u: "ovis_event_heap_update (int i) (?E, ?h) = Some (E', h')" "event_heap_ok E' h'"
      "heap_set h' = heap_set ?h" "only_idx (heap_set ?h) ?E E'" "heap_len h' = heap_len ?h"
    by (rule update_correct [OF r(1) i(1) r(2)])
  have same: "E' a = sc_evs m a" if "a \<notin> heap_set ?h" for a using u(4) that ev by (auto simp: only_idx_def)
  let ?m = "m\<lparr>sc_evs := E', sc_heap := h'\<rparr>"
  have "sched_ok ?m P" unfolding sched_ok_def
  proof (intro conjI allI impI)
    fix a x
    assume "sc_evs ?m a = Some x"
    then show "(ev_idx x = -1) = (a \<notin> heap_set (sc_heap ?m) \<union> set (sc_oneshot ?m))"
      using heap_ok_idx [OF u(2)] u(3) same [of a] sched_ok_idx [OF ok, of a x] by fastforce
  qed (use ok u same in \<open>auto simp: sched_ok_def\<close>)
  moreover have "rearm ev (m\<lparr>sc_evs := ?E\<rparr>) = Some ?m" using u(1) i(3) by (simp add: rearm_def)
  moreover have "wake E' ev = t" using only_idx_wake [OF u(4)] by (simp add: wake_def)
  moreover have "\<exists>e'. E' ev = Some e'" using heap_event_kept [OF u(2) _ only_idx_refl] u(3) ev by simp
  ultimately show ?thesis using u(3) by simp
qed

lemma sched_ok_cb:
  assumes "sched_ok m P" and "sc_evs m ev = Some e"
  shows "set_cb_type t ev m = Some (m\<lparr>sc_evs := (sc_evs m)(ev \<mapsto> e\<lparr>ev_cb_type := Some t\<rparr>)\<rparr>)"
    and "sched_ok (m\<lparr>sc_evs := (sc_evs m)(ev \<mapsto> e\<lparr>ev_cb_type := Some t\<rparr>)\<rparr>) P"
proof -
  let ?E = "(sc_evs m)(ev \<mapsto> e\<lparr>ev_cb_type := Some t\<rparr>)"
  have w: "wake ?E = wake (sc_evs m)" using assms(2) by (auto simp: wake_def fun_eq_iff)
  have "event_heap_ok ?E (sc_heap m)"
    using assms by (auto simp: sched_ok_def event_heap_ok_def heap_inv_def w)
  then show "sched_ok (m\<lparr>sc_evs := ?E\<rparr>) P" using assms unfolding sched_ok_def by auto
qed (use assms(2) in \<open>simp add: set_cb_type_def\<close>)

text \<open>
  C18. Processing a due timer re-arms it and keeps the books: the same events stay in the
  heap, which is in order again; a plain timer is next due its timeout after now, a periodic one
  at its next period.
\<close>

theorem process_event_correct:
  assumes "sched_ok m P" and "ev \<in> heap_set (sc_heap m)" and "sc_evs m ev = Some e" and "is_timed e"
    and "ev_type e = OVIS_EVENT_PERIODIC \<Longrightarrow> period_us (ev_periodic e) \<noteq> 0"
  shows "\<exists>m'. process_event clk ev m = Some m' \<and> sched_ok m' P \<and>
    heap_set (sc_heap m') = heap_set (sc_heap m) \<and> sc_oneshot m' = sc_oneshot m \<and>
    Some (wake (sc_evs m') ev) = (if ev_type e = OVIS_EVENT_PERIODIC then next_periodic (ev_periodic e) (clk (sc_clock m))
      else Some (timeradd (clk (sc_clock m)) (ev_timeout e)))"
proof -
  let ?m = "m\<lparr>sc_clock := sc_clock m + 1\<rparr>" and ?per = "ev_type e = OVIS_EVENT_PERIODIC"
  have ok: "sched_ok ?m P" using assms(1) sched_ok_cong [of ?m m P] by simp
  obtain t where t: "Some t = (if ?per then next_periodic (ev_periodic e) (clk (sc_clock m))
      else Some (timeradd (clk (sc_clock m)) (ev_timeout e)))"
    using assms(5) by (cases ?per) (auto simp: next_periodic_def Let_def)
  obtain m1 e1 where r: "rearm ev (?m\<lparr>sc_evs := (sc_evs ?m)(ev \<mapsto> e\<lparr>ev_tv := t\<rparr>)\<rparr>) = Some m1" "sched_ok m1 P"
      "heap_set (sc_heap m1) = heap_set (sc_heap m)" "sc_oneshot m1 = sc_oneshot m" "wake (sc_evs m1) ev = t"
      "sc_evs m1 ev = Some e1"
    using rearm_ok [OF ok, of ev e t] assms(2,3) by auto
  let ?c = "if ?per then OVIS_EVENT_PERIODIC else OVIS_EVENT_TIMEOUT"
  let ?m2 = "m1\<lparr>sc_evs := (sc_evs m1)(ev \<mapsto> e1\<lparr>ev_cb_type := Some ?c\<rparr>)\<rparr>"
  note cb = sched_ok_cb [OF r(2,6), of ?c]
  have "process_event clk ev m = Some ?m2"
    using assms(3,4) r(1) cb(1) t [symmetric]
    by (auto simp: process_event_def gettimeofday_def set_next_periodic_time_def split: if_splits)
  moreover have "wake (sc_evs ?m2) ev = t" using r(5,6) by (auto simp: wake_def)
  ultimately show ?thesis using cb(2) r(3,4) t by simp
qed

theorem process_event_correct_witness:
  "\<exists>m'. process_event (\<lambda>_. \<lparr>tv_sec = 1, tv_usec = 5\<rparr>) 16 example_sched = Some m' \<and> sched_ok m' {} \<and>
     heap_set (sc_heap m') = {16, 32, 48, 64, 80, 96}"
proof -
  have e: "sc_evs example_sched 16 = Some (example_event 1 0)" "sc_heap example_sched = example_heap"
    by (simp_all add: example_sched_def example_store_def)
  then show ?thesis
    using process_event_correct [OF example_sched_ok, of 16 "example_event 1 0" "\<lambda>_. \<lparr>tv_sec = 1, tv_usec = 5\<rparr>"]
    by (auto simp: example_event_def example_set)
qed

text \<open>
  C19. With no one-shot event queued and the first timer not yet due, \<^verbatim>\<open>ovis_event_heap_process\<close>
  runs no callback and returns how long to wait: long enough to reach that timer, and less
  than a millisecond longer, so that no timer of the heap is overslept by a millisecond.
\<close>

theorem heap_process_waits:
  assumes "sched_ok m P" and "sc_oneshot m = []" and "0 < heap_len (sc_heap m)" and "NULL \<notin> heap_set (sc_heap m)"
    and "\<And>a. a \<in> heap_set (sc_heap m) \<Longrightarrow> valid_tv (wake (sc_evs m) a) \<and> us now < us (wake (sc_evs m) a) \<and>
      us (wake (sc_evs m) a) - us now \<le> 2147483647 * 1000"
    and "valid_tv now" and "clk (sc_clock m) = now"
  shows "\<exists>ms m'. ovis_event_heap_process clk call m = Some (ms, m') \<and> sched_ok m' P \<and>
    (\<exists>a \<in> heap_set (sc_heap m). us (wake (sc_evs m) a) \<le> us now + ms * 1000) \<and>
    (\<forall>a \<in> heap_set (sc_heap m). us now + (ms - 1) * 1000 < us (wake (sc_evs m) a))"
proof -
  let ?h = "sc_heap m" and ?E = "sc_evs m"
  let ?ev = "heap_ev ?h ! 0" and ?m = "stop_running (m\<lparr>sc_clock := sc_clock m + 1\<rparr>)"
  have inv: "heap_inv ?E ?h" and ord: "heap_ordered (sooner ?E) (heap_ev ?h) (heap_len ?h)"
    using assms(1) by (simp_all add: sched_ok_def event_heap_ok_def)
  have mem: "?ev \<in> heap_set ?h" using heap_atD(5) [OF inv_at(1) [OF inv assms(3)]] .
  have top: "ovis_event_heap_top ?h = Some ?ev"
    using inv_at(2) [OF inv assms(3)] assms(3) by (simp add: ovis_event_heap_top_def)
  obtain e where e: "?E ?ev = Some e" using inv assms(3) by (auto simp: heap_inv_def)
  have w: "wake ?E ?ev = ev_tv e" using e by (simp add: wake_def)
  note root = assms(5) [OF mem]
  obtain ms where ms: "wait_ms (ev_tv e) now = Some ms" "us (ev_tv e) \<le> us now + ms * 1000" "us now + (ms - 1) * 1000 < us (ev_tv e)"
    using wait_ms_us [of "ev_tv e" now] root assms(6) unfolding w by blast
  have "us (ev_tv e) \<le> us (wake ?E a)" if "a \<in> heap_set ?h" for a
  proof -
    have "\<not> sooner ?E a ?ev" using that tv.root_least [of "wake ?E", OF ord] by (auto simp: heap_set_def in_set_conv_nth)
    then show ?thesis using timercmp_us assms(5) [OF that] root unfolding w by simp
  qed
  moreover have "timercmp_lt now (ev_tv e)" using timercmp_us assms(6) root unfolding w by blast
  then have "ovis_event_heap_process clk call m = Some (ms, ?m)"
    using assms(2,7) top e ms(1) mem assms(4)
    by (subst ovis_event_heap_process.simps) (auto simp: gettimeofday_def)
  moreover have "sched_ok ?m P" using assms(1) sched_ok_cong [of ?m m P] by (simp add: stop_running_def)
  ultimately show ?thesis using ms(2,3) mem w by (intro exI [of _ ms] exI [of _ ?m]) force
qed

theorem heap_process_waits_witness:
  "\<exists>ms m'. ovis_event_heap_process (\<lambda>_. \<lparr>tv_sec = 0, tv_usec = 500000\<rparr>) (\<lambda>f ev m. None) example_sched = Some (ms, m') \<and>
     1000000 \<le> 500000 + ms * 1000 \<and> 500000 + (ms - 1) * 1000 < 1000000"
proof -
  let ?now = "\<lparr>tv_sec = 0, tv_usec = 500000\<rparr>"
  have m: "sc_oneshot example_sched = []" "sc_heap example_sched = example_heap" "sc_evs example_sched = example_store"
    "0 < heap_len example_heap" by (simp_all add: example_sched_def) (simp add: example_heap_def)
  have "valid_tv (wake example_store a) \<and> us ?now < us (wake example_store a) \<and>
      us (wake example_store a) - us ?now \<le> 2147483647 * 1000 \<and> 1000000 \<le> us (wake example_store a)"
    if "a \<in> heap_set example_heap" for a
    using that unfolding example_set by (elim insertE) (simp_all add: example_wake valid_tv_def us_def)
  note w = this
  have "\<exists>ms m'. ovis_event_heap_process (\<lambda>_. ?now) (\<lambda>f ev m. None) example_sched = Some (ms, m') \<and> sched_ok m' {} \<and>
    (\<exists>a \<in> heap_set example_heap. us (wake example_store a) \<le> us ?now + ms * 1000) \<and>
    (\<forall>a \<in> heap_set example_heap. us ?now + (ms - 1) * 1000 < us (wake example_store a))"
    by (rule heap_process_waits [OF example_sched_ok, unfolded m, where clk = "\<lambda>_. ?now"])
      (use w m(4) in \<open>auto simp: example_set valid_tv_def\<close>)
  then obtain ms m' a where r: "ovis_event_heap_process (\<lambda>_. ?now) (\<lambda>f ev m. None) example_sched = Some (ms, m')"
      "a \<in> heap_set example_heap" "us (wake example_store a) \<le> us ?now + ms * 1000"
      "\<forall>a \<in> heap_set example_heap. us ?now + (ms - 1) * 1000 < us (wake example_store a)" by blast
  have "us ?now + (ms - 1) * 1000 < us (wake example_store 16)" using r(4) by (simp add: example_set)
  then have "500000 + (ms - 1) * 1000 < 1000000" by (simp add: example_wake us_def)
  moreover have "1000000 \<le> 500000 + ms * 1000" using w [OF r(2)] r(3) by (simp add: us_def [of ?now])
  ultimately show ?thesis using r(1) by blast
qed


definition example_oneshot :: ovis_scheduler where
  "example_oneshot = \<lparr>sc_evs = [16 \<mapsto> example_event 1 0, 32 \<mapsto> blank_event\<lparr>ev_type := OVIS_EVENT_ONESHOT, ev_idx := 0\<rparr>],
     sc_evcount = 2, sc_refcount = 1, sc_state = OVIS_EVENT_MANAGER_WAITING,
     sc_heap = \<lparr>heap_len = 1, heap_ev = [16, 0]\<rparr>, sc_oneshot = [32], sc_pipe = [], sc_clock = 0, sc_polls = 0,
     sc_destroyed = False\<rparr>"


end
