(* ===== verification/CString.thy ===== *)
theory CString
  imports Prelude
begin

section \<open>C strings\<close>

text \<open>
  Strings without the terminating zero. \<open>strcmp\<close> is the function of the C library, of whose
  result only the sign is specified; \<open>snprintf\<close> with the format \<^verbatim>\<open>%s\<close> keeps what fits into
  the buffer and returns the length of the whole string.
\<close>

fun strcmp :: "string \<Rightarrow> string \<Rightarrow> int" where
  "strcmp [] [] = 0"
| "strcmp [] (b # t) = - of_char b"
| "strcmp (a # s) [] = of_char a"
| "strcmp (a # s) (b # t) = (if a = b then strcmp s t else of_char a - of_char b)"

definition c_string :: "string \<Rightarrow> bool" where
  "c_string s \<longleftrightarrow> CHR 0x00 \<notin> set s"

definition snprintf_s :: "nat \<Rightarrow> string \<Rightarrow> string \<times> nat" where
  "snprintf_s n s = (take (n - 1) s, length s)"

lemma c_string_simps [simp]:
  "c_string []" "c_string (a # s) \<longleftrightarrow> a \<noteq> CHR 0x00 \<and> c_string s"
  by (auto simp: c_string_def)

lemma c_string_take: "c_string s \<Longrightarrow> c_string (take n s)"
  by (auto simp: c_string_def dest: in_set_takeD)

lemma of_char_pos:
  assumes "a \<noteq> CHR 0x00"
  shows "(of_char a :: int) > 0"
proof -
  have "(of_char a :: int) \<noteq> of_char (CHR 0x00)" using assms by (simp only: of_char_eq_iff not_False_eq_True)
  moreover have "(of_char a :: int) \<ge> 0" by (cases a) simp
  ultimately show ?thesis by simp
qed

lemma strcmp_self [simp]: "strcmp s s = 0"
  by (induction s) simp_all

lemma strcmp_flip: "strcmp t s = - strcmp s t"
  by (induction s t rule: strcmp.induct) auto

lemma strcmp_eq_0: "c_string s \<Longrightarrow> c_string t \<Longrightarrow> strcmp s t = 0 \<longleftrightarrow> s = t"
proof (induction s t rule: strcmp.induct)
  case (2 b t)
  then show ?case using of_char_pos [of b] by auto
next
  case (3 a s)
  then show ?case using of_char_pos [of a] by auto
qed auto

lemma strcmp_trans: "c_string s \<Longrightarrow> c_string t \<Longrightarrow> c_string u \<Longrightarrow> strcmp s t \<le> 0 \<Longrightarrow> strcmp t u \<le> 0 \<Longrightarrow> strcmp s u \<le> 0"
proof (induction s t arbitrary: u rule: strcmp.induct)
  case (1 u)
  then show ?case by (cases u) auto
next
  case (2 b t)
  then show ?case by (cases u) (auto simp: of_char_pos less_imp_le)
next
  case (3 a s)
  then show ?case using of_char_pos [of a] by auto
next
  case (4 a s b t)
  then show ?case
  proof (cases u)
    case (Cons c v)
    then show ?thesis using 4 by (auto split: if_splits)
  qed (use of_char_pos [of b] in auto)
qed

lemma strcmp_trans_eq:
  "c_string s \<Longrightarrow> c_string t \<Longrightarrow> c_string u \<Longrightarrow> strcmp s t \<le> 0 \<Longrightarrow> strcmp t u \<le> 0 \<Longrightarrow> strcmp s u = 0 \<Longrightarrow> s = t \<and> t = u"
  by (metis neg_le_0_iff_le order_antisym strcmp_eq_0 strcmp_flip)

end
