(* ===== verification/RbtForeach.thy ===== *)
theory RbtForeach
  imports RbtSpec
begin

section \<open>Loops over a tree: \<^verbatim>\<open>RBT_FOREACH\<close> (lib/src/coll/rbt.h)\<close>

text \<open>
  The loop from a node on, for a body that does not change the tree. On a tree it ends and is the
  fold of its body over the entries in order.
\<close>

partial_function (option) foreach_from :: "'k rbt \<Rightarrow> (addr \<Rightarrow> 's \<Rightarrow> 's option) \<Rightarrow> addr \<Rightarrow> 's \<Rightarrow> 's option" where
  "foreach_from t body n s =
     (if n = NULL then Some s
      else do { s \<leftarrow> body n s; n \<leftarrow> rbn_succ t n; foreach_from t body n s })"

definition RBT_FOREACH :: "'k rbt \<Rightarrow> (addr \<Rightarrow> 's \<Rightarrow> 's option) \<Rightarrow> 's \<Rightarrow> 's option" where
  "RBT_FOREACH t body s = do { n \<leftarrow> rbt_min t; foreach_from t body n s }"

fun fold_opt :: "('a \<Rightarrow> 's \<Rightarrow> 's option) \<Rightarrow> 'a list \<Rightarrow> 's \<Rightarrow> 's option" where
  "fold_opt f [] s = Some s"
| "fold_opt f (x # xs) s = do { s \<leftarrow> f x s; fold_opt f xs s }"

lemma fold_opt_inv:
  "I s \<Longrightarrow> (\<And>x s. x \<in> set xs \<Longrightarrow> I s \<Longrightarrow> \<exists>s'. f x s = Some s' \<and> I s') \<Longrightarrow> \<exists>s'. fold_opt f xs s = Some s' \<and> I s'"
proof (induction xs arbitrary: s)
  case (Cons x xs)
  obtain s' where "f x s = Some s'" "I s'" using Cons.prems by (meson list.set_intros(1))
  then show ?case using Cons.IH [of s'] Cons.prems(2) by auto
qed simp

lemma rbt_rep_not_NULL: "rbt_rep t es \<Longrightarrow> e \<in> set es \<Longrightarrow> fst e \<noteq> NULL"
  by (metis focus_get(1) prod.exhaust_sel rbt_rep_focus split_list)

lemma foreach_from_fold:
  "rbt_rep t (xs @ ys) \<Longrightarrow> foreach_from t body (first_addr ys) s = fold_opt body (map fst ys) s"
proof (induction ys arbitrary: xs s)
  case Nil
  then show ?case by (simp add: foreach_from.simps)
next
  case (Cons e ys)
  obtain a k where e: "e = (a, k)" by fastforce
  have "a \<noteq> NULL" using rbt_rep_not_NULL [OF Cons.prems, of e] e by simp
  moreover have "rbn_succ t a = Some (first_addr ys)" using rbn_succ_rep [of t xs a k ys] Cons.prems e by simp
  moreover have "foreach_from t body (first_addr ys) s' = fold_opt body (map fst ys) s'" for s'
    using Cons.IH [of "xs @ [e]" s'] Cons.prems by simp
  ultimately show ?case by (subst foreach_from.simps) (simp add: e)
qed

lemma rbt_min_rep: "rbt_rep t es \<Longrightarrow> rbt_min t = Some (first_addr es)"
  using rbn_min_correct unfolding rbt_min_def by (metis rbt_repE)

theorem RBT_FOREACH_fold: "rbt_rep t es \<Longrightarrow> RBT_FOREACH t body s = fold_opt body (map fst es) s"
  using foreach_from_fold [of t "[]" es] by (simp add: RBT_FOREACH_def rbt_min_rep)

declare foreach_from.simps [code]

end
