(* ===== verification/RailQuota.thy ===== *)
theory RailQuota
  imports Prelude
begin

section \<open>Send quotas of a rail (ldms/src/core/ldms_rail.c)\<close>

text \<open>
  A rail endpoint may send only as many bytes as its peer granted: the \<^verbatim>\<open>send_quota\<close> of the
  endpoint, with a debt when the peer has taken more back than there was, and a limit of bytes
  per second. Quotas are 64-bit words, all ones meaning no limit. The endpoints are values;
  a message to the peer is part of the result. The loops around an atomic compare and
  exchange are modelled twice: with the interference of other threads for \<^verbatim>\<open>__quota_acquire\<close>,
  as one atomic step elsewhere.
\<close>

definition LDMS_UNLIMITED :: u64 where
  "LDMS_UNLIMITED = -1"

subsection \<open>Quotas\<close>

text \<open>
  \<open>others\<close> is what the other threads do to the quota before each compare-and-exchange of
  this one: the exchange succeeds when the value is still the one read, and reads the new value
  when not.
\<close>

fun quota_acquire_loop :: "(u64 \<Rightarrow> u64) list \<Rightarrow> u64 \<Rightarrow> u64 \<Rightarrow> u64 \<Rightarrow> errno \<times> u64" where
  "quota_acquire_loop [] quota v0 n = (if v0 < n then (ENOBUFS, quota) else (EOK, v0 - n))"
| "quota_acquire_loop (f # others) quota v0 n =
     (if v0 < n then (ENOBUFS, quota)
      else let quota = f quota in
        if quota = v0 then (EOK, v0 - n) else quota_acquire_loop others quota quota n)"

definition quota_acquire_shared :: "(u64 \<Rightarrow> u64) list \<Rightarrow> u64 \<Rightarrow> u64 \<Rightarrow> errno \<times> u64" where
  "quota_acquire_shared others quota n =
     (let v0 = quota in
      if v0 = LDMS_UNLIMITED then (EOK, quota) else quota_acquire_loop others quota v0 n)"

definition quota_acquire :: "u64 \<Rightarrow> u64 \<Rightarrow> errno \<times> u64" where
  "quota_acquire quota n = quota_acquire_shared [] quota n"

definition quota_release :: "u64 \<Rightarrow> u64 \<Rightarrow> u64 \<times> u64" where
  "quota_release quota n =
     (let v0 = quota in
      if v0 = LDMS_UNLIMITED then (v0, quota) else (quota + n, quota + n))"

subsection \<open>Rates\<close>

record rate_quota =
  rq_quota :: u64
  rq_rate :: u64
  rq_sec :: int

text \<open>\<open>clock\<close> is the outcome of \<^verbatim>\<open>clock_gettime\<close>: an \<^verbatim>\<open>errno\<close> or the seconds.\<close>

definition rate_quota_acquire :: "errno + int \<Rightarrow> rate_quota \<Rightarrow> u64 \<Rightarrow> errno \<times> rate_quota" where
  "rate_quota_acquire clock c n =
     (if rq_rate c = LDMS_UNLIMITED then (EOK, c)
      else case clock of
        Inl e \<Rightarrow> (e, c)
      | Inr sec \<Rightarrow>
          let c = (if rq_sec c < sec then c\<lparr>rq_quota := rq_rate c, rq_sec := sec\<rparr> else c);
              v0 = rq_quota c
          in if v0 < n then (ENOBUFS, c) else (EOK, c\<lparr>rq_quota := v0 - n\<rparr>))"

definition rate_quota_release :: "errno + int \<Rightarrow> rate_quota \<Rightarrow> u64 \<Rightarrow> rate_quota" where
  "rate_quota_release clock c n =
     (if rq_rate c = LDMS_UNLIMITED then c
      else case clock of
        Inl e \<Rightarrow> c
      | Inr sec \<Rightarrow> if rq_sec c = sec then c\<lparr>rq_quota := rq_quota c + n\<rparr> else c)"

subsection \<open>Endpoints\<close>

text \<open>
  Of \<^verbatim>\<open>struct ldms_rail_ep_s\<close>: the quotas, what is pending for the quota group, the messages waiting
  for quota (their lengths) and the quota messages sent to the peer.
\<close>

record rail_ep =
  send_quota :: u64
  send_quota_debt :: u64
  ep_rate_quota :: rate_quota
  pending_ret_quota :: u64
  in_eps_stq :: bool
  sbuf_tq :: "u64 list"
  quota_returned :: "(u32 \<times> errno) list"
  remote_is_rail :: bool
  ep_connected :: bool

text \<open>The function returns an \<^verbatim>\<open>int\<close>: the new quota cut to 32 bits.\<close>

definition rep_quota_release :: "rail_ep \<Rightarrow> u64 \<Rightarrow> int \<times> rail_ep" where
  "rep_quota_release rep q =
     (let v0 = send_quota_debt rep;
          (rep, q) = (if v0 = 0 then (rep, q)
                      else if v0 \<le> q then (rep\<lparr>send_quota_debt := 0\<rparr>, q - v0)
                      else (rep\<lparr>send_quota_debt := v0 - q\<rparr>, 0));
          (v, quota) = quota_release (send_quota rep) q
      in (sint (ucast v :: u32), rep\<lparr>send_quota := quota\<rparr>))"

definition rep_quota_acquire :: "errno + int \<Rightarrow> rail_ep \<Rightarrow> u64 \<Rightarrow> errno \<times> rail_ep" where
  "rep_quota_acquire clock rep q =
     (let (rc, quota) = quota_acquire (send_quota rep) q in
      if rc \<noteq> EOK then (rc, rep)
      else let rep = rep\<lparr>send_quota := quota\<rparr>;
               (rc, rate) = rate_quota_acquire clock (ep_rate_quota rep) q;
               rep = rep\<lparr>ep_rate_quota := rate\<rparr>
           in if rc \<noteq> EOK then (rc, snd (rep_quota_release rep q)) else (EOK, rep))"

text \<open>\<^verbatim>\<open>__rail_ep_quota_return\<close>: the message with the quota as a 32-bit number.\<close>

definition rail_ep_quota_return :: "rail_ep \<Rightarrow> u32 \<Rightarrow> errno \<Rightarrow> rail_ep" where
  "rail_ep_quota_return rep quota rc = rep\<lparr>quota_returned := quota_returned rep @ [(quota, rc)]\<rparr>"

text \<open>
  The waiting messages go out in order while there is quota. \<open>env k\<close> is the clock, the
  success of the allocation and the outcome of \<^verbatim>\<open>__rep_publish\<close> for the \<open>k\<close>-th message.
\<close>

function rep_flush_sbuf_tq ::
  "(nat \<Rightarrow> (errno + int) \<times> bool \<times> errno) \<Rightarrow> nat \<Rightarrow> rail_ep \<Rightarrow> errno \<times> rail_ep" where
  "rep_flush_sbuf_tq env k rep =
     (case sbuf_tq rep of
        [] \<Rightarrow> (EOK, rep)
      | len # rest \<Rightarrow>
          let (clock, alloc_ok, publish) = env k;
              (rc, rep) = rep_quota_acquire clock rep len in
          if rc \<noteq> EOK then (rc, rep)
          else if \<not> alloc_ok then (ENOMEM, rep)
          else if publish \<noteq> EOK then (publish, snd (rep_quota_release rep len))
          else rep_flush_sbuf_tq env (k + 1) (rep\<lparr>sbuf_tq := rest\<rparr>))"
  by pat_completeness auto
termination
  by (relation "measure (\<lambda>(env, k, rep). length (sbuf_tq rep))") auto

subsection \<open>The rail\<close>

record ldms_rail =
  rail_send_quota :: u64
  rail_send_rate_limit :: u64
  rail_recv_quota :: u64
  rail_recv_rate_limit :: u64
  rail_peer_msg_enabled :: bool
  rail_eps :: "rail_ep list"

datatype rail_msg =
  QUOTA_RECONFIG u64 | RATE_RECONFIG u64

text \<open>
  A transport handle: \<^verbatim>\<open>NULL\<close>, a transport of its own or a rail. Negative results are the
  negated \<^verbatim>\<open>errno\<close>, here the left summand; a call on \<^verbatim>\<open>NULL\<close> where the code does not look is
  \<open>None\<close>. \<open>sent\<close> is the outcome of \<^verbatim>\<open>zap_send\<close>.
\<close>

datatype ldms_t = X_NULL | X_LEGACY | X_RAIL ldms_rail

definition ldms_xprt_rail_recv_quota_set :: "errno \<Rightarrow> ldms_t \<Rightarrow> u64 \<Rightarrow> (errno \<times> rail_msg option \<times> ldms_t) option" where
  "ldms_xprt_rail_recv_quota_set sent x q = (case x of
     X_NULL \<Rightarrow> None
   | X_LEGACY \<Rightarrow> Some (EINVAL, None, x)
   | X_RAIL r \<Rightarrow>
       if q = rail_recv_quota r then Some (EOK, None, x)
       else Some (sent, Some (QUOTA_RECONFIG q), X_RAIL (r\<lparr>rail_recv_quota := q\<rparr>)))"

definition ldms_xprt_rail_recv_rate_limit_set :: "errno \<Rightarrow> ldms_t \<Rightarrow> u64 \<Rightarrow> (errno \<times> rail_msg option \<times> ldms_t) option" where
  "ldms_xprt_rail_recv_rate_limit_set sent x rate = (case x of
     X_NULL \<Rightarrow> None
   | X_LEGACY \<Rightarrow> Some (EINVAL, None, x)
   | X_RAIL r \<Rightarrow>
       if rate = rail_recv_rate_limit r then Some (EOK, None, x)
       else Some (sent, Some (RATE_RECONFIG rate), X_RAIL (r\<lparr>rail_recv_rate_limit := rate\<rparr>)))"

definition ldms_xprt_is_rail :: "ldms_t \<Rightarrow> bool option" where
  "ldms_xprt_is_rail x = (case x of X_NULL \<Rightarrow> None | X_LEGACY \<Rightarrow> Some False | X_RAIL r \<Rightarrow> Some True)"

definition ldms_xprt_is_remote_rail :: "ldms_t \<Rightarrow> bool option" where
  "ldms_xprt_is_remote_rail x = (case x of
     X_NULL \<Rightarrow> None
   | X_LEGACY \<Rightarrow> Some False
   | X_RAIL r \<Rightarrow> (case rail_eps r of [] \<Rightarrow> None | rep # _ \<Rightarrow> Some (remote_is_rail rep)))"

definition ldms_xprt_rail_eps :: "ldms_t \<Rightarrow> errno + nat" where
  "ldms_xprt_rail_eps x = (case x of X_RAIL r \<Rightarrow> Inr (length (rail_eps r)) | _ \<Rightarrow> Inl EINVAL)"

definition ldms_xprt_rail_recv_quota_get :: "ldms_t \<Rightarrow> errno + int" where
  "ldms_xprt_rail_recv_quota_get x = (case x of X_RAIL r \<Rightarrow> Inr (sint (rail_recv_quota r)) | _ \<Rightarrow> Inl EINVAL)"

definition ldms_xprt_rail_recv_rate_limit_get :: "ldms_t \<Rightarrow> errno + int" where
  "ldms_xprt_rail_recv_rate_limit_get x =
     (case x of X_RAIL r \<Rightarrow> Inr (sint (rail_recv_rate_limit r)) | _ \<Rightarrow> Inl EINVAL)"

definition ldms_xprt_rail_send_rate_limit_get :: "ldms_t \<Rightarrow> errno + int" where
  "ldms_xprt_rail_send_rate_limit_get x =
     (case x of X_RAIL r \<Rightarrow> Inr (sint (rail_send_rate_limit r)) | _ \<Rightarrow> Inl EINVAL)"

text \<open>The getters that fill an array of \<open>n\<close> entries.\<close>

definition ldms_xprt_rail_send_quota_get :: "ldms_t \<Rightarrow> nat \<Rightarrow> errno + u64 list" where
  "ldms_xprt_rail_send_quota_get x n = (case x of
     X_RAIL r \<Rightarrow> if n < length (rail_eps r) then Inl ENOMEM else Inr (map send_quota (rail_eps r))
   | _ \<Rightarrow> Inl EINVAL)"

definition ldms_xprt_rail_pending_ret_quota_get :: "ldms_t \<Rightarrow> nat \<Rightarrow> errno + u64 list" where
  "ldms_xprt_rail_pending_ret_quota_get x n = (case x of
     X_RAIL r \<Rightarrow> if n < length (rail_eps r) then Inl ENOMEM else Inr (map pending_ret_quota (rail_eps r))
   | _ \<Rightarrow> Inl EINVAL)"

definition ldms_xprt_rail_in_eps_stq_get :: "ldms_t \<Rightarrow> nat \<Rightarrow> errno + bool list" where
  "ldms_xprt_rail_in_eps_stq_get x n = (case x of
     X_RAIL r \<Rightarrow> if n < length (rail_eps r) then Inl ENOMEM else Inr (map in_eps_stq (rail_eps r))
   | _ \<Rightarrow> Inl EINVAL)"

text \<open>
  The loop of \<^verbatim>\<open>__rail_get_threads\<close> runs over the \<open>n\<close> entries of the array, not over the endpoints:
  \<open>None\<close> is the read behind the last endpoint. \<open>thread\<close> is the thread of an endpoint, 0 when it
  has no transport.
\<close>

definition rail_get_threads :: "(rail_ep \<Rightarrow> nat) \<Rightarrow> int \<Rightarrow> ldms_rail \<Rightarrow> (errno + nat \<times> nat list) option" where
  "rail_get_threads thread n r =
     (if n < 1 then Some (Inl EINVAL)
      else if int (length (rail_eps r)) > n then Some (Inl ENOMEM)
      else if int (length (rail_eps r)) < n then None
      else Some (Inr (length (rail_eps r), map thread (rail_eps r))))"

text \<open>\<open>send\<close> is the outcome of the \<^verbatim>\<open>send\<close> operation of the transport under the first endpoint.\<close>

definition rail_send :: "errno \<Rightarrow> u64 \<Rightarrow> ldms_rail \<Rightarrow> (errno \<times> ldms_rail) option" where
  "rail_send send msg_len r = (case rail_eps r of
     [] \<Rightarrow> None
   | rep # reps \<Rightarrow>
       if \<not> ep_connected rep then Some (ENOTCONN, r)
       else if send \<noteq> EOK then Some (send, r\<lparr>rail_eps := snd (rep_quota_release rep msg_len) # reps\<rparr>)
       else Some (EOK, r))"

text \<open>\<^verbatim>\<open>add\<close> is a signed 64-bit number.\<close>

definition reconfig_ep :: "u64 \<Rightarrow> rail_ep \<Rightarrow> rail_ep" where
  "reconfig_ep add rep =
     (if sint add > 0 then snd (rep_quota_release rep add)
      else let (rc, quota) = quota_acquire (send_quota rep) (- add) in
        if rc \<noteq> EOK then rep\<lparr>send_quota_debt := send_quota_debt rep + (- add)\<rparr>
        else rep\<lparr>send_quota := quota\<rparr>)"

definition rail_process_quota_reconfig :: "u64 \<Rightarrow> ldms_rail \<Rightarrow> ldms_rail" where
  "rail_process_quota_reconfig q r =
     (let add = q - rail_send_quota r;
          r = r\<lparr>rail_send_quota := q\<rparr>
      in if add = 0 then r else r\<lparr>rail_eps := map (reconfig_ep add) (rail_eps r)\<rparr>)"

definition rail_process_rate_reconfig :: "u64 \<Rightarrow> ldms_rail \<Rightarrow> ldms_rail" where
  "rail_process_rate_reconfig rate r =
     (if rail_send_rate_limit r = rate then r
      else r\<lparr>rail_send_rate_limit := rate,
             rail_eps := map (\<lambda>rep. rep\<lparr>ep_rate_quota := (ep_rate_quota rep)\<lparr>rq_rate := rate\<rparr>\<rparr>) (rail_eps r)\<rparr>)"

text \<open>
  The limits an endpoint starts with: those of the connection message of a rail peer
  (quota, rate, whether it takes messages), or none for any other peer.
\<close>

definition rail_ep_limit :: "(u64 \<times> u64 \<times> bool) option \<Rightarrow> nat \<Rightarrow> ldms_rail \<Rightarrow> ldms_rail" where
  "rail_ep_limit conn_msg i r = (let rep = rail_eps r ! i in
     case conn_msg of
       Some (quota, rate, msg_enabled) \<Rightarrow>
         r\<lparr>rail_send_quota := quota, rail_send_rate_limit := rate, rail_peer_msg_enabled := msg_enabled,
           rail_eps := (rail_eps r)[i := rep\<lparr>send_quota := quota,
             ep_rate_quota := \<lparr>rq_quota = rate, rq_rate = rate, rq_sec = 0\<rparr>, remote_is_rail := True\<rparr>]\<rparr>
     | None \<Rightarrow>
         r\<lparr>rail_peer_msg_enabled := False,
           rail_eps := (rail_eps r)[i := rep\<lparr>send_quota := LDMS_UNLIMITED,
             ep_rate_quota := (ep_rate_quota rep)\<lparr>rq_quota := LDMS_UNLIMITED, rq_rate := LDMS_UNLIMITED\<rparr>,
             remote_is_rail := False\<rparr>]\<rparr>)"

text \<open>The peer gives quota back: the event for the application, then the waiting messages.\<close>

definition rail_process_send_quota ::
  "(nat \<Rightarrow> (errno + int) \<times> bool \<times> errno) \<Rightarrow> u32 \<Rightarrow> errno \<Rightarrow> nat \<Rightarrow> ldms_rail \<Rightarrow> (int \<times> nat \<times> errno) \<times> ldms_rail" where
  "rail_process_send_quota env sc rc i r =
     (let (v, rep) = rep_quota_release (rail_eps r ! i) (ucast sc);
          r = (if rc = ENOTSUP then r\<lparr>rail_peer_msg_enabled := False\<rparr> else r);
          rep = snd (rep_flush_sbuf_tq env 0 rep)
      in ((v, i, rc), r\<lparr>rail_eps := (rail_eps r)[i := rep]\<rparr>))"

subsection \<open>Properties\<close>

text \<open>The values a shared quota goes through.\<close>

fun quota_values :: "(u64 \<Rightarrow> u64) list \<Rightarrow> u64 \<Rightarrow> u64 list" where
  "quota_values [] v = [v]"
| "quota_values (f # others) v = v # quota_values others (f v)"

lemma acquire_loop_linear:
  "\<exists>v \<in> set (quota_values others quota). quota_acquire_loop others quota quota n =
     (if v < n then (ENOBUFS, v) else (EOK, v - n))"
proof (induction others arbitrary: quota)
  case (Cons f others)
  consider "quota < n" | "\<not> quota < n" "f quota = quota" | "\<not> quota < n" "f quota \<noteq> quota" by blast
  then show ?case
  proof cases
    case 3
    with Cons [of "f quota"] show ?thesis by (simp add: Let_def)
  qed (auto simp: Let_def)
qed simp



text \<open>What a sequence of requests (second, bytes) is granted: for each grant its window and its bytes.\<close>

fun rate_run :: "rate_quota \<Rightarrow> (int \<times> u64) list \<Rightarrow> (int \<times> nat) list" where
  "rate_run c [] = []"
| "rate_run c ((sec, n) # reqs) =
     (let (rc, c') = rate_quota_acquire (Inr sec) c n in
      (if rc = EOK then [(rq_sec c', unat n)] else []) @ rate_run c' reqs)"

definition granted :: "int \<Rightarrow> (int \<times> nat) list \<Rightarrow> nat" where
  "granted w gs = sum_list (map snd (filter (\<lambda>g. fst g = w) gs))"

lemma granted_simps [simp]:
  "granted w [] = 0" "granted w (g # gs) = (if fst g = w then snd g else 0) + granted w gs"
  by (simp_all add: granted_def)

lemma rate_run_bound:
  "rq_rate c \<noteq> LDMS_UNLIMITED \<Longrightarrow> rq_quota c \<le> rq_rate c \<Longrightarrow> granted w (rate_run c reqs) \<le>
     (if w < rq_sec c then 0 else if w = rq_sec c then unat (rq_quota c) else unat (rq_rate c))"
proof (induction c reqs rule: rate_run.induct)
  case (2 c sec n reqs)
  define d where "d = (if rq_sec c < sec then c\<lparr>rq_quota := rq_rate c, rq_sec := sec\<rparr> else c)"
  have d: "rq_rate d = rq_rate c" "rq_quota d \<le> rq_rate d" "rq_sec c \<le> rq_sec d"
    "rq_sec c = rq_sec d \<Longrightarrow> d = c" using 2(3) by (auto simp: d_def)
  have acq: "rate_quota_acquire (Inr sec) c n =
      (if rq_quota d < n then (ENOBUFS, d) else (EOK, d\<lparr>rq_quota := rq_quota d - n\<rparr>))"
    using 2(2) by (simp add: rate_quota_acquire_def Let_def d_def)
  have q: "unat (rq_quota d) \<le> unat (rq_rate c)" using d(1,2) by (simp add: word_le_nat_alt)
  show ?case
  proof (cases "rq_quota d < n")
    case True
    then show ?thesis using 2(1) [OF refl, of ENOBUFS d] acq d q 2(2) by (auto split: if_splits)
  next
    case False
    let ?d = "d\<lparr>rq_quota := rq_quota d - n\<rparr>"
    have sub: "unat (rq_quota d - n) = unat (rq_quota d) - unat n" "unat n \<le> unat (rq_quota d)"
      using False by (auto simp: unat_sub word_le_nat_alt not_less)
    then have "rq_quota ?d \<le> rq_rate ?d" using d(1,2) by (simp add: word_le_nat_alt)
    then show ?thesis using 2(1) [OF refl, of EOK ?d] acq d sub q 2(2) False by (auto split: if_splits)
  qed
qed simp



text \<open>
  The life of an endpoint: it takes quota for what it sends, gets back quota of what is
  outstanding (\<open>out\<close>), and its peer changes the grant.
\<close>

definition max_grant :: nat where
  "max_grant = 2 ^ 62"

inductive ep_history :: "rail_ep \<Rightarrow> u64 \<Rightarrow> rail_ep \<Rightarrow> nat \<Rightarrow> u64 \<Rightarrow> bool" for rep0 g0 where
  start: "ep_history rep0 g0 rep0 0 g0"
| acquire: "ep_history rep0 g0 rep out g \<Longrightarrow> rep_quota_acquire clock rep q = (rc, rep') \<Longrightarrow>
    ep_history rep0 g0 rep' (if rc = EOK then out + unat q else out) g"
| release: "ep_history rep0 g0 rep out g \<Longrightarrow> unat q \<le> out \<Longrightarrow>
    ep_history rep0 g0 (snd (rep_quota_release rep q)) (out - unat q) g"
| reconfig: "ep_history rep0 g0 rep out g \<Longrightarrow> unat g' \<le> max_grant \<Longrightarrow> g' \<noteq> g \<Longrightarrow>
    ep_history rep0 g0 (reconfig_ep (g' - g) rep) out g'"

definition balanced :: "rail_ep \<Rightarrow> nat \<Rightarrow> u64 \<Rightarrow> bool" where
  "balanced rep out g \<longleftrightarrow> unat (send_quota rep) + out = unat g + unat (send_quota_debt rep) \<and>
     unat (send_quota rep) + out \<le> max_grant \<and> unat g \<le> max_grant"

lemma limited: "unat v \<le> max_grant \<Longrightarrow> v \<noteq> LDMS_UNLIMITED"
  by (auto simp: LDMS_UNLIMITED_def max_grant_def unsigned_minus_1_eq_mask mask_eq_exp_minus_1)

lemma release_balance:
  assumes small: "unat (send_quota rep) \<le> max_grant" "unat q \<le> max_grant"
  defines "rep' \<equiv> snd (rep_quota_release rep q)"
  shows "unat (send_quota rep') + unat (send_quota_debt rep) = unat (send_quota rep) + unat q + unat (send_quota_debt rep') \<and>
    unat (send_quota rep') \<le> unat (send_quota rep) + unat q \<and>
    (unat (send_quota_debt rep') = 0 \<or> send_quota rep' = send_quota rep) \<and>
    ep_rate_quota rep' = ep_rate_quota rep"
proof -
  let ?s = "send_quota rep" and ?d = "send_quota_debt rep"
  have lim: "?s \<noteq> LDMS_UNLIMITED" using small(1) by (rule limited)
  consider "?d = 0" | "?d \<noteq> 0" "?d \<le> q" | "\<not> ?d \<le> q" by blast
  then show ?thesis
  proof cases
    case 1
    then show ?thesis using lim unat_sum [of ?s q] small
      by (simp add: rep'_def rep_quota_release_def quota_release_def max_grant_def Let_def)
  next
    case 2
    moreover have "unat ?d \<le> unat q" using 2 by (simp add: word_le_nat_alt)
    ultimately show ?thesis using lim unat_sum [of ?s "q - ?d"] unat_difference [of ?d q] small
      by (simp add: rep'_def rep_quota_release_def quota_release_def max_grant_def Let_def)
  next
    case 3
    moreover have "unat q \<le> unat ?d" using 3 by (simp add: word_le_nat_alt)
    moreover have "?d \<noteq> 0" using 3 by auto
    ultimately show ?thesis using lim unat_difference [of q ?d]
      by (simp add: rep'_def rep_quota_release_def quota_release_def Let_def)
  qed
qed

lemma balanced_release:
  assumes "balanced rep out g" and "unat q \<le> out"
  shows "balanced (snd (rep_quota_release rep q)) (out - unat q) g"
  using assms release_balance [of rep q] by (auto simp: balanced_def)

lemma balanced_acquire:
  assumes bal: "balanced rep out g" and acq: "rep_quota_acquire clock rep q = (rc, rep')"
  shows "balanced rep' (if rc = EOK then out + unat q else out) g"
proof (cases "send_quota rep < q")
  case True
  then have "rc = ENOBUFS" "rep' = rep" using acq limited [of "send_quota rep"] bal
    by (auto simp: rep_quota_acquire_def quota_acquire_def quota_acquire_shared_def balanced_def Let_def)
  then show ?thesis using bal by simp
next
  case False
  let ?r = "rep\<lparr>send_quota := send_quota rep - q\<rparr>"
  obtain rc' rate where rate: "rate_quota_acquire clock (ep_rate_quota rep) q = (rc', rate)" by fastforce
  let ?r' = "?r\<lparr>ep_rate_quota := rate\<rparr>"
  have q: "unat (send_quota rep - q) = unat (send_quota rep) - unat q" "unat q \<le> unat (send_quota rep)"
    using False by (auto simp: unat_difference word_le_nat_alt not_less)
  have taken: "balanced ?r' (out + unat q) g" using bal q by (auto simp: balanced_def)
  have "(rc, rep') = (if rc' \<noteq> EOK then (rc', snd (rep_quota_release ?r' q)) else (EOK, ?r'))"
    using acq rate False limited [of "send_quota rep"] bal
    by (auto simp: rep_quota_acquire_def quota_acquire_def quota_acquire_shared_def balanced_def Let_def)
  then show ?thesis using taken balanced_release [OF taken, of q] by (auto split: if_splits)
qed

lemma sint_difference:
  assumes "unat a \<le> max_grant" and "unat b \<le> max_grant"
  shows "sint (a - b :: u64) = int (unat a) - int (unat b)"
proof -
  have "sint (word_of_int (int (unat a) - int (unat b)) :: u64) = int (unat a) - int (unat b)"
    by (rule sint_word) (use assms in \<open>simp_all add: max_grant_def del: of_nat_unat\<close>)
  then show ?thesis by simp
qed

lemma balanced_reconfig:
  assumes bal: "balanced rep out g" and g': "unat g' \<le> max_grant" "g' \<noteq> g"
  shows "balanced (reconfig_ep (g' - g) rep) out g'"
proof -
  let ?s = "send_quota rep" and ?d = "send_quota_debt rep"
  have g: "unat g \<le> max_grant" using bal by (simp add: balanced_def)
  note add = sint_difference [OF g'(1) g]
  show ?thesis
  proof (cases "unat g < unat g'")
    case True
    then have u: "unat (g' - g) = unat g' - unat g" by (intro unat_difference) (simp add: word_le_nat_alt)
    have "unat (g' - g) \<le> max_grant" "unat ?s \<le> max_grant" using u g'(1) bal by (auto simp: balanced_def)
    note rel = release_balance [OF this(2,1), unfolded u]
    have "reconfig_ep (g' - g) rep = snd (rep_quota_release rep (g' - g))"
      using add True by (simp add: reconfig_ep_def del: of_nat_unat)
    then show ?thesis using rel True bal g'(1) unfolding balanced_def by (elim conjE disjE) auto
  next
    case False
    have le: "unat g' < unat g" using False g'(2) by (meson linorder_neqE_nat word_unat_eq_iff)
    then have u: "unat (g - g') = unat g - unat g'" by (intro unat_difference) (simp add: word_le_nat_alt)
    have acq: "quota_acquire ?s (g - g') = (if ?s < g - g' then (ENOBUFS, ?s) else (EOK, ?s - (g - g')))"
      using limited [of ?s] bal by (simp add: quota_acquire_def quota_acquire_shared_def balanced_def Let_def)
    have neg: "\<not> sint (g' - g) > 0" "- (g' - g) = g - g'" using add le by (simp_all del: of_nat_unat)
    show ?thesis
    proof (cases "?s < g - g'")
      case True
      have "unat (?d + (g - g')) = unat ?d + (unat g - unat g')"
        unfolding u [symmetric] by (rule unat_sum) (use bal u g in \<open>auto simp: balanced_def max_grant_def\<close>)
      then show ?thesis using True acq neg le bal g'(1) by (auto simp: reconfig_ep_def balanced_def)
    next
      case False
      then have "unat (g - g') \<le> unat ?s" by (simp add: word_le_nat_alt not_less)
      then show ?thesis using False acq neg le bal g'(1) u unat_difference [of "g - g'" ?s]
        by (auto simp: reconfig_ep_def balanced_def not_less)
    qed
  qed
qed


definition example_ep :: "u64 \<Rightarrow> rail_ep" where
  "example_ep q = \<lparr>send_quota = q, send_quota_debt = 0,
     ep_rate_quota = \<lparr>rq_quota = LDMS_UNLIMITED, rq_rate = LDMS_UNLIMITED, rq_sec = 0\<rparr>, pending_ret_quota = 0,
     in_eps_stq = False, sbuf_tq = [], quota_returned = [], remote_is_rail = True, ep_connected = True\<rparr>"


text \<open>
  C24. A change of the grant to or from \<^verbatim>\<open>LDMS_UNLIMITED\<close>, which is the number \<open>2 ^ 64 - 1\<close> to the
  arithmetic of \<^verbatim>\<open>reconfig\<close>, does not do what it says. A peer that lifts the limit of an idle
  endpoint leaves it with the quota it had and puts it in debt by one more than that quota; a
  peer that sets a limit for an endpoint without one leaves it without one.
\<close>

theorem reconfig_unlimited:
  assumes "unat s < 2 ^ 63 - 1" and "send_quota_debt rep = 0"
  shows "reconfig_ep (LDMS_UNLIMITED - s) (rep\<lparr>send_quota := s\<rparr>) = rep\<lparr>send_quota := s, send_quota_debt := s + 1\<rparr> \<and>
    send_quota (reconfig_ep (s - LDMS_UNLIMITED) (rep\<lparr>send_quota := LDMS_UNLIMITED\<rparr>)) = LDMS_UNLIMITED"
proof -
  have succ: "unat (s + 1) = unat s + 1" using assms(1) unat_sum [of s 1] by simp
  have less: "s < s + 1" using succ by (simp add: word_less_nat_alt)
  have lim: "s \<noteq> LDMS_UNLIMITED" using less by (auto simp: LDMS_UNLIMITED_def)
  have args: "LDMS_UNLIMITED - s = - (s + 1)" "s - LDMS_UNLIMITED = s + 1" by (simp_all add: LDMS_UNLIMITED_def)
  have "sint (word_of_int (int (unat s) + 1) :: u64) = int (unat s) + 1"
    "sint (word_of_int (- (int (unat s) + 1)) :: u64) = - (int (unat s) + 1)"
    by (rule sint_word; use assms(1) in \<open>simp del: of_nat_unat\<close>)+
  then have sgn: "sint (s + 1) > 0" "\<not> sint (- (s + 1)) > 0" "\<not> sint (- s - 1) > 0"
    using order_trans [OF _ uint_ge_0 [of s], of "- 1"] by (simp_all add: not_less)
  have "quota_acquire s (s + 1) = (ENOBUFS, s)"
    using less lim by (simp add: quota_acquire_def quota_acquire_shared_def)
  then show ?thesis unfolding args using sgn assms(2)
    by (simp add: reconfig_ep_def rep_quota_release_def quota_release_def Let_def add.commute)
qed

theorem reconfig_unlimited_witness:
  "send_quota_debt (reconfig_ep (LDMS_UNLIMITED - 100) (example_ep 100)) = 101"
  using reconfig_unlimited [of 100 "example_ep 100"] by (simp add: example_ep_def)

end
