(* ===== verification/QGroup.thy ===== *)
theory QGroup
  imports CString RbtForeach RailQuota OvisEvent
begin

section \<open>Quota groups (ldms/src/core/ldms_qgroup.c)\<close>

text \<open>
  The members of a quota group share the quota that lets their peers send messages: a member
  below its mark asks the others, which donate what they have above theirs, and a timer resets
  everything once in a window of time. The state is the group \<^verbatim>\<open>__qg\<close> with its members (a tree
  keyed by host and port), the endpoints waiting for quota, and the scheduler that runs the two
  timers. The references that keep a rail alive are left out. What goes out to transports is collected in \<open>p_acts\<close>. Each locked section is
  one step; a call that would wait for ever or dereference an invalid pointer is \<open>None\<close>.
\<close>

subsection \<open>State\<close>

datatype qgroup_state =
  LDMS_QGROUP_STATE_STOPPED | LDMS_QGROUP_STATE_STOPPING | LDMS_QGROUP_STATE_STARTED | LDMS_QGROUP_STATE_BUSY

datatype qgroup_member_state =
  LDMS_QGROUP_MEMBER_STATE_DISCONNECTED | LDMS_QGROUP_MEMBER_STATE_CONNECTING | LDMS_QGROUP_MEMBER_STATE_CONNECTED

record qgroup_cfg =
  cfg_quota :: u64
  cfg_ask_mark :: u64
  cfg_ask_amount :: u64
  cfg_ask_usec :: u64
  cfg_reset_usec :: u64

type_synonym av_list = "(string \<times> string) list"

record qgroup_member =
  c_host :: string
  c_port :: string
  c_xprt :: string
  c_auth :: string
  c_auth_av_list :: "av_list option"
  m_x :: addr
  m_state :: qgroup_member_state
  m_refs :: int

text \<open>
  The events \<^verbatim>\<open>ask_oev\<close> and \<^verbatim>\<open>reset_oev\<close> live inside the group; the fields here are their
  addresses. The members are records at their addresses, which are also those of their tree nodes.
\<close>

record qgroup =
  qg_refs :: int
  qg_quota :: u64
  qg_state :: qgroup_state
  qg_cfg :: qgroup_cfg
  qg_rbt :: "(string \<times> string) rbt"
  qg_members :: "addr \<Rightarrow> qgroup_member option"
  qg_ask_oev :: addr
  qg_reset_oev :: addr
  qg_eps_stq :: "addr list"

text \<open>Messages carry an amount and the start of the window they belong to.\<close>

datatype qgroup_msg =
  QGROUP_ASK u64 u64 | QGROUP_DONATE u64 u64 | QGROUP_DONATE_BACK u64 u64

datatype qgroup_act =
  SEND_TO_MEMBER addr qgroup_msg | SEND_TO_REP addr qgroup_msg | XPRT_PUT addr | XPRT_CLOSE addr

record qg_proc =
  p_qg :: qgroup
  p_reps :: "addr \<Rightarrow> rail_ep option"
  p_sched :: "ovis_scheduler option"
  p_thread :: bool
  p_acts :: "qgroup_act list"

definition qgroup_rbt_cmp :: "string \<times> string \<Rightarrow> string \<times> string \<Rightarrow> int" where
  "qgroup_rbt_cmp tm m =
     (let rc = strcmp (fst tm) (fst m) in
      if rc \<noteq> 0 then rc
      else let rc = strcmp (snd tm) (snd m) in
        if rc \<noteq> 0 then rc else 0)"

text \<open>A clock reading, seconds and nanoseconds, in microseconds.\<close>

definition clock_getusec :: "int \<times> int \<Rightarrow> u64" where
  "clock_getusec ts = word_of_int (fst ts * 1000000 + snd ts div 1000)"

subsection \<open>Creating and freeing\<close>

definition zero_cfg :: qgroup_cfg where
  "zero_cfg = \<lparr>cfg_quota = 0, cfg_ask_mark = 0, cfg_ask_amount = 0, cfg_ask_usec = 0, cfg_reset_usec = 0\<rparr>"

text \<open>\<^verbatim>\<open>quota\<close> and the events keep what the memory held.\<close>

definition qgroup_init :: "qgroup \<Rightarrow> qgroup" where
  "qgroup_init qg = qg\<lparr>qg_state := LDMS_QGROUP_STATE_STOPPED, qg_cfg := zero_cfg,
     qg_rbt := rbt_init qgroup_rbt_cmp (qg_rbt qg), qg_refs := 1, qg_eps_stq := []\<rparr>"

definition ldms_qgroup_new :: "qgroup option \<Rightarrow> qgroup_cfg option \<Rightarrow> errno + qgroup" where
  "ldms_qgroup_new mem cfg =
     (if cfg = None then Inl EINVAL
      else case mem of None \<Rightarrow> Inl ENOMEM | Some qg \<Rightarrow> Inr (qgroup_init qg))"

text \<open>Dropping a reference of a group; the last one frees it, and a freed group is \<open>Inl ()\<close>.\<close>

definition qgroup_ref_put :: "qgroup \<Rightarrow> (unit + qgroup) option" where
  "qgroup_ref_put qg =
     (let qg = qg\<lparr>qg_refs := qg_refs qg - 1\<rparr> in
      if qg_refs qg = 0 then do { c_assert (rbt_empty (qg_rbt qg)); Some (Inl ()) }
      else Some (Inr qg))"

definition ldms_qgroup_free :: "qgroup \<Rightarrow> (errno \<times> (unit + qgroup)) option" where
  "ldms_qgroup_free qg = do {
     let qg = qg\<lparr>qg_refs := qg_refs qg + 1\<rparr>;
     (rc, r) \<leftarrow> (if qg_state qg \<noteq> LDMS_QGROUP_STATE_STOPPED then Some (EINVAL, Inr qg)
                 else do { r \<leftarrow> qgroup_ref_put qg; Some (EOK, r) });
     r \<leftarrow> (case r of Inl u \<Rightarrow> None | Inr qg \<Rightarrow> qgroup_ref_put qg);
     Some (rc, r) }"

subsection \<open>Configuration\<close>

definition qgroup_cfg_set :: "qgroup_cfg \<Rightarrow> qgroup \<Rightarrow> errno \<times> qgroup" where
  "qgroup_cfg_set cfg qg =
     (if qg_state qg \<noteq> LDMS_QGROUP_STATE_STOPPED then (EBUSY, qg) else (EOK, qg\<lparr>qg_cfg := cfg\<rparr>))"

definition qgroup_cfg_quota_set :: "u64 \<Rightarrow> qgroup \<Rightarrow> errno \<times> qgroup" where
  "qgroup_cfg_quota_set quota qg =
     (if qg_state qg \<noteq> LDMS_QGROUP_STATE_STOPPED then (EBUSY, qg)
      else (EOK, qg\<lparr>qg_cfg := (qg_cfg qg)\<lparr>cfg_quota := quota\<rparr>\<rparr>))"

definition qgroup_cfg_ask_usec_set :: "u64 \<Rightarrow> qgroup \<Rightarrow> errno \<times> qgroup" where
  "qgroup_cfg_ask_usec_set usec qg =
     (if qg_state qg \<noteq> LDMS_QGROUP_STATE_STOPPED then (EBUSY, qg)
      else (EOK, qg\<lparr>qg_cfg := (qg_cfg qg)\<lparr>cfg_ask_usec := usec\<rparr>\<rparr>))"

definition qgroup_cfg_reset_usec_set :: "u64 \<Rightarrow> qgroup \<Rightarrow> errno \<times> qgroup" where
  "qgroup_cfg_reset_usec_set usec qg =
     (if qg_state qg \<noteq> LDMS_QGROUP_STATE_STOPPED then (EBUSY, qg)
      else (EOK, qg\<lparr>qg_cfg := (qg_cfg qg)\<lparr>cfg_reset_usec := usec\<rparr>\<rparr>))"

definition qgroup_cfg_ask_mark_set :: "u64 \<Rightarrow> qgroup \<Rightarrow> errno \<times> qgroup" where
  "qgroup_cfg_ask_mark_set ask_mark qg =
     (if qg_state qg \<noteq> LDMS_QGROUP_STATE_STOPPED then (EBUSY, qg)
      else (EOK, qg\<lparr>qg_cfg := (qg_cfg qg)\<lparr>cfg_ask_mark := ask_mark\<rparr>\<rparr>))"

definition qgroup_cfg_ask_amount_set :: "u64 \<Rightarrow> qgroup \<Rightarrow> errno \<times> qgroup" where
  "qgroup_cfg_ask_amount_set ask_amount qg =
     (if qg_state qg \<noteq> LDMS_QGROUP_STATE_STOPPED then (EBUSY, qg)
      else (EOK, qg\<lparr>qg_cfg := (qg_cfg qg)\<lparr>cfg_ask_amount := ask_amount\<rparr>\<rparr>))"

definition qgroup_cfg_get :: "qgroup \<Rightarrow> qgroup_cfg" where
  "qgroup_cfg_get qg = qg_cfg qg"

subsection \<open>Members\<close>

text \<open>
  The fields of a new member, in the order the code fills them: \<open>Inl\<close> is the error it leaves
  with. A string argument is \<open>None\<close> for \<^verbatim>\<open>NULL\<close>; \<open>av_copy\<close> is the outcome of \<^verbatim>\<open>av_copy\<close>.
\<close>

definition fill_field :: "nat \<Rightarrow> string \<Rightarrow> errno + string" where
  "fill_field n s = (let (buf, len) = snprintf_s n s in if len \<ge> n then Inl ENAMETOOLONG else Inr buf)"

fun bind_err :: "errno + 'a \<Rightarrow> ('a \<Rightarrow> errno + 'b) \<Rightarrow> errno + 'b" where
  "bind_err (Inl e) f = Inl e"
| "bind_err (Inr a) f = f a"

definition required :: "string option \<Rightarrow> errno + string" where
  "required s = (case s of None \<Rightarrow> Inl EINVAL | Some s \<Rightarrow> Inr s)"

definition fill_member ::
  "string option \<Rightarrow> string option \<Rightarrow> string option \<Rightarrow> string option \<Rightarrow> av_list option \<Rightarrow> errno \<Rightarrow> errno + qgroup_member" where
  "fill_member xprt_name host port auth_name auth_av_list av_copy =
     bind_err (bind_err (required xprt_name) (fill_field 32)) (\<lambda>xprt.
     bind_err (bind_err (required host) (fill_field 256)) (\<lambda>host.
     bind_err (case port of None \<Rightarrow> Inr ''411'' | Some port \<Rightarrow> fill_field 32 port) (\<lambda>port.
     bind_err (case auth_name of None \<Rightarrow> Inr ''none'' | Some auth \<Rightarrow> fill_field 32 auth) (\<lambda>auth.
     if auth_av_list \<noteq> None \<and> av_copy \<noteq> EOK then Inl av_copy
     else Inr \<lparr>c_host = host, c_port = port, c_xprt = xprt, c_auth = auth, c_auth_av_list = auth_av_list,
               m_x = NULL, m_state = LDMS_QGROUP_MEMBER_STATE_DISCONNECTED, m_refs = 0\<rparr>))))"

text \<open>
  The key of the tree node is the member itself, that is its host and port. \<open>a\<close> is the address
  \<^verbatim>\<open>malloc\<close> returns.
\<close>

definition qgroup_member_add ::
  "addr \<Rightarrow> errno \<Rightarrow> string option \<Rightarrow> string option \<Rightarrow> string option \<Rightarrow> string option \<Rightarrow> av_list option \<Rightarrow>
   qgroup \<Rightarrow> (errno \<times> qgroup) option" where
  "qgroup_member_add a av_copy xprt_name host port auth_name auth_av_list qg =
     (if qg_state qg \<noteq> LDMS_QGROUP_STATE_STOPPED then Some (EBUSY, qg)
      else if a = NULL then Some (ENOMEM, qg)
      else case fill_member xprt_name host port auth_name auth_av_list av_copy of
        Inl rc \<Rightarrow> Some (rc, qg)
      | Inr m \<Rightarrow> do {
          rbn \<leftarrow> rbt_find (qg_rbt qg) (c_host m, c_port m);
          if rbn \<noteq> NULL then Some (EEXIST, qg)
          else do {
            t \<leftarrow> rbt_ins (rbn_init a (c_host m, c_port m) (qg_rbt qg)) a;
            let m = m\<lparr>m_refs := 1\<rparr>;
            let m = m\<lparr>m_refs := m_refs m + 1\<rparr>;
            Some (EOK, qg\<lparr>qg_rbt := t, qg_members := (qg_members qg)(a \<mapsto> m)\<rparr>) } })"

text \<open>Dropping a reference of a member; the last one frees it.\<close>

definition member_ref_put :: "addr \<Rightarrow> qgroup \<Rightarrow> qgroup option" where
  "member_ref_put a qg = do {
     m \<leftarrow> qg_members qg a;
     let m = m\<lparr>m_refs := m_refs m - 1\<rparr>;
     Some (qg\<lparr>qg_members := (qg_members qg)(a := if m_refs m = 0 then None else Some m)\<rparr>) }"

definition member_ref_get :: "addr \<Rightarrow> qgroup \<Rightarrow> qgroup option" where
  "member_ref_get a qg = do {
     m \<leftarrow> qg_members qg a;
     Some (qg\<lparr>qg_members := (qg_members qg)(a \<mapsto> m\<lparr>m_refs := m_refs m + 1\<rparr>)\<rparr>) }"

definition qgroup_member_del :: "string option \<Rightarrow> string option \<Rightarrow> qgroup \<Rightarrow> (errno \<times> qgroup) option" where
  "qgroup_member_del host port qg =
     (if qg_state qg \<noteq> LDMS_QGROUP_STATE_STOPPED then Some (EBUSY, qg)
      else do {
        host \<leftarrow> host;
        let host = fst (snprintf_s 256 host);
        let port = fst (snprintf_s 32 (case port of None \<Rightarrow> ''411'' | Some port \<Rightarrow> port));
        rbn \<leftarrow> rbt_find (qg_rbt qg) (host, port);
        if rbn = NULL then Some (ENOENT, qg)
        else do {
          t \<leftarrow> rbt_del (qg_rbt qg) rbn;
          let qg = qg\<lparr>qg_rbt := t\<rparr>;
          qg \<leftarrow> member_ref_put rbn qg;
          qg \<leftarrow> member_ref_put rbn qg;
          Some (EOK, qg) } })"

subsection \<open>Resetting the quota\<close>

text \<open>
  The pending quota of an endpoint is cut to an \<^verbatim>\<open>int\<close>. An endpoint whose pending quota is more than
  what is left keeps its place in the queue.
\<close>

fun qgroup_reset_loop ::
  "addr list \<Rightarrow> u64 \<Rightarrow> (addr \<Rightarrow> rail_ep option) \<Rightarrow> (addr list \<times> u64 \<times> (addr \<Rightarrow> rail_ep option)) option" where
  "qgroup_reset_loop [] q reps = Some ([], q, reps)"
| "qgroup_reset_loop (ent # next_ents) q reps = do {
     rep \<leftarrow> reps ent;
     let p = sint (ucast (pending_ret_quota rep) :: u32);
     c_assert (p > 0);
     if word_of_int p > q
     then do { (kept, q, reps) \<leftarrow> qgroup_reset_loop next_ents q reps; Some (ent # kept, q, reps) }
     else do {
       let rep = rep\<lparr>in_eps_stq := False\<rparr>;
       let rep = rail_ep_quota_return rep (word_of_int p) EOK;
       let q = q - word_of_int p;
       let rep = rep\<lparr>pending_ret_quota := pending_ret_quota rep + word_of_int (- p)\<rparr>;
       qgroup_reset_loop next_ents q (reps(ent \<mapsto> rep)) } }"

definition qgroup_reset :: "qg_proc \<Rightarrow> qg_proc option" where
  "qgroup_reset P = do {
     let q = cfg_quota (qg_cfg (p_qg P));
     (kept, q, reps) \<leftarrow> qgroup_reset_loop (qg_eps_stq (p_qg P)) q (p_reps P);
     Some (P\<lparr>p_qg := (p_qg P)\<lparr>qg_eps_stq := kept, qg_quota := q\<rparr>, p_reps := reps\<rparr>) }"

subsection \<open>Asking and donating\<close>

text \<open>\<open>None\<close> is the division by an interval of zero.\<close>

definition qgroup_usec_adj :: "qgroup \<Rightarrow> u64 \<Rightarrow> u64 option" where
  "qgroup_usec_adj qg usec =
     (let r = cfg_reset_usec (qg_cfg qg) in if r = 0 then None else Some (usec div r * r))"

text \<open>A handler returns the group and the message it sends back, if any.\<close>

definition qgroup_on_ask_event :: "int \<times> int \<Rightarrow> u64 \<Rightarrow> u64 \<Rightarrow> qgroup \<Rightarrow> (qgroup \<times> qgroup_msg option) option" where
  "qgroup_on_ask_event ts ask req_usec qg = do {
     usec_adj \<leftarrow> qgroup_usec_adj qg (clock_getusec ts);
     if req_usec \<noteq> usec_adj then Some (qg, None)
     else do {
       let q = qg_quota qg;
       if q \<le> cfg_ask_mark (qg_cfg qg) then Some (qg, None)
       else do {
         let max_donate = q - cfg_ask_mark (qg_cfg qg);
         let donate = min max_donate ask;
         let (rc, quota) = quota_acquire (qg_quota qg) donate;
         if rc \<noteq> EOK then Some (qg, None)
         else Some (qg\<lparr>qg_quota := quota\<rparr>, Some (QGROUP_DONATE donate usec_adj)) } } }"

definition qgroup_on_donate_event :: "int \<times> int \<Rightarrow> u64 \<Rightarrow> u64 \<Rightarrow> qgroup \<Rightarrow> (qgroup \<times> qgroup_msg option) option" where
  "qgroup_on_donate_event ts donate req_usec qg = do {
     usec_adj \<leftarrow> qgroup_usec_adj qg (clock_getusec ts);
     if usec_adj \<noteq> req_usec then Some (qg, None)
     else do {
       let q = qg_quota qg;
       let (qg, donate) =
         (if q \<ge> cfg_quota (qg_cfg qg) then (qg, donate)
          else let fill = cfg_quota (qg_cfg qg) - q;
                   fill = (if fill > donate then donate else fill)
               in (qg\<lparr>qg_quota := q + fill\<rparr>, donate - fill));
       Some (qg, if donate \<noteq> 0 then Some (QGROUP_DONATE_BACK donate usec_adj) else None) } }"

definition qgroup_on_donate_back_event :: "int \<times> int \<Rightarrow> u64 \<Rightarrow> u64 \<Rightarrow> qgroup \<Rightarrow> qgroup option" where
  "qgroup_on_donate_back_event ts donate req_usec qg = do {
     usec_adj \<leftarrow> qgroup_usec_adj qg (clock_getusec ts);
     if usec_adj \<noteq> req_usec then Some qg
     else Some (qg\<lparr>qg_quota := qg_quota qg + donate\<rparr>) }"

text \<open>The message of \<^verbatim>\<open>__qgroup_member_do_ask\<close>; a member without transport cannot be sent anything.\<close>

definition do_ask_msg :: "int \<times> int \<Rightarrow> qgroup \<Rightarrow> qgroup_msg option option" where
  "do_ask_msg ts qg =
     (if qg_quota qg \<ge> cfg_ask_mark (qg_cfg qg) then Some None
      else do {
        usec_adj \<leftarrow> qgroup_usec_adj qg (clock_getusec ts);
        Some (Some (QGROUP_ASK (cfg_ask_amount (qg_cfg qg)) usec_adj)) })"

definition act :: "qgroup_act \<Rightarrow> qg_proc \<Rightarrow> qg_proc" where
  "act e P = P\<lparr>p_acts := p_acts P @ [e]\<rparr>"

definition qgroup_member_do_ask :: "int \<times> int \<Rightarrow> addr \<Rightarrow> qg_proc \<Rightarrow> qg_proc option" where
  "qgroup_member_do_ask ts a P = do {
     m \<leftarrow> qg_members (p_qg P) a;
     msg \<leftarrow> do_ask_msg ts (p_qg P);
     case msg of
       None \<Rightarrow> Some P
     | Some msg \<Rightarrow> if m_x m = NULL then None else Some (act (SEND_TO_MEMBER a msg) P) }"

text \<open>
  What a message of a peer does: the handler of its type, with the answer sent to where the
  message came from.
\<close>

definition answer_msg :: "int \<times> int \<Rightarrow> qgroup_msg \<Rightarrow> qgroup \<Rightarrow> (qgroup \<times> qgroup_msg option) option" where
  "answer_msg ts msg qg = (case msg of
     QGROUP_ASK ask usec \<Rightarrow> qgroup_on_ask_event ts ask usec qg
   | QGROUP_DONATE donate usec \<Rightarrow> qgroup_on_donate_event ts donate usec qg
   | QGROUP_DONATE_BACK donate usec \<Rightarrow>
       do { qg \<leftarrow> qgroup_on_donate_back_event ts donate usec qg; Some (qg, None) })"

definition handle_msg :: "(qgroup_msg \<Rightarrow> qgroup_act) \<Rightarrow> int \<times> int \<Rightarrow> qgroup_msg \<Rightarrow> qg_proc \<Rightarrow> qg_proc option" where
  "handle_msg send ts msg P = do {
     (qg, reply) \<leftarrow> answer_msg ts msg (p_qg P);
     let P = P\<lparr>p_qg := qg\<rparr>;
     Some (case reply of None \<Rightarrow> P | Some r \<Rightarrow> act (send r) P) }"

text \<open>The messages that arrive at an endpoint of ours.\<close>

definition qgroup_req_recv :: "int \<times> int \<Rightarrow> addr \<Rightarrow> qgroup_msg \<Rightarrow> qg_proc \<Rightarrow> qg_proc option" where
  "qgroup_req_recv ts rep = handle_msg (SEND_TO_REP rep) ts"

subsection \<open>Connections to the members\<close>

datatype xprt_event =
  LDMS_XPRT_EVENT_CONNECTED | LDMS_XPRT_EVENT_REJECTED | LDMS_XPRT_EVENT_ERROR | LDMS_XPRT_EVENT_DISCONNECTED
| LDMS_XPRT_EVENT_RECV | LDMS_XPRT_EVENT_SET_DELETE | LDMS_XPRT_EVENT_SEND_COMPLETE
| LDMS_XPRT_EVENT_SEND_QUOTA_DEPOSITED | LDMS_XPRT_EVENT_QGROUP qgroup_msg | LDMS_XPRT_EVENT_LAST

definition upd_member :: "addr \<Rightarrow> (qgroup_member \<Rightarrow> qgroup_member) \<Rightarrow> qg_proc \<Rightarrow> qg_proc option" where
  "upd_member a f P = do {
     m \<leftarrow> qg_members (p_qg P) a;
     Some (P\<lparr>p_qg := (p_qg P)\<lparr>qg_members := (qg_members (p_qg P))(a \<mapsto> f m)\<rparr>\<rparr>) }"

definition on_qg :: "(qgroup \<Rightarrow> qgroup option) \<Rightarrow> qg_proc \<Rightarrow> qg_proc option" where
  "on_qg f P = do { qg \<leftarrow> f (p_qg P); Some (P\<lparr>p_qg := qg\<rparr>) }"

definition qgroup_member_xprt_cb :: "int \<times> int \<Rightarrow> addr \<Rightarrow> xprt_event \<Rightarrow> qg_proc \<Rightarrow> qg_proc option" where
  "qgroup_member_xprt_cb ts a e P = (case e of
     LDMS_XPRT_EVENT_CONNECTED \<Rightarrow> do {
       m \<leftarrow> qg_members (p_qg P) a;
       c_assert (m_state m = LDMS_QGROUP_MEMBER_STATE_CONNECTING);
       P \<leftarrow> upd_member a (\<lambda>m. m\<lparr>m_state := LDMS_QGROUP_MEMBER_STATE_CONNECTED\<rparr>) P;
       qgroup_member_do_ask ts a P }
   | LDMS_XPRT_EVENT_QGROUP msg \<Rightarrow> handle_msg (SEND_TO_MEMBER a) ts msg P
   | LDMS_XPRT_EVENT_RECV \<Rightarrow> Some P
   | LDMS_XPRT_EVENT_SET_DELETE \<Rightarrow> Some P
   | LDMS_XPRT_EVENT_SEND_COMPLETE \<Rightarrow> Some P
   | LDMS_XPRT_EVENT_SEND_QUOTA_DEPOSITED \<Rightarrow> Some P
   | LDMS_XPRT_EVENT_LAST \<Rightarrow> None
   | _ \<Rightarrow> do {
       P \<leftarrow> upd_member a (\<lambda>m. m\<lparr>m_state := LDMS_QGROUP_MEMBER_STATE_DISCONNECTED\<rparr>) P;
       on_qg (member_ref_put a) P })"

text \<open>\<open>x\<close> is the new transport or \<^verbatim>\<open>NULL\<close>, \<open>conn\<close> the outcome of \<^verbatim>\<open>ldms_xprt_connect_by_name\<close>.\<close>

definition qgroup_member_do_connect :: "addr \<times> errno \<Rightarrow> addr \<Rightarrow> qg_proc \<Rightarrow> qg_proc option" where
  "qgroup_member_do_connect env a P = do {
     m \<leftarrow> qg_members (p_qg P) a;
     let (x, conn) = env;
     let P = (if m_x m \<noteq> NULL then act (XPRT_PUT (m_x m)) P else P);
     P \<leftarrow> upd_member a (\<lambda>m. m\<lparr>m_x := x\<rparr>) P;
     if x = NULL then Some P
     else do {
       P \<leftarrow> on_qg (member_ref_get a) P;
       P \<leftarrow> upd_member a (\<lambda>m. m\<lparr>m_state := LDMS_QGROUP_MEMBER_STATE_CONNECTING\<rparr>) P;
       P \<leftarrow> (if conn \<noteq> EOK
            then upd_member a (\<lambda>m. m\<lparr>m_x := NULL, m_state := LDMS_QGROUP_MEMBER_STATE_DISCONNECTED\<rparr>) (act (XPRT_PUT x) P)
            else on_qg (member_ref_get a) P);
       on_qg (member_ref_put a) P } }"

definition qgroup_member_routine :: "int \<times> int \<Rightarrow> (addr \<Rightarrow> addr \<times> errno) \<Rightarrow> addr \<Rightarrow> qg_proc \<Rightarrow> qg_proc option" where
  "qgroup_member_routine ts env a P = do {
     m \<leftarrow> qg_members (p_qg P) a;
     case m_state m of
       LDMS_QGROUP_MEMBER_STATE_DISCONNECTED \<Rightarrow> qgroup_member_do_connect (env a) a P
     | LDMS_QGROUP_MEMBER_STATE_CONNECTING \<Rightarrow> Some P
     | LDMS_QGROUP_MEMBER_STATE_CONNECTED \<Rightarrow> qgroup_member_do_ask ts a P }"

definition set_state :: "qgroup_state \<Rightarrow> qg_proc \<Rightarrow> qg_proc" where
  "set_state st P = P\<lparr>p_qg := (p_qg P)\<lparr>qg_state := st\<rparr>\<rparr>"

definition qgroup_ask_routine :: "int \<times> int \<Rightarrow> (addr \<Rightarrow> addr \<times> errno) \<Rightarrow> qg_proc \<Rightarrow> qg_proc option" where
  "qgroup_ask_routine ts env P = (case qg_state (p_qg P) of
     LDMS_QGROUP_STATE_STARTED \<Rightarrow> do {
       let P = set_state LDMS_QGROUP_STATE_BUSY P;
       P \<leftarrow> RBT_FOREACH (qg_rbt (p_qg P)) (qgroup_member_routine ts env) P;
       c_assert (qg_state (p_qg P) = LDMS_QGROUP_STATE_BUSY);
       Some (set_state LDMS_QGROUP_STATE_STARTED P) }
   | LDMS_QGROUP_STATE_BUSY \<Rightarrow> None
   | _ \<Rightarrow> Some P)"

definition qgroup_reset_routine :: "qg_proc \<Rightarrow> qg_proc option" where
  "qgroup_reset_routine P = qgroup_reset P"

subsection \<open>Starting and stopping\<close>

text \<open>
  What the calls of \<^verbatim>\<open>__qgroup_start\<close> depend on: the system calls of \<^verbatim>\<open>ovis_scheduler_new\<close>
  and \<^verbatim>\<open>errno\<close> after it, the result of \<^verbatim>\<open>pthread_create\<close>, the clock and the pipe of the
  scheduler, and the addresses of the group and the two callbacks.
\<close>

record start_env =
  se_new :: new_env
  se_junk :: "addr list"
  se_ovis_ev :: addr
  se_pipe_cb :: addr
  se_pfd :: int
  se_errno :: errno
  se_thread_rc :: errno
  se_clk :: "nat \<Rightarrow> timeval"
  se_wr :: errno
  se_self :: addr
  se_ask_fn :: addr
  se_reset_fn :: addr

text \<open>
  When the thread cannot be created the code frees the scheduler and goes on to name a thread
  that is 0, which \<^verbatim>\<open>pthread_setname_np\<close> dereferences.
\<close>

definition qgroup_once :: "start_env \<Rightarrow> qg_proc \<Rightarrow> (errno \<times> qg_proc) option" where
  "qgroup_once env P =
     (if p_thread P then Some (EOK, P)
      else do {
        mo \<leftarrow> ovis_scheduler_new (se_new env) (se_junk env) (se_ovis_ev env) (se_pipe_cb env) (se_pfd env);
        let P = P\<lparr>p_sched := mo\<rparr>;
        if mo = None then Some (se_errno env, P)
        else if se_thread_rc env \<noteq> EOK then None
        else Some (EOK, P\<lparr>p_thread := True\<rparr>) })"

definition periodic_oev :: "addr \<Rightarrow> u64 \<Rightarrow> addr \<Rightarrow> addr \<Rightarrow> ovis_scheduler \<Rightarrow> ovis_scheduler" where
  "periodic_oev ev usec fn ctxt m =
     (let e = (case sc_evs m ev of None \<Rightarrow> blank_event | Some e \<Rightarrow> e);
          e = e\<lparr>ev_fd := -1, ev_idx := -1\<rparr>;
          e = e\<lparr>ev_type := OVIS_EVENT_PERIODIC, ev_periodic := \<lparr>period_us = usec, phase_us = 0\<rparr>,
                ev_cb_fn := fn, ev_ctxt := ctxt\<rparr>
      in m\<lparr>sc_evs := (sc_evs m)(ev \<mapsto> e)\<rparr>)"

definition cfg_sane :: "qgroup_cfg \<Rightarrow> bool" where
  "cfg_sane cfg \<longleftrightarrow> cfg_reset_usec cfg \<noteq> 0 \<and> cfg_ask_usec cfg \<noteq> 0 \<and> cfg_ask_amount cfg \<noteq> 0 \<and>
     cfg_ask_mark cfg \<noteq> 0 \<and> cfg_quota cfg \<noteq> 0"

definition qgroup_start :: "start_env \<Rightarrow> qg_proc \<Rightarrow> (errno \<times> qg_proc) option" where
  "qgroup_start env P =
     (if qg_state (p_qg P) \<noteq> LDMS_QGROUP_STATE_STOPPED then Some (EBUSY, P)
      else do {
        (rc, P) \<leftarrow> qgroup_once env P;
        if rc \<noteq> EOK then Some (rc, P)
        else if \<not> cfg_sane (qg_cfg (p_qg P)) then Some (EINVAL, P)
        else do {
          P \<leftarrow> qgroup_reset P;
          m \<leftarrow> p_sched P;
          let qg = p_qg P;
          let m = periodic_oev (qg_ask_oev qg) (cfg_ask_usec (qg_cfg qg)) (se_ask_fn env) (se_self env) m;
          let m = periodic_oev (qg_reset_oev qg) (cfg_reset_usec (qg_cfg qg)) (se_reset_fn env) (se_self env) m;
          (rc, m) \<leftarrow> ovis_scheduler_event_add True (se_clk env) (se_wr env) (qg_ask_oev qg) m;
          if rc \<noteq> EOK then Some (rc, P\<lparr>p_sched := Some m\<rparr>)
          else do {
            (rc, m) \<leftarrow> ovis_scheduler_event_add True (se_clk env) (se_wr env) (qg_reset_oev qg) m;
            if rc \<noteq> EOK then do {
              (_, m) \<leftarrow> ovis_scheduler_event_del True (se_wr env) (qg_ask_oev qg) m;
              Some (rc, P\<lparr>p_sched := Some m\<rparr>) }
            else Some (EOK, set_state LDMS_QGROUP_STATE_STARTED (P\<lparr>p_sched := Some m\<rparr>)) } } })"

definition qgroup_member_disconnect :: "addr \<Rightarrow> qg_proc \<Rightarrow> qg_proc option" where
  "qgroup_member_disconnect a P = do {
     m \<leftarrow> qg_members (p_qg P) a;
     case m_state m of
       LDMS_QGROUP_MEMBER_STATE_DISCONNECTED \<Rightarrow> Some P
     | _ \<Rightarrow> Some (act (XPRT_CLOSE (m_x m)) P) }"

text \<open>\<open>None\<close> is a wait without end.\<close>

definition qgroup_member_join_disconnected :: "addr \<Rightarrow> qg_proc \<Rightarrow> qg_proc option" where
  "qgroup_member_join_disconnected a P = do {
     m \<leftarrow> qg_members (p_qg P) a;
     if m_state m = LDMS_QGROUP_MEMBER_STATE_DISCONNECTED then Some P else None }"

text \<open>
  \<open>evs\<close> are the events of the member transports that arrive between the closing and the
  joining. The group is \<^verbatim>\<open>BUSY\<close> only while the ask routine runs, which is one step here.
\<close>

definition qgroup_stop :: "errno \<Rightarrow> ((int \<times> int) \<times> addr \<times> xprt_event) list \<Rightarrow> qg_proc \<Rightarrow> (errno \<times> qg_proc) option" where
  "qgroup_stop pipe_wr evs P = (case qg_state (p_qg P) of
     LDMS_QGROUP_STATE_BUSY \<Rightarrow> None
   | LDMS_QGROUP_STATE_STARTED \<Rightarrow> do {
       let P = set_state LDMS_QGROUP_STATE_STOPPING P;
       m \<leftarrow> p_sched P;
       (_, m) \<leftarrow> ovis_scheduler_event_del True pipe_wr (qg_reset_oev (p_qg P)) m;
       (_, m) \<leftarrow> ovis_scheduler_event_del True pipe_wr (qg_ask_oev (p_qg P)) m;
       let P = P\<lparr>p_sched := Some m\<rparr>;
       P \<leftarrow> RBT_FOREACH (qg_rbt (p_qg P)) qgroup_member_disconnect P;
       P \<leftarrow> fold_opt (\<lambda>(ts, a, e). qgroup_member_xprt_cb ts a e) evs P;
       P \<leftarrow> RBT_FOREACH (qg_rbt (p_qg P)) qgroup_member_join_disconnected P;
       Some (EOK, set_state LDMS_QGROUP_STATE_STOPPED P) }
   | _ \<Rightarrow> Some (EINVAL, P))"

subsection \<open>Taking quota\<close>

definition qgroup_quota_acquire :: "u64 \<Rightarrow> qgroup \<Rightarrow> errno \<times> qgroup" where
  "qgroup_quota_acquire q qg =
     (if qg_state qg = LDMS_QGROUP_STATE_STOPPED then (EOK, qg)
      else let (rc, quota) = quota_acquire (qg_quota qg) q in (rc, qg\<lparr>qg_quota := quota\<rparr>))"

definition qgroup_quota_release :: "u64 \<Rightarrow> qgroup \<Rightarrow> int \<times> qgroup" where
  "qgroup_quota_release q qg =
     (let (v, quota) = quota_release (qg_quota qg) q in (sint (ucast v :: u32), qg\<lparr>qg_quota := quota\<rparr>))"

definition ldms_qgroup_quota_probe :: "qgroup \<Rightarrow> u64" where
  "ldms_qgroup_quota_probe qg = qg_quota qg"

definition qgroup_add_rep :: "errno \<Rightarrow> addr \<Rightarrow> qgroup \<Rightarrow> errno \<times> qgroup" where
  "qgroup_add_rep malloc rep qg =
     (if malloc \<noteq> EOK then (malloc, qg) else (EOK, qg\<lparr>qg_eps_stq := qg_eps_stq qg @ [rep]\<rparr>))"

text \<open>
  The end of a message of \<open>q\<close> bytes that came in through the endpoint \<open>rep\<close>
  (\<^verbatim>\<open>__msg_buf_s_ref_free\<close> of \<^verbatim>\<open>ldms_msg.c\<close>): its quota goes back to the peer now, or when the group
  has enough.
\<close>

definition msg_buf_s_ref_free :: "errno \<Rightarrow> addr \<Rightarrow> u64 \<Rightarrow> qg_proc \<Rightarrow> qg_proc option" where
  "msg_buf_s_ref_free malloc rep q P = do {
     r \<leftarrow> p_reps P rep;
     let (rc, qg) = qgroup_quota_acquire q (p_qg P);
     if rc = EOK then Some (P\<lparr>p_qg := qg, p_reps := (p_reps P)(rep \<mapsto> rail_ep_quota_return r (ucast q) EOK)\<rparr>)
     else do {
       let r = r\<lparr>pending_ret_quota := pending_ret_quota r + q\<rparr>;
       if in_eps_stq r then Some (P\<lparr>p_qg := qg, p_reps := (p_reps P)(rep \<mapsto> r)\<rparr>)
       else do {
         let (rc, qg) = qgroup_add_rep malloc rep qg;
         Some (P\<lparr>p_qg := qg, p_reps := (p_reps P)(rep \<mapsto> r\<lparr>in_eps_stq := (rc = EOK)\<rparr>)\<rparr>) } } }"

subsection \<open>Information\<close>

record qgroup_info =
  qi_state :: qgroup_state
  qi_cfg :: qgroup_cfg
  qi_quota :: u64
  qi_members :: "qgroup_member list"

text \<open>
  The information on a member has its configuration and state. \<open>alloc a\<close> is whether the
  allocations for member \<open>a\<close> succeed; the result is \<^verbatim>\<open>NULL\<close> when one fails.
\<close>

definition info_step :: "(addr \<Rightarrow> bool) \<Rightarrow> qgroup \<Rightarrow> addr \<Rightarrow> qgroup_info option \<Rightarrow> qgroup_info option option" where
  "info_step alloc qg a qi = (case qi of
     None \<Rightarrow> Some None
   | Some i \<Rightarrow> do {
       m \<leftarrow> qg_members qg a;
       Some (if alloc a then Some (i\<lparr>qi_members := qi_members i @ [m\<lparr>m_x := NULL, m_refs := 0\<rparr>]\<rparr>) else None) })"

definition qgroup_info_get :: "bool \<Rightarrow> (addr \<Rightarrow> bool) \<Rightarrow> qgroup \<Rightarrow> qgroup_info option option" where
  "qgroup_info_get qinfo_ok alloc qg =
     (if \<not> qinfo_ok then Some None
      else RBT_FOREACH (qg_rbt qg) (info_step alloc qg)
        (Some \<lparr>qi_state = qg_state qg, qi_cfg = qg_cfg qg, qi_quota = qg_quota qg, qi_members = []\<rparr>))"

definition ldms_qgroup_state_str :: "int \<Rightarrow> string" where
  "ldms_qgroup_state_str state =
     (if 0 \<le> state \<and> state < 4 then [''STOPPED'', ''STOPPING'', ''STARTED'', ''BUSY''] ! nat state
      else ''__UNKNOWN_STATE__'')"

definition ldms_qgroup_member_state_str :: "int \<Rightarrow> string" where
  "ldms_qgroup_member_state_str state =
     (if 0 \<le> state \<and> state < 3 then [''DISCONNECTED'', ''CONNECTING'', ''CONNECTED''] ! nat state
      else ''__UNKNOWN_STATE__'')"

end
