(* ===== verification/QGroupSpec.thy ===== *)
theory QGroupSpec
  imports QGroup "HOL-Library.Multiset"
begin

section \<open>Quota groups: properties\<close>

text \<open>
  Conservation of quota over a network of groups, the accounting of a reset, the table of
  members as a map, the state machine of a group and what a message does to a group that
  has no configuration.
\<close>

subsection \<open>Conservation\<close>

fun donation :: "qgroup_msg \<Rightarrow> nat" where
  "donation (QGROUP_ASK q w) = 0"
| "donation (QGROUP_DONATE q w) = unat q"
| "donation (QGROUP_DONATE_BACK q w) = unat q"

fun window :: "qgroup_msg \<Rightarrow> u64" where
  "window (QGROUP_ASK q w) = w"
| "window (QGROUP_DONATE q w) = w"
| "window (QGROUP_DONATE_BACK q w) = w"

definition reply_donation :: "qgroup_msg option \<Rightarrow> nat" where
  "reply_donation r = (case r of None \<Rightarrow> 0 | Some msg \<Rightarrow> donation msg)"

definition limit :: nat where
  "limit = 2 ^ 64 - 1"

lemma below_limit: "unat (v :: u64) < limit \<Longrightarrow> v \<noteq> LDMS_UNLIMITED"
  by (auto simp: LDMS_UNLIMITED_def limit_def unsigned_minus_1_eq_mask mask_eq_exp_minus_1)

lemma acquire_limited:
  "unat q < limit \<Longrightarrow> quota_acquire q n = (if q < n then (ENOBUFS, q) else (EOK, q - n))"
  using below_limit by (simp add: quota_acquire_def quota_acquire_shared_def)

lemma ask_conserves:
  assumes "qgroup_on_ask_event ts ask w qg = Some (qg', reply)" and "unat (qg_quota qg) < limit"
  shows "unat (qg_quota qg') + reply_donation reply = unat (qg_quota qg)"
proof -
  let ?q = "qg_quota qg" and ?d = "min (qg_quota qg - cfg_ask_mark (qg_cfg qg)) ask"
  have "?d \<le> ?q" if "\<not> ?q \<le> cfg_ask_mark (qg_cfg qg)"
    using that by (meson min.coboundedI1 not_le word_sub_le less_imp_le)
  moreover have "unat (?q - ?d) + unat ?d = unat ?q" if "?d \<le> ?q"
    using that unat_difference [OF that] by (simp add: word_le_nat_alt)
  ultimately show ?thesis using assms
    by (auto simp: qgroup_on_ask_event_def acquire_limited reply_donation_def Let_def
        split: if_splits bind_splits)
qed

lemma donate_conserves:
  assumes "qgroup_on_donate_event ts donate w qg = Some (qg', reply)"
    and "qgroup_usec_adj qg (clock_getusec ts) = Some w" and "unat (qg_quota qg) + unat donate < limit"
  shows "unat (qg_quota qg') + reply_donation reply = unat (qg_quota qg) + unat donate"
proof (cases "qg_quota qg \<ge> cfg_quota (qg_cfg qg)")
  case True
  then show ?thesis using assms by (auto simp: qgroup_on_donate_event_def reply_donation_def Let_def)
next
  case False
  define fill where "fill = (if cfg_quota (qg_cfg qg) - qg_quota qg > donate then donate else cfg_quota (qg_cfg qg) - qg_quota qg)"
  have "fill \<le> donate" by (auto simp: fill_def not_less)
  then have "unat (donate - fill) = unat donate - unat fill" "unat fill \<le> unat donate"
    by (auto simp: unat_difference word_le_nat_alt)
  moreover have "unat (qg_quota qg + fill) = unat (qg_quota qg) + unat fill"
    using assms(3) calculation(2) by (intro unat_sum) (simp add: limit_def)
  moreover have "(qg', reply) = (qg\<lparr>qg_quota := qg_quota qg + fill\<rparr>,
      if donate - fill \<noteq> 0 then Some (QGROUP_DONATE_BACK (donate - fill) w) else None)"
    using assms(1,2) False unfolding fill_def by (simp add: qgroup_on_donate_event_def Let_def split: if_splits)
  ultimately show ?thesis by (auto simp: reply_donation_def unat_eq_zero split: if_splits)
qed

lemma answer_conserves:
  assumes "answer_msg ts msg qg = Some (qg', reply)"
    and "qgroup_usec_adj qg (clock_getusec ts) = Some (window msg)" and "unat (qg_quota qg) + donation msg < limit"
  shows "unat (qg_quota qg') + reply_donation reply = unat (qg_quota qg) + donation msg"
proof (cases msg)
  case (QGROUP_ASK q w)
  then show ?thesis using assms ask_conserves [of ts q w] by (simp add: answer_msg_def)
next
  case (QGROUP_DONATE q w)
  then show ?thesis using assms donate_conserves [of ts q w] by (simp add: answer_msg_def)
next
  case (QGROUP_DONATE_BACK q w)
  then show ?thesis using assms unat_sum [of "qg_quota qg" q]
    by (auto simp: answer_msg_def qgroup_on_donate_back_event_def reply_donation_def limit_def)
qed

lemma answer_stale:
  assumes "answer_msg ts msg qg = Some (qg', reply)" and "qgroup_usec_adj qg (clock_getusec ts) \<noteq> Some (window msg)"
  shows "qg' = qg \<and> reply = None"
  using assms by (cases msg) (auto simp: answer_msg_def qgroup_on_ask_event_def qgroup_on_donate_event_def
      qgroup_on_donate_back_event_def split: bind_splits if_splits)

lemma answer_state:
  assumes "answer_msg ts msg qg = Some (qg', reply)"
  shows "qg_state qg' = qg_state qg \<and> qg_cfg qg' = qg_cfg qg"
  using assms by (cases msg) (auto simp: answer_msg_def qgroup_on_ask_event_def qgroup_on_donate_event_def
      qgroup_on_donate_back_event_def Let_def split: bind_splits if_splits prod.splits)

text \<open>
  Groups \<open>0, \<dots>, n - 1\<close> and the messages between them (from, to, message), which may be delivered in any
  order, at any reading of the clock of the receiver, or get lost. \<open>used\<close> is the quota that went
  back to peers, \<open>lost\<close> the donations that were lost or came after their window.
\<close>

type_synonym flight = "(nat \<times> nat \<times> qgroup_msg) multiset"

definition reply_flight :: "nat \<Rightarrow> nat \<Rightarrow> qgroup_msg option \<Rightarrow> flight" where
  "reply_flight i j r = (case r of None \<Rightarrow> {#} | Some msg \<Rightarrow> {#(i, j, msg)#})"

inductive net_history :: "nat \<Rightarrow> (nat \<Rightarrow> qgroup) \<Rightarrow> (nat \<Rightarrow> qgroup) \<Rightarrow> flight \<Rightarrow> nat \<Rightarrow> nat \<Rightarrow> bool" for n N0 where
  start: "net_history n N0 N0 {#} 0 0"
| use: "net_history n N0 N F u l \<Longrightarrow> i < n \<Longrightarrow> qgroup_quota_acquire q (N i) = (rc, qg) \<Longrightarrow>
    net_history n N0 (N(i := qg)) F (if rc = EOK then u + unat q else u) l"
| ask: "net_history n N0 N F u l \<Longrightarrow> i < n \<Longrightarrow> j < n \<Longrightarrow> do_ask_msg ts (N i) = Some (Some msg) \<Longrightarrow>
    net_history n N0 N (F + {#(i, j, msg)#}) u l"
| recv: "net_history n N0 N F u l \<Longrightarrow> (i, j, msg) \<in># F \<Longrightarrow> answer_msg ts msg (N j) = Some (qg, reply) \<Longrightarrow>
    net_history n N0 (N(j := qg)) (F - {#(i, j, msg)#} + reply_flight j i reply) u
      (if qgroup_usec_adj (N j) (clock_getusec ts) = Some (window msg) then l else l + donation msg)"
| lose: "net_history n N0 N F u l \<Longrightarrow> (i, j, msg) \<in># F \<Longrightarrow>
    net_history n N0 N (F - {#(i, j, msg)#}) u (l + donation msg)"

definition held :: "nat \<Rightarrow> (nat \<Rightarrow> qgroup) \<Rightarrow> nat" where
  "held n N = (\<Sum>i<n. unat (qg_quota (N i)))"

definition in_flight :: "flight \<Rightarrow> nat" where
  "in_flight F = (\<Sum>(i, j, msg) \<in># F. donation msg)"

lemma in_flight_simps [simp]:
  "in_flight {#} = 0" "in_flight (F + G) = in_flight F + in_flight G"
  "in_flight {#(i, j, msg)#} = donation msg" "in_flight (reply_flight i j r) = reply_donation r"
  by (simp_all add: in_flight_def reply_flight_def reply_donation_def split: option.splits)

lemma in_flight_add [simp]: "in_flight (add_mset (i, j, msg) F) = donation msg + in_flight F"
  by (simp add: in_flight_def)

lemma in_flight_take: "(i, j, msg) \<in># F \<Longrightarrow> in_flight F = donation msg + in_flight (F - {#(i, j, msg)#})"
  by (metis in_flight_add insert_DiffM)

lemma held_upd: "i < n \<Longrightarrow> held n (N(i := qg)) + unat (qg_quota (N i)) = held n N + unat (qg_quota qg)"
proof -
  assume i: "i < n"
  have "held n M = unat (qg_quota (M i)) + (\<Sum>j\<in>{..<n} - {i}. unat (qg_quota (M j)))" for M
    unfolding held_def using i by (intro sum.remove) auto
  then show ?thesis by simp
qed

lemma held_2: "held 2 N = unat (qg_quota (N 0)) + unat (qg_quota (N 1))"
  by (simp add: held_def numeral_2_eq_2)

lemma held_ge: "i < n \<Longrightarrow> unat (qg_quota (N i)) \<le> held n N"
  unfolding held_def by (intro member_le_sum) auto

definition conserved :: "nat \<Rightarrow> (nat \<Rightarrow> qgroup) \<Rightarrow> (nat \<Rightarrow> qgroup) \<Rightarrow> flight \<Rightarrow> nat \<Rightarrow> nat \<Rightarrow> bool" where
  "conserved n N0 N F u l \<longleftrightarrow> held n N + in_flight F + u + l = held n N0 \<and>
     (\<forall>i<n. qg_state (N i) \<noteq> LDMS_QGROUP_STATE_STOPPED) \<and> (\<forall>(i, j, msg) \<in># F. i < n \<and> j < n)"

lemma conserved_history:
  assumes "net_history n N0 N F u l" and "held n N0 < limit" and "\<forall>i<n. qg_state (N0 i) \<noteq> LDMS_QGROUP_STATE_STOPPED"
  shows "conserved n N0 N F u l"
  using assms
proof (induction rule: net_history.induct)
  case start
  then show ?case by (simp add: conserved_def)
next
  case (use N F u l i q rc qg)
  then have c: "conserved n N0 N F u l" by simp
  have "unat (qg_quota (N i)) < limit" using held_ge [OF use.hyps(2), of N] c use.prems by (simp add: conserved_def)
  moreover have "qg_state (N i) \<noteq> LDMS_QGROUP_STATE_STOPPED" using c use.hyps(2) by (simp add: conserved_def)
  ultimately have "qg_state qg \<noteq> LDMS_QGROUP_STATE_STOPPED \<and>
      unat (qg_quota qg) + (if rc = EOK then unat q else 0) = unat (qg_quota (N i))"
    using use.hyps(3) unat_difference [of q "qg_quota (N i)"]
    by (auto simp: qgroup_quota_acquire_def acquire_limited word_le_nat_alt word_less_nat_alt split: if_splits)
  then show ?case using c held_upd [OF use.hyps(2), of N qg] unfolding conserved_def by (simp split: if_splits)
next
  case (ask N F u l i j ts msg)
  then have "donation msg = 0" by (auto simp: do_ask_msg_def split: if_splits bind_splits)
  then show ?case using ask by (auto simp: conserved_def)
next
  case (recv N F u l i j msg ts qg reply)
  then have c: "conserved n N0 N F u l" by simp
  have ij: "i < n" "j < n" using c recv.hyps(2) by (auto simp: conserved_def)
  note take = in_flight_take [OF recv.hyps(2)]
  have "unat (qg_quota (N j)) + donation msg < limit"
    using held_ge [OF ij(2), of N] c recv.prems take by (simp add: conserved_def)
  then have "unat (qg_quota qg) + reply_donation reply +
      (if qgroup_usec_adj (N j) (clock_getusec ts) = Some (window msg) then 0 else donation msg) =
      unat (qg_quota (N j)) + donation msg"
    using answer_conserves [OF recv.hyps(3)] answer_stale [OF recv.hyps(3)] by (auto simp: reply_donation_def)
  then have "held n (N(j := qg)) + in_flight (F - {#(i, j, msg)#} + reply_flight j i reply) + u +
      (if qgroup_usec_adj (N j) (clock_getusec ts) = Some (window msg) then l else l + donation msg) = held n N0"
    using c ij take held_upd [OF ij(2), of N qg] by (simp add: conserved_def split: if_splits)
  moreover have "\<forall>(i, j, msg) \<in># F - {#(i, j, msg)#} + reply_flight j i reply. i < n \<and> j < n"
    using c ij by (auto simp: conserved_def reply_flight_def dest: in_diffD split: option.splits)
  ultimately show ?case using c ij answer_state [OF recv.hyps(3)] unfolding conserved_def by simp
next
  case (lose N F u l i j msg)
  then show ?case using in_flight_take [OF lose.hyps(2)] by (auto simp: conserved_def dest: in_diffD)
qed

definition example_group :: "u64 \<Rightarrow> u64 \<Rightarrow> qgroup" where
  "example_group q mark = \<lparr>qg_refs = 1, qg_quota = q, qg_state = LDMS_QGROUP_STATE_STARTED,
     qg_cfg = \<lparr>cfg_quota = 100, cfg_ask_mark = mark, cfg_ask_amount = 50, cfg_ask_usec = 100000, cfg_reset_usec = 1000000\<rparr>,
     qg_rbt = rbt_init qgroup_rbt_cmp rbt_blank, qg_members = Map.empty, qg_ask_oev = 8, qg_reset_oev = 16, qg_eps_stq = []\<rparr>"

text \<open>
  C25. Quota is conserved. Whatever the groups of a network do within a window, in any order of
  messages, clocks and losses: what they hold, what is on the way, what went back to peers
  and what was lost is together what they held at the start. So no more data goes
  through the group than the sum of the quotas, the \<^verbatim>\<open>N * quota\<close> of \<^verbatim>\<open>ldms.h\<close>.
\<close>

theorem qgroup_conservation:
  assumes "net_history n N0 N F u l" and "held n N0 < limit" and "\<forall>i<n. qg_state (N0 i) \<noteq> LDMS_QGROUP_STATE_STOPPED"
  shows "held n N + in_flight F + u + l = held n N0 \<and> u \<le> held n N0"
  using conserved_history [OF assms] by (auto simp: conserved_def)

theorem qgroup_conservation_witness:
  "\<exists>N. qg_quota (N 0) = 70 \<and> qg_quota (N 1) = 30 \<and> net_history 2 (\<lambda>i. example_group (if i = 0 then 20 else 80) 30) N {#} 0 0 \<and>
     held 2 N + in_flight {#} + 0 + 0 = held 2 (\<lambda>i. example_group (if i = 0 then 20 else 80) 30)"
proof -
  let ?N = "\<lambda>i :: nat. example_group (if i = 0 then 20 else 80) 30" and ?ts = "(5, 0)"
  have adj: "qgroup_usec_adj (example_group q 30) (clock_getusec ?ts) = Some 5000000" for q
    by (simp add: qgroup_usec_adj_def example_group_def clock_getusec_def)
  have ask: "do_ask_msg ?ts (example_group 20 30) = Some (Some (QGROUP_ASK 50 5000000))"
    using adj [of 20] by (simp add: do_ask_msg_def) (simp add: example_group_def)
  have donate: "answer_msg ?ts (QGROUP_ASK 50 5000000) (example_group 80 30) = Some (example_group 30 30, Some (QGROUP_DONATE 50 5000000))"
    using adj [of 80] acquire_limited [of 80 50]
    by (simp add: answer_msg_def qgroup_on_ask_event_def Let_def limit_def) (simp add: example_group_def)
  have fill: "answer_msg ?ts (QGROUP_DONATE 50 5000000) (example_group 20 30) = Some (example_group 70 30, None)"
    using adj [of 20] by (simp add: answer_msg_def qgroup_on_donate_event_def Let_def) (simp add: example_group_def)
  have "net_history 2 ?N ?N ({#} + {#(0, 1, QGROUP_ASK 50 5000000)#}) 0 0"
    by (rule net_history.ask [OF net_history.start]) (use ask in simp_all)
  from net_history.recv [OF this, of 0 1 "QGROUP_ASK 50 5000000" ?ts] donate adj [of 80]
  have "net_history 2 ?N (?N(1 := example_group 30 30)) {#(1, 0, QGROUP_DONATE 50 5000000)#} 0 0"
    by (simp add: reply_flight_def)
  from net_history.recv [OF this, of 1 0 "QGROUP_DONATE 50 5000000" ?ts] fill adj [of 20]
  have "net_history 2 ?N (?N(1 := example_group 30 30, 0 := example_group 70 30)) {#} 0 0" (is "net_history _ _ ?M _ _ _")
    by (simp add: reply_flight_def)
  moreover from qgroup_conservation [OF this] have "held 2 ?M + in_flight {#} + 0 + 0 = held 2 ?N"
    by (simp add: held_2) (simp add: limit_def example_group_def)
  ultimately show ?thesis by (intro exI [of _ ?M]) (simp add: example_group_def)
qed

end
