(* ===== verification/QGroupMembers.thy ===== *)
theory QGroupMembers
  imports QGroupSpec
begin

section \<open>Quota groups: resets and members\<close>

text \<open>
  The accounting of a reset, and the tree of members as a map from host and port to the transport
  and authentication of a member.
\<close>

subsection \<open>Reset\<close>

definition pending_of :: "(addr \<Rightarrow> rail_ep option) \<Rightarrow> addr \<Rightarrow> nat" where
  "pending_of reps a = (case reps a of None \<Rightarrow> 0 | Some rep \<Rightarrow> unat (pending_ret_quota rep))"

definition queue_ok :: "(addr \<Rightarrow> rail_ep option) \<Rightarrow> addr list \<Rightarrow> bool" where
  "queue_ok reps qs \<longleftrightarrow> distinct qs \<and> (\<forall>a \<in> set qs. 0 < pending_of reps a \<and> pending_of reps a < 2 ^ 31)"

text \<open>The endpoints that are served: in the order of the queue, each that fits into what is left.\<close>

fun served :: "(addr \<Rightarrow> nat) \<Rightarrow> addr list \<Rightarrow> nat \<Rightarrow> addr list" where
  "served p [] q = []"
| "served p (a # qs) q = (if p a > q then served p qs q else a # served p qs (q - p a))"

definition returned :: "rail_ep \<Rightarrow> rail_ep" where
  "returned rep = rep\<lparr>in_eps_stq := False,
     quota_returned := quota_returned rep @ [(ucast (pending_ret_quota rep), EOK)], pending_ret_quota := 0\<rparr>"

lemma served_subset: "set (served p qs q) \<subseteq> set qs"
  by (induction p qs q rule: served.induct) auto

lemma served_bound: "a \<in> set (served p qs q) \<Longrightarrow> p a \<le> q"
  by (induction p qs q rule: served.induct) (fastforce split: if_splits)+

lemma served_cong: "(\<And>a. a \<in> set qs \<Longrightarrow> p a = p' a) \<Longrightarrow> served p qs q = served p' qs q"
  by (induction p qs q rule: served.induct) auto

lemma pending_int:
  assumes "unat (w :: u64) < 2 ^ 31"
  shows "sint (ucast w :: u32) = int (unat w)"
proof -
  have "sint (word_of_int (int (unat w)) :: u32) = int (unat w)" unfolding sint_sbintrunc'
    using assms by (intro signed_take_bit_int_eq_self) (simp_all del: of_nat_unat)
  then show ?thesis by simp
qed

lemma reset_loop_step:
  assumes rep: "reps a = Some rep" and p: "0 < unat (pending_ret_quota rep)" "unat (pending_ret_quota rep) < 2 ^ 31"
  shows "qgroup_reset_loop (a # qs) q reps =
    (if q < pending_ret_quota rep
     then do { (kept, q, reps) \<leftarrow> qgroup_reset_loop qs q reps; Some (a # kept, q, reps) }
     else qgroup_reset_loop qs (q - pending_ret_quota rep) (reps(a \<mapsto> returned rep)))"
proof -
  let ?w = "pending_ret_quota rep"
  have words: "word_of_int (int (unat ?w)) = ?w" "word_of_int (int (unat ?w)) = (ucast ?w :: u32)"
    "word_of_int (- int (unat ?w)) = - ?w" by simp_all
  show ?thesis unfolding qgroup_reset_loop.simps rep pending_int [OF p(2)] Let_def words Option.bind.simps
    using p(1) by (simp add: returned_def rail_ep_quota_return_def del: of_nat_unat)
qed

lemma reset_loop:
  assumes "queue_ok reps qs"
  shows "\<exists>q'. qgroup_reset_loop qs q reps = Some (filter (\<lambda>a. a \<notin> set (served (pending_of reps) qs (unat q))) qs, q',
      \<lambda>a. if a \<in> set (served (pending_of reps) qs (unat q)) then map_option returned (reps a) else reps a) \<and>
    unat q' + sum_list (map (pending_of reps) (served (pending_of reps) qs (unat q))) = unat q \<and>
    (\<forall>a \<in> set qs - set (served (pending_of reps) qs (unat q)). unat q' < pending_of reps a)"
  using assms
proof (induction qs arbitrary: q reps)
  case (Cons a qs)
  let ?p = "pending_of reps"
  have a: "a \<notin> set qs" "0 < ?p a" "?p a < 2 ^ 31" and qs: "queue_ok reps qs" using Cons.prems by (auto simp: queue_ok_def)
  then obtain rep where rep: "reps a = Some rep" "?p a = unat (pending_ret_quota rep)"
    by (auto simp: pending_of_def split: option.splits)
  note step = reset_loop_step [of reps a rep qs q, OF rep(1), folded rep(2), OF a(2,3)]
  show ?case
  proof (cases "?p a > unat q")
    case True
    then have "pending_ret_quota rep > q" by (simp add: rep(2) word_less_nat_alt)
    moreover have "a \<notin> set (served ?p qs (unat q))" using served_subset [of ?p qs "unat q"] a(1) by auto
    ultimately show ?thesis using Cons.IH [OF qs, of q] True step by auto
  next
    case False
    let ?reps = "reps(a \<mapsto> returned rep)" and ?q = "q - pending_ret_quota rep"
    let ?S = "served ?p qs (unat q - ?p a)"
    have le: "pending_ret_quota rep \<le> q" using False by (simp add: rep(2) word_le_nat_alt)
    then have uq: "unat ?q = unat q - ?p a" by (simp add: unat_difference rep(2))
    have p: "pending_of ?reps b = ?p b" if "b \<in> set qs" for b using that a(1) by (auto simp: pending_of_def)
    then have S: "served (pending_of ?reps) qs (unat ?q) = ?S" using uq served_cong [of qs "pending_of ?reps" ?p] by simp
    have sub: "set ?S \<subseteq> set qs" by (rule served_subset)
    have "queue_ok ?reps qs" using qs p by (auto simp: queue_ok_def)
    from Cons.IH [OF this, of ?q, unfolded S] obtain q' where q':
      "qgroup_reset_loop qs ?q ?reps = Some (filter (\<lambda>b. b \<notin> set ?S) qs, q', \<lambda>b. if b \<in> set ?S then map_option returned (?reps b) else ?reps b)"
      "unat q' + sum_list (map (pending_of ?reps) ?S) = unat ?q" "\<forall>b \<in> set qs - set ?S. unat q' < pending_of ?reps b"
      by blast
    have S': "served ?p (a # qs) (unat q) = a # ?S" using False by simp
    have "map (pending_of ?reps) ?S = map ?p ?S" using p sub by auto
    then have sum: "unat q' + sum_list (map ?p (a # ?S)) = unat q" using q'(2) False unfolding uq by (simp only:) simp
    have run: "qgroup_reset_loop (a # qs) q reps = qgroup_reset_loop qs ?q ?reps"
      unfolding step using le by (simp add: leD)
    have kept: "filter (\<lambda>b. b \<notin> set ?S) qs = filter (\<lambda>b. b \<notin> set (a # ?S)) (a # qs)"
      using a(1) by (auto intro: filter_cong)
    have fn: "(\<lambda>b. if b \<in> set ?S then map_option returned (?reps b) else ?reps b) =
        (\<lambda>b. if b \<in> set (a # ?S) then map_option returned (reps b) else reps b)"
      using a(1) sub rep(1) by (intro ext) auto
    have rest: "\<forall>b \<in> set (a # qs) - set (a # ?S). unat q' < ?p b" using q'(3) p by auto
    show ?thesis unfolding S' run
      by (intro exI [of _ q'] conjI) (simp only: q'(1) kept fn, fact sum, fact rest)
  qed
qed simp

text \<open>
  C26. A reset serves the endpoints in the order of the queue, each whose pending quota fits into
  what is left of \<^verbatim>\<open>cfg.quota\<close>: it gets all of it back and leaves the queue. The others keep their
  place and their claim, none of which would fit into the quota that remains; what was
  returned and what remains is \<^verbatim>\<open>cfg.quota\<close>. An endpoint with more than \<^verbatim>\<open>cfg.quota\<close>
  pending is never served, by this reset or any other.
\<close>

theorem qgroup_reset_correct:
  assumes "queue_ok (p_reps P) (qg_eps_stq (p_qg P))"
  defines "p \<equiv> pending_of (p_reps P)" and "quota \<equiv> unat (cfg_quota (qg_cfg (p_qg P)))"
    and "S \<equiv> served (pending_of (p_reps P)) (qg_eps_stq (p_qg P)) (unat (cfg_quota (qg_cfg (p_qg P))))"
  shows "\<exists>q'. qgroup_reset P = Some (P\<lparr>
      p_qg := (p_qg P)\<lparr>qg_eps_stq := filter (\<lambda>a. a \<notin> set S) (qg_eps_stq (p_qg P)), qg_quota := q'\<rparr>,
      p_reps := \<lambda>a. if a \<in> set S then map_option returned (p_reps P a) else p_reps P a\<rparr>) \<and>
    unat q' + sum_list (map p S) = quota \<and> (\<forall>a \<in> set (qg_eps_stq (p_qg P)) - set S. unat q' < p a) \<and>
    (\<forall>a. quota < p a \<longrightarrow> a \<notin> set S)"
proof -
  have "a \<notin> set S" if "quota < p a" for a using that served_bound [of a] unfolding S_def p_def quota_def by fastforce
  then show ?thesis
    using reset_loop [OF assms(1), of "cfg_quota (qg_cfg (p_qg P))"] unfolding S_def p_def quota_def qgroup_reset_def by auto
qed

definition waiting_ep :: "u64 \<Rightarrow> rail_ep" where
  "waiting_ep q = (example_ep 0)\<lparr>pending_ret_quota := q, in_eps_stq := True\<rparr>"

definition example_proc :: "(addr \<times> u64) list \<Rightarrow> qg_proc" where
  "example_proc reps = \<lparr>p_qg = (example_group 0 30)\<lparr>qg_eps_stq := map fst reps\<rparr>,
     p_reps = map_of (map (\<lambda>(a, q). (a, waiting_ep q)) reps), p_sched = None, p_thread = False, p_acts = []\<rparr>"

theorem qgroup_reset_correct_witness:
  "\<exists>P. qgroup_reset (example_proc [(1, 60), (2, 500), (3, 50), (4, 40)]) = Some P \<and> qg_eps_stq (p_qg P) = [2, 3] \<and>
     qg_quota (p_qg P) = 0"
proof -
  let ?P = "example_proc [(1, 60), (2, 500), (3, 50), (4, 40)]"
  have S: "served (pending_of (p_reps ?P)) [1, 2, 3, 4] 100 = [1, 4]"
    by (simp add: pending_of_def example_proc_def waiting_ep_def)
  have ok: "queue_ok (p_reps ?P) (qg_eps_stq (p_qg ?P))"
    by (auto simp: queue_ok_def pending_of_def example_proc_def waiting_ep_def)
  have P: "qg_eps_stq (p_qg ?P) = [1, 2, 3, 4]" "unat (cfg_quota (qg_cfg (p_qg ?P))) = 100"
    "pending_of (p_reps ?P) 1 = 60" "pending_of (p_reps ?P) 4 = 40"
    by (simp_all add: example_proc_def example_group_def pending_of_def waiting_ep_def)
  from qgroup_reset_correct [OF ok, unfolded P S] P(3,4) obtain q' where "unat q' = 0"
    "qgroup_reset ?P = Some (?P\<lparr>p_qg := (p_qg ?P)\<lparr>qg_eps_stq := [2, 3], qg_quota := q'\<rparr>,
       p_reps := \<lambda>a. if a \<in> set [1, 4] then map_option returned (p_reps ?P a) else p_reps ?P a\<rparr>)"
    by auto
  then show ?thesis by (simp add: unat_eq_zero)
qed

subsection \<open>Members\<close>

definition member_keys :: "(string \<times> string) set" where
  "member_keys = {(host, port). c_string host \<and> c_string port}"

lemma qgroup_rbt_cmp_eq: "qgroup_rbt_cmp k k' = (if strcmp (fst k) (fst k') \<noteq> 0 then strcmp (fst k) (fst k') else strcmp (snd k) (snd k'))"
  by (simp add: qgroup_rbt_cmp_def Let_def)

lemma qgroup_rbt_cmp_0: "k \<in> member_keys \<Longrightarrow> k' \<in> member_keys \<Longrightarrow> qgroup_rbt_cmp k k' = 0 \<longleftrightarrow> k = k'"
  by (auto simp: member_keys_def qgroup_rbt_cmp_eq strcmp_eq_0 prod_eq_iff)

lemma qgroup_rbt_cmp_trans:
  assumes "a \<in> member_keys" "b \<in> member_keys" "c \<in> member_keys" "qgroup_rbt_cmp a b \<le> 0" "qgroup_rbt_cmp b c \<le> 0"
  shows "qgroup_rbt_cmp a c \<le> 0"
proof -
  have K: "c_string (fst a)" "c_string (fst b)" "c_string (fst c)" "c_string (snd a)" "c_string (snd b)" "c_string (snd c)"
    using assms(1-3) by (auto simp: member_keys_def)
  have le: "strcmp (fst a) (fst b) \<le> 0" "strcmp (fst b) (fst c) \<le> 0"
    using assms(4,5) by (auto simp: qgroup_rbt_cmp_eq split: if_splits)
  show ?thesis
  proof (cases "strcmp (fst a) (fst c) = 0")
    case True
    then have "fst a = fst b" "fst b = fst c" using strcmp_trans_eq [OF K(1,2,3) le] by auto
    then show ?thesis using assms(4,5) strcmp_trans [OF K(4,5,6)] by (simp add: qgroup_rbt_cmp_eq)
  next
    case False
    then show ?thesis using strcmp_trans [OF K(1,2,3) le] by (simp add: qgroup_rbt_cmp_eq)
  qed
qed

interpretation mk: comparator_laws qgroup_rbt_cmp member_keys
proof unfold_locales
  show "qgroup_rbt_cmp a b > 0 \<longleftrightarrow> qgroup_rbt_cmp b a < 0" for a b
    using strcmp_flip [of "fst a" "fst b"] strcmp_flip [of "snd a" "snd b"] by (auto simp: qgroup_rbt_cmp_eq)
  show "qgroup_rbt_cmp a a = 0" for a by (simp add: qgroup_rbt_cmp_eq)
qed (rule qgroup_rbt_cmp_trans)

text \<open>
  The table a group stands for: from host and port to transport, authentication and its
  attributes. Every member is in the tree under its own host and port, fits its buffers and has the
  two references of its creation.
\<close>

type_synonym member_table = "(string \<times> string) \<Rightarrow> (string \<times> string \<times> av_list option) option"

definition member_key :: "qgroup_member \<Rightarrow> string \<times> string" where
  "member_key m = (c_host m, c_port m)"

definition member_val :: "qgroup_member \<Rightarrow> string \<times> string \<times> av_list option" where
  "member_val m = (c_xprt m, c_auth m, c_auth_av_list m)"

definition fits :: "qgroup_member \<Rightarrow> bool" where
  "fits m \<longleftrightarrow> length (c_host m) < 256 \<and> length (c_port m) < 32 \<and> length (c_xprt m) < 32 \<and> length (c_auth m) < 32"

definition entry_ok :: "qgroup \<Rightarrow> member_table \<Rightarrow> addr \<times> string \<times> string \<Rightarrow> bool" where
  "entry_ok qg T e \<longleftrightarrow> (\<exists>m. qg_members qg (fst e) = Some m \<and> snd e = member_key m \<and> fits m \<and> m_refs m = 2 \<and>
     T (snd e) = Some (member_val m))"

definition table :: "qgroup \<Rightarrow> member_table \<Rightarrow> bool" where
  "table qg T \<longleftrightarrow> (\<exists>es. rbt_seq qgroup_rbt_cmp member_keys (qg_rbt qg) es \<and> inj_on snd (set es) \<and>
     dom (qg_members qg) = fst ` set es \<and> dom T = snd ` set es \<and> (\<forall>e \<in> set es. entry_ok qg T e))"

text \<open>What the two operations do to the table.\<close>

definition table_add :: "errno + qgroup_member \<Rightarrow> member_table \<Rightarrow> errno \<times> member_table" where
  "table_add r T = (case r of
     Inl e \<Rightarrow> (e, T)
   | Inr m \<Rightarrow> if T (member_key m) \<noteq> None then (EEXIST, T) else (EOK, T(member_key m \<mapsto> member_val m)))"

definition table_del :: "string \<times> string \<Rightarrow> member_table \<Rightarrow> errno \<times> member_table" where
  "table_del k T = (if T k = None then (ENOENT, T) else (EOK, T(k := None)))"

lemma find_member:
  assumes "rbt_seq qgroup_rbt_cmp member_keys t es" and "k \<in> member_keys"
  obtains a where "rbt_find t k = Some a" and "a = NULL \<longleftrightarrow> k \<notin> snd ` set es" and "a \<noteq> NULL \<Longrightarrow> (a, k) \<in> set es"
proof -
  obtain a where a: "rbt_find t k = Some a" "found_in qgroup_rbt_cmp k es a" using mk.rbt_search_seq(1) [OF assms] by blast
  have eq: "filter (\<lambda>p. qgroup_rbt_cmp (snd p) k = 0) es = filter (\<lambda>p. snd p = k) es"
    using assms by (intro filter_cong refl qgroup_rbt_cmp_0) (auto simp: rbt_seq_def dest: ordered_in)
  have "(NULL, p) \<notin> set es" for p using rbt_rep_not_NULL [of t es "(NULL, p)"] assms(1) by (auto simp: rbt_seq_def)
  then have "(a = NULL \<longleftrightarrow> k \<notin> snd ` set es) \<and> (a \<noteq> NULL \<longrightarrow> (a, k) \<in> set es)"
    using a(2) unfolding found_in_def eq by (auto simp: filter_empty_conv Let_def split: if_splits)
  then show thesis using that a(1) by blast
qed

lemma bind_err_Inr [simp]: "bind_err r f = Inr c \<longleftrightarrow> (\<exists>b. r = Inr b \<and> f b = Inr c)"
  by (cases r) auto

lemma fill_field_Inr [simp]: "0 < n \<Longrightarrow> fill_field n s = Inr b \<longleftrightarrow> length s < n \<and> b = s"
  by (auto simp: fill_field_def snprintf_s_def)

lemma required_Inr [simp]: "required s = Inr b \<longleftrightarrow> s = Some b"
  by (simp add: required_def split: option.splits)

lemma fill_member_ok:
  assumes "fill_member xprt host port auth av e = Inr m" and str: "\<forall>s \<in> set_option host \<union> set_option port. c_string s"
  shows "member_key m \<in> member_keys \<and> fits m \<and> m_refs m = 0"
proof -
  obtain x h where f: "fill_field 32 x = Inr (c_xprt m)" "host = Some h" "fill_field 256 h = Inr (c_host m)"
    and p: "(case port of None \<Rightarrow> Inr ''411'' | Some port \<Rightarrow> fill_field 32 port) = Inr (c_port m)"
    and a: "(case auth of None \<Rightarrow> Inr ''none'' | Some auth \<Rightarrow> fill_field 32 auth) = Inr (c_auth m)" and r: "m_refs m = 0"
    using assms(1) unfolding fill_member_def bind_err_Inr by (elim exE conjE) (auto split: if_splits)
  have "c_port m = ''411'' \<or> port = Some (c_port m) \<and> length (c_port m) < 32" using p by (cases port) simp_all
  then have "c_string (c_port m) \<and> length (c_port m) < 32" using str by auto
  moreover have "c_auth m = ''none'' \<or> length (c_auth m) < 32" using a by (cases auth) simp_all
  then have "length (c_auth m) < 32" by auto
  ultimately show ?thesis using f r str by (simp add: member_key_def member_keys_def fits_def)
qed

lemma table_insert:
  assumes T: "table qg T" and m: "member_key m \<in> member_keys" "fits m" "T (member_key m) = None"
    and a: "a \<noteq> NULL" "a \<notin> dom (qg_members qg)"
  shows "\<exists>t. rbt_ins (rbn_init a (member_key m) (qg_rbt qg)) a = Some t \<and>
    table (qg\<lparr>qg_rbt := t, qg_members := (qg_members qg)(a \<mapsto> m\<lparr>m_refs := 2\<rparr>)\<rparr>) (T(member_key m \<mapsto> member_val m))"
proof -
  obtain es where es: "rbt_seq qgroup_rbt_cmp member_keys (qg_rbt qg) es" "inj_on snd (set es)"
    "dom (qg_members qg) = fst ` set es" "dom T = snd ` set es" "\<forall>e \<in> set es. entry_ok qg T e"
    using T by (auto simp: table_def)
  have fresh: "a \<notin> fst ` set es" "member_key m \<notin> snd ` set es"
    using a(2) m(3) unfolding es(3,4) [symmetric] by (simp_all add: domIff)
  obtain t where t: "rbt_ins (rbn_init a (member_key m) (qg_rbt qg)) a = Some t"
      "rbt_seq qgroup_rbt_cmp member_keys t (ins_entry qgroup_rbt_cmp a (member_key m) es)"
    using mk.rbt_ins_seq [OF rbt_seq_rbn_init [OF es(1) fresh(1)] a(1) fresh(1) get_key_rbn_init [OF a(1)] m(1)] .
  let ?qg = "qg\<lparr>qg_rbt := t, qg_members := (qg_members qg)(a \<mapsto> m\<lparr>m_refs := 2\<rparr>)\<rparr>" and ?T = "T(member_key m \<mapsto> member_val m)"
  have old: "entry_ok ?qg ?T e" if "e \<in> set es" for e
  proof -
    have "fst e \<noteq> a" "snd e \<noteq> member_key m" using that fresh by force+
    then show ?thesis using es(5) that by (auto simp: entry_ok_def)
  qed
  have new: "entry_ok ?qg ?T (a, member_key m)" using m(2) by (simp add: entry_ok_def fits_def member_key_def member_val_def)
  have "inj_on snd (insert (a, member_key m) (set es))" using es(2) fresh(2) by auto
  moreover have "dom (qg_members ?qg) = fst ` insert (a, member_key m) (set es)" "dom ?T = snd ` insert (a, member_key m) (set es)"
    using es(3,4) by auto
  ultimately have "table ?qg ?T" unfolding table_def using t(2) old new
    by (intro exI [of _ "ins_entry qgroup_rbt_cmp a (member_key m) es"]) (simp add: set_ins_entry)
  then show ?thesis using t(1) by blast
qed

lemma table_remove:
  assumes es: "rbt_seq qgroup_rbt_cmp member_keys (qg_rbt qg) es" "inj_on snd (set es)"
    "dom (qg_members qg) = fst ` set es" "dom T = snd ` set es" "\<forall>e \<in> set es. entry_ok qg T e"
    and a: "(a, k) \<in> set es"
  shows "\<exists>t. rbt_del (qg_rbt qg) a = Some t \<and>
    table (qg\<lparr>qg_rbt := t, qg_members := (qg_members qg)(a := None)\<rparr>) (T(k := None))"
proof -
  obtain t where t: "rbt_del (qg_rbt qg) a = Some t" "rbt_seq qgroup_rbt_cmp member_keys t (del_entry a es)"
    using rbt_del_seq [OF es(1)] a by force
  have inj: "inj_on fst (set es)" using rbt_rep_distinct es(1) by (auto simp: rbt_seq_def distinct_map)
  have uniq: "e = (a, k)" if "e \<in> set es" "fst e = a \<or> snd e = k" for e
    using that inj es(2) a by (metis fst_conv inj_onD snd_conv)
  have rest: "set (del_entry a es) = set es - {(a, k)}" using uniq by (auto simp: del_entry_def)
  have "entry_ok (qg\<lparr>qg_rbt := t, qg_members := (qg_members qg)(a := None)\<rparr>) (T(k := None)) e" if "e \<in> set es - {(a, k)}" for e
  proof -
    have "fst e \<noteq> a" "snd e \<noteq> k" using that uniq [of e] by blast+
    then show ?thesis using es(5) that by (auto simp: entry_ok_def)
  qed
  moreover have "fst ` (set es - {(a, k)}) = fst ` set es - {a}" "snd ` (set es - {(a, k)}) = snd ` set es - {k}"
    using inj_on_image_set_diff [OF inj, of "set es" "{(a, k)}"] inj_on_image_set_diff [OF es(2), of "set es" "{(a, k)}"] a by auto
  ultimately have "table (qg\<lparr>qg_rbt := t, qg_members := (qg_members qg)(a := None)\<rparr>) (T(k := None))"
    unfolding table_def using t(2) es(2-4)
    by (intro exI [of _ "del_entry a es"]) (simp add: rest inj_on_diff)
  then show ?thesis using t(1) by blast
qed

lemma member_add_table:
  assumes T: "table qg T" and "qg_state qg = LDMS_QGROUP_STATE_STOPPED"
    and str: "\<forall>s \<in> set_option host \<union> set_option port. c_string s" and a: "a \<notin> dom (qg_members qg)"
  shows "\<exists>rc qg'. qgroup_member_add a av_copy xprt host port auth av qg = Some (rc, qg') \<and>
    (if a = NULL then rc = ENOMEM \<and> table qg' T
     else \<exists>T'. table_add (fill_member xprt host port auth av av_copy) T = (rc, T') \<and> table qg' T')"
proof (cases "a = NULL \<or> (\<exists>e. fill_member xprt host port auth av av_copy = Inl e)")
  case True
  then show ?thesis using assms(1,2) by (auto simp: qgroup_member_add_def table_add_def)
next
  case False
  then obtain m where m: "fill_member xprt host port auth av av_copy = Inr m" and a0: "a \<noteq> NULL"
    by (metis sum.exhaust)
  note ok = fill_member_ok [OF m str]
  obtain es where es: "rbt_seq qgroup_rbt_cmp member_keys (qg_rbt qg) es" "dom T = snd ` set es"
    using T by (auto simp: table_def)
  obtain n where n: "rbt_find (qg_rbt qg) (member_key m) = Some n" "n = NULL \<longleftrightarrow> member_key m \<notin> snd ` set es"
    using find_member [OF es(1)] ok by blast
  show ?thesis
  proof (cases "T (member_key m)")
    case None
    then have "n = NULL" using n(2) es(2) by auto
    then show ?thesis using table_insert [OF T _ _ None a0 a] ok n(1) m a0 assms(2)
      by (auto simp: qgroup_member_add_def table_add_def None member_key_def [symmetric])
  next
    case (Some v)
    then have "n \<noteq> NULL" using n(2) es(2) by auto
    then show ?thesis using Some T n(1) m a0 assms(2)
      by (auto simp: qgroup_member_add_def table_add_def member_key_def [symmetric])
  qed
qed

lemma member_del_table:
  assumes T: "table qg T" and "qg_state qg = LDMS_QGROUP_STATE_STOPPED"
    and str: "\<forall>s \<in> set_option host \<union> set_option port. c_string s" and host: "host = Some h"
  shows "\<exists>rc qg' T'. qgroup_member_del host port qg = Some (rc, qg') \<and>
    table_del (take 255 h, take 31 (case port of None \<Rightarrow> ''411'' | Some p \<Rightarrow> p)) T = (rc, T') \<and> table qg' T'"
proof -
  let ?k = "(take 255 h, take 31 (case port of None \<Rightarrow> ''411'' | Some p \<Rightarrow> p))"
  have k: "?k \<in> member_keys" using str host by (auto simp: member_keys_def c_string_take split: option.splits)
  obtain es where es: "rbt_seq qgroup_rbt_cmp member_keys (qg_rbt qg) es" "inj_on snd (set es)"
    "dom (qg_members qg) = fst ` set es" "dom T = snd ` set es" "\<forall>e \<in> set es. entry_ok qg T e"
    using T by (auto simp: table_def)
  obtain n where n: "rbt_find (qg_rbt qg) ?k = Some n" "n = NULL \<longleftrightarrow> ?k \<notin> snd ` set es" "n \<noteq> NULL \<Longrightarrow> (n, ?k) \<in> set es"
    using find_member [OF es(1) k] by blast
  show ?thesis
  proof (cases "n = NULL")
    case True
    then have "T ?k = None" using n(2) es(4) by auto
    then show ?thesis using True n(1) assms(2) host T
      by (simp add: qgroup_member_del_def table_del_def snprintf_s_def)
  next
    case False
    then have mem: "(n, ?k) \<in> set es" by (rule n(3))
    then have "entry_ok qg T (n, ?k)" using es(5) by blast
    then obtain m where m: "qg_members qg n = Some m" "m_refs m = 2" "T ?k \<noteq> None" by (auto simp: entry_ok_def member_val_def)
    obtain t where "rbt_del (qg_rbt qg) n = Some t"
      "table (qg\<lparr>qg_rbt := t, qg_members := (qg_members qg)(n := None)\<rparr>) (T(?k := None))"
      using table_remove [OF es mem] by blast
    then show ?thesis using False n(1) assms(2) host m
      by (simp add: qgroup_member_del_def table_del_def snprintf_s_def member_ref_put_def)
  qed
qed

lemma table_init: "table (qgroup_init (qg\<lparr>qg_members := Map.empty\<rparr>)) Map.empty"
  using rbt_seq_init unfolding table_def by (intro exI [of _ "[]"]) (simp add: qgroup_init_def)



end
