(* ===== verification/QGroupTop.thy ===== *)
theory QGroupTop
  imports QGroupMembers
begin

section \<open>Quota groups: the life of a group\<close>

text \<open>
  Everything that can happen to the group of a process, as a step relation; the invariant that
  a running group is configured; and what one run of the ask timer does to the members.
\<close>

subsection \<open>What an operation leaves alone\<close>

definition same_cfg :: "qg_proc \<Rightarrow> qg_proc \<Rightarrow> bool" where
  "same_cfg P P' \<longleftrightarrow> qg_state (p_qg P') = qg_state (p_qg P) \<and> qg_cfg (p_qg P') = qg_cfg (p_qg P)"

lemma same_cfg_refl [simp]: "same_cfg P P"
  by (simp add: same_cfg_def)

lemma same_cfg_trans: "same_cfg P P' \<Longrightarrow> same_cfg P' P'' \<Longrightarrow> same_cfg P P''"
  by (simp add: same_cfg_def)

lemma same_cfg_act [simp]: "same_cfg P (act e P') \<longleftrightarrow> same_cfg P P'" "same_cfg (act e P) P' \<longleftrightarrow> same_cfg P P'"
  by (simp_all add: same_cfg_def act_def)

lemma same_cfg_upd_member: "upd_member a f P = Some P' \<Longrightarrow> same_cfg P P'"
  by (auto simp: upd_member_def same_cfg_def split: bind_splits)

lemma same_cfg_on_qg: "on_qg (member_ref_get a) P = Some P' \<Longrightarrow> same_cfg P P'" "on_qg (member_ref_put a) P = Some P' \<Longrightarrow> same_cfg P P'"
  by (auto simp: on_qg_def member_ref_get_def member_ref_put_def same_cfg_def Let_def split: bind_splits)

lemma same_cfg_handle_msg: "handle_msg send ts msg P = Some P' \<Longrightarrow> same_cfg P P'"
  using answer_state [of ts msg "p_qg P"]
  by (auto simp: handle_msg_def same_cfg_def act_def Let_def split: bind_splits option.splits)

lemma same_cfg_do_ask: "qgroup_member_do_ask ts a P = Some P' \<Longrightarrow> same_cfg P P'"
  by (auto simp: qgroup_member_do_ask_def split: bind_splits option.splits if_splits)

lemma same_cfg_do_connect:
  assumes "qgroup_member_do_connect env a P = Some P'"
  shows "same_cfg P P'"
proof -
  obtain x conn where env: "env = (x, conn)" by fastforce
  show ?thesis using assms unfolding env qgroup_member_do_connect_def
    by (auto simp: Let_def split: bind_splits if_splits
        dest!: same_cfg_upd_member same_cfg_on_qg) (simp_all add: same_cfg_def)
qed

lemma same_cfg_routine: "qgroup_member_routine ts env a P = Some P' \<Longrightarrow> same_cfg P P'"
  by (auto simp: qgroup_member_routine_def split: bind_splits qgroup_member_state.splits
      dest: same_cfg_do_connect same_cfg_do_ask)

lemma same_cfg_xprt_cb: "qgroup_member_xprt_cb ts a e P = Some P' \<Longrightarrow> same_cfg P P'"
  by (auto simp: qgroup_member_xprt_cb_def split: bind_splits xprt_event.splits
      dest!: same_cfg_upd_member same_cfg_do_ask same_cfg_on_qg same_cfg_handle_msg)
    (simp_all add: same_cfg_def)

lemma same_cfg_reset: "qgroup_reset P = Some P' \<Longrightarrow> same_cfg P P'"
  by (auto simp: qgroup_reset_def same_cfg_def split: bind_splits)

lemma same_cfg_once: "qgroup_once env P = Some (rc, P') \<Longrightarrow> same_cfg P P'"
  by (auto simp: qgroup_once_def same_cfg_def Let_def split: bind_splits if_splits)

lemma same_cfg_acquire: "qgroup_quota_acquire q qg = (rc, qg') \<Longrightarrow> qg_state qg' = qg_state qg \<and> qg_cfg qg' = qg_cfg qg"
  by (auto simp: qgroup_quota_acquire_def split: if_splits prod.splits)

lemma same_cfg_msg_free: "msg_buf_s_ref_free malloc rep q P = Some P' \<Longrightarrow> same_cfg P P'"
  by (auto simp: msg_buf_s_ref_free_def same_cfg_def qgroup_add_rep_def Let_def
      split: bind_splits if_splits prod.splits dest: same_cfg_acquire)

lemma foreach_from_inv:
  assumes "foreach_from t body n s = Some s'" and "\<And>n s s'. body n s = Some s' \<Longrightarrow> I s \<Longrightarrow> I s'" and "I s"
  shows "I s'"
proof -
  have "(\<forall>n s s'. body n s = Some s' \<longrightarrow> I s \<longrightarrow> I s') \<longrightarrow> I s \<longrightarrow> I s'"
    by (rule foreach_from.raw_induct [OF _ assms(1)]) (fastforce split: if_splits bind_splits)
  then show ?thesis using assms(2,3) by blast
qed

lemma RBT_FOREACH_inv:
  assumes "RBT_FOREACH t body s = Some s'" and "\<And>n s s'. body n s = Some s' \<Longrightarrow> I s \<Longrightarrow> I s'" and "I s"
  shows "I s'"
  using assms(1) foreach_from_inv [of t body _ s s' I] assms(2,3) by (auto simp: RBT_FOREACH_def split: bind_splits)

subsection \<open>The state machine\<close>

text \<open>The life of a process: every call into the group and every event of its transports and timers.\<close>

inductive qg_life :: "qg_proc \<Rightarrow> bool" where
  init: "qg_life \<lparr>p_qg = qgroup_init qg, p_reps = reps, p_sched = None, p_thread = False, p_acts = []\<rparr>"
| cfg_set: "qg_life P \<Longrightarrow> qgroup_cfg_set c (p_qg P) = (rc, qg) \<Longrightarrow> qg_life (P\<lparr>p_qg := qg\<rparr>)"
| cfg_quota: "qg_life P \<Longrightarrow> qgroup_cfg_quota_set v (p_qg P) = (rc, qg) \<Longrightarrow> qg_life (P\<lparr>p_qg := qg\<rparr>)"
| cfg_ask_usec: "qg_life P \<Longrightarrow> qgroup_cfg_ask_usec_set v (p_qg P) = (rc, qg) \<Longrightarrow> qg_life (P\<lparr>p_qg := qg\<rparr>)"
| cfg_reset_usec: "qg_life P \<Longrightarrow> qgroup_cfg_reset_usec_set v (p_qg P) = (rc, qg) \<Longrightarrow> qg_life (P\<lparr>p_qg := qg\<rparr>)"
| cfg_ask_mark: "qg_life P \<Longrightarrow> qgroup_cfg_ask_mark_set v (p_qg P) = (rc, qg) \<Longrightarrow> qg_life (P\<lparr>p_qg := qg\<rparr>)"
| cfg_ask_amount: "qg_life P \<Longrightarrow> qgroup_cfg_ask_amount_set v (p_qg P) = (rc, qg) \<Longrightarrow> qg_life (P\<lparr>p_qg := qg\<rparr>)"
| member_add: "qg_life P \<Longrightarrow> qgroup_member_add a e x h p au av (p_qg P) = Some (rc, qg) \<Longrightarrow> qg_life (P\<lparr>p_qg := qg\<rparr>)"
| member_del: "qg_life P \<Longrightarrow> qgroup_member_del h p (p_qg P) = Some (rc, qg) \<Longrightarrow> qg_life (P\<lparr>p_qg := qg\<rparr>)"
| go: "qg_life P \<Longrightarrow> qgroup_start env P = Some (rc, P') \<Longrightarrow> qg_life P'"
| halt: "qg_life P \<Longrightarrow> qgroup_stop w evs P = Some (rc, P') \<Longrightarrow> qg_life P'"
| ask_timer: "qg_life P \<Longrightarrow> qgroup_ask_routine ts xs P = Some P' \<Longrightarrow> qg_life P'"
| reset_timer: "qg_life P \<Longrightarrow> qgroup_reset_routine P = Some P' \<Longrightarrow> qg_life P'"
| peer_msg: "qg_life P \<Longrightarrow> qgroup_req_recv ts rep msg P = Some P' \<Longrightarrow> qg_life P'"
| xprt_event: "qg_life P \<Longrightarrow> qgroup_member_xprt_cb ts a ev P = Some P' \<Longrightarrow> qg_life P'"
| msg_done: "qg_life P \<Longrightarrow> msg_buf_s_ref_free e rep q P = Some P' \<Longrightarrow> qg_life P'"
| quota_back: "qg_life P \<Longrightarrow> qgroup_quota_release q (p_qg P) = (v, qg) \<Longrightarrow> qg_life (P\<lparr>p_qg := qg\<rparr>)"

definition configured :: "qg_proc \<Rightarrow> bool" where
  "configured P \<longleftrightarrow> qg_state (p_qg P) = LDMS_QGROUP_STATE_STOPPED \<or>
     qg_state (p_qg P) = LDMS_QGROUP_STATE_STARTED \<and> cfg_sane (qg_cfg (p_qg P))"

lemma configured_same: "same_cfg P P' \<Longrightarrow> configured P \<Longrightarrow> configured P'"
  by (simp add: configured_def same_cfg_def)

lemma configured_setters:
  assumes "configured P"
  shows "qgroup_cfg_set c (p_qg P) = (rc, qg) \<Longrightarrow> configured (P\<lparr>p_qg := qg\<rparr>)"
    and "qgroup_cfg_quota_set v (p_qg P) = (rc, qg) \<Longrightarrow> configured (P\<lparr>p_qg := qg\<rparr>)"
    and "qgroup_cfg_ask_usec_set v (p_qg P) = (rc, qg) \<Longrightarrow> configured (P\<lparr>p_qg := qg\<rparr>)"
    and "qgroup_cfg_reset_usec_set v (p_qg P) = (rc, qg) \<Longrightarrow> configured (P\<lparr>p_qg := qg\<rparr>)"
    and "qgroup_cfg_ask_mark_set v (p_qg P) = (rc, qg) \<Longrightarrow> configured (P\<lparr>p_qg := qg\<rparr>)"
    and "qgroup_cfg_ask_amount_set v (p_qg P) = (rc, qg) \<Longrightarrow> configured (P\<lparr>p_qg := qg\<rparr>)"
  using assms by (auto simp: configured_def qgroup_cfg_set_def qgroup_cfg_quota_set_def qgroup_cfg_ask_usec_set_def
      qgroup_cfg_reset_usec_set_def qgroup_cfg_ask_mark_set_def qgroup_cfg_ask_amount_set_def split: if_splits)

lemma member_ops_state:
  "qgroup_member_add a e x h p au av qg = Some (rc, qg') \<Longrightarrow> qg_state qg' = qg_state qg \<and> qg_cfg qg' = qg_cfg qg"
  "qgroup_member_del h p qg = Some (rc, qg') \<Longrightarrow> qg_state qg' = qg_state qg \<and> qg_cfg qg' = qg_cfg qg"
  by (auto simp: qgroup_member_add_def qgroup_member_del_def member_ref_put_def Let_def
      split: if_splits sum.splits bind_splits)

lemma configured_start:
  assumes "configured P" and "qgroup_start env P = Some (rc, P')"
  shows "configured P'"
  using assms(2) assms(1) unfolding qgroup_start_def Let_def
  by (auto split: if_splits bind_splits dest!: same_cfg_once same_cfg_reset
      simp: configured_def same_cfg_def set_state_def)

lemma configured_ask_routine:
  assumes "configured P" and "qgroup_ask_routine ts xs P = Some P'"
  shows "configured P'"
proof (cases "qg_state (p_qg P)")
  case LDMS_QGROUP_STATE_STARTED
  let ?P = "set_state LDMS_QGROUP_STATE_BUSY P"
  obtain Q where Q: "RBT_FOREACH (qg_rbt (p_qg ?P)) (qgroup_member_routine ts xs) ?P = Some Q"
    and P': "P' = set_state LDMS_QGROUP_STATE_STARTED Q"
    using assms(2) LDMS_QGROUP_STATE_STARTED by (auto simp: qgroup_ask_routine_def Let_def split: bind_splits)
  have "same_cfg ?P Q"
    by (rule RBT_FOREACH_inv [OF Q]) (auto dest: same_cfg_routine intro: same_cfg_trans)
  then show ?thesis using assms(1) LDMS_QGROUP_STATE_STARTED P' by (simp add: configured_def same_cfg_def set_state_def)
qed (use assms in \<open>auto simp: qgroup_ask_routine_def\<close>)

lemma configured_stop: "configured P \<Longrightarrow> qgroup_stop w evs P = Some (rc, P') \<Longrightarrow> configured P'"
  by (auto simp: qgroup_stop_def configured_def set_state_def Let_def split: qgroup_state.splits bind_splits)

lemma life_configured: "qg_life P \<Longrightarrow> configured P"
proof (induction rule: qg_life.induct)
  case (init qg reps)
  then show ?case by (simp add: configured_def qgroup_init_def)
next
  case (member_add P a e x h p au av rc qg)
  then show ?case using member_ops_state(1) [OF member_add.hyps(2)] by (simp add: configured_def)
next
  case (member_del P h p rc qg)
  then show ?case using member_ops_state(2) [OF member_del.hyps(2)] by (simp add: configured_def)
next
  case (quota_back P q v qg)
  then show ?case by (auto simp: qgroup_quota_release_def configured_def split: prod.splits)
qed (auto dest: configured_start configured_stop configured_ask_routine same_cfg_reset same_cfg_handle_msg
    same_cfg_xprt_cb same_cfg_msg_free configured_setters simp: qgroup_reset_routine_def qgroup_req_recv_def
    intro: configured_same)

lemma req_recv_fault: "qgroup_req_recv ts rep msg P = None \<longleftrightarrow> cfg_reset_usec (qg_cfg (p_qg P)) = 0"
  by (cases msg) (auto simp: qgroup_req_recv_def handle_msg_def answer_msg_def qgroup_on_ask_event_def
      qgroup_on_donate_event_def qgroup_on_donate_back_event_def qgroup_usec_adj_def Let_def
      split: bind_splits if_splits prod.splits)


text \<open>
  C29. A message of a peer faults exactly in a group whose reset interval is 0, the division by it
  in \<^verbatim>\<open>__qgroup_usec_adj\<close>. That is the state every process starts in: before the group is
  configured, any \<^verbatim>\<open>ask\<close>, \<^verbatim>\<open>donate\<close> or \<^verbatim>\<open>donate_back\<close> of a peer ends the process.
\<close>

theorem unconfigured_message_faults:
  "(qgroup_req_recv ts rep msg P = None \<longleftrightarrow> cfg_reset_usec (qg_cfg (p_qg P)) = 0) \<and>
   qgroup_req_recv ts rep msg (P\<lparr>p_qg := qgroup_init qg\<rparr>) = None"
  by (simp add: req_recv_fault qgroup_init_def zero_cfg_def)

subsection \<open>The ask timer\<close>

text \<open>What one run does to a member, and what it sends.\<close>

definition next_member :: "addr \<times> errno \<Rightarrow> qgroup_member \<Rightarrow> qgroup_member" where
  "next_member env m = (case m_state m of
     LDMS_QGROUP_MEMBER_STATE_DISCONNECTED \<Rightarrow>
       if fst env = NULL \<or> snd env \<noteq> EOK then m\<lparr>m_x := NULL\<rparr>
       else m\<lparr>m_x := fst env, m_state := LDMS_QGROUP_MEMBER_STATE_CONNECTING, m_refs := m_refs m + 1\<rparr>
   | _ \<Rightarrow> m)"

definition member_acts :: "u64 \<Rightarrow> qgroup \<Rightarrow> addr \<Rightarrow> addr \<times> errno \<Rightarrow> qgroup_member \<Rightarrow> qgroup_act list" where
  "member_acts w qg a env m = (case m_state m of
     LDMS_QGROUP_MEMBER_STATE_DISCONNECTED \<Rightarrow>
       (if m_x m \<noteq> NULL then [XPRT_PUT (m_x m)] else []) @
       (if fst env \<noteq> NULL \<and> snd env \<noteq> EOK then [XPRT_PUT (fst env)] else [])
   | LDMS_QGROUP_MEMBER_STATE_CONNECTING \<Rightarrow> []
   | LDMS_QGROUP_MEMBER_STATE_CONNECTED \<Rightarrow>
       if qg_quota qg \<ge> cfg_ask_mark (qg_cfg qg) then []
       else [SEND_TO_MEMBER a (QGROUP_ASK (cfg_ask_amount (qg_cfg qg)) w)])"

definition member_ready :: "qgroup_member \<Rightarrow> bool" where
  "member_ready m \<longleftrightarrow> m_refs m > 0 \<and> (m_state m = LDMS_QGROUP_MEMBER_STATE_CONNECTED \<longrightarrow> m_x m \<noteq> NULL)"

definition set_members :: "(addr \<Rightarrow> qgroup_member option) \<Rightarrow> qgroup_act list \<Rightarrow> qg_proc \<Rightarrow> qg_proc" where
  "set_members M acts P = P\<lparr>p_qg := (p_qg P)\<lparr>qg_members := M\<rparr>, p_acts := p_acts P @ acts\<rparr>"

lemma set_members_twice [simp]: "set_members M A (set_members M' A' P) = set_members M (A' @ A) P"
  by (simp add: set_members_def)

lemma routine_step:
  assumes "qg_members (p_qg P) a = Some m" and "member_ready m"
    and "qgroup_usec_adj (p_qg P) (clock_getusec ts) = Some w"
  shows "qgroup_member_routine ts env a P =
    Some (set_members ((qg_members (p_qg P))(a \<mapsto> next_member (env a) m)) (member_acts w (p_qg P) a (env a) m) P)"
proof (cases "m_state m")
  case LDMS_QGROUP_MEMBER_STATE_DISCONNECTED
  obtain x conn where "env a = (x, conn)" by fastforce
  then show ?thesis using assms LDMS_QGROUP_MEMBER_STATE_DISCONNECTED
    by (cases P; cases m) (auto simp: qgroup_member_routine_def qgroup_member_do_connect_def upd_member_def on_qg_def
        member_ref_get_def member_ref_put_def next_member_def member_acts_def set_members_def act_def member_ready_def Let_def add.commute)
next
  case LDMS_QGROUP_MEMBER_STATE_CONNECTING
  then show ?thesis using assms
    by (simp add: qgroup_member_routine_def next_member_def member_acts_def set_members_def fun_upd_idem)
next
  case LDMS_QGROUP_MEMBER_STATE_CONNECTED
  then show ?thesis using assms
    by (auto simp: qgroup_member_routine_def qgroup_member_do_ask_def do_ask_msg_def next_member_def member_acts_def
        set_members_def act_def member_ready_def fun_upd_idem)
qed

lemma member_acts_cong: "qg_quota qg = qg_quota qg' \<Longrightarrow> qg_cfg qg = qg_cfg qg' \<Longrightarrow> member_acts w qg = member_acts w qg'"
  by (intro ext) (simp add: member_acts_def split: qgroup_member_state.split)

lemma routine_fold:
  assumes "distinct as" and "\<forall>a \<in> set as. \<exists>m. qg_members (p_qg P) a = Some m \<and> member_ready m"
    and "qgroup_usec_adj (p_qg P) (clock_getusec ts) = Some w"
  shows "fold_opt (qgroup_member_routine ts env) as P = Some (set_members
    (\<lambda>a. if a \<in> set as then map_option (next_member (env a)) (qg_members (p_qg P) a) else qg_members (p_qg P) a)
    (concat (map (\<lambda>a. member_acts w (p_qg P) a (env a) (the (qg_members (p_qg P) a))) as)) P)"
  using assms
proof (induction as arbitrary: P)
  case Nil
  then show ?case by (simp add: set_members_def)
next
  case (Cons a as)
  obtain m where m: "qg_members (p_qg P) a = Some m" "member_ready m" using Cons.prems(2) by auto
  let ?P = "set_members ((qg_members (p_qg P))(a \<mapsto> next_member (env a) m)) (member_acts w (p_qg P) a (env a) m) P"
  have same: "qg_members (p_qg ?P) b = qg_members (p_qg P) b" if "b \<in> set as" for b
    using that Cons.prems(1) by (auto simp: set_members_def)
  have acts: "member_acts w (p_qg ?P) = member_acts w (p_qg P)" by (rule member_acts_cong) (simp_all add: set_members_def)
  have adj: "qgroup_usec_adj (p_qg ?P) (clock_getusec ts) = Some w"
    using Cons.prems(3) by (simp add: set_members_def qgroup_usec_adj_def)
  have macts: "map (\<lambda>b. member_acts w (p_qg P) b (env b) (the (qg_members (p_qg ?P) b))) as =
      map (\<lambda>b. member_acts w (p_qg P) b (env b) (the (qg_members (p_qg P) b))) as"
    using same by (intro map_cong) auto
  have mems: "(\<lambda>b. if b \<in> set as then map_option (next_member (env b)) (qg_members (p_qg ?P) b) else qg_members (p_qg ?P) b) =
      (\<lambda>b. if b \<in> set (a # as) then map_option (next_member (env b)) (qg_members (p_qg P) b) else qg_members (p_qg P) b)"
    using Cons.prems(1) m(1) same by (intro ext) (auto simp: set_members_def)
  have "\<forall>b \<in> set as. \<exists>m. qg_members (p_qg ?P) b = Some m \<and> member_ready m" using Cons.prems(2) same by simp
  with Cons.prems(1) have "fold_opt (qgroup_member_routine ts env) as ?P = Some (set_members
      (\<lambda>b. if b \<in> set (a # as) then map_option (next_member (env b)) (qg_members (p_qg P) b) else qg_members (p_qg P) b)
      (concat (map (\<lambda>b. member_acts w (p_qg P) b (env b) (the (qg_members (p_qg P) b))) as)) ?P)"
    using Cons.IH [of ?P, OF _ _ adj] unfolding acts macts mems by simp
  then show ?case using routine_step [OF m Cons.prems(3), of env] by (simp add: m(1))
qed

text \<open>
  C30. One run of the ask timer visits every member of a started group once, in the order of the
  tree: a connected one is sent an \<^verbatim>\<open>ask\<close> exactly when the quota is below the mark, a disconnected one
  gets a new transport and is connecting from then on if that works, one that is connecting
  is left alone. Nothing else changes and the group is started again.
\<close>

theorem ask_routine_correct:
  assumes "qg_state (p_qg P) = LDMS_QGROUP_STATE_STARTED" and "rbt_rep (qg_rbt (p_qg P)) es"
    and "\<forall>a \<in> fst ` set es. \<exists>m. qg_members (p_qg P) a = Some m \<and> member_ready m"
    and "qgroup_usec_adj (p_qg P) (clock_getusec ts) = Some w"
  shows "qgroup_ask_routine ts env P = Some (P\<lparr>
    p_qg := (p_qg P)\<lparr>qg_members := \<lambda>a. if a \<in> fst ` set es then map_option (next_member (env a)) (qg_members (p_qg P) a)
       else qg_members (p_qg P) a\<rparr>,
    p_acts := p_acts P @ concat (map (\<lambda>a. member_acts w (p_qg P) a (env a) (the (qg_members (p_qg P) a))) (map fst es))\<rparr>)"
proof -
  let ?P = "set_state LDMS_QGROUP_STATE_BUSY P"
  have busy: "qg_members (p_qg ?P) = qg_members (p_qg P)" "qg_rbt (p_qg ?P) = qg_rbt (p_qg P)"
    "qgroup_usec_adj (p_qg ?P) u = qgroup_usec_adj (p_qg P) u" "member_acts w (p_qg ?P) = member_acts w (p_qg P)" for u
    by (simp_all add: set_state_def qgroup_usec_adj_def cong: member_acts_cong)
  have "distinct (map fst es)" using rbt_rep_distinct [OF assms(2)] by simp
  note run = routine_fold [OF this, of ?P ts w env, unfolded busy, OF _ assms(4)]
  have restart: "P\<lparr>p_qg := (p_qg P)\<lparr>qg_members := M, qg_state := LDMS_QGROUP_STATE_STARTED\<rparr>, p_acts := A\<rparr> =
      P\<lparr>p_qg := (p_qg P)\<lparr>qg_members := M\<rparr>, p_acts := A\<rparr>" for M A
    using assms(1) by (cases "p_qg P") simp
  show ?thesis using run assms(1,3) unfolding qgroup_ask_routine_def busy
    by (simp add: Let_def RBT_FOREACH_fold [OF assms(2)] busy) (simp add: set_members_def set_state_def restart)
qed

lemma example_tree: "\<exists>t. rbt_rep t [(32, (''n1'', ''411'')), (48, (''n2'', ''411''))]"
proof -
  let ?k = "(''n1'', ''411'')" and ?l = "(''n2'', ''411'')"
  have K: "?k \<in> member_keys" "?l \<in> member_keys" by (simp_all add: member_keys_def)
  have "rbt_seq qgroup_rbt_cmp member_keys (rbn_init 32 ?k (rbt_init qgroup_rbt_cmp rbt_blank)) []"
    by (rule rbt_seq_rbn_init) (simp_all add: rbt_seq_init)
  from mk.rbt_ins_seq [OF this _ _ get_key_rbn_init K(1)] obtain t where "rbt_seq qgroup_rbt_cmp member_keys t [(32, ?k)]" by auto
  then have "rbt_seq qgroup_rbt_cmp member_keys (rbn_init 48 ?l t) [(32, ?k)]" by (rule rbt_seq_rbn_init) simp
  from mk.rbt_ins_seq [OF this _ _ get_key_rbn_init K(2)]
  obtain t' where "rbt_seq qgroup_rbt_cmp member_keys t' (ins_entry qgroup_rbt_cmp 48 ?l [(32, ?k)])" by auto
  then show ?thesis by (auto simp: rbt_seq_def qgroup_rbt_cmp_eq)
qed

definition example_member :: "string \<Rightarrow> addr \<Rightarrow> qgroup_member_state \<Rightarrow> qgroup_member" where
  "example_member host x st = \<lparr>c_host = host, c_port = ''411'', c_xprt = ''sock'', c_auth = ''none'', c_auth_av_list = None,
     m_x = x, m_state = st, m_refs = 2\<rparr>"

theorem ask_routine_correct_witness:
  "\<exists>t P. qg_rbt (p_qg P) = t \<and> map_option p_acts (qgroup_ask_routine (5, 0) (\<lambda>a. (96, EOK)) P) =
     Some [SEND_TO_MEMBER 48 (QGROUP_ASK 50 5000000)]"
proof -
  obtain t where t: "rbt_rep t [(32, (''n1'', ''411'')), (48, (''n2'', ''411''))]" using example_tree by blast
  define P where "P = (example_proc [])\<lparr>p_qg := (example_group 20 30)\<lparr>qg_rbt := t,
    qg_members := [32 \<mapsto> example_member ''n1'' NULL LDMS_QGROUP_MEMBER_STATE_DISCONNECTED,
                   48 \<mapsto> example_member ''n2'' 80 LDMS_QGROUP_MEMBER_STATE_CONNECTED]\<rparr>\<rparr>"
  have "qg_state (p_qg P) = LDMS_QGROUP_STATE_STARTED" "rbt_rep (qg_rbt (p_qg P)) [(32, (''n1'', ''411'')), (48, (''n2'', ''411''))]"
    "qgroup_usec_adj (p_qg P) (clock_getusec (5, 0)) = Some 5000000"
    using t by (simp_all add: P_def example_group_def qgroup_usec_adj_def clock_getusec_def)
  from ask_routine_correct [OF this(1,2) _ this(3), of "\<lambda>a. (96, EOK)"] show ?thesis
    by (intro exI [of _ t] exI [of _ P])
      (simp add: P_def example_proc_def example_member_def member_ready_def member_acts_def example_group_def)
qed

text \<open>A group that was started with a sane configuration is the witness that a running group exists.\<close>

definition example_env :: start_env where
  "example_env = \<lparr>se_new = \<lparr>calloc_ok = True, mutex_ok = True, heap_malloc_ok = True, epoll_create_ok = True, pipe_ok = True,
     fcntl0_ok = True, fcntl1_ok = True, epoll_add_ok = True\<rparr>, se_junk = [0, 0, 0, 0], se_ovis_ev = 200, se_pipe_cb = 201,
     se_pfd = 3, se_errno = ENOMEM, se_thread_rc = EOK, se_clk = (\<lambda>_. \<lparr>tv_sec = 5, tv_usec = 0\<rparr>), se_wr = EOK,
     se_self = 202, se_ask_fn = 203, se_reset_fn = 204\<rparr>"

definition example_life :: qg_proc where
  "example_life = \<lparr>p_qg = (qgroup_init (example_group 0 30))\<lparr>qg_cfg := qg_cfg (example_group 0 30)\<rparr>, p_reps = Map.empty,
     p_sched = None, p_thread = False, p_acts = []\<rparr>"

lemma example_start: "map_option (\<lambda>(rc, P). (rc, qg_state (p_qg P))) (qgroup_start example_env example_life) =
    Some (EOK, LDMS_QGROUP_STATE_STARTED)"
  by code_simp


end
