(* ===== verification/Bytes.thy ===== *)
theory Bytes
  imports CString
begin

section \<open>Bytes in memory\<close>

text \<open>
  A piece of memory as the list of its bytes, addressed by the offset from its start. Loads and
  stores outside of the piece are faults. Numbers are stored in little-endian order, the format
  of metric sets on the wire and in memory. \<open>only_changes\<close> is the frame of an operation: the
  bytes it may write.
\<close>

type_synonym u8 = "8 word"
type_synonym u16 = "16 word"
type_synonym mem = "u8 list"

definition load :: "nat \<Rightarrow> nat \<Rightarrow> mem \<Rightarrow> u8 list option" where
  "load a n m = (if a + n \<le> length m then Some (take n (drop a m)) else None)"

definition store :: "nat \<Rightarrow> u8 list \<Rightarrow> mem \<Rightarrow> mem option" where
  "store a bs m =
     (if a + length bs \<le> length m then Some (take a m @ bs @ drop (a + length bs) m) else None)"

fun le_bytes :: "nat \<Rightarrow> nat \<Rightarrow> u8 list" where
  "le_bytes 0 v = []"
| "le_bytes (Suc n) v = of_nat v # le_bytes n (v div 256)"

fun le_nat :: "u8 list \<Rightarrow> nat" where
  "le_nat [] = 0"
| "le_nat (b # bs) = unat b + 256 * le_nat bs"

definition peek :: "nat \<Rightarrow> nat \<Rightarrow> mem \<Rightarrow> nat option" where
  "peek n a m = map_option le_nat (load a n m)"

definition poke :: "nat \<Rightarrow> nat \<Rightarrow> nat \<Rightarrow> mem \<Rightarrow> mem option" where
  "poke n a v m = store a (le_bytes n v) m"

definition str_bytes :: "string \<Rightarrow> u8 list" where
  "str_bytes s = map (\<lambda>c. of_nat (of_char c)) s @ [0]"

fun c_str :: "u8 list \<Rightarrow> string option" where
  "c_str [] = None"
| "c_str (b # bs) = (if b = 0 then Some [] else map_option (Cons (char_of (unat b))) (c_str bs))"

definition peek_str :: "nat \<Rightarrow> mem \<Rightarrow> string option" where
  "peek_str a m = c_str (drop a m)"

subsection \<open>Numbers as bytes\<close>

lemma length_le_bytes [simp]: "length (le_bytes n v) = n"
  by (induction n v rule: le_bytes.induct) simp_all

lemma le_nat_le_bytes [simp]: "le_nat (le_bytes n v) = v mod 256 ^ n"
proof (induction n v rule: le_bytes.induct)
  case (2 n v)
  then show ?case by (simp add: unat_of_nat mod_mult2_eq)
qed simp

lemma u8_less_256: "unat (b :: u8) < 256"
  by (rule order_less_le_trans, rule unsigned_less) simp

lemma of_nat_256 [simp]: "(of_nat (a + 256 * n) :: u8) = of_nat a"
  by (simp only: word_of_nat_eq_iff take_bit_eq_mod) simp

lemma le_nat_bound: "le_nat bs < 256 ^ length bs"
proof (induction bs)
  case (Cons b bs)
  then show ?case using u8_less_256 [of b] by simp
qed simp

lemma le_bytes_le_nat: "le_bytes (length bs) (le_nat bs) = bs"
proof (induction bs)
  case (Cons b bs)
  then show ?case using u8_less_256 [of b] by (simp del: of_nat_add of_nat_mult)
qed simp

declare le_bytes.simps [simp del] le_nat.simps [simp del]

subsection \<open>Loads and stores\<close>

lemma length_store: "store a bs m = Some m' \<Longrightarrow> length m' = length m"
  by (auto simp: store_def split: if_splits)

lemma load_store_same: "store a bs m = Some m' \<Longrightarrow> load a (length bs) m' = Some bs"
  by (auto simp: store_def load_def split: if_splits)

lemma length_load: "load a n m = Some bs \<Longrightarrow> length bs = n"
  by (auto simp: load_def split: if_splits)

definition only_changes :: "nat set \<Rightarrow> mem \<Rightarrow> mem \<Rightarrow> bool" where
  "only_changes S m m' \<longleftrightarrow> length m' = length m \<and> (\<forall>i < length m. i \<notin> S \<longrightarrow> m' ! i = m ! i)"

lemma store_only: "store a bs m = Some m' \<Longrightarrow> only_changes {a..<a + length bs} m m'"
  by (auto simp: store_def only_changes_def nth_append split: if_splits)

lemma poke_only: "poke n a v m = Some m' \<Longrightarrow> only_changes {a..<a + n} m m'"
  using store_only [of a "le_bytes n v"] by (simp add: poke_def)

lemma only_refl [simp]: "only_changes S m m"
  by (simp add: only_changes_def)

lemma only_trans: "only_changes S m m' \<Longrightarrow> only_changes T m' m'' \<Longrightarrow> only_changes (S \<union> T) m m''"
  by (simp add: only_changes_def)

lemma only_weaken: "only_changes S m m' \<Longrightarrow> S \<subseteq> T \<Longrightarrow> only_changes T m m'"
  by (auto simp: only_changes_def)

lemma only_length: "only_changes S m m' \<Longrightarrow> length m' = length m"
  by (simp add: only_changes_def)

lemma load_only:
  assumes "only_changes S m m'" and "\<And>i. a \<le> i \<Longrightarrow> i < a + n \<Longrightarrow> i \<notin> S"
  shows "load a n m' = load a n m"
  using assms by (auto simp: only_changes_def load_def intro!: nth_equalityI)

lemma peek_only:
  "only_changes S m m' \<Longrightarrow> (\<And>i. a \<le> i \<Longrightarrow> i < a + n \<Longrightarrow> i \<notin> S) \<Longrightarrow> peek n a m' = peek n a m"
  by (simp add: peek_def load_only)

lemma peek_poke_same: "poke n a v m = Some m' \<Longrightarrow> peek n a m' = Some (v mod 256 ^ n)"
  using load_store_same [of a "le_bytes n v"] by (simp add: peek_def poke_def)

lemma peek_bound: "peek n a m = Some v \<Longrightarrow> v < 256 ^ n"
  using le_nat_bound length_load by (fastforce simp: peek_def)

lemma peek_Some: "a + n \<le> length m \<Longrightarrow> \<exists>v. peek n a m = Some v"
  by (simp add: peek_def load_def)

lemma load_part:
  assumes "load a n m = Some bs" and "i + k \<le> n"
  shows "load (a + i) k m = Some (take k (drop i bs))"
  using assms by (auto simp: load_def min_def drop_take add.commute split: if_splits)

text \<open>A store as a total function, for rewriting; it does nothing out of bounds.\<close>

definition put :: "nat \<Rightarrow> u8 list \<Rightarrow> mem \<Rightarrow> mem" where
  "put a bs m = (if a + length bs \<le> length m then take a m @ bs @ drop (a + length bs) m else m)"

named_theorems mem_simps \<open>running stores that are in bounds and reading behind them\<close>

lemma store_put [mem_simps]: "a + length bs \<le> length m \<Longrightarrow> store a bs m = Some (put a bs m)"
  by (simp add: store_def put_def)

lemma poke_put [mem_simps]: "a + n \<le> length m \<Longrightarrow> poke n a v m = Some (put a (le_bytes n v) m)"
  by (simp add: poke_def store_put)

lemma length_put [simp]: "length (put a bs m) = length m"
  by (simp add: put_def)

lemma only_put: "only_changes {a..<a + length bs} m (put a bs m)"
  using store_only [of a bs m "put a bs m"] by (cases "a + length bs \<le> length m") (simp_all add: store_put put_def)

lemma only_put_on:
  assumes "only_changes S m0 m" and "{a..<a + length bs} \<subseteq> S"
  shows "only_changes S m0 (put a bs m)"
  using only_trans [OF assms(1) only_put [of a bs]] assms(2) by (simp add: Un_absorb2)

lemma load_put_other [mem_simps]: "b + n \<le> a \<or> a + length bs \<le> b \<Longrightarrow> load b n (put a bs m) = load b n m"
  by (rule load_only [OF only_put]) auto

lemma load_put_same [mem_simps]:
  "a + length bs \<le> length m \<Longrightarrow> n = length bs \<Longrightarrow> load a n (put a bs m) = Some bs"
  using load_store_same store_put by blast

lemma peek_put_other [mem_simps]: "b + n \<le> a \<or> a + length bs \<le> b \<Longrightarrow> peek n b (put a bs m) = peek n b m"
  by (simp add: peek_def load_put_other)

lemma peek_put_same [mem_simps]:
  "a + n \<le> length m \<Longrightarrow> peek n a (put a (le_bytes n v) m) = Some (v mod 256 ^ n)"
  by (simp add: peek_def load_put_same)

subsection \<open>Strings in memory\<close>

lemma length_str_bytes [simp]: "length (str_bytes s) = length s + 1"
  by (simp add: str_bytes_def)

lemma unat_of_char [simp]: "unat (of_nat (of_char c) :: u8) = of_char c"
  by (simp add: unat_of_nat)

lemma of_char_u8_eq_0 [simp]: "(of_nat (of_char c) :: u8) = 0 \<longleftrightarrow> c = CHR 0x00"
proof -
  have "(of_nat (of_char c) :: u8) = 0 \<longleftrightarrow> unat (of_nat (of_char c) :: u8) = 0"
    by (simp only: unat_eq_zero)
  also have "\<dots> \<longleftrightarrow> (of_char c :: nat) = of_char (CHR 0x00)"
    by (simp only: unat_of_char) simp
  finally show ?thesis by (simp only: of_char_eq_iff)
qed

lemma c_str_str_bytes: "c_string s \<Longrightarrow> c_str (str_bytes s @ bs) = Some s"
  by (induction s) (auto simp: str_bytes_def)

lemma peek_str_load:
  assumes "load a (length s + 1) m = Some (str_bytes s)" and "c_string s"
  shows "peek_str a m = Some s"
proof -
  have "drop a m = str_bytes s @ drop (length s + 1) (drop a m)"
    using assms(1) by (metis append_take_drop_id load_def option.distinct(1) option.inject)
  then show ?thesis using c_str_str_bytes [OF assms(2)] by (metis peek_str_def)
qed

end
