(* ===== verification/LdmsSchema.thy ===== *)
theory LdmsSchema
  imports Bytes
begin

unbundle bit_operations_syntax

section \<open>Metric types and schemas (ldms.c, ldms\_core.h, ldms\_private.h)\<close>

text \<open>
  The types of metric values with their sizes, and the operations that build a schema: scalar,
  array and list metrics, record types with their members, and arrays of records. Sizes are
  \<^verbatim>\<open>size_t\<close> values far below \<open>2 ^ 64\<close> and modelled as natural numbers. A negative return code
  \<^verbatim>\<open>-Exxx\<close> is \<open>Inl Exxx\<close>; \<open>mem_ok\<close> says whether the allocations of a call succeed. The schema
  keeps the bytes given to the digest, SHA-256 itself is a parameter of the functions that use it.
\<close>

datatype ldms_value_type =
    LDMS_V_NONE | LDMS_V_CHAR | LDMS_V_U8 | LDMS_V_S8 | LDMS_V_U16 | LDMS_V_S16 | LDMS_V_U32 | LDMS_V_S32
  | LDMS_V_U64 | LDMS_V_S64 | LDMS_V_F32 | LDMS_V_D64
  | LDMS_V_CHAR_ARRAY | LDMS_V_U8_ARRAY | LDMS_V_S8_ARRAY | LDMS_V_U16_ARRAY | LDMS_V_S16_ARRAY
  | LDMS_V_U32_ARRAY | LDMS_V_S32_ARRAY | LDMS_V_U64_ARRAY | LDMS_V_S64_ARRAY | LDMS_V_F32_ARRAY
  | LDMS_V_D64_ARRAY
  | LDMS_V_LIST | LDMS_V_LIST_ENTRY | LDMS_V_RECORD_TYPE | LDMS_V_RECORD_INST | LDMS_V_RECORD_ARRAY
  | LDMS_V_TIMESTAMP

definition value_types :: "ldms_value_type list" where
  "value_types =
     [LDMS_V_NONE, LDMS_V_CHAR, LDMS_V_U8, LDMS_V_S8, LDMS_V_U16, LDMS_V_S16, LDMS_V_U32, LDMS_V_S32,
      LDMS_V_U64, LDMS_V_S64, LDMS_V_F32, LDMS_V_D64,
      LDMS_V_CHAR_ARRAY, LDMS_V_U8_ARRAY, LDMS_V_S8_ARRAY, LDMS_V_U16_ARRAY, LDMS_V_S16_ARRAY,
      LDMS_V_U32_ARRAY, LDMS_V_S32_ARRAY, LDMS_V_U64_ARRAY, LDMS_V_S64_ARRAY, LDMS_V_F32_ARRAY,
      LDMS_V_D64_ARRAY,
      LDMS_V_LIST, LDMS_V_LIST_ENTRY, LDMS_V_RECORD_TYPE, LDMS_V_RECORD_INST, LDMS_V_RECORD_ARRAY,
      LDMS_V_TIMESTAMP]"

text \<open>The number of an enumerator is its position; a byte of memory may hold none of them.\<close>

fun vt_code :: "ldms_value_type \<Rightarrow> nat" where
  "vt_code LDMS_V_NONE = 0" | "vt_code LDMS_V_CHAR = 1" | "vt_code LDMS_V_U8 = 2" | "vt_code LDMS_V_S8 = 3"
| "vt_code LDMS_V_U16 = 4" | "vt_code LDMS_V_S16 = 5" | "vt_code LDMS_V_U32 = 6" | "vt_code LDMS_V_S32 = 7"
| "vt_code LDMS_V_U64 = 8" | "vt_code LDMS_V_S64 = 9" | "vt_code LDMS_V_F32 = 10" | "vt_code LDMS_V_D64 = 11"
| "vt_code LDMS_V_CHAR_ARRAY = 12" | "vt_code LDMS_V_U8_ARRAY = 13" | "vt_code LDMS_V_S8_ARRAY = 14"
| "vt_code LDMS_V_U16_ARRAY = 15" | "vt_code LDMS_V_S16_ARRAY = 16" | "vt_code LDMS_V_U32_ARRAY = 17"
| "vt_code LDMS_V_S32_ARRAY = 18" | "vt_code LDMS_V_U64_ARRAY = 19" | "vt_code LDMS_V_S64_ARRAY = 20"
| "vt_code LDMS_V_F32_ARRAY = 21" | "vt_code LDMS_V_D64_ARRAY = 22" | "vt_code LDMS_V_LIST = 23"
| "vt_code LDMS_V_LIST_ENTRY = 24" | "vt_code LDMS_V_RECORD_TYPE = 25" | "vt_code LDMS_V_RECORD_INST = 26"
| "vt_code LDMS_V_RECORD_ARRAY = 27" | "vt_code LDMS_V_TIMESTAMP = 28"

definition vt_of_code :: "nat \<Rightarrow> ldms_value_type option" where
  "vt_of_code n = (if n < length value_types then Some (value_types ! n) else None)"

definition ldms_type_is_array :: "ldms_value_type \<Rightarrow> bool" where
  "ldms_type_is_array t \<longleftrightarrow> vt_code LDMS_V_CHAR_ARRAY \<le> vt_code t \<and> vt_code t \<le> vt_code LDMS_V_D64_ARRAY"

definition roundup :: "nat \<Rightarrow> nat \<Rightarrow> nat" where
  "roundup v s = nat ((int v + (int s - 1)) AND NOT (int s - 1))"

abbreviation (input) sizeof_value_desc :: nat where "sizeof_value_desc \<equiv> 28"
abbreviation (input) sizeof_set_hdr :: nat where "sizeof_set_hdr \<equiv> 144"
abbreviation (input) sizeof_data_hdr :: nat where "sizeof_data_hdr \<equiv> 96"
abbreviation (input) sizeof_list :: nat where "sizeof_list \<equiv> 12"
abbreviation (input) sizeof_list_entry :: nat where "sizeof_list_entry \<equiv> 12"
abbreviation (input) sizeof_record_type :: nat where "sizeof_record_type \<equiv> 16"
abbreviation (input) sizeof_record_inst :: nat where "sizeof_record_inst \<equiv> 16"
abbreviation (input) sizeof_record_array :: nat where "sizeof_record_array \<equiv> 12"
abbreviation (input) sizeof_timestamp :: nat where "sizeof_timestamp \<equiv> 8"

fun value_bytes :: "ldms_value_type \<Rightarrow> nat \<Rightarrow> nat option" where
  "value_bytes LDMS_V_NONE count = None"
| "value_bytes LDMS_V_U8 count = Some 1"
| "value_bytes LDMS_V_S8 count = Some 1"
| "value_bytes LDMS_V_CHAR count = Some 1"
| "value_bytes LDMS_V_U8_ARRAY count = Some (1 * count)"
| "value_bytes LDMS_V_S8_ARRAY count = Some (1 * count)"
| "value_bytes LDMS_V_CHAR_ARRAY count = Some (1 * count)"
| "value_bytes LDMS_V_U16 count = Some 2"
| "value_bytes LDMS_V_S16 count = Some 2"
| "value_bytes LDMS_V_U16_ARRAY count = Some (2 * count)"
| "value_bytes LDMS_V_S16_ARRAY count = Some (2 * count)"
| "value_bytes LDMS_V_U32 count = Some 4"
| "value_bytes LDMS_V_S32 count = Some 4"
| "value_bytes LDMS_V_U32_ARRAY count = Some (4 * count)"
| "value_bytes LDMS_V_S32_ARRAY count = Some (4 * count)"
| "value_bytes LDMS_V_U64 count = Some 8"
| "value_bytes LDMS_V_S64 count = Some 8"
| "value_bytes LDMS_V_U64_ARRAY count = Some (8 * count)"
| "value_bytes LDMS_V_S64_ARRAY count = Some (8 * count)"
| "value_bytes LDMS_V_F32 count = Some 4"
| "value_bytes LDMS_V_F32_ARRAY count = Some (4 * count)"
| "value_bytes LDMS_V_D64 count = Some 8"
| "value_bytes LDMS_V_D64_ARRAY count = Some (8 * count)"
| "value_bytes LDMS_V_LIST count = Some sizeof_list"
| "value_bytes LDMS_V_LIST_ENTRY count = Some sizeof_list_entry"
| "value_bytes LDMS_V_RECORD_TYPE count = Some sizeof_record_type"
| "value_bytes LDMS_V_RECORD_INST count = Some sizeof_record_inst"
| "value_bytes LDMS_V_RECORD_ARRAY count = Some sizeof_record_array"
| "value_bytes LDMS_V_TIMESTAMP count = Some sizeof_timestamp"

definition ldms_value_size_get :: "ldms_value_type \<Rightarrow> u32 \<Rightarrow> nat option" where
  "ldms_value_size_get t count = map_option (\<lambda>vsz. roundup vsz 8) (value_bytes t (unat count))"

definition desc_size :: "string \<Rightarrow> string option \<Rightarrow> nat" where
  "desc_size name unit =
     (case unit of
        Some unit \<Rightarrow> roundup (sizeof_value_desc + length name + 1 + length unit + 1) 8
      | None \<Rightarrow> roundup (sizeof_value_desc + length name + 1) 8)"

definition ldms_metric_size_get ::
  "string \<Rightarrow> string option \<Rightarrow> ldms_value_type \<Rightarrow> u32 \<Rightarrow> (nat \<times> nat) option" where
  "ldms_metric_size_get name unit t count = do {
     data_sz \<leftarrow> ldms_value_size_get t count;
     Some (desc_size name unit, data_sz) }"

subsection \<open>Definitions of metrics, records and schemas\<close>

abbreviation (input) LDMS_MDESC_F_DATA :: nat where "LDMS_MDESC_F_DATA \<equiv> 1"
abbreviation (input) LDMS_MDESC_F_META :: nat where "LDMS_MDESC_F_META \<equiv> 2"
abbreviation (input) LDMS_MDESC_F_RECORD :: nat where "LDMS_MDESC_F_RECORD \<equiv> 4"

record mdef =
  md_name :: string
  md_unit :: "string option"
  md_type :: ldms_value_type
  md_flags :: nat
  md_count :: u32
  md_meta_sz :: nat
  md_data_sz :: nat

record ldms_record =
  rec_mdef :: mdef
  rec_metric_id :: int
  rec_n :: nat
  rec_inst_sz :: nat
  rec_type_sz :: nat
  rec_metric_list :: "mdef list"

text \<open>
  The metric list of a schema links the \<^verbatim>\<open>struct ldms_mdef_s\<close> at the head of a plain definition, of
  a record type or of an array of records (with the index of its record type and the size of an
  instance).
\<close>

datatype metric_ent = MDEF mdef | REC_DEF ldms_record | REC_ARRAY_DEF mdef int nat

fun ent_mdef :: "metric_ent \<Rightarrow> mdef" where
  "ent_mdef (MDEF m) = m"
| "ent_mdef (REC_DEF r) = rec_mdef r"
| "ent_mdef (REC_ARRAY_DEF m rec_type inst_sz) = m"

record ldms_schema =
  sch_name :: string
  sch_digest :: "u8 list"
  sch_evp :: "u8 list"
  sch_card :: nat
  sch_meta_sz :: nat
  sch_data_sz :: nat
  sch_array_card :: int
  sch_metric_list :: "metric_ent list"

definition flag_on :: "nat \<Rightarrow> nat \<Rightarrow> bool" where
  "flag_on flags f \<longleftrightarrow> flags AND f \<noteq> 0"

abbreviation (input) is_data :: "mdef \<Rightarrow> bool" where
  "is_data m \<equiv> flag_on (md_flags m) LDMS_MDESC_F_DATA"

abbreviation (input) LDMS_DIGEST_LENGTH :: nat where "LDMS_DIGEST_LENGTH \<equiv> 32"

definition ldms_schema_new :: "bool \<Rightarrow> string \<Rightarrow> ldms_schema option" where
  "ldms_schema_new mem_ok schema_name =
     (if mem_ok then Some
        \<lparr>sch_name = schema_name, sch_digest = replicate LDMS_DIGEST_LENGTH 0, sch_evp = [], sch_card = 0,
         sch_meta_sz = sizeof_set_hdr, sch_data_sz = sizeof_data_hdr, sch_array_card = 1, sch_metric_list = []\<rparr>
      else None)"

definition mdef_digest :: "mdef \<Rightarrow> u8 list" where
  "mdef_digest m = map (\<lambda>c. of_nat (of_char c)) (md_name m) @ le_bytes 4 (vt_code (md_type m))"

definition ent_digest :: "metric_ent \<Rightarrow> u8 list" where
  "ent_digest e =
     (case e of REC_DEF r \<Rightarrow> concat (map mdef_digest (rec_metric_list r)) | _ \<Rightarrow> []) @ mdef_digest (ent_mdef e)"

definition schema_mdef_add :: "metric_ent \<Rightarrow> ldms_schema \<Rightarrow> nat \<times> ldms_schema" where
  "schema_mdef_add e s =
     (let m = ent_mdef e;
          s = s\<lparr>sch_evp := sch_evp s @ ent_digest e\<rparr>;
          s = s\<lparr>sch_metric_list := sch_metric_list s @ [e]\<rparr>;
          s = s\<lparr>sch_card := sch_card s + 1\<rparr>;
          s = s\<lparr>sch_meta_sz := sch_meta_sz s + (md_meta_sz m + 4)\<rparr>;
          s = (if is_data m then s\<lparr>sch_data_sz := sch_data_sz s + md_data_sz m\<rparr>
               else s\<lparr>sch_meta_sz := sch_meta_sz s + md_data_sz m\<rparr>)
      in (sch_card s - 1, s))"

definition has_metric :: "string \<Rightarrow> ldms_schema \<Rightarrow> bool" where
  "has_metric name s \<longleftrightarrow> list_ex (\<lambda>e. strcmp (md_name (ent_mdef e)) name = 0) (sch_metric_list s)"

definition schema_metric_add ::
  "bool \<Rightarrow> ldms_schema \<Rightarrow> string option \<Rightarrow> string option \<Rightarrow> nat \<Rightarrow> ldms_value_type \<Rightarrow> u32 \<Rightarrow>
   ((errno + nat) \<times> ldms_schema) option" where
  "schema_metric_add mem_ok s name unit flags type array_count =
     (case name of
        None \<Rightarrow> Some (Inl EINVAL, s)
      | Some name \<Rightarrow>
          if has_metric name s then Some (Inl EEXIST, s)
          else if flag_on flags LDMS_MDESC_F_META \<and> type = LDMS_V_LIST then Some (Inl EINVAL, s)
          else if \<not> mem_ok then Some (Inl ENOMEM, s)
          else do {
            (meta_sz, data_sz) \<leftarrow> ldms_metric_size_get name unit type array_count;
            let m = \<lparr>md_name = name, md_unit = unit, md_type = type, md_flags = flags, md_count = array_count,
                     md_meta_sz = meta_sz, md_data_sz = data_sz\<rparr>;
            let (idx, s) = schema_mdef_add (MDEF m) s;
            Some (Inr idx, s) })"

definition ldms_schema_metric_add_with_unit ::
  "bool \<Rightarrow> ldms_schema \<Rightarrow> string option \<Rightarrow> string option \<Rightarrow> ldms_value_type \<Rightarrow> ((errno + nat) \<times> ldms_schema) option" where
  "ldms_schema_metric_add_with_unit mem_ok s name unit type =
     (if ldms_type_is_array type \<or> type = LDMS_V_LIST then Some (Inl EINVAL, s)
      else schema_metric_add mem_ok s name unit LDMS_MDESC_F_DATA type 1)"

definition ldms_schema_metric_add ::
  "bool \<Rightarrow> ldms_schema \<Rightarrow> string option \<Rightarrow> ldms_value_type \<Rightarrow> ((errno + nat) \<times> ldms_schema) option" where
  "ldms_schema_metric_add mem_ok s name type = ldms_schema_metric_add_with_unit mem_ok s name (Some []) type"

definition ldms_schema_meta_add_with_unit ::
  "bool \<Rightarrow> ldms_schema \<Rightarrow> string option \<Rightarrow> string option \<Rightarrow> ldms_value_type \<Rightarrow> ((errno + nat) \<times> ldms_schema) option" where
  "ldms_schema_meta_add_with_unit mem_ok s name unit type =
     (if type = LDMS_V_LIST \<or> vt_code type > vt_code LDMS_V_TIMESTAMP then Some (Inl EINVAL, s)
      else schema_metric_add mem_ok s name unit LDMS_MDESC_F_META type 1)"

definition ldms_schema_meta_add ::
  "bool \<Rightarrow> ldms_schema \<Rightarrow> string option \<Rightarrow> ldms_value_type \<Rightarrow> ((errno + nat) \<times> ldms_schema) option" where
  "ldms_schema_meta_add mem_ok s name type = ldms_schema_meta_add_with_unit mem_ok s name (Some []) type"

definition ldms_schema_metric_array_add_with_unit ::
  "bool \<Rightarrow> ldms_schema \<Rightarrow> string option \<Rightarrow> string option \<Rightarrow> ldms_value_type \<Rightarrow> u32 \<Rightarrow>
   ((errno + nat) \<times> ldms_schema) option" where
  "ldms_schema_metric_array_add_with_unit mem_ok s name unit type count =
     (if \<not> ldms_type_is_array type then Some (Inl EINVAL, s)
      else schema_metric_add mem_ok s name unit LDMS_MDESC_F_DATA type count)"

definition ldms_schema_metric_array_add ::
  "bool \<Rightarrow> ldms_schema \<Rightarrow> string option \<Rightarrow> ldms_value_type \<Rightarrow> u32 \<Rightarrow> ((errno + nat) \<times> ldms_schema) option" where
  "ldms_schema_metric_array_add mem_ok s name type count =
     ldms_schema_metric_array_add_with_unit mem_ok s name (Some []) type count"

definition ldms_schema_meta_array_add_with_unit ::
  "bool \<Rightarrow> ldms_schema \<Rightarrow> string option \<Rightarrow> string option \<Rightarrow> ldms_value_type \<Rightarrow> u32 \<Rightarrow>
   ((errno + nat) \<times> ldms_schema) option" where
  "ldms_schema_meta_array_add_with_unit mem_ok s name unit type count =
     schema_metric_add mem_ok s name unit LDMS_MDESC_F_META type count"

definition ldms_schema_meta_array_add ::
  "bool \<Rightarrow> ldms_schema \<Rightarrow> string option \<Rightarrow> ldms_value_type \<Rightarrow> u32 \<Rightarrow> ((errno + nat) \<times> ldms_schema) option" where
  "ldms_schema_meta_array_add mem_ok s name type count =
     ldms_schema_meta_array_add_with_unit mem_ok s name (Some []) type count"

definition ldms_schema_metric_list_add ::
  "bool \<Rightarrow> ldms_schema \<Rightarrow> string option \<Rightarrow> string option \<Rightarrow> u32 \<Rightarrow> ((errno + nat) \<times> ldms_schema) option" where
  "ldms_schema_metric_list_add mem_ok s name units heap_sz =
     schema_metric_add mem_ok s name units LDMS_MDESC_F_DATA LDMS_V_LIST heap_sz"

definition ldms_schema_array_card_set :: "ldms_schema \<Rightarrow> int \<Rightarrow> errno \<times> ldms_schema" where
  "ldms_schema_array_card_set schema c =
     (if c < 0 then (EINVAL, schema) else (EOK, schema\<lparr>sch_array_card := c\<rparr>))"

subsection \<open>Records\<close>

definition ldms_record_create :: "bool \<Rightarrow> string option \<Rightarrow> (errno + ldms_record) option" where
  "ldms_record_create mem_ok name =
     (case name of
        None \<Rightarrow> Some (Inl EINVAL)
      | Some name \<Rightarrow>
          if \<not> mem_ok then Some (Inl ENOMEM)
          else do {
            (meta_sz, data_sz) \<leftarrow> ldms_metric_size_get name None LDMS_V_RECORD_TYPE 0;
            Some (Inr \<lparr>rec_mdef = \<lparr>md_name = name, md_unit = None, md_type = LDMS_V_RECORD_TYPE,
                                    md_flags = LDMS_MDESC_F_META OR LDMS_MDESC_F_RECORD, md_count = 0,
                                    md_meta_sz = meta_sz, md_data_sz = data_sz\<rparr>,
                       rec_metric_id = -1, rec_n = 0, rec_inst_sz = sizeof_record_inst, rec_type_sz = 0,
                       rec_metric_list = []\<rparr>) })"

text \<open>
  A member is added to a record that may already belong to a schema, whose size of the metadata
  then grows with it: the result has the index of the member, the record and that growth.
\<close>

definition record_member_add ::
  "bool \<Rightarrow> ldms_record \<Rightarrow> string option \<Rightarrow> string option \<Rightarrow> ldms_value_type \<Rightarrow> u32 \<Rightarrow>
   (errno + nat \<times> ldms_record \<times> nat) option" where
  "record_member_add mem_ok rec_def name unit type count =
     (if \<not> mem_ok then Some (Inl ENOMEM)
      else case name of
        None \<Rightarrow> Some (Inl EINVAL)
      | Some name \<Rightarrow> do {
          (meta_sz, data_sz) \<leftarrow> ldms_metric_size_get name unit type count;
          let m = \<lparr>md_name = name, md_unit = unit, md_type = type,
                   md_flags = LDMS_MDESC_F_DATA OR LDMS_MDESC_F_RECORD, md_count = count,
                   md_meta_sz = meta_sz, md_data_sz = data_sz\<rparr>;
          let idx = rec_n rec_def;
          let tsz = meta_sz + 4;
          Some (Inr (idx,
            rec_def\<lparr>rec_n := rec_n rec_def + 1,
                    rec_metric_list := rec_metric_list rec_def @ [m],
                    rec_mdef := (rec_mdef rec_def)\<lparr>md_data_sz := md_data_sz (rec_mdef rec_def) + tsz\<rparr>,
                    rec_type_sz := rec_type_sz rec_def + tsz,
                    rec_inst_sz := rec_inst_sz rec_def + data_sz\<rparr>,
            tsz)) })"

definition ldms_record_metric_add ::
  "bool \<Rightarrow> ldms_record \<Rightarrow> string option \<Rightarrow> string option \<Rightarrow> ldms_value_type \<Rightarrow> u32 \<Rightarrow>
   ((errno + nat) \<times> ldms_record) option" where
  "ldms_record_metric_add mem_ok rec_def name unit type count = do {
     r \<leftarrow> record_member_add mem_ok rec_def name unit type count;
     Some (case r of Inl e \<Rightarrow> (Inl e, rec_def) | Inr (idx, rec_def, tsz) \<Rightarrow> (Inr idx, rec_def)) }"

definition schema_record_metric_add ::
  "bool \<Rightarrow> ldms_schema \<Rightarrow> nat \<Rightarrow> string option \<Rightarrow> string option \<Rightarrow> ldms_value_type \<Rightarrow> u32 \<Rightarrow>
   ((errno + nat) \<times> ldms_schema) option" where
  "schema_record_metric_add mem_ok s mid name unit type count =
     (if mid \<ge> length (sch_metric_list s) then None
      else case sch_metric_list s ! mid of
        REC_DEF rec_def \<Rightarrow> do {
          r \<leftarrow> record_member_add mem_ok rec_def name unit type count;
          Some (case r of
              Inl e \<Rightarrow> (Inl e, s)
            | Inr (idx, rec_def, tsz) \<Rightarrow>
                (Inr idx, s\<lparr>sch_meta_sz := sch_meta_sz s + tsz,
                            sch_metric_list := (sch_metric_list s)[mid := REC_DEF rec_def]\<rparr>)) }
      | _ \<Rightarrow> None)"

definition ldms_schema_record_add :: "ldms_schema \<Rightarrow> ldms_record \<Rightarrow> (errno + nat) \<times> ldms_schema" where
  "ldms_schema_record_add s rec_def =
     (if has_metric (md_name (rec_mdef rec_def)) s then (Inl EEXIST, s)
      else if rec_metric_id rec_def \<ge> 0 then (Inl EBUSY, s)
      else let (mid, s) = schema_mdef_add (REC_DEF (rec_def\<lparr>rec_metric_id := int (sch_card s)\<rparr>)) s;
               s = s\<lparr>sch_meta_sz := sch_meta_sz s + rec_type_sz rec_def\<rparr>
           in (Inr mid, s))"

definition ldms_schema_record_array_add ::
  "bool \<Rightarrow> ldms_schema \<Rightarrow> string \<Rightarrow> ldms_record \<Rightarrow> nat \<Rightarrow> ((errno + nat) \<times> ldms_schema) option" where
  "ldms_schema_record_array_add mem_ok s name rec_def array_len =
     (if rec_metric_id rec_def < 0 then Some (Inl EINVAL, s)
      else if has_metric name s then Some (Inl EEXIST, s)
      else if \<not> mem_ok then Some (Inl ENOMEM, s)
      else do {
        (meta_sz, data_sz) \<leftarrow> ldms_metric_size_get name None LDMS_V_RECORD_ARRAY (of_nat array_len);
        let data_sz = sizeof_record_array + array_len * rec_inst_sz rec_def;
        let m = \<lparr>md_name = name, md_unit = None, md_type = LDMS_V_RECORD_ARRAY, md_flags = LDMS_MDESC_F_DATA,
                 md_count = of_nat array_len, md_meta_sz = meta_sz, md_data_sz = roundup data_sz 8\<rparr>;
        let (idx, s) = schema_mdef_add (REC_ARRAY_DEF m (rec_metric_id rec_def) (rec_inst_sz rec_def)) s;
        Some (Inr idx, s) })"

subsection \<open>Templates\<close>

text \<open>
  A template names the record type of a record type and of an array of records, here by its index.
\<close>

record metric_template =
  mt_name :: string
  mt_flags :: nat
  mt_type :: ldms_value_type
  mt_unit :: "string option"
  mt_len :: u32
  mt_rec_def :: "nat option"

definition mdef_template :: "mdef \<Rightarrow> nat option \<Rightarrow> metric_template" where
  "mdef_template m rec_def =
     \<lparr>mt_name = md_name m, mt_flags = md_flags m, mt_type = md_type m, mt_unit = md_unit m,
      mt_len = md_count m, mt_rec_def = rec_def\<rparr>"

definition ldms_schema_metric_template_get :: "ldms_schema \<Rightarrow> int \<Rightarrow> errno + metric_template" where
  "ldms_schema_metric_template_get schema mid =
     (if mid < 0 \<or> int (sch_card schema) \<le> mid then Inl ENOENT
      else let m = ent_mdef (sch_metric_list schema ! nat mid) in
        Inr (mdef_template m (if md_type m = LDMS_V_RECORD_TYPE then Some (nat mid) else None)))"

fun bulk_templates :: "metric_ent list \<Rightarrow> metric_template list \<Rightarrow> metric_template list option" where
  "bulk_templates [] out = Some out"
| "bulk_templates (e # es) out = do {
     rec_def \<leftarrow> (case e of
         REC_ARRAY_DEF m mid inst_sz \<Rightarrow> do {
           c_assert (mid < int (length out));
           if mid < 0 then None else Some (mt_rec_def (out ! nat mid)) }
       | _ \<Rightarrow> Some (if md_type (ent_mdef e) = LDMS_V_RECORD_TYPE then Some (length out) else None));
     bulk_templates es (out @ [mdef_template (ent_mdef e) rec_def]) }"

definition ldms_schema_bulk_template_get :: "ldms_schema \<Rightarrow> nat \<Rightarrow> (nat \<times> metric_template list) option" where
  "ldms_schema_bulk_template_get schema len = do {
     out \<leftarrow> bulk_templates (take len (take (sch_card schema) (sch_metric_list schema))) [];
     Some (sch_card schema, out) }"

definition ldms_record_metric_template_get :: "ldms_record \<Rightarrow> int \<Rightarrow> errno + metric_template" where
  "ldms_record_metric_template_get rec_def mid =
     (if mid < 0 \<or> int (rec_n rec_def) \<le> mid then Inl ENOENT
      else Inr (mdef_template (rec_metric_list rec_def ! nat mid) None))"

definition ldms_record_bulk_template_get :: "ldms_record \<Rightarrow> nat \<Rightarrow> nat \<times> metric_template list" where
  "ldms_record_bulk_template_get rec_def len =
     (rec_n rec_def, map (\<lambda>m. mdef_template m None) (take (min len (rec_n rec_def)) (rec_metric_list rec_def)))"

subsection \<open>Sizes of a set\<close>

abbreviation (input) LDMS_LIST_HEAP :: u32 where "LDMS_LIST_HEAP \<equiv> 512"
abbreviation (input) LDMS_HEAP_MIN_SIZE :: nat where "LDMS_HEAP_MIN_SIZE \<equiv> 512"

definition ldms_heap_size :: "nat \<Rightarrow> nat" where
  "ldms_heap_size sz = roundup sz LDMS_HEAP_MIN_SIZE"

definition default_list_heap :: "metric_ent \<Rightarrow> metric_ent" where
  "default_list_heap e =
     (case e of
        MDEF m \<Rightarrow> if md_type m = LDMS_V_LIST \<and> md_count m = 0 then MDEF (m\<lparr>md_count := LDMS_LIST_HEAP\<rparr>) else e
      | _ \<Rightarrow> e)"

definition list_heap :: "metric_ent list \<Rightarrow> nat" where
  "list_heap es = sum_list (map (\<lambda>e. if md_type (ent_mdef e) = LDMS_V_LIST then unat (md_count (ent_mdef e)) else 0) es)"

record set_sizes =
  sz_array_card :: nat
  sz_meta :: nat
  sz_array_data :: nat
  sz_heap :: nat
  sz_total :: nat

text \<open>
  \<open>None\<close> is a failed assertion, \<open>Inl\<close> the return value 0 with \<^verbatim>\<open>errno\<close>. A list without a size of its
  own gets the default, which the call writes into the schema.
\<close>

definition compute_set_sizes ::
  "string \<Rightarrow> ldms_schema \<Rightarrow> nat \<Rightarrow> ((errno + set_sizes) \<times> ldms_schema) option" where
  "compute_set_sizes instance_name schema heap_sz = do {
     let schema = schema\<lparr>sch_metric_list := map default_list_heap (sch_metric_list schema)\<rparr>;
     let hsz = list_heap (sch_metric_list schema);
     let heap_sz = ldms_heap_size (if heap_sz < hsz then hsz else heap_sz);
     if sch_array_card schema < 0 then Some (Inl EINVAL, schema)
     else do {
       let array_card = (if sch_array_card schema = 0 then 1 else nat (sch_array_card schema));
       let meta_sz = sch_meta_sz schema + (length (sch_name schema) + 2) + LDMS_DIGEST_LENGTH
                     + (length instance_name + 2);
       let meta_sz = roundup meta_sz 8;
       c_assert (sch_data_sz schema = roundup (sch_data_sz schema) 8);
       let array_data_sz = (sch_data_sz schema + heap_sz) * array_card;
       Some (Inr \<lparr>sz_array_card = array_card, sz_meta = meta_sz, sz_array_data = array_data_sz,
                  sz_heap = heap_sz, sz_total = meta_sz + array_data_sz\<rparr>, schema) } }"

definition ldms_schema_finalize :: "(u8 list \<Rightarrow> u8 list) \<Rightarrow> ldms_schema \<Rightarrow> ldms_schema" where
  "ldms_schema_finalize sha256 schema =
     (if sch_digest schema \<noteq> replicate LDMS_DIGEST_LENGTH 0 then schema
      else schema\<lparr>sch_digest := sha256 (sch_evp schema)\<rparr>)"

end
