(* ===== verification/MetricSet.thy ===== *)
theory MetricSet
  imports LdmsSchema
begin

unbundle bit_operations_syntax

section \<open>Metric sets in memory (ldms.c, ldms\_core.h, ldms\_heap.c)\<close>

text \<open>
  A metric set is one piece of memory: the header with the dictionary, the names, the descriptors
  of the metrics and the values of the metadata, followed by the buffers of the set array, each a
  data header, the values and the heap of the lists. The model keeps the bytes of that piece, and
  every access is a load or store at the offset the C structures give it. Pointers into the set
  are offsets from the start of the piece; its address \<open>set_meta\<close> only matters where the code
  rounds a pointer. The machine is little-endian, as the byte order of the format.
\<close>

record ldms_set =
  set_mem :: mem
  set_meta :: addr
  set_data :: nat
  set_data_array :: nat
  set_curr_idx :: nat
  set_flags :: nat
  set_heap :: "nat option"

text \<open>Offsets of the fields of \<^verbatim>\<open>struct ldms_set_hdr\<close>, \<^verbatim>\<open>struct ldms_data_hdr\<close> and \<^verbatim>\<open>struct ldms_value_desc\<close>.\<close>

abbreviation (input) h_producer_name :: nat where "h_producer_name \<equiv> 0"
abbreviation (input) h_meta_gn :: nat where "h_meta_gn \<equiv> 64"
abbreviation (input) h_version :: nat where "h_version \<equiv> 72"
abbreviation (input) h_flags :: nat where "h_flags \<equiv> 76"
abbreviation (input) h_card :: nat where "h_card \<equiv> 80"
abbreviation (input) h_meta_sz :: nat where "h_meta_sz \<equiv> 84"
abbreviation (input) h_data_sz :: nat where "h_data_sz \<equiv> 88"
abbreviation (input) h_uid :: nat where "h_uid \<equiv> 92"
abbreviation (input) h_gid :: nat where "h_gid \<equiv> 96"
abbreviation (input) h_perm :: nat where "h_perm \<equiv> 100"
abbreviation (input) h_array_card :: nat where "h_array_card \<equiv> 104"
abbreviation (input) h_heap_sz :: nat where "h_heap_sz \<equiv> 108"
abbreviation (input) h_dict :: "nat \<Rightarrow> nat" where "h_dict i \<equiv> 140 + 4 * i"

abbreviation (input) d_ts_sec :: nat where "d_ts_sec \<equiv> 0"
abbreviation (input) d_ts_usec :: nat where "d_ts_usec \<equiv> 4"
abbreviation (input) d_dur_sec :: nat where "d_dur_sec \<equiv> 8"
abbreviation (input) d_dur_usec :: nat where "d_dur_usec \<equiv> 12"
abbreviation (input) d_trans_flags :: nat where "d_trans_flags \<equiv> 16"
abbreviation (input) d_set_off :: nat where "d_set_off \<equiv> 20"
abbreviation (input) d_gn :: nat where "d_gn \<equiv> 24"
abbreviation (input) d_size :: nat where "d_size \<equiv> 32"
abbreviation (input) d_meta_gn :: nat where "d_meta_gn \<equiv> 40"
abbreviation (input) d_curr_idx :: nat where "d_curr_idx \<equiv> 48"
abbreviation (input) d_heap :: nat where "d_heap \<equiv> 56"

abbreviation (input) heap_grain :: nat where "heap_grain \<equiv> 0"
abbreviation (input) heap_size :: nat where "heap_size \<equiv> 8"
abbreviation (input) heap_gn :: nat where "heap_gn \<equiv> 16"
abbreviation (input) heap_size_tree :: nat where "heap_size_tree \<equiv> 24"
abbreviation (input) heap_addr_tree :: nat where "heap_addr_tree \<equiv> 32"

abbreviation (input) vd_user_data :: nat where "vd_user_data \<equiv> 0"
abbreviation (input) vd_data_offset :: nat where "vd_data_offset \<equiv> 8"
abbreviation (input) vd_array_count :: nat where "vd_array_count \<equiv> 12"
abbreviation (input) vd_type :: nat where "vd_type \<equiv> 24"
abbreviation (input) vd_flags :: nat where "vd_flags \<equiv> 25"
abbreviation (input) vd_name_unit_len :: nat where "vd_name_unit_len \<equiv> 26"
abbreviation (input) vd_name_unit :: nat where "vd_name_unit \<equiv> 27"

abbreviation (input) LDMS_TRANSACTION_NONE :: nat where "LDMS_TRANSACTION_NONE \<equiv> 0"
abbreviation (input) LDMS_TRANSACTION_BEGIN :: nat where "LDMS_TRANSACTION_BEGIN \<equiv> 1"
abbreviation (input) LDMS_TRANSACTION_END :: nat where "LDMS_TRANSACTION_END \<equiv> 2"

abbreviation (input) LDMS_SET_F_LOCAL :: nat where "LDMS_SET_F_LOCAL \<equiv> 4"
abbreviation (input) LDMS_SET_F_DATA_COPY :: nat where "LDMS_SET_F_DATA_COPY \<equiv> 32"

subsection \<open>Names in the header\<close>

definition get_instance_name :: "mem \<Rightarrow> nat option" where
  "get_instance_name m = do {
     n \<leftarrow> peek 4 h_card m;
     Some (h_dict n) }"

definition get_schema_name :: "mem \<Rightarrow> nat option" where
  "get_schema_name m = do {
     inst \<leftarrow> get_instance_name m;
     len \<leftarrow> peek 1 inst m;
     Some (inst + 1 + len) }"

definition get_first_metric_desc :: "addr \<Rightarrow> mem \<Rightarrow> nat option" where
  "get_first_metric_desc meta m = do {
     name \<leftarrow> get_schema_name m;
     len \<leftarrow> peek 1 name m;
     Some (roundup (meta + (name + 1 + len)) 8 - meta) }"

subsection \<open>The heap of a buffer\<close>

text \<open>
  \<^verbatim>\<open>rrbt_ins\<close> on an empty tree: the node is the black root, stored as an offset from the base.
\<close>

definition rrbt_ins_root :: "nat \<Rightarrow> nat \<Rightarrow> nat \<Rightarrow> mem \<Rightarrow> mem option" where
  "rrbt_ins_root root base x m = do {
     m \<leftarrow> poke 8 x 1 m;
     m \<leftarrow> poke 8 (x + 8) 0 m;
     m \<leftarrow> poke 8 (x + 16) 0 m;
     poke 8 root (x - base) m }"

definition ldms_heap_grain_size :: "nat \<Rightarrow> nat" where
  "ldms_heap_grain_size grain_sz = (if grain_sz > 64 then grain_sz else 64)"

function pow2_from :: "nat \<Rightarrow> nat \<Rightarrow> nat \<Rightarrow> nat \<times> nat" where
  "pow2_from grain grain_bits n =
     (if 0 < grain \<and> grain < n then pow2_from (2 * grain) (grain_bits + 1) n else (grain, grain_bits))"
  by auto

termination by (relation "measure (\<lambda>(grain, grain_bits, n). n - grain)") auto

definition ldms_heap_init :: "addr \<Rightarrow> nat \<Rightarrow> nat \<Rightarrow> nat \<Rightarrow> nat \<Rightarrow> mem \<Rightarrow> mem option" where
  "ldms_heap_init meta heap base sz grain m =
     (if sz = 0 then poke 8 (heap + heap_size) 0 m
      else do {
        let sz = roundup sz LDMS_HEAP_MIN_SIZE;
        let (grain, grain_bits) = pow2_from 1 0 (ldms_heap_grain_size grain);
        m \<leftarrow> poke 4 (heap + heap_grain) (grain_bits + 256 * grain) m;
        m \<leftarrow> poke 8 (heap + heap_size) sz m;
        m \<leftarrow> poke 4 (heap + heap_gn) 0 m;
        m \<leftarrow> poke 8 (heap + heap_size_tree) 0 m;
        m \<leftarrow> poke 8 (heap + heap_addr_tree) 0 m;
        m \<leftarrow> store base (str_bytes ''BOHEAP0'') m;
        let pfx = base + 8;
        c_assert ((meta + pfx) mod 8 = 0);
        m \<leftarrow> poke 8 (pfx + 56) (sz div grain) m;
        m \<leftarrow> rrbt_ins_root (heap + heap_size_tree) base (pfx + 32) m;
        m \<leftarrow> poke 8 (pfx + 24) (pfx - base) m;
        rrbt_ins_root (heap + heap_addr_tree) base pfx m })"

definition ldms_heap_get :: "nat \<Rightarrow> mem \<Rightarrow> nat option" where
  "ldms_heap_get base m = do {
     signature \<leftarrow> load base 8 m;
     c_assert (signature = str_bytes ''BOHEAP0'');
     Some base }"

subsection \<open>Creating a set\<close>

definition ldms_set_instance_name_char_allowed :: "char \<Rightarrow> bool" where
  "ldms_set_instance_name_char_allowed c =
     (let v = of_char c :: nat in \<not> (v < 32 \<or> v = 127) \<and> v \<noteq> 34 \<and> v \<noteq> 39 \<and> v \<noteq> 92 \<and> \<not> v > 127)"

definition set_hdr_init ::
  "ldms_schema \<Rightarrow> set_sizes \<Rightarrow> u32 \<Rightarrow> u32 \<Rightarrow> u32 \<Rightarrow> mem \<Rightarrow> mem option" where
  "set_hdr_init schema sz uid gid perm m = do {
     m \<leftarrow> store h_version [4, 2, 0, 0] m;
     m \<leftarrow> poke 4 h_card (sch_card schema) m;
     m \<leftarrow> poke 4 h_meta_sz (sz_meta sz) m;
     m \<leftarrow> poke 4 h_data_sz (sch_data_sz schema + sz_heap sz) m;
     m \<leftarrow> poke 4 h_heap_sz (sz_heap sz) m;
     m \<leftarrow> poke 8 h_meta_gn 1 m;
     m \<leftarrow> poke 1 h_flags 2 m;
     m \<leftarrow> poke 4 h_uid (unat uid) m;
     m \<leftarrow> poke 4 h_gid (unat gid) m;
     m \<leftarrow> poke 4 h_perm (unat perm) m;
     poke 4 h_array_card (sz_array_card sz) m }"

definition set_names_init :: "string \<Rightarrow> ldms_schema \<Rightarrow> mem \<Rightarrow> mem option" where
  "set_names_init instance_name schema m = do {
     lname \<leftarrow> get_instance_name m;
     m \<leftarrow> poke 1 lname (length instance_name + 1) m;
     m \<leftarrow> store (lname + 1) (str_bytes instance_name) m;
     lname \<leftarrow> get_schema_name m;
     let schema_sz = length (sch_name schema) + 1;
     m \<leftarrow> store (lname + 1) (str_bytes (sch_name schema)) m;
     m \<leftarrow> store (lname + 1 + schema_sz) (sch_digest schema) m;
     poke 1 lname (schema_sz + LDMS_DIGEST_LENGTH + 1) m }"

abbreviation (input) LDMS_LIST_GRAIN :: nat where "LDMS_LIST_GRAIN \<equiv> 32"

definition data_hdr_init ::
  "addr \<Rightarrow> ldms_schema \<Rightarrow> set_sizes \<Rightarrow> nat \<Rightarrow> mem \<Rightarrow> mem option" where
  "data_hdr_init meta schema sz i m = do {
     let data = sz_meta sz + i * (sch_data_sz schema + sz_heap sz);
     m \<leftarrow> poke 8 (data + d_size) (sch_data_sz schema + sz_heap sz) m;
     m \<leftarrow> poke 4 (data + d_curr_idx) (sz_array_card sz - 1) m;
     meta_gn \<leftarrow> peek 8 h_meta_gn m;
     m \<leftarrow> poke 8 (data + d_meta_gn) meta_gn m;
     m \<leftarrow> poke 8 (data + d_gn) meta_gn m;
     m \<leftarrow> poke 4 (data + d_set_off) data m;
     if sz_heap sz \<noteq> 0
     then ldms_heap_init meta (data + d_heap) (data + sch_data_sz schema) (sz_heap sz) LDMS_LIST_GRAIN m
     else Some m }"

fun data_hdrs_init :: "addr \<Rightarrow> ldms_schema \<Rightarrow> set_sizes \<Rightarrow> nat list \<Rightarrow> mem \<Rightarrow> mem option" where
  "data_hdrs_init meta schema sz [] m = Some m"
| "data_hdrs_init meta schema sz (i # is) m = do {
     m \<leftarrow> data_hdr_init meta schema sz i m;
     data_hdrs_init meta schema sz is m }"

definition make_mdesc :: "nat \<Rightarrow> mdef \<Rightarrow> nat \<Rightarrow> mem \<Rightarrow> (nat \<times> mem) option" where
  "make_mdesc vd md value_off m = do {
     m \<leftarrow> poke 1 (vd + vd_type) (vt_code (md_type md)) m;
     m \<leftarrow> poke 1 (vd + vd_flags) (md_flags md) m;
     m \<leftarrow> poke 4 (vd + vd_array_count) (unat (md_count md)) m;
     let name_len = length (md_name md) + 1;
     m \<leftarrow> store (vd + vd_name_unit) (str_bytes (md_name md)) m;
     (unit_len, m) \<leftarrow> (case md_unit md of
         Some unit \<Rightarrow> do {
           m \<leftarrow> store (vd + vd_name_unit + name_len) (str_bytes unit) m;
           Some (length unit + 1, m) }
       | None \<Rightarrow> Some (0, m));
     m \<leftarrow> poke 1 (vd + vd_name_unit_len) (name_len + unit_len) m;
     if is_data md then do {
       m \<leftarrow> poke 4 (vd + vd_data_offset) value_off m;
       sz \<leftarrow> ldms_value_size_get (md_type md) (md_count md);
       Some (value_off + sz, m) }
     else do {
       m \<leftarrow> poke 4 (vd + vd_data_offset) 0 m;
       Some (value_off, m) } }"

fun add_metrics :: "metric_ent list \<Rightarrow> nat \<Rightarrow> nat \<Rightarrow> nat \<Rightarrow> mem \<Rightarrow> (nat \<times> mem) option" where
  "add_metrics [] metric_idx vd value_off m = Some (vd, m)"
| "add_metrics (e # es) metric_idx vd value_off m = do {
     let md = ent_mdef e;
     m \<leftarrow> poke 4 (h_dict metric_idx) vd m;
     (value_off, m) \<leftarrow> make_mdesc vd md value_off m;
     let value_off = (if md_type md = LDMS_V_RECORD_ARRAY
                      then value_off + unat (md_count md) * md_data_sz md else value_off);
     add_metrics es (metric_idx + 1) (vd + md_meta_sz md) value_off m }"

abbreviation (input) LDMS_RECORD_F_TYPE :: nat where "LDMS_RECORD_F_TYPE \<equiv> 1"
abbreviation (input) LDMS_RECORD_F_INST :: nat where "LDMS_RECORD_F_INST \<equiv> 2"

fun make_rec_members :: "mdef list \<Rightarrow> nat \<Rightarrow> nat \<Rightarrow> nat \<Rightarrow> nat \<Rightarrow> mem \<Rightarrow> (nat \<times> nat \<times> mem) option" where
  "make_rec_members [] rec_type j rec_type_off rec_inst_off m = Some (rec_type_off, rec_inst_off, m)"
| "make_rec_members (rec_md # mds) rec_type j rec_type_off rec_inst_off m = do {
     m \<leftarrow> poke 4 (rec_type + 16 + 4 * j) rec_type_off m;
     let rec_vd = rec_type + rec_type_off;
     m \<leftarrow> poke 8 (rec_vd + vd_user_data) 0x012345678abcdef m;
     (rec_inst_off, m) \<leftarrow> make_mdesc rec_vd rec_md rec_inst_off m;
     len \<leftarrow> peek 1 (rec_vd + vd_name_unit_len) m;
     c_assert (sizeof_value_desc + len \<le> md_meta_sz rec_md);
     make_rec_members mds rec_type (j + 1) (rec_type_off + md_meta_sz rec_md) rec_inst_off m }"

definition make_rec_type :: "ldms_record \<Rightarrow> nat \<Rightarrow> mem \<Rightarrow> mem option" where
  "make_rec_type rec_def rec_type m = do {
     m \<leftarrow> poke 4 rec_type LDMS_RECORD_F_TYPE m;
     (rec_type_off, rec_inst_off, m) \<leftarrow>
       make_rec_members (rec_metric_list rec_def) rec_type 0 (sizeof_record_type + rec_n rec_def * 4)
         sizeof_record_inst m;
     c_assert (rec_inst_off = rec_inst_sz rec_def);
     c_assert (rec_type_off = md_data_sz (rec_mdef rec_def));
     m \<leftarrow> poke 4 (rec_type + 8) (rec_n rec_def) m;
     poke 4 (rec_type + 12) rec_inst_off m }"

fun place_meta :: "metric_ent list \<Rightarrow> nat \<Rightarrow> nat \<Rightarrow> mem \<Rightarrow> mem option" where
  "place_meta [] i value_off m = Some m"
| "place_meta (e # es) i value_off m = do {
     vd \<leftarrow> peek 4 (h_dict i) m;
     flags \<leftarrow> peek 1 (vd + vd_flags) m;
     if flag_on flags LDMS_MDESC_F_DATA then place_meta es (i + 1) value_off m
     else do {
       m \<leftarrow> poke 4 (vd + vd_data_offset) value_off m;
       code \<leftarrow> peek 1 (vd + vd_type) m;
       type \<leftarrow> vt_of_code code;
       count \<leftarrow> peek 4 (vd + vd_array_count) m;
       if type \<noteq> LDMS_V_RECORD_TYPE then do {
         sz \<leftarrow> ldms_value_size_get type (of_nat count);
         place_meta es (i + 1) (value_off + sz) m }
       else (case e of
           REC_DEF rec_def \<Rightarrow> do {
             m \<leftarrow> make_rec_type rec_def value_off m;
             place_meta es (i + 1) (value_off + md_data_sz (rec_mdef rec_def)) m }
         | _ \<Rightarrow> None) } }"

fun init_rec_insts :: "nat list \<Rightarrow> nat \<Rightarrow> nat \<Rightarrow> nat \<Rightarrow> nat \<Rightarrow> mem \<Rightarrow> mem option" where
  "init_rec_insts [] dh rec_array inst_sz rec_type m = Some m"
| "init_rec_insts (j # js) dh rec_array inst_sz rec_type m = do {
     let rec_inst = rec_array + 12 + j * inst_sz;
     m \<leftarrow> poke 4 (rec_inst + 12) rec_type m;
     m \<leftarrow> poke 4 (rec_inst + 8) (rec_inst - dh) m;
     m \<leftarrow> poke 4 rec_inst LDMS_RECORD_F_INST m;
     init_rec_insts js dh rec_array inst_sz rec_type m }"

fun init_rec_bufs :: "nat list \<Rightarrow> nat \<Rightarrow> nat \<Rightarrow> nat \<Rightarrow> mdef \<Rightarrow> int \<Rightarrow> nat \<Rightarrow> mem \<Rightarrow> mem option" where
  "init_rec_bufs [] data_array data_sz off md rec_type inst_sz m = Some m"
| "init_rec_bufs (i # is) data_array data_sz off md rec_type inst_sz m = do {
     let dh = data_array + i * data_sz;
     let rec_array = dh + off;
     let rt = unat (word_of_int rec_type :: u32);
     m \<leftarrow> poke 4 (rec_array + 8) (unat (md_count md)) m;
     m \<leftarrow> poke 4 rec_array inst_sz m;
     m \<leftarrow> poke 4 (rec_array + 4) rt m;
     m \<leftarrow> init_rec_insts [0..<unat (md_count md)] dh rec_array inst_sz rt m;
     init_rec_bufs is data_array data_sz off md rec_type inst_sz m }"

fun init_rec_arrays :: "metric_ent list \<Rightarrow> nat \<Rightarrow> nat \<Rightarrow> nat \<Rightarrow> mem \<Rightarrow> mem option" where
  "init_rec_arrays [] idx array_card data_array m = Some m"
| "init_rec_arrays (e # es) idx array_card data_array m = do {
     m \<leftarrow> (if md_type (ent_mdef e) \<noteq> LDMS_V_RECORD_ARRAY then Some m
          else case e of
              REC_ARRAY_DEF md rec_type inst_sz \<Rightarrow> do {
                ra_desc \<leftarrow> peek 4 (h_dict idx) m;
                code \<leftarrow> peek 1 (ra_desc + vd_type) m;
                c_assert (code = vt_code LDMS_V_RECORD_ARRAY);
                off \<leftarrow> peek 4 (ra_desc + vd_data_offset) m;
                data_sz \<leftarrow> peek 4 h_data_sz m;
                init_rec_bufs [0..<array_card] data_array data_sz off md rec_type inst_sz m }
            | _ \<Rightarrow> None);
     init_rec_arrays es (idx + 1) array_card data_array m }"

text \<open>
  Everything \<^verbatim>\<open>ldms_set_create\<close> does to the memory, up to the registration of the set. \<open>thr\<close> is the
  result of \<^verbatim>\<open>delete_thread_init_once\<close>, \<open>meta\<close> the address \<^verbatim>\<open>mm_alloc\<close> returns for \<^verbatim>\<open>total_mm_sz\<close> bytes,
  an \<^verbatim>\<open>int\<close> into which the size is cut.
\<close>

definition ldms_set_build ::
  "errno \<Rightarrow> addr \<Rightarrow> (u8 list \<Rightarrow> u8 list) \<Rightarrow> string \<Rightarrow> ldms_schema \<Rightarrow> u32 \<Rightarrow> u32 \<Rightarrow> u32 \<Rightarrow> u32 \<Rightarrow>
   ((errno + mem) \<times> ldms_schema) option" where
  "ldms_set_build thr meta sha256 instance_name schema uid gid perm heap_sz =
     (if \<not> list_all ldms_set_instance_name_char_allowed instance_name then Some (Inl EINVAL, schema)
      else if thr \<noteq> EOK then Some (Inl thr, schema)
      else do {
        (r, schema) \<leftarrow> compute_set_sizes instance_name schema (unat heap_sz);
        case r of
          Inl e \<Rightarrow> Some (Inl e, schema)
        | Inr sz \<Rightarrow> do {
            let total_mm_sz = sint (of_nat (sz_total sz) :: u32);
            if total_mm_sz = 0 then Some (Inl EFAIL, schema)
            else do {
              let schema = ldms_schema_finalize sha256 schema;
              if meta = NULL then Some (Inl ENOMEM, schema)
              else do {
                m \<leftarrow> store 0 (replicate (sz_meta sz + sz_array_data sz) 0) (replicate (nat total_mm_sz) 0);
                m \<leftarrow> set_hdr_init schema sz uid gid perm m;
                m \<leftarrow> set_names_init instance_name schema m;
                m \<leftarrow> data_hdrs_init meta schema sz [0..<sz_array_card sz] m;
                vd \<leftarrow> get_first_metric_desc meta m;
                (vd, m) \<leftarrow> add_metrics (sch_metric_list schema) 0 vd (roundup sizeof_data_hdr 8) m;
                m \<leftarrow> place_meta (sch_metric_list schema) 0 (roundup vd 8) m;
                Some (Inr m, schema) } } } })"

definition ldms_set_array_get :: "ldms_set \<Rightarrow> nat \<Rightarrow> nat option" where
  "ldms_set_array_get s idx = do {
     data_sz \<leftarrow> peek 4 h_data_sz (set_mem s);
     Some (set_data_array s + idx * data_sz) }"

text \<open>The handle that \<^verbatim>\<open>__record_set\<close> makes for a set in memory.\<close>

definition set_handle :: "addr \<Rightarrow> nat \<Rightarrow> mem \<Rightarrow> ldms_set option" where
  "set_handle meta flags m = do {
     array_card \<leftarrow> peek 4 h_array_card m;
     data_array \<leftarrow> peek 4 h_meta_sz m;
     let s = \<lparr>set_mem = m, set_meta = meta, set_data = 0, set_data_array = data_array,
              set_curr_idx = array_card - 1, set_flags = flags, set_heap = None\<rparr>;
     data \<leftarrow> ldms_set_array_get s (set_curr_idx s);
     Some (s\<lparr>set_data := data\<rparr>) }"

text \<open>What \<^verbatim>\<open>ldms_set_create\<close> does with the registered set: its heap and the arrays of records.\<close>

definition set_finish :: "ldms_schema \<Rightarrow> ldms_set \<Rightarrow> ldms_set option" where
  "set_finish schema s = do {
     heap_sz \<leftarrow> peek 4 h_heap_sz (set_mem s);
     heap \<leftarrow> (if heap_sz \<noteq> 0
             then map_option Some (ldms_heap_get (set_data s + sch_data_sz schema) (set_mem s))
             else Some None);
     m \<leftarrow> init_rec_arrays (sch_metric_list schema) 0 (nat (sch_array_card schema)) (set_data_array s) (set_mem s);
     Some (s\<lparr>set_heap := heap, set_mem := m\<rparr>) }"

text \<open>\<open>reg\<close> is the result of registering the set under its name in the directory of sets.\<close>

definition ldms_set_create ::
  "errno \<Rightarrow> addr \<Rightarrow> errno \<Rightarrow> (u8 list \<Rightarrow> u8 list) \<Rightarrow> string \<Rightarrow> ldms_schema \<Rightarrow> u32 \<Rightarrow> u32 \<Rightarrow> u32 \<Rightarrow> u32 \<Rightarrow>
   ((errno + ldms_set) \<times> ldms_schema) option" where
  "ldms_set_create thr meta reg sha256 instance_name schema uid gid perm heap_sz = do {
     (r, schema) \<leftarrow> ldms_set_build thr meta sha256 instance_name schema uid gid perm heap_sz;
     case r of
       Inl e \<Rightarrow> Some (Inl e, schema)
     | Inr m \<Rightarrow>
         if reg \<noteq> EOK then Some (Inl reg, schema)
         else do {
           s \<leftarrow> set_handle meta LDMS_SET_F_LOCAL m;
           s \<leftarrow> set_finish schema s;
           Some (Inr s, schema) } }"

subsection \<open>Fields of a set\<close>

definition ldms_set_card_get :: "ldms_set \<Rightarrow> nat option" where
  "ldms_set_card_get s = peek 4 h_card (set_mem s)"

definition ldms_set_meta_gn_get :: "ldms_set \<Rightarrow> nat option" where
  "ldms_set_meta_gn_get s = peek 8 h_meta_gn (set_mem s)"

definition ldms_set_data_gn_get :: "ldms_set \<Rightarrow> nat option" where
  "ldms_set_data_gn_get s = peek 8 (set_data s + d_gn) (set_mem s)"

definition ldms_set_heap_size_get :: "ldms_set \<Rightarrow> nat option" where
  "ldms_set_heap_size_get s = peek 8 (set_data s + d_heap + heap_size) (set_mem s)"

definition ldms_set_data_copy_set :: "bool \<Rightarrow> ldms_set \<Rightarrow> ldms_set" where
  "ldms_set_data_copy_set on s =
     (if on then s\<lparr>set_flags := set_flags s OR LDMS_SET_F_DATA_COPY\<rparr>
      else s\<lparr>set_flags := nat (int (set_flags s) AND NOT (int LDMS_SET_F_DATA_COPY))\<rparr>)"

definition ldms_set_size_get :: "ldms_set \<Rightarrow> u32 option" where
  "ldms_set_size_get s = do {
     meta_sz \<leftarrow> peek 4 h_meta_sz (set_mem s);
     array_card \<leftarrow> peek 4 h_array_card (set_mem s);
     data_sz \<leftarrow> peek 4 h_data_sz (set_mem s);
     Some (of_nat meta_sz + of_nat array_card * of_nat data_sz) }"

definition ldms_set_instance_name_get :: "ldms_set \<Rightarrow> string option" where
  "ldms_set_instance_name_get s = do {
     name \<leftarrow> get_instance_name (set_mem s);
     peek_str (name + 1) (set_mem s) }"

definition ldms_set_schema_name_get :: "ldms_set \<Rightarrow> string option" where
  "ldms_set_schema_name_get s = do {
     name \<leftarrow> get_schema_name (set_mem s);
     peek_str (name + 1) (set_mem s) }"

definition ldms_set_digest_get :: "ldms_set \<Rightarrow> u8 list option" where
  "ldms_set_digest_get s = do {
     schema \<leftarrow> get_schema_name (set_mem s);
     name \<leftarrow> peek_str (schema + 1) (set_mem s);
     len \<leftarrow> peek 1 schema (set_mem s);
     if len \<ge> length name + LDMS_DIGEST_LENGTH
     then load (schema + 1 + length name + 1) LDMS_DIGEST_LENGTH (set_mem s)
     else Some (replicate LDMS_DIGEST_LENGTH 0) }"

definition ldms_set_producer_name_get :: "ldms_set \<Rightarrow> string option" where
  "ldms_set_producer_name_get s = peek_str h_producer_name (set_mem s)"

definition ldms_set_producer_name_set :: "string \<Rightarrow> ldms_set \<Rightarrow> (errno \<times> ldms_set) option" where
  "ldms_set_producer_name_set name s =
     (if 64 < length name + 1 then Some (EINVAL, s)
      else do {
        m \<leftarrow> store h_producer_name (map (\<lambda>c. of_nat (of_char c)) name @ replicate (64 - length name) 0) (set_mem s);
        Some (EOK, s\<lparr>set_mem := m\<rparr>) })"

subsection \<open>Descriptors\<close>

text \<open>The outer \<open>None\<close> is a fault, the inner one the \<^verbatim>\<open>NULL\<close> of an index out of range.\<close>

definition desc_get :: "ldms_set \<Rightarrow> int \<Rightarrow> nat option option" where
  "desc_get s idx = do {
     n \<leftarrow> peek 4 h_card (set_mem s);
     if 0 \<le> idx \<and> idx < int n
     then map_option Some (peek 4 (h_dict (nat idx)) (set_mem s))
     else Some None }"

definition ldms_metric_name_get :: "ldms_set \<Rightarrow> int \<Rightarrow> string option option" where
  "ldms_metric_name_get s i = do {
     d \<leftarrow> desc_get s i;
     case d of
       Some desc \<Rightarrow> map_option Some (peek_str (desc + vd_name_unit) (set_mem s))
     | None \<Rightarrow> Some None }"

definition ldms_metric_unit_get :: "ldms_set \<Rightarrow> int \<Rightarrow> string option option" where
  "ldms_metric_unit_get s i = do {
     d \<leftarrow> desc_get s i;
     case d of
       None \<Rightarrow> Some None
     | Some desc \<Rightarrow> do {
         name \<leftarrow> peek_str (desc + vd_name_unit) (set_mem s);
         let unit = desc + vd_name_unit + length name;
         len \<leftarrow> peek 1 (desc + vd_name_unit_len) (set_mem s);
         if int (desc + vd_name_unit + len) - 1 = int unit then Some None
         else map_option Some (peek_str (unit + 1) (set_mem s)) } }"

definition ldms_metric_flags_get :: "ldms_set \<Rightarrow> int \<Rightarrow> nat option" where
  "ldms_metric_flags_get s i = do {
     d \<leftarrow> desc_get s i;
     case d of Some desc \<Rightarrow> peek 1 (desc + vd_flags) (set_mem s) | None \<Rightarrow> Some 0 }"

text \<open>The loop of \<^verbatim>\<open>ldms_metric_by_name\<close>: the least index with the name, or -1.\<close>

fun metric_by_name :: "nat list \<Rightarrow> ldms_set \<Rightarrow> string \<Rightarrow> int option" where
  "metric_by_name [] s name = Some (-1)"
| "metric_by_name (i # is) s name = do {
     desc \<leftarrow> peek 4 (h_dict i) (set_mem s);
     n \<leftarrow> peek_str (desc + vd_name_unit) (set_mem s);
     if strcmp n name = 0 then Some (int i) else metric_by_name is s name }"

definition ldms_metric_by_name :: "ldms_set \<Rightarrow> string \<Rightarrow> int option" where
  "ldms_metric_by_name s name = do {
     n \<leftarrow> ldms_set_card_get s;
     metric_by_name [0..<n] s name }"

definition ldms_metric_array_get_len :: "ldms_set \<Rightarrow> nat \<Rightarrow> nat option" where
  "ldms_metric_array_get_len s i = do {
     desc \<leftarrow> peek 4 (h_dict i) (set_mem s);
     code \<leftarrow> peek 1 (desc + vd_type) (set_mem s);
     if vt_code LDMS_V_CHAR_ARRAY \<le> code \<and> code \<le> vt_code LDMS_V_D64_ARRAY
     then peek 4 (desc + vd_array_count) (set_mem s)
     else Some 1 }"

definition ldms_gn_inc :: "nat \<Rightarrow> ldms_set \<Rightarrow> ldms_set option" where
  "ldms_gn_inc desc s = do {
     flags \<leftarrow> peek 1 (desc + vd_flags) (set_mem s);
     if flag_on flags LDMS_MDESC_F_DATA then do {
       gn \<leftarrow> peek 8 (set_data s + d_gn) (set_mem s);
       m \<leftarrow> poke 8 (set_data s + d_gn) (gn + 1) (set_mem s);
       Some (s\<lparr>set_mem := m\<rparr>) }
     else do {
       gn \<leftarrow> peek 8 h_meta_gn (set_mem s);
       m \<leftarrow> poke 8 h_meta_gn (gn + 1) (set_mem s);
       gn \<leftarrow> peek 8 h_meta_gn m;
       m \<leftarrow> poke 8 (set_data s + d_meta_gn) gn m;
       Some (s\<lparr>set_mem := m\<rparr>) } }"

definition ldms_metric_user_data_set :: "int \<Rightarrow> u64 \<Rightarrow> ldms_set \<Rightarrow> ldms_set option" where
  "ldms_metric_user_data_set i u s = do {
     d \<leftarrow> desc_get s i;
     case d of
       Some desc \<Rightarrow> do {
         m \<leftarrow> poke 8 (desc + vd_user_data) (unat u) (set_mem s);
         ldms_gn_inc desc (s\<lparr>set_mem := m\<rparr>) }
     | None \<Rightarrow> Some s }"

definition ldms_metric_user_data_get :: "ldms_set \<Rightarrow> int \<Rightarrow> u64 option" where
  "ldms_metric_user_data_get s i = do {
     d \<leftarrow> desc_get s i;
     case d of
       Some desc \<Rightarrow> map_option of_nat (peek 8 (desc + vd_user_data) (set_mem s))
     | None \<Rightarrow> Some (-1) }"

subsection \<open>Places of values\<close>

definition mval_to_set :: "ldms_set \<Rightarrow> int \<Rightarrow> (nat \<times> nat) option option" where
  "mval_to_set s idx = do {
     n \<leftarrow> peek 4 h_card (set_mem s);
     if idx < 0 \<or> idx \<ge> int n then Some None
     else do {
       desc \<leftarrow> peek 4 (h_dict (nat idx)) (set_mem s);
       flags \<leftarrow> peek 1 (desc + vd_flags) (set_mem s);
       off \<leftarrow> peek 4 (desc + vd_data_offset) (set_mem s);
       if flag_on flags LDMS_MDESC_F_DATA then Some (Some (set_data s + off, desc))
       else Some (Some (off, desc)) } }"

definition mval_to_get :: "ldms_set \<Rightarrow> int \<Rightarrow> (nat \<times> nat) option option" where
  "mval_to_get s idx = do {
     n \<leftarrow> peek 4 h_card (set_mem s);
     if idx < 0 \<or> idx \<ge> int n then Some None
     else do {
       desc \<leftarrow> peek 4 (h_dict (nat idx)) (set_mem s);
       flags \<leftarrow> peek 1 (desc + vd_flags) (set_mem s);
       off \<leftarrow> peek 4 (desc + vd_data_offset) (set_mem s);
       if flag_on flags LDMS_MDESC_F_DATA then do {
         trans \<leftarrow> peek 4 (set_data s + d_trans_flags) (set_mem s);
         code \<leftarrow> peek 1 (desc + vd_type) (set_mem s);
         if trans \<noteq> LDMS_TRANSACTION_END \<and> code \<noteq> vt_code LDMS_V_LIST \<and> code \<noteq> vt_code LDMS_V_RECORD_ARRAY
         then do {
           n \<leftarrow> peek 4 h_array_card (set_mem s);
           if n = 0 then None
           else do {
             prev_data \<leftarrow> ldms_set_array_get s ((set_curr_idx s + (n - 1)) mod n);
             Some (Some (prev_data + off, desc)) } }
         else Some (Some (set_data s + off, desc)) }
       else Some (Some (off, desc)) } }"

definition ldms_metric_get :: "ldms_set \<Rightarrow> int \<Rightarrow> nat option option" where
  "ldms_metric_get s i = map_option (map_option fst) (mval_to_get s i)"

definition ldms_metric_type_get :: "ldms_set \<Rightarrow> int \<Rightarrow> ldms_value_type option" where
  "ldms_metric_type_get s i = do {
     d \<leftarrow> mval_to_get s i;
     case d of
       None \<Rightarrow> Some LDMS_V_NONE
     | Some (mval, desc) \<Rightarrow> do {
         code \<leftarrow> peek 1 (desc + vd_type) (set_mem s);
         vt_of_code code } }"

end
