(* ===== verification/MetricLayout.thy ===== *)
theory MetricLayout
  imports MetricSet
begin

section \<open>The layout of a metric set\<close>

text \<open>The loops of \<open>ldms_set_create\<close> and where they put the metrics.\<close>

subsection \<open>Rounding\<close>

lemma roundup_pow2: "roundup v (2 ^ k) = (v + (2 ^ k - 1)) div 2 ^ k * 2 ^ k"
proof -
  let ?x = "int v + (2 ^ k - 1)"
  have "?x AND NOT (mask k) = push_bit k (drop_bit k ?x)"
    by (auto intro!: bit_eqI simp: bit_simps)
  also have "\<dots> = ?x div 2 ^ k * 2 ^ k" by (simp add: push_bit_eq_mult drop_bit_eq_div)
  finally have "roundup v (2 ^ k) = nat (?x div 2 ^ k * 2 ^ k)"
    by (simp add: roundup_def mask_eq_exp_minus_1)
  moreover have "?x = int (v + (2 ^ k - 1))" by (simp add: of_nat_diff trans_le_add2)
  ultimately show ?thesis
    by (metis nat_int of_nat_mult of_nat_numeral of_nat_power zdiv_int)
qed

lemma roundup_8: "roundup v 8 = (v + 7) div 8 * 8"
  using roundup_pow2 [of v 3] by simp

lemma roundup_8_bounds: "v \<le> roundup v 8" "roundup v 8 < v + 8" "8 dvd roundup v 8"
  by (auto simp: roundup_8)

lemma roundup_8_mono: "v \<le> w \<Longrightarrow> roundup v 8 \<le> roundup w 8"
  by (simp add: roundup_8 div_le_mono)

lemma roundup_8_id: "8 dvd v \<Longrightarrow> roundup v 8 = v"
  by (auto simp: roundup_8)

lemma roundup_8_add: "8 dvd a \<Longrightarrow> roundup (a + v) 8 = a + roundup v 8"
  using div_mult_self2 [of 8 "v + 7" "a div 8"] by (auto simp: roundup_8 algebra_simps elim!: dvdE)

lemma roundup_512: "v \<le> roundup v 512" "roundup v 512 > 0 \<Longrightarrow> 512 \<le> roundup v 512" "512 dvd roundup v 512"
  using roundup_pow2 [of v 9] by auto

subsection \<open>Header and names\<close>

lemma set_hdr_init_ok:
  assumes "140 \<le> length m"
  shows "\<exists>m'. set_hdr_init schema sz uid gid perm m = Some m' \<and> only_changes {64..<112} m m' \<and>
    peek 4 h_card m' = Some (sch_card schema mod 2 ^ 32) \<and>
    peek 4 h_meta_sz m' = Some (sz_meta sz mod 2 ^ 32) \<and>
    peek 4 h_data_sz m' = Some ((sch_data_sz schema + sz_heap sz) mod 2 ^ 32) \<and>
    peek 4 h_heap_sz m' = Some (sz_heap sz mod 2 ^ 32) \<and>
    peek 4 h_array_card m' = Some (sz_array_card sz mod 2 ^ 32) \<and>
    peek 8 h_meta_gn m' = Some 1 \<and> load h_version 4 m' = Some [4, 2, 0, 0]"
  using assms
  by (simp add: set_hdr_init_def mem_simps) (intro only_put_on; simp add: mem_simps)

lemma get_instance_name_eq: "peek 4 h_card m = Some n \<Longrightarrow> get_instance_name m = Some (h_dict n)"
  by (simp add: get_instance_name_def)

lemma set_names_init_ok:
  assumes n: "peek 4 h_card m = Some n" "n = sch_card schema"
    and dig: "length (sch_digest schema) = LDMS_DIGEST_LENGTH"
    and room: "h_dict n + length inst + length (sch_name schema) + 36 \<le> length m"
  shows "\<exists>m'. set_names_init inst schema m = Some m' \<and>
    only_changes {h_dict n..<h_dict n + length inst + length (sch_name schema) + 36} m m' \<and>
    peek 1 (h_dict n) m' = Some ((length inst + 1) mod 256) \<and>
    peek 1 (h_dict n + 1 + (length inst + 1) mod 256) m' = Some ((34 + length (sch_name schema)) mod 256) \<and>
    load (h_dict n + 2 + (length inst + 1) mod 256) (length (sch_name schema) + 1) m' = Some (str_bytes (sch_name schema)) \<and>
    load (h_dict n + 2 + (length inst + 1) mod 256 + length (sch_name schema) + 1) LDMS_DIGEST_LENGTH m' = Some (sch_digest schema) \<and>
    (length inst < 255 \<longrightarrow> load (h_dict n + 1) (length inst + 1) m' = Some (str_bytes inst))"
proof -
  let ?l = "(length inst + 1) mod 256" and ?s = "length (sch_name schema)"
  have l: "?l \<le> length inst + 1" by simp
  define m2 where "m2 = put (h_dict n + 1) (str_bytes inst) (put (h_dict n) (le_bytes 1 (length inst + 1)) m)"
  have m2: "peek 1 (h_dict n) m2 = Some ?l" "peek 4 h_card m2 = Some n" "length m2 = length m"
    "load (h_dict n + 1) (length inst + 1) m2 = Some (str_bytes inst)"
    using room n by (simp_all add: m2_def mem_simps)
  let ?p = "h_dict n + 1 + ?l"
  let ?m' = "put ?p (le_bytes 1 (?s + 1 + LDMS_DIGEST_LENGTH + 1))
               (put (?p + 1 + (?s + 1)) (sch_digest schema) (put (?p + 1) (str_bytes (sch_name schema)) m2))"
  have "set_names_init inst schema m = Some ?m'"
    using room n l dig
    by (simp add: set_names_init_def get_instance_name_eq get_schema_name_def Let_def mem_simps m2_def add.assoc)
  moreover have "only_changes {h_dict n..<h_dict n + length inst + ?s + 36} m ?m'"
    using l dig unfolding m2_def by (intro only_put_on) auto
  moreover have "load (h_dict n + 1) (length inst + 1) ?m' = Some (str_bytes inst)" if "length inst < 255"
    using that m2 by (simp add: mem_simps)
  moreover have "peek 1 (h_dict n) ?m' = Some ?l" "peek 1 ?p ?m' = Some ((34 + ?s) mod 256)"
    "load (h_dict n + 2 + ?l) (?s + 1) ?m' = Some (str_bytes (sch_name schema))"
    "load (h_dict n + 2 + ?l + ?s + 1) LDMS_DIGEST_LENGTH ?m' = Some (sch_digest schema)"
    using room l m2 dig by (simp_all add: mem_simps add.assoc)
  ultimately show ?thesis by blast
qed

subsection \<open>Data headers\<close>

declare pow2_from.simps [simp del]

lemma pow2_from_64: "pow2_from (Suc 0) 0 64 = (64, 6)"
  by (simp add: pow2_from.simps)

lemma ldms_heap_init_ok:
  assumes room: "heap + 40 \<le> base" "base + 72 \<le> length m" and al: "(meta + base) mod 8 = 0"
    and sz: "0 < sz" "sz < 2 ^ 32" "512 dvd sz"
  shows "\<exists>m'. ldms_heap_init meta heap base sz LDMS_LIST_GRAIN m = Some m' \<and>
    only_changes ({heap..<heap + 40} \<union> {base..<base + 72}) m m' \<and>
    peek 8 (heap + heap_size) m' = Some sz \<and> load base 8 m' = Some (str_bytes ''BOHEAP0'')"
proof -
  have sig: "length (str_bytes ''BOHEAP0'') = 8" by simp
  have id: "roundup sz 512 = sz" using sz roundup_pow2 [of sz 9] by auto
  have al': "(meta + (base + 8)) mod 8 = 0" using al by presburger
  let ?m1 = "put base (str_bytes ''BOHEAP0'') (put (heap + 32) (le_bytes 8 0) (put (heap + 24) (le_bytes 8 0)
      (put (heap + 16) (le_bytes 4 0) (put (heap + 8) (le_bytes 8 sz) (put heap (le_bytes 4 (6 + 256 * 64)) m)))))"
  let ?m2 = "put (heap + 24) (le_bytes 8 40) (put (base + 56) (le_bytes 8 0) (put (base + 48) (le_bytes 8 0)
      (put (base + 40) (le_bytes 8 1) (put (base + 64) (le_bytes 8 (sz div 64)) ?m1))))"
  let ?m3 = "put (heap + 32) (le_bytes 8 8) (put (base + 24) (le_bytes 8 0) (put (base + 16) (le_bytes 8 0)
      (put (base + 8) (le_bytes 8 1) (put (base + 32) (le_bytes 8 8) ?m2))))"
  have "ldms_heap_init meta heap base sz LDMS_LIST_GRAIN m = Some ?m3"
    using room sz id al' sig
    by (simp add: ldms_heap_init_def ldms_heap_grain_size_def pow2_from_64 rrbt_ins_root_def Let_def mem_simps
        add.commute [of _ base] del: length_str_bytes)
  moreover have "only_changes ({heap..<heap + 40} \<union> {base..<base + 72}) m ?m3"
    using room by (intro only_put_on) auto
  moreover have "peek 8 (heap + heap_size) ?m3 = Some sz" "load base 8 ?m3 = Some (str_bytes ''BOHEAP0'')"
    using room sz sig by (simp_all add: mem_simps del: length_str_bytes)
  ultimately show ?thesis by blast
qed

text \<open>What the rest of the code relies on in the header of a buffer and in its heap.\<close>

definition buf_ok :: "nat \<Rightarrow> nat \<Rightarrow> nat \<Rightarrow> mem \<Rightarrow> bool" where
  "buf_ok ds hp d m \<longleftrightarrow>
     peek 8 (d + d_size) m = Some (ds + hp) \<and> peek 4 (d + d_set_off) m = Some d \<and>
     peek 8 (d + (d_heap + heap_size)) m = Some hp \<and> (hp \<noteq> 0 \<longrightarrow> load (d + ds) 8 m = Some (str_bytes ''BOHEAP0''))"

lemma data_hdr_init_ok:
  fixes schema :: ldms_schema and sz :: set_sizes and i :: nat
  defines "ds \<equiv> sch_data_sz schema" and "hp \<equiv> sz_heap sz"
  defines "d \<equiv> sz_meta sz + i * (ds + hp)"
  assumes room: "140 \<le> d" "d + (ds + hp) \<le> length m" "96 \<le> ds" and small: "d + (ds + hp) < 2 ^ 32"
    and al: "8 dvd meta" "8 dvd d" "8 dvd ds" "512 dvd hp"
    and m: "peek 8 h_meta_gn m = Some g" "peek 8 (d + (d_heap + heap_size)) m = Some 0"
  shows "\<exists>m'. data_hdr_init meta schema sz i m = Some m' \<and> only_changes {d + d_set_off..<d + (ds + hp)} m m' \<and>
    buf_ok ds hp d m' \<and> peek 8 (d + d_meta_gn) m' = Some g"
proof -
  let ?m1 = "put (d + 20) (le_bytes 4 d) (put (d + 24) (le_bytes 8 g) (put (d + 40) (le_bytes 8 g)
      (put (d + 48) (le_bytes 4 (sz_array_card sz - 1)) (put (d + 32) (le_bytes 8 (ds + hp)) m))))"
  have g: "g < 256 ^ 8" using m(1) by (rule peek_bound)
  have run: "data_hdr_init meta schema sz i m =
      (if hp \<noteq> 0 then ldms_heap_init meta (d + d_heap) (d + ds) hp LDMS_LIST_GRAIN ?m1 else Some ?m1)"
    using room m by (simp add: data_hdr_init_def Let_def mem_simps flip: ds_def hp_def d_def)
  have only1: "only_changes {d + d_set_off..<d + (ds + hp)} m ?m1"
    using room by (intro only_put_on) auto
  have m1: "peek 8 (d + d_size) ?m1 = Some (ds + hp)" "peek 4 (d + d_set_off) ?m1 = Some d"
    "peek 8 (d + (d_heap + heap_size)) ?m1 = Some 0" "peek 8 (d + d_meta_gn) ?m1 = Some g"
    using room small m g by (simp_all add: mem_simps)
  show ?thesis
  proof (cases "hp = 0")
    case True
    then show ?thesis using run only1 m1 by (auto simp: buf_ok_def)
  next
    case False
    with al(4) have hp: "512 \<le> hp" by (auto elim!: dvdE)
    have "(meta + (d + ds)) mod 8 = 0" using al by (auto simp: mod_eq_0_iff_dvd)
    with ldms_heap_init_ok [of "d + d_heap" "d + ds" ?m1 meta hp] room small False al hp
    obtain m' where m': "ldms_heap_init meta (d + d_heap) (d + ds) hp LDMS_LIST_GRAIN ?m1 = Some m'"
      "only_changes ({d + d_heap..<d + d_heap + 40} \<union> {d + ds..<d + ds + 72}) ?m1 m'"
      "peek 8 (d + d_heap + heap_size) m' = Some hp" "load (d + ds) 8 m' = Some (str_bytes ''BOHEAP0'')"
      by auto
    have "only_changes {d + d_set_off..<d + (ds + hp)} m m'"
      using only_trans [OF only1 m'(2)] by (rule only_weaken) (use room hp in auto)
    moreover have "peek 8 (d + d_size) m' = Some (ds + hp)" "peek 4 (d + d_set_off) m' = Some d"
      "peek 8 (d + d_meta_gn) m' = Some g"
      using m1 room peek_only [OF m'(2)] by auto
    ultimately show ?thesis using run False m' by (auto simp: buf_ok_def add.assoc)
  qed
qed

definition buf :: "nat \<Rightarrow> nat \<Rightarrow> nat \<Rightarrow> nat set" where
  "buf M w i = {M + i * w..<M + i * w + w}"

lemma buf_disjoint: "i \<noteq> j \<Longrightarrow> x \<in> buf M w i \<Longrightarrow> x \<notin> buf M w j"
proof (induction i j rule: linorder_wlog)
  case (le i j)
  then have "i * w + w \<le> j * w" using mult_le_mono1 [of "i + 1" j w] by simp
  with le show ?case by (auto simp: buf_def)
next
  case (sym i j)
  then show ?case by blast
qed

lemma buf_bound: "i < c \<Longrightarrow> M + i * w + w \<le> M + c * (w :: nat)"
  using mult_le_mono1 [of "i + 1" c w] by simp

lemma buf_ok_only:
  assumes "only_changes S m m'" and "buf_ok ds hp d m" and "96 \<le> ds" "hp = 0 \<or> 8 \<le> hp"
    and "\<And>x. d \<le> x \<Longrightarrow> x < d + (ds + hp) \<Longrightarrow> x \<notin> S"
  shows "buf_ok ds hp d m'"
  using assms(2-) peek_only [OF assms(1)] load_only [OF assms(1)] by (auto simp: buf_ok_def)

lemma data_hdrs_init_ok:
  fixes schema :: ldms_schema and sz :: set_sizes and c :: nat
  defines "ds \<equiv> sch_data_sz schema" and "hp \<equiv> sz_heap sz" and "M \<equiv> sz_meta sz"
  defines "w \<equiv> ds + hp"
  assumes room: "140 \<le> M" "M + c * w \<le> length m" "96 \<le> ds" "M + c * w < 2 ^ 32"
    and al: "8 dvd meta" "8 dvd M" "8 dvd ds" "512 dvd hp"
    and m: "peek 8 h_meta_gn m = Some g"
    and "distinct is" "\<And>i. i \<in> set is \<Longrightarrow> i < c \<and> peek 8 (M + i * w + (d_heap + heap_size)) m = Some 0"
  shows "\<exists>m'. data_hdrs_init meta schema sz is m = Some m' \<and>
    only_changes (\<Union>i\<in>set is. buf M w i - {M + i * w..<M + i * w + d_set_off}) m m' \<and>
    (\<forall>i\<in>set is. buf_ok ds hp (M + i * w) m' \<and> peek 8 (M + i * w + d_meta_gn) m' = Some g)"
  using assms(13-) room(2)
proof (induction "is" arbitrary: m)
  case (Cons i "is")
  have hp: "hp = 0 \<or> 8 \<le> hp" using al(4) by (auto elim!: dvdE)
  have ic: "i < c" "M + i * w + w \<le> M + c * w" using Cons.prems(3) buf_bound by auto
  have "8 dvd w" using al by (auto simp: w_def intro: dvd_trans [of 8 512])
  with al room ic Cons.prems(1,3,4) data_hdr_init_ok [of sz i schema m meta g]
  obtain m1 where m1: "data_hdr_init meta schema sz i m = Some m1"
    "only_changes {M + i * w + d_set_off..<M + i * w + w} m m1"
    "buf_ok ds hp (M + i * w) m1" "peek 8 (M + i * w + d_meta_gn) m1 = Some g"
    by (auto simp: w_def ds_def hp_def M_def)
  have out: "x \<notin> {M + i * w + d_set_off..<M + i * w + w}" if "x \<in> buf M w j" "j \<in> set is" for x j
  proof -
    have "j \<noteq> i" using that(2) Cons.prems(2) by auto
    then show ?thesis using buf_disjoint [OF _ that(1), of i] by (auto simp: buf_def)
  qed
  have "peek 8 (M + j * w + (d_heap + heap_size)) m1 = Some 0" if "j \<in> set is" for j
    using peek_only [OF m1(2)] that Cons.prems(3) [of j] out [OF _ that] room(3)
    by (simp add: buf_def w_def)
  moreover have "peek 8 h_meta_gn m1 = Some g" using peek_only [OF m1(2)] Cons.prems(1) room(1) by simp
  ultimately obtain m' where m': "data_hdrs_init meta schema sz is m1 = Some m'"
    "only_changes (\<Union>i\<in>set is. buf M w i - {M + i * w..<M + i * w + d_set_off}) m1 m'"
    "\<And>i. i \<in> set is \<Longrightarrow> buf_ok ds hp (M + i * w) m' \<and> peek 8 (M + i * w + d_meta_gn) m' = Some g"
    using Cons.IH [of m1] Cons.prems only_length [OF m1(2)] by auto
  have keep: "x \<notin> (\<Union>i\<in>set is. buf M w i - {M + i * w..<M + i * w + d_set_off})" if "x \<in> buf M w i" for x
  proof -
    have "x \<notin> buf M w j" if "j \<in> set is" for j
      using buf_disjoint [OF _ \<open>x \<in> buf M w i\<close>, of j] that Cons.prems(2) by auto
    then show ?thesis by auto
  qed
  have "buf_ok ds hp (M + i * w) m'"
    by (rule buf_ok_only [OF m'(2) m1(3) room(3) hp]) (use keep in \<open>auto simp: buf_def w_def\<close>)
  moreover have "peek 8 (M + i * w + d_meta_gn) m' = Some g"
    using peek_only [OF m'(2)] m1(4) keep room(3) by (simp add: buf_def w_def)
  moreover have "only_changes (\<Union>i\<in>set (i # is). buf M w i - {M + i * w..<M + i * w + d_set_off}) m m'"
    using only_trans [OF m1(2) m'(2)] by (rule only_weaken) (auto simp: buf_def)
  ultimately show ?case using m1(1) m'(1,3) by auto
qed simp

subsection \<open>Descriptors\<close>

lemma vt_code_bound: "vt_code t < 29"
  by (cases t) simp_all

lemma vt_of_code_code [simp]: "vt_of_code (vt_code t) = Some t"
  by (cases t) (simp_all add: vt_of_code_def value_types_def)

lemma value_size_Some: "t \<noteq> LDMS_V_NONE \<Longrightarrow> \<exists>sz. ldms_value_size_get t c = Some sz \<and> 8 dvd sz"
  by (cases t) (simp_all add: ldms_value_size_get_def roundup_8_bounds)

definition mdef_wf :: "mdef \<Rightarrow> bool" where
  "mdef_wf md \<longleftrightarrow> md_meta_sz md = desc_size (md_name md) (md_unit md) \<and> md_flags md < 256 \<and> md_type md \<noteq> LDMS_V_NONE"

definition vsize :: "mdef \<Rightarrow> nat" where
  "vsize md = the (ldms_value_size_get (md_type md) (md_count md))"

lemma value_size_vsize: "mdef_wf md \<Longrightarrow> ldms_value_size_get (md_type md) (md_count md) = Some (vsize md)"
  using value_size_Some [of "md_type md" "md_count md"] by (auto simp: mdef_wf_def vsize_def)

lemma vsize_8: "mdef_wf md \<Longrightarrow> 8 dvd vsize md"
  using value_size_Some [of "md_type md" "md_count md"] by (auto simp: mdef_wf_def vsize_def)

lemma desc_size_bounds:
  "28 + length name + 1 \<le> desc_size name unit"
  "unit = Some u \<Longrightarrow> 28 + length name + 1 + length u + 1 \<le> desc_size name unit"
  "8 dvd desc_size name unit"
  using roundup_8_bounds(1) [of "28 + length name + 1"] roundup_8_bounds(1) [of "28 + length name + 1 + length u + 1"]
    roundup_8_bounds(1) [of "28 + length name + 1 + length (the unit) + 1"]
  by (auto simp: desc_size_def roundup_8_bounds(3) split: option.split)

definition unit_len :: "string option \<Rightarrow> nat" where
  "unit_len unit = (case unit of None \<Rightarrow> 0 | Some u \<Rightarrow> length u + 1)"

definition desc_ok :: "nat \<Rightarrow> mdef \<Rightarrow> mem \<Rightarrow> bool" where
  "desc_ok vd md m \<longleftrightarrow>
     peek 1 (vd + vd_type) m = Some (vt_code (md_type md)) \<and> peek 1 (vd + vd_flags) m = Some (md_flags md) \<and>
     peek 4 (vd + vd_array_count) m = Some (unat (md_count md)) \<and>
     peek 1 (vd + vd_name_unit_len) m = Some ((length (md_name md) + 1 + unit_len (md_unit md)) mod 256) \<and>
     load (vd + vd_name_unit) (length (md_name md) + 1) m = Some (str_bytes (md_name md)) \<and>
     (\<forall>u. md_unit md = Some u \<longrightarrow>
        load (vd + vd_name_unit + (length (md_name md) + 1)) (length u + 1) m = Some (str_bytes u))"

lemma desc_ok_only:
  assumes "only_changes S m m'" and "desc_ok vd md m" and "mdef_wf md"
    and "\<And>x. vd + 12 \<le> x \<Longrightarrow> x < vd + md_meta_sz md \<Longrightarrow> x \<notin> S"
  shows "desc_ok vd md m'"
proof -
  have "28 + length (md_name md) + 1 \<le> md_meta_sz md"
    "\<And>u. md_unit md = Some u \<Longrightarrow> 28 + length (md_name md) + 1 + length u + 1 \<le> md_meta_sz md"
    using assms(3) desc_size_bounds by (auto simp: mdef_wf_def)
  then show ?thesis
    using assms(2,4) peek_only [OF assms(1)] load_only [OF assms(1)] by (auto simp: desc_ok_def)
qed

lemma make_mdesc_ok:
  assumes wf: "mdef_wf md" and room: "vd + md_meta_sz md \<le> length m"
  shows "\<exists>m'. make_mdesc vd md value_off m = Some (if is_data md then value_off + vsize md else value_off, m') \<and>
    only_changes {vd + vd_data_offset..<vd + md_meta_sz md} m m' \<and> desc_ok vd md m' \<and>
    peek 4 (vd + vd_data_offset) m' = Some (if is_data md then value_off mod 2 ^ 32 else 0)"
proof -
  let ?n = "length (md_name md) + 1"
  let ?m1 = "put (vd + 27) (str_bytes (md_name md)) (put (vd + 12) (le_bytes 4 (unat (md_count md)))
      (put (vd + 25) (le_bytes 1 (md_flags md)) (put (vd + 24) (le_bytes 1 (vt_code (md_type md))) m)))"
  let ?m2 = "case md_unit md of None \<Rightarrow> ?m1 | Some u \<Rightarrow> put (vd + 27 + ?n) (str_bytes u) ?m1"
  let ?m' = "put (vd + 8) (le_bytes 4 (if is_data md then value_off else 0))
      (put (vd + 26) (le_bytes 1 (?n + unit_len (md_unit md))) ?m2)"
  have sizes: "28 + ?n \<le> md_meta_sz md" "md_flags md < 256"
    "\<And>u. md_unit md = Some u \<Longrightarrow> 28 + ?n + length u + 1 \<le> md_meta_sz md"
    using wf desc_size_bounds by (auto simp: mdef_wf_def)
  have ty: "vt_code (md_type md) mod 256 = vt_code (md_type md)" using vt_code_bound [of "md_type md"] by simp
  have cnt: "unat (md_count md) < 4294967296" using unsigned_less [of "md_count md"] by simp
  have "make_mdesc vd md value_off m = Some (if is_data md then value_off + vsize md else value_off, ?m')"
    using room sizes value_size_vsize [OF wf]
    by (cases "md_unit md") (simp_all add: make_mdesc_def Let_def mem_simps unit_len_def)
  moreover have "only_changes {vd + vd_data_offset..<vd + md_meta_sz md} m ?m'"
  proof (cases "md_unit md")
    case None
    then show ?thesis using sizes by (auto intro!: only_put_on)
  next
    case (Some u)
    then show ?thesis using sizes(1) sizes(3) [OF Some] by (auto intro!: only_put_on)
  qed
  moreover have "desc_ok vd md ?m'"
    using room sizes ty cnt by (cases "md_unit md") (auto simp: desc_ok_def mem_simps unit_len_def)
  moreover have "peek 4 (vd + vd_data_offset) ?m' = Some (if is_data md then value_off mod 2 ^ 32 else 0)"
    using room sizes by (simp add: mem_simps split: option.split)
  ultimately show ?thesis by blast
qed

text \<open>The space \<open>add_metrics\<close> leaves for a value in the data section.\<close>

definition advance :: "metric_ent \<Rightarrow> nat" where
  "advance e = (let md = ent_mdef e in
     (if is_data md then vsize md else 0) +
     (if md_type md = LDMS_V_RECORD_ARRAY then unat (md_count md) * md_data_sz md else 0))"

definition descs_size :: "metric_ent list \<Rightarrow> nat" where
  "descs_size es = sum_list (map (md_meta_sz \<circ> ent_mdef) es)"

lemma descs_size_simps [simp]:
  "descs_size [] = 0" "descs_size (e # es) = md_meta_sz (ent_mdef e) + descs_size es"
  by (simp_all add: descs_size_def)

fun descs_at :: "metric_ent list \<Rightarrow> nat \<Rightarrow> nat \<Rightarrow> nat \<Rightarrow> mem \<Rightarrow> bool" where
  "descs_at [] idx vd value_off m \<longleftrightarrow> True"
| "descs_at (e # es) idx vd value_off m \<longleftrightarrow>
     peek 4 (h_dict idx) m = Some vd \<and> desc_ok vd (ent_mdef e) m \<and>
     (is_data (ent_mdef e) \<longrightarrow> peek 4 (vd + vd_data_offset) m = Some (value_off mod 2 ^ 32)) \<and>
     descs_at es (idx + 1) (vd + md_meta_sz (ent_mdef e)) (value_off + advance e) m"

lemma mdef_wf_meta_sz: "mdef_wf md \<Longrightarrow> 28 \<le> md_meta_sz md"
  using desc_size_bounds(1) [of "md_name md" "md_unit md"] by (simp add: mdef_wf_def)

lemma descs_at_only:
  assumes "only_changes S m m'" and "descs_at es idx vd value_off m"
    and "\<And>e. e \<in> set es \<Longrightarrow> mdef_wf (ent_mdef e)"
    and "\<And>x. h_dict idx \<le> x \<Longrightarrow> x < h_dict (idx + length es) \<Longrightarrow> x \<notin> S"
    and "\<And>x. vd \<le> x \<Longrightarrow> x < vd + descs_size es \<Longrightarrow> x \<notin> S"
  shows "descs_at es idx vd value_off m'"
  using assms(2-)
proof (induction es arbitrary: idx vd value_off)
  case (Cons e es)
  have wf: "mdef_wf (ent_mdef e)" "28 \<le> md_meta_sz (ent_mdef e)" using Cons.prems(2) mdef_wf_meta_sz by auto
  have "desc_ok vd (ent_mdef e) m'"
    by (rule desc_ok_only [OF assms(1) _ wf(1)]) (use Cons.prems in auto)
  moreover have "peek 4 (h_dict idx) m' = peek 4 (h_dict idx) m"
    by (rule peek_only [OF assms(1)]) (use Cons.prems(3) in simp)
  moreover have "peek 4 (vd + vd_data_offset) m' = peek 4 (vd + vd_data_offset) m"
    by (rule peek_only [OF assms(1)]) (use Cons.prems(4) wf(2) in simp)
  moreover have "descs_at es (idx + 1) (vd + md_meta_sz (ent_mdef e)) (value_off + advance e) m'"
    by (rule Cons.IH) (use Cons.prems in auto)
  ultimately show ?case using Cons.prems(1) by simp
qed simp

lemma add_metrics_ok:
  assumes "\<And>e. e \<in> set es \<Longrightarrow> mdef_wf (ent_mdef e)"
    and "h_dict (idx + length es) \<le> vd" "vd + descs_size es \<le> length m" "vd + descs_size es < 2 ^ 32"
  shows "\<exists>m'. add_metrics es idx vd value_off m = Some (vd + descs_size es, m') \<and>
    only_changes ({h_dict idx..<h_dict (idx + length es)} \<union> {vd..<vd + descs_size es}) m m' \<and>
    descs_at es idx vd value_off m'"
  using assms
proof (induction es arbitrary: idx vd value_off m)
  case (Cons e es)
  let ?md = "ent_mdef e"
  have wf: "mdef_wf ?md" "28 \<le> md_meta_sz ?md" using Cons.prems(1) mdef_wf_meta_sz by auto
  let ?m0 = "put (h_dict idx) (le_bytes 4 vd) m"
  have m0: "poke 4 (h_dict idx) vd m = Some ?m0" "peek 4 (h_dict idx) ?m0 = Some vd"
    "only_changes {h_dict idx..<h_dict idx + 4} m ?m0"
    using Cons.prems only_put [of "h_dict idx" "le_bytes 4 vd" m] by (simp_all add: mem_simps)
  obtain m1 where m1: "make_mdesc vd ?md value_off ?m0 = Some (if is_data ?md then value_off + vsize ?md else value_off, m1)"
    "only_changes {vd + vd_data_offset..<vd + md_meta_sz ?md} ?m0 m1" "desc_ok vd ?md m1"
    "peek 4 (vd + vd_data_offset) m1 = Some (if is_data ?md then value_off mod 2 ^ 32 else 0)"
    using make_mdesc_ok [OF wf(1), of vd ?m0 value_off] Cons.prems(3) by auto
  obtain m' where m': "add_metrics es (idx + 1) (vd + md_meta_sz ?md) (value_off + advance e) m1 =
      Some (vd + md_meta_sz ?md + descs_size es, m')"
    "only_changes ({h_dict (idx + 1)..<h_dict (idx + 1 + length es)} \<union>
       {vd + md_meta_sz ?md..<vd + md_meta_sz ?md + descs_size es}) m1 m'"
    "descs_at es (idx + 1) (vd + md_meta_sz ?md) (value_off + advance e) m'"
    using Cons.IH [of "idx + 1" "vd + md_meta_sz ?md" m1 "value_off + advance e"] Cons.prems only_length [OF m1(2)]
    by auto
  have "add_metrics (e # es) idx vd value_off m = Some (vd + descs_size (e # es), m')"
    using m0(1) m1(1) m'(1) by (auto simp: Let_def advance_def add.assoc split: if_splits)
  moreover have "only_changes ({h_dict idx..<h_dict (idx + length (e # es))} \<union> {vd..<vd + descs_size (e # es)}) m m'"
    using only_trans [OF only_trans [OF m0(3) m1(2)] m'(2)] by (rule only_weaken) auto
  moreover have "peek 4 (h_dict idx) m' = Some vd"
  proof -
    have "peek 4 (h_dict idx) m' = peek 4 (h_dict idx) m1"
      by (rule peek_only [OF m'(2)]) (use Cons.prems(2) in auto)
    also have "\<dots> = peek 4 (h_dict idx) ?m0"
      by (rule peek_only [OF m1(2)]) (use Cons.prems(2) in auto)
    finally show ?thesis using m0(2) by simp
  qed
  moreover have "desc_ok vd ?md m'"
    by (rule desc_ok_only [OF m'(2) m1(3) wf(1)]) (use Cons.prems(2) in auto)
  moreover have "peek 4 (vd + vd_data_offset) m' = peek 4 (vd + vd_data_offset) m1"
    by (rule peek_only [OF m'(2)]) (use Cons.prems(2) wf(2) in auto)
  ultimately show ?case using m1(4) m'(3) by auto
qed simp

subsection \<open>Record types and the values of the metadata\<close>

definition rec_wf :: "ldms_record \<Rightarrow> bool" where
  "rec_wf r \<longleftrightarrow>
     mdef_wf (rec_mdef r) \<and> md_type (rec_mdef r) = LDMS_V_RECORD_TYPE \<and> \<not> is_data (rec_mdef r) \<and>
     (\<forall>m \<in> set (rec_metric_list r). mdef_wf m \<and> is_data m) \<and> rec_n r = length (rec_metric_list r) \<and>
     rec_inst_sz r = sizeof_record_inst + sum_list (map vsize (rec_metric_list r)) \<and>
     rec_type_sz r = sum_list (map (\<lambda>m. md_meta_sz m + 4) (rec_metric_list r)) \<and>
     md_data_sz (rec_mdef r) = sizeof_record_type + rec_type_sz r"

fun ent_wf :: "metric_ent \<Rightarrow> bool" where
  "ent_wf (MDEF m) \<longleftrightarrow>
     mdef_wf m \<and> md_data_sz m = vsize m \<and> md_type m \<noteq> LDMS_V_RECORD_TYPE \<and> md_type m \<noteq> LDMS_V_RECORD_ARRAY"
| "ent_wf (REC_DEF r) \<longleftrightarrow> rec_wf r"
| "ent_wf (REC_ARRAY_DEF m rec_type inst_sz) \<longleftrightarrow>
     mdef_wf m \<and> md_type m = LDMS_V_RECORD_ARRAY \<and> is_data m \<and> 16 \<le> inst_sz \<and>
     md_data_sz m = roundup (sizeof_record_array + unat (md_count m) * inst_sz) 8"

lemma ent_wf_mdef: "ent_wf e \<Longrightarrow> mdef_wf (ent_mdef e)"
  by (cases e) (auto simp: rec_wf_def)

lemma make_rec_members_ok:
  assumes "\<And>md. md \<in> set mds \<Longrightarrow> mdef_wf md \<and> is_data md"
    and "16 + 4 * (j + length mds) \<le> type_off" "rt + (type_off + sum_list (map md_meta_sz mds)) \<le> length m"
  shows "\<exists>m'. make_rec_members mds rt j type_off inst_off m =
      Some (type_off + sum_list (map md_meta_sz mds), inst_off + sum_list (map vsize mds), m') \<and>
    only_changes {rt + 16..<rt + (type_off + sum_list (map md_meta_sz mds))} m m'"
  using assms
proof (induction mds arbitrary: j type_off inst_off m)
  case (Cons md mds)
  have wf: "mdef_wf md" "is_data md" "28 \<le> md_meta_sz md" using Cons.prems(1) mdef_wf_meta_sz by auto
  let ?vd = "rt + type_off"
  let ?m0 = "put ?vd (le_bytes 8 0x012345678abcdef) (put (rt + 16 + 4 * j) (le_bytes 4 type_off) m)"
  obtain m1 where m1: "make_mdesc ?vd md inst_off ?m0 = Some (inst_off + vsize md, m1)"
    "only_changes {?vd + vd_data_offset..<?vd + md_meta_sz md} ?m0 m1" "desc_ok ?vd md m1"
    using make_mdesc_ok [OF wf(1), of ?vd ?m0 inst_off] Cons.prems(3) wf(2) by auto
  have "28 + (length (md_name md) + 1 + unit_len (md_unit md)) mod 256 \<le> md_meta_sz md"
  proof -
    have "28 + (length (md_name md) + 1 + unit_len (md_unit md)) \<le> md_meta_sz md"
      using desc_size_bounds(1) [of "md_name md" "md_unit md"] desc_size_bounds(2) [of "md_unit md" _ "md_name md"] wf(1)
      by (auto simp: mdef_wf_def unit_len_def split: option.splits)
    then show ?thesis by (meson mod_less_eq_dividend add_left_mono order_trans)
  qed
  then have len: "peek 1 (?vd + vd_name_unit_len) m1 = Some l \<Longrightarrow> 28 + l \<le> md_meta_sz md" for l
    using m1(3) by (simp add: desc_ok_def)
  obtain l where l: "peek 1 (?vd + vd_name_unit_len) m1 = Some l" using m1(3) by (auto simp: desc_ok_def)
  obtain m' where m': "make_rec_members mds rt (j + 1) (type_off + md_meta_sz md) (inst_off + vsize md) m1 =
      Some (type_off + md_meta_sz md + sum_list (map md_meta_sz mds), inst_off + vsize md + sum_list (map vsize mds), m')"
    "only_changes {rt + 16..<rt + (type_off + md_meta_sz md + sum_list (map md_meta_sz mds))} m1 m'"
    using Cons.IH [of "j + 1" "type_off + md_meta_sz md" m1 "inst_off + vsize md"] Cons.prems wf(3) only_length [OF m1(2)]
    by auto
  have "only_changes {rt + 16..<rt + (type_off + sum_list (map md_meta_sz (md # mds)))} m ?m0"
    using Cons.prems(2) wf(3) by (intro only_put_on) auto
  from only_trans [OF only_trans [OF this m1(2)] m'(2)]
  have "only_changes {rt + 16..<rt + (type_off + sum_list (map md_meta_sz (md # mds)))} m m'"
    by (rule only_weaken) (use Cons.prems(2) in auto)
  moreover have "make_rec_members (md # mds) rt j type_off inst_off m =
      Some (type_off + sum_list (map md_meta_sz (md # mds)), inst_off + sum_list (map vsize (md # mds)), m')"
    using m1(1) m'(1) l len [OF l] Cons.prems(2,3) wf(3) by (simp add: Let_def mem_simps add.assoc)
  ultimately show ?case by blast
qed simp

lemma make_rec_type_ok:
  assumes wf: "rec_wf r" and room: "rt + md_data_sz (rec_mdef r) \<le> length m"
  shows "\<exists>m'. make_rec_type r rt m = Some m' \<and> only_changes {rt..<rt + md_data_sz (rec_mdef r)} m m'"
proof -
  let ?mds = "rec_metric_list r" and ?n = "rec_n r"
  have "sum_list (map (\<lambda>m. md_meta_sz m + 4) ?mds) = sum_list (map md_meta_sz ?mds) + 4 * length ?mds"
    by (simp add: sum_list_addf sum_list_triv)
  with wf have sz: "md_data_sz (rec_mdef r) = 16 + ?n * 4 + sum_list (map md_meta_sz ?mds)"
    by (simp add: rec_wf_def)
  let ?m0 = "put rt (le_bytes 4 1) m"
  obtain m1 where m1: "make_rec_members ?mds rt 0 (16 + ?n * 4) 16 ?m0 =
      Some (md_data_sz (rec_mdef r), rec_inst_sz r, m1)"
    "only_changes {rt + 16..<rt + md_data_sz (rec_mdef r)} ?m0 m1"
    using make_rec_members_ok [of ?mds 0 "16 + ?n * 4" rt ?m0 16] wf room sz by (auto simp: rec_wf_def)
  let ?m2 = "put (rt + 12) (le_bytes 4 (rec_inst_sz r)) (put (rt + 8) (le_bytes 4 ?n) m1)"
  have "make_rec_type r rt m = Some ?m2"
    using m1(1) room sz only_length [OF m1(2)] by (simp add: make_rec_type_def mem_simps)
  moreover have "only_changes {rt..<rt + md_data_sz (rec_mdef r)} m ?m2"
  proof (intro only_put_on)
    show "only_changes {rt..<rt + md_data_sz (rec_mdef r)} m m1"
      using only_trans [OF only_put [of rt "le_bytes 4 1" m] m1(2)] by (rule only_weaken) (use sz in auto)
  qed (use sz in auto)
  ultimately show ?thesis by blast
qed

definition meta_vsize :: "metric_ent \<Rightarrow> nat" where
  "meta_vsize e =
     (if is_data (ent_mdef e) then 0 else case e of REC_DEF r \<Rightarrow> md_data_sz (rec_mdef r) | _ \<Rightarrow> vsize (ent_mdef e))"

fun metas_at :: "metric_ent list \<Rightarrow> nat \<Rightarrow> nat \<Rightarrow> mem \<Rightarrow> bool" where
  "metas_at [] vd value_off m \<longleftrightarrow> True"
| "metas_at (e # es) vd value_off m \<longleftrightarrow>
     (\<not> is_data (ent_mdef e) \<longrightarrow> peek 4 (vd + vd_data_offset) m = Some value_off) \<and>
     metas_at es (vd + md_meta_sz (ent_mdef e)) (value_off + meta_vsize e) m"

lemma metas_at_only:
  assumes "only_changes S m m'" and "metas_at es vd value_off m"
    and "\<And>e. e \<in> set es \<Longrightarrow> mdef_wf (ent_mdef e)" and "\<And>x. vd \<le> x \<Longrightarrow> x < vd + descs_size es \<Longrightarrow> x \<notin> S"
  shows "metas_at es vd value_off m'"
  using assms(2-)
proof (induction es arbitrary: vd value_off)
  case (Cons e es)
  have wf: "28 \<le> md_meta_sz (ent_mdef e)" using Cons.prems(2) mdef_wf_meta_sz by auto
  have "peek 4 (vd + vd_data_offset) m' = peek 4 (vd + vd_data_offset) m"
    by (rule peek_only [OF assms(1)]) (use Cons.prems(3) wf in simp)
  moreover have "metas_at es (vd + md_meta_sz (ent_mdef e)) (value_off + meta_vsize e) m'"
    by (rule Cons.IH) (use Cons.prems in auto)
  ultimately show ?case using Cons.prems(1) by simp
qed simp

lemma place_meta_step:
  assumes wf: "ent_wf e" and nd: "\<not> is_data (ent_mdef e)" and vd: "desc_ok vd (ent_mdef e) m" "peek 4 (h_dict i) m = Some vd"
    and room: "h_dict i + 4 \<le> vd" "vd + md_meta_sz (ent_mdef e) \<le> value_off" "value_off + meta_vsize e \<le> length m"
    and small: "value_off < 2 ^ 32"
  shows "\<exists>m1. place_meta (e # es) i value_off m = place_meta es (i + 1) (value_off + meta_vsize e) m1 \<and>
    only_changes ({vd + vd_data_offset..<vd + vd_array_count} \<union> {value_off..<value_off + meta_vsize e}) m m1 \<and>
    peek 4 (vd + vd_data_offset) m1 = Some value_off"
proof -
  let ?md = "ent_mdef e"
  let ?m0 = "put (vd + 8) (le_bytes 4 value_off) m"
  have w: "28 \<le> md_meta_sz ?md" using wf ent_wf_mdef mdef_wf_meta_sz by blast
  have only0: "only_changes {vd + vd_data_offset..<vd + vd_array_count} m ?m0"
    using only_put [of "vd + 8" "le_bytes 4 value_off" m] by (simp add: add.commute add.assoc)
  have m0: "poke 4 (vd + vd_data_offset) value_off m = Some ?m0" "peek 4 (vd + vd_data_offset) ?m0 = Some value_off"
    using room w small by (simp_all add: mem_simps)
  have read: "peek 1 (vd + vd_flags) m = Some (md_flags ?md)" "peek 1 (vd + vd_type) ?m0 = Some (vt_code (md_type ?md))"
    "peek 4 (vd + vd_array_count) ?m0 = Some (unat (md_count ?md))"
    using vd(1) by (simp_all add: desc_ok_def mem_simps)
  show ?thesis
  proof (cases "md_type ?md = LDMS_V_RECORD_TYPE")
    case True
    with wf obtain r where r: "e = REC_DEF r" "rec_wf r" by (cases e) auto
    then have sz: "meta_vsize e = md_data_sz (rec_mdef r)" using nd by (simp add: meta_vsize_def)
    with make_rec_type_ok [OF r(2), of value_off ?m0] room
    obtain m1 where m1: "make_rec_type r value_off ?m0 = Some m1" "only_changes {value_off..<value_off + meta_vsize e} ?m0 m1"
      by auto
    have "peek 4 (vd + vd_data_offset) m1 = Some value_off"
      using peek_only [OF m1(2), of "vd + vd_data_offset" 4] m0(2) room w by simp
    then show ?thesis
      using vd(2) read nd m0 m1 sz True r only_trans [OF only0 m1(2)] vt_of_code_code [of LDMS_V_RECORD_TYPE]
      by auto
  next
    case False
    with wf nd have "meta_vsize e = vsize ?md" by (cases e) (auto simp: meta_vsize_def rec_wf_def)
    then show ?thesis
      using vd(2) read nd m0 False value_size_vsize [OF ent_wf_mdef [OF wf]] only_weaken [OF only0] by auto
  qed
qed

lemma place_meta_ok:
  assumes "\<And>e. e \<in> set es \<Longrightarrow> ent_wf e" and "descs_at es i vd data_off m"
    and "h_dict (i + length es) \<le> vd" "vd + descs_size es \<le> value_off"
    and "value_off + sum_list (map meta_vsize es) \<le> length m" "value_off + sum_list (map meta_vsize es) < 2 ^ 32"
  shows "\<exists>m'. place_meta es i value_off m = Some m' \<and>
    only_changes ({vd..<vd + descs_size es} \<union> {value_off..<value_off + sum_list (map meta_vsize es)}) m m' \<and>
    descs_at es i vd data_off m' \<and> metas_at es vd value_off m'"
  using assms
proof (induction es arbitrary: i vd data_off value_off m)
  case (Cons e es)
  let ?md = "ent_mdef e" and ?vd = "vd + md_meta_sz (ent_mdef e)" and ?off = "value_off + meta_vsize e"
  have wf: "ent_wf e" "mdef_wf ?md" "28 \<le> md_meta_sz ?md" using Cons.prems(1) ent_wf_mdef mdef_wf_meta_sz by auto
  have wfs: "\<And>e. e \<in> set es \<Longrightarrow> mdef_wf (ent_mdef e)" using Cons.prems(1) ent_wf_mdef by auto
  have "\<exists>m1. place_meta (e # es) i value_off m = place_meta es (i + 1) ?off m1 \<and>
    only_changes ({vd + vd_data_offset..<vd + vd_array_count} \<union> {value_off..<?off}) m m1 \<and>
    (\<not> is_data ?md \<longrightarrow> peek 4 (vd + vd_data_offset) m1 = Some value_off) \<and>
    (is_data ?md \<longrightarrow> m1 = m)"
  proof (cases "is_data ?md")
    case True
    then show ?thesis using Cons.prems(2) by (auto simp: meta_vsize_def desc_ok_def)
  next
    case False
    with place_meta_step [OF wf(1) False, of vd m i value_off es] Cons.prems show ?thesis by auto
  qed
  then obtain m1 where m1: "place_meta (e # es) i value_off m = place_meta es (i + 1) ?off m1"
    "only_changes ({vd + vd_data_offset..<vd + vd_array_count} \<union> {value_off..<?off}) m m1"
    "\<not> is_data ?md \<Longrightarrow> peek 4 (vd + vd_data_offset) m1 = Some value_off" "is_data ?md \<Longrightarrow> m1 = m" by auto
  have dict1: "peek 4 (h_dict i) m1 = Some vd"
    using peek_only [OF m1(2), of "h_dict i" 4] Cons.prems(2,3,4) by auto
  have desc1: "desc_ok vd ?md m1"
    by (rule desc_ok_only [OF m1(2) _ wf(2)]) (use Cons.prems(2,3,4) in auto)
  have "descs_at es (i + 1) ?vd (data_off + advance e) m1"
    by (rule descs_at_only [OF m1(2) _ wfs]) (use Cons.prems(2,3,4) wf(3) in auto)
  then obtain m' where m': "place_meta es (i + 1) ?off m1 = Some m'"
    "only_changes ({?vd..<?vd + descs_size es} \<union> {?off..<?off + sum_list (map meta_vsize es)}) m1 m'"
    "descs_at es (i + 1) ?vd (data_off + advance e) m'" "metas_at es ?vd ?off m'"
    using Cons.IH [of "i + 1" ?vd "data_off + advance e" m1 ?off] Cons.prems only_length [OF m1(2)] by auto
  have keep: "peek 4 (vd + vd_data_offset) m' = peek 4 (vd + vd_data_offset) m1" "peek 4 (h_dict i) m' = Some vd"
    using peek_only [OF m'(2), of "vd + vd_data_offset" 4] peek_only [OF m'(2), of "h_dict i" 4] dict1 Cons.prems(3,4) wf(3)
    by auto
  have "desc_ok vd ?md m'" by (rule desc_ok_only [OF m'(2) desc1 wf(2)]) (use Cons.prems(3,4) in auto)
  moreover have "only_changes ({vd..<vd + descs_size (e # es)} \<union> {value_off..<value_off + sum_list (map meta_vsize (e # es))}) m m'"
    using only_trans [OF m1(2) m'(2)] by (rule only_weaken) (use wf(3) in auto)
  ultimately show ?case
    using m1 m' keep Cons.prems(2) by auto
qed simp

end
