(* ===== verification/SchemaSpec.thy ===== *)
theory SchemaSpec
  imports MetricLayout
begin

unbundle bit_operations_syntax

section \<open>Schemas stay well-formed\<close>

text \<open>
  The invariant of a schema under the operations that build it: its metrics have distinct names,
  and its sizes are the sums of what the metrics need.
\<close>

definition ent_extra :: "metric_ent \<Rightarrow> nat" where
  "ent_extra e = (case e of REC_DEF r \<Rightarrow> rec_type_sz r | _ \<Rightarrow> 0)"

definition data_part :: "metric_ent \<Rightarrow> nat" where
  "data_part e = (if is_data (ent_mdef e) then md_data_sz (ent_mdef e) else 0)"

definition meta_part :: "metric_ent \<Rightarrow> nat" where
  "meta_part e = md_meta_sz (ent_mdef e) + 4 + (if is_data (ent_mdef e) then 0 else md_data_sz (ent_mdef e)) + ent_extra e"

definition schema_wf :: "ldms_schema \<Rightarrow> bool" where
  "schema_wf s \<longleftrightarrow>
     sch_card s = length (sch_metric_list s) \<and> (\<forall>e \<in> set (sch_metric_list s). ent_wf e) \<and>
     (\<forall>e \<in> set (sch_metric_list s). c_string (md_name (ent_mdef e))) \<and>
     distinct (map (md_name \<circ> ent_mdef) (sch_metric_list s)) \<and>
     sch_data_sz s = sizeof_data_hdr + sum_list (map data_part (sch_metric_list s)) \<and>
     sch_meta_sz s = sizeof_set_hdr + sum_list (map meta_part (sch_metric_list s)) \<and>
     0 \<le> sch_array_card s \<and> length (sch_digest s) = LDMS_DIGEST_LENGTH"

lemma ldms_schema_new_wf: "ldms_schema_new mem_ok name = Some s \<Longrightarrow> schema_wf s"
  by (auto simp: ldms_schema_new_def schema_wf_def split: if_splits)

lemma has_metric_iff:
  assumes "schema_wf s" and "c_string name"
  shows "has_metric name s \<longleftrightarrow> name \<in> (md_name \<circ> ent_mdef) ` set (sch_metric_list s)"
proof -
  have "strcmp (md_name (ent_mdef e)) name = 0 \<longleftrightarrow> md_name (ent_mdef e) = name" if "e \<in> set (sch_metric_list s)" for e
    using strcmp_eq_0 assms that by (auto simp: schema_wf_def)
  then show ?thesis by (auto simp: has_metric_def list_ex_iff)
qed

lemma schema_mdef_add_wf:
  assumes wf: "schema_wf s" and e: "ent_wf e" "c_string (md_name (ent_mdef e))" "\<not> has_metric (md_name (ent_mdef e)) s"
  shows "schema_wf ((snd (schema_mdef_add e s))\<lparr>sch_meta_sz := sch_meta_sz (snd (schema_mdef_add e s)) + ent_extra e\<rparr>)"
    and "fst (schema_mdef_add e s) = sch_card s"
  using assms has_metric_iff [OF wf e(2)]
  by (auto simp: schema_wf_def schema_mdef_add_def Let_def data_part_def meta_part_def)

lemma ldms_metric_size_get_eq:
  "t \<noteq> LDMS_V_NONE \<Longrightarrow> \<exists>sz. ldms_metric_size_get name unit t c = Some (desc_size name unit, sz) \<and> ldms_value_size_get t c = Some sz"
  using value_size_Some [of t c] by (auto simp: ldms_metric_size_get_def)

lemma schema_metric_add_wf:
  assumes wf: "schema_wf s" and name: "\<And>n. name = Some n \<Longrightarrow> c_string n"
    and t: "type \<noteq> LDMS_V_NONE" "type \<noteq> LDMS_V_RECORD_TYPE" "type \<noteq> LDMS_V_RECORD_ARRAY" and f: "flags < 256"
  shows "\<exists>r s'. schema_metric_add mem_ok s name unit flags type c = Some (r, s') \<and> schema_wf s'"
proof (cases "\<exists>n. name = Some n \<and> \<not> has_metric n s \<and> \<not> (flag_on flags LDMS_MDESC_F_META \<and> type = LDMS_V_LIST) \<and> mem_ok")
  case True
  then obtain n where n: "name = Some n" "\<not> has_metric n s" "\<not> (flag_on flags LDMS_MDESC_F_META \<and> type = LDMS_V_LIST)" mem_ok
    by blast
  obtain sz where sz: "ldms_metric_size_get n unit type c = Some (desc_size n unit, sz)" "ldms_value_size_get type c = Some sz"
    using ldms_metric_size_get_eq [OF t(1)] by blast
  let ?m = "\<lparr>md_name = n, md_unit = unit, md_type = type, md_flags = flags, md_count = c,
             md_meta_sz = desc_size n unit, md_data_sz = sz\<rparr>"
  have "ent_wf (MDEF ?m)" using t f sz(2) by (simp add: mdef_wf_def vsize_def)
  from schema_mdef_add_wf(1) [OF wf this] n name
  have "schema_wf (snd (schema_mdef_add (MDEF ?m) s))" by (simp add: ent_extra_def)
  then show ?thesis using n sz by (auto simp: schema_metric_add_def split_beta Let_def)
next
  case False
  then show ?thesis using wf by (auto simp: schema_metric_add_def split: option.split)
qed

subsection \<open>Records\<close>

lemma flag_values [simp]:
  "flag_on (Suc 0) (Suc 0)" "\<not> flag_on 2 (Suc 0)" "\<not> flag_on 6 (Suc 0)" "flag_on 5 (Suc 0)"
  "flag_on 2 2" "\<not> flag_on (Suc 0) 2"
  by (simp_all add: flag_on_def)

lemma ldms_record_create_wf:
  "ldms_record_create mem_ok name = Some (Inr r) \<Longrightarrow> rec_wf r \<and> rec_metric_id r = -1 \<and> name = Some (md_name (rec_mdef r))"
  using ldms_metric_size_get_eq [of LDMS_V_RECORD_TYPE "the name" None 0]
  by (auto simp: ldms_record_create_def rec_wf_def mdef_wf_def ldms_value_size_get_def roundup_8
      split: option.splits if_splits)

lemma record_member_add_wf:
  assumes "record_member_add mem_ok r name unit type c = Some (Inr (idx, r', tsz))" and "rec_wf r" "type \<noteq> LDMS_V_NONE"
  shows "rec_wf r' \<and> rec_metric_id r' = rec_metric_id r \<and> md_name (rec_mdef r') = md_name (rec_mdef r) \<and>
    rec_type_sz r' = rec_type_sz r + tsz \<and> md_meta_sz (rec_mdef r') = md_meta_sz (rec_mdef r) \<and>
    md_data_sz (rec_mdef r') = md_data_sz (rec_mdef r) + tsz"
  using assms ldms_metric_size_get_eq [OF assms(3), of "the name" unit c]
  by (auto simp: record_member_add_def rec_wf_def mdef_wf_def vsize_def Let_def split: option.splits if_splits)

lemma ldms_record_metric_add_wf:
  assumes "ldms_record_metric_add mem_ok r name unit type c = Some (x, r')" and "rec_wf r" "type \<noteq> LDMS_V_NONE"
  shows "rec_wf r' \<and> rec_metric_id r' = rec_metric_id r \<and> md_name (rec_mdef r') = md_name (rec_mdef r)"
  using assms record_member_add_wf [OF _ assms(2,3)]
  by (auto simp: ldms_record_metric_add_def split: sum.splits bind_splits)

lemma ldms_schema_record_add_wf:
  assumes "schema_wf s" "rec_wf r" "c_string (md_name (rec_mdef r))"
  shows "schema_wf (snd (ldms_schema_record_add s r))"
proof -
  have "ent_wf (REC_DEF (r\<lparr>rec_metric_id := int (sch_card s)\<rparr>))" using assms(2) by (simp add: rec_wf_def)
  from schema_mdef_add_wf(1) [OF assms(1) this] assms show ?thesis
    by (auto simp: ldms_schema_record_add_def ent_extra_def split_beta Let_def)
qed

lemma ldms_schema_record_array_add_wf:
  assumes "schema_wf s" "rec_wf r" "c_string name" "len < 2 ^ 31"
  shows "\<exists>x s'. ldms_schema_record_array_add mem_ok s name r len = Some (x, s') \<and> schema_wf s'"
proof -
  let ?m = "\<lparr>md_name = name, md_unit = None, md_type = LDMS_V_RECORD_ARRAY, md_flags = LDMS_MDESC_F_DATA,
             md_count = of_nat len, md_meta_sz = desc_size name None,
             md_data_sz = roundup (sizeof_record_array + len * rec_inst_sz r) 8\<rparr>"
  have "unat (of_nat len :: u32) = len" using assms(4) by (simp add: unat_of_nat)
  moreover have "16 \<le> rec_inst_sz r" using assms(2) by (simp add: rec_wf_def)
  ultimately have "ent_wf (REC_ARRAY_DEF ?m (rec_metric_id r) (rec_inst_sz r))"
    by (simp add: mdef_wf_def)
  from schema_mdef_add_wf(1) [OF assms(1) this] assms(1,3)
    ldms_metric_size_get_eq [of LDMS_V_RECORD_ARRAY name None "of_nat len"]
  show ?thesis
    by (auto simp: ldms_schema_record_array_add_def ent_extra_def split_beta Let_def)
qed

subsection \<open>Histories of operations\<close>

text \<open>
  The calls that build a schema. A record type is complete when it is added; arrays of records name
  their type by its index. Errors leave the schema as it is.
\<close>

type_synonym member = "string \<times> string option \<times> ldms_value_type \<times> u32"

datatype schema_op =
    AddMetric string "string option" ldms_value_type
  | AddMeta string "string option" ldms_value_type
  | AddArray string "string option" ldms_value_type u32
  | AddMetaArray string "string option" ldms_value_type u32
  | AddList string "string option" u32
  | AddRecord string "member list"
  | AddRecordArray string nat nat
  | ArrayCard int

fun add_members :: "bool \<Rightarrow> member list \<Rightarrow> ldms_record \<Rightarrow> ldms_record option" where
  "add_members mem_ok [] r = Some r"
| "add_members mem_ok ((name, unit, type, c) # ms) r = do {
     (rc, r) \<leftarrow> ldms_record_metric_add mem_ok r (Some name) unit type c;
     add_members mem_ok ms r }"

fun schema_step :: "bool \<times> schema_op \<Rightarrow> ldms_schema \<Rightarrow> ldms_schema option" where
  "schema_step (mem_ok, AddMetric name unit type) s =
     map_option snd (ldms_schema_metric_add_with_unit mem_ok s (Some name) unit type)"
| "schema_step (mem_ok, AddMeta name unit type) s =
     map_option snd (ldms_schema_meta_add_with_unit mem_ok s (Some name) unit type)"
| "schema_step (mem_ok, AddArray name unit type c) s =
     map_option snd (ldms_schema_metric_array_add_with_unit mem_ok s (Some name) unit type c)"
| "schema_step (mem_ok, AddMetaArray name unit type c) s =
     map_option snd (ldms_schema_meta_array_add_with_unit mem_ok s (Some name) unit type c)"
| "schema_step (mem_ok, AddList name unit heap_sz) s =
     map_option snd (ldms_schema_metric_list_add mem_ok s (Some name) unit heap_sz)"
| "schema_step (mem_ok, AddRecord name ms) s = do {
     r \<leftarrow> ldms_record_create mem_ok (Some name);
     case r of
       Inl e \<Rightarrow> Some s
     | Inr r \<Rightarrow> do {
         r \<leftarrow> add_members mem_ok ms r;
         Some (snd (ldms_schema_record_add s r)) } }"
| "schema_step (mem_ok, AddRecordArray name i len) s =
     (case (if i < length (sch_metric_list s) then Some (sch_metric_list s ! i) else None) of
        Some (REC_DEF r) \<Rightarrow> map_option snd (ldms_schema_record_array_add mem_ok s name r len)
      | _ \<Rightarrow> Some s)"
| "schema_step (mem_ok, ArrayCard c) s = Some (snd (ldms_schema_array_card_set s c))"

fun schema_run :: "(bool \<times> schema_op) list \<Rightarrow> ldms_schema \<Rightarrow> ldms_schema option" where
  "schema_run [] s = Some s"
| "schema_run (op # ops) s = do { s \<leftarrow> schema_step op s; schema_run ops s }"

definition plain_type :: "ldms_value_type \<Rightarrow> bool" where
  "plain_type t \<longleftrightarrow> t \<noteq> LDMS_V_NONE \<and> t \<noteq> LDMS_V_RECORD_TYPE \<and> t \<noteq> LDMS_V_RECORD_ARRAY"

fun op_ok :: "bool \<times> schema_op \<Rightarrow> bool" where
  "op_ok (mem_ok, AddMetric name unit type) \<longleftrightarrow> c_string name \<and> plain_type type"
| "op_ok (mem_ok, AddMeta name unit type) \<longleftrightarrow> c_string name \<and> plain_type type"
| "op_ok (mem_ok, AddArray name unit type c) \<longleftrightarrow> c_string name \<and> plain_type type"
| "op_ok (mem_ok, AddMetaArray name unit type c) \<longleftrightarrow> c_string name \<and> plain_type type"
| "op_ok (mem_ok, AddList name unit heap_sz) \<longleftrightarrow> c_string name"
| "op_ok (mem_ok, AddRecord name ms) \<longleftrightarrow> c_string name \<and> (\<forall>(n, u, t, c) \<in> set ms. t \<noteq> LDMS_V_NONE)"
| "op_ok (mem_ok, AddRecordArray name i len) \<longleftrightarrow> c_string name \<and> len < 2 ^ 31"
| "op_ok (mem_ok, ArrayCard c) \<longleftrightarrow> True"

lemma add_members_wf:
  assumes "rec_wf r" and "\<forall>(n, u, t, c) \<in> set ms. t \<noteq> LDMS_V_NONE"
  shows "\<exists>r'. add_members mem_ok ms r = Some r' \<and> rec_wf r' \<and> md_name (rec_mdef r') = md_name (rec_mdef r)"
  using assms
proof (induction ms arbitrary: r)
  case (Cons x ms)
  obtain n u t c where x: "x = (n, u, t, c)" by (cases x)
  have "\<exists>rc r1. ldms_record_metric_add mem_ok r (Some n) u t c = Some (rc, r1)"
    using ldms_metric_size_get_eq [of t n u c] Cons.prems(2) x
    by (auto simp: ldms_record_metric_add_def record_member_add_def Let_def)
  then obtain rc r1 where r1: "ldms_record_metric_add mem_ok r (Some n) u t c = Some (rc, r1)" by blast
  with ldms_record_metric_add_wf [OF r1 Cons.prems(1)] Cons.prems(2) x Cons.IH [of r1] show ?case by auto
qed simp

lemma schema_metric_add_plain:
  "schema_wf s \<Longrightarrow> c_string name \<Longrightarrow> plain_type type \<Longrightarrow> flags < 256 \<Longrightarrow>
   \<exists>r s'. schema_metric_add mem_ok s (Some name) unit flags type c = Some (r, s') \<and> schema_wf s'"
  using schema_metric_add_wf [of s "Some name" type flags mem_ok unit c] by (auto simp: plain_type_def)

lemma schema_step_wf:
  assumes wf: "schema_wf s" and "op_ok op"
  shows "\<exists>s'. schema_step op s = Some s' \<and> schema_wf s'"
proof (cases op rule: op_ok.cases)
  case (6 mem_ok name ms)
  then have op: "c_string name" "\<forall>(n, u, t, c) \<in> set ms. t \<noteq> LDMS_V_NONE" using assms(2) by auto
  have "\<exists>x. ldms_record_create mem_ok (Some name) = Some x"
    using ldms_metric_size_get_eq [of LDMS_V_RECORD_TYPE name None 0] by (auto simp: ldms_record_create_def)
  then obtain x where x: "ldms_record_create mem_ok (Some name) = Some x" by blast
  show ?thesis
  proof (cases x)
    case (Inr r)
    with x have "rec_wf r" "md_name (rec_mdef r) = name" using ldms_record_create_wf by auto
    with add_members_wf [of r ms mem_ok] op obtain r' where
      "add_members mem_ok ms r = Some r'" "rec_wf r'" "md_name (rec_mdef r') = name" by auto
    then show ?thesis using x Inr 6 ldms_schema_record_add_wf [OF wf] op by auto
  qed (use x 6 wf in auto)
next
  case (7 mem_ok name i len)
  show ?thesis
  proof (cases "i < length (sch_metric_list s)")
    case True
    then have "ent_wf (sch_metric_list s ! i)" using wf by (simp add: schema_wf_def)
    then show ?thesis using 7 True wf assms(2) ldms_schema_record_array_add_wf [OF wf, of _ name len mem_ok]
      by (cases "sch_metric_list s ! i") fastforce+
  qed (use 7 wf in auto)
next
  case (8 mem_ok c)
  then show ?thesis using wf by (auto simp: ldms_schema_array_card_set_def schema_wf_def)
next
  case (1 mem_ok name unit type)
  then show ?thesis using assms(2) wf schema_metric_add_plain [OF wf, of name type 1 mem_ok unit 1]
    by (auto simp: ldms_schema_metric_add_with_unit_def)
next
  case (2 mem_ok name unit type)
  then show ?thesis using assms(2) wf schema_metric_add_plain [OF wf, of name type 2 mem_ok unit 1]
    by (auto simp: ldms_schema_meta_add_with_unit_def)
next
  case (3 mem_ok name unit type c)
  then show ?thesis using assms(2) wf schema_metric_add_plain [OF wf, of name type 1 mem_ok unit c]
    by (auto simp: ldms_schema_metric_array_add_with_unit_def)
next
  case (4 mem_ok name unit type c)
  then show ?thesis using assms(2) wf schema_metric_add_plain [OF wf, of name type 2 mem_ok unit c]
    by (auto simp: ldms_schema_meta_array_add_with_unit_def)
next
  case (5 mem_ok name unit heap_sz)
  then show ?thesis using assms(2) wf schema_metric_add_plain [OF wf, of name LDMS_V_LIST 1 mem_ok unit heap_sz]
    by (auto simp: ldms_schema_metric_list_add_def plain_type_def)
qed

lemma schema_run_wf:
  "schema_wf s \<Longrightarrow> list_all op_ok ops \<Longrightarrow> \<exists>s'. schema_run ops s = Some s' \<and> schema_wf s'"
proof (induction ops arbitrary: s)
  case (Cons op ops)
  then show ?case using schema_step_wf [of s op] by fastforce
qed simp

end
