(* ===== verification/MetricCreate.thy ===== *)
theory MetricCreate
  imports SchemaSpec
begin

section \<open>Creating a set\<close>

text \<open>
  \<open>ldms_set_create\<close> of a well-formed schema: the sizes it computes are enough, no store is out of
  bounds, and the set it returns has every metric at its place.
\<close>

subsection \<open>Sizes\<close>

lemma default_list_heap_wf:
  "ent_wf e \<Longrightarrow> ent_wf (default_list_heap e)"
  "md_name (ent_mdef (default_list_heap e)) = md_name (ent_mdef e)"
  "data_part (default_list_heap e) = data_part e" "meta_part (default_list_heap e) = meta_part e"
  by (auto simp: default_list_heap_def data_part_def meta_part_def ent_extra_def mdef_wf_def vsize_def
      ldms_value_size_get_def split: metric_ent.splits)

lemma data_part_8: "ent_wf e \<Longrightarrow> 8 dvd data_part e"
  using vsize_8 by (cases e) (auto simp: data_part_def rec_wf_def roundup_8_bounds)

lemma sum_list_dvd: "(\<And>x. x \<in> set xs \<Longrightarrow> (d :: nat) dvd f x) \<Longrightarrow> d dvd sum_list (map f xs)"
  by (induction xs) auto

lemma sum_list_lower: "(\<And>x. x \<in> set xs \<Longrightarrow> (d :: nat) \<le> f x) \<Longrightarrow> d * length xs \<le> sum_list (map f xs)"
  by (induction xs) force+

lemma schema_data_8: "schema_wf s \<Longrightarrow> 8 dvd sch_data_sz s"
  using sum_list_dvd [of "sch_metric_list s" 8 data_part] data_part_8 by (auto simp: schema_wf_def)

lemma compute_set_sizes_ok:
  assumes wf: "schema_wf s"
  shows "\<exists>sz. compute_set_sizes inst s h = Some (Inr sz, s\<lparr>sch_metric_list := map default_list_heap (sch_metric_list s)\<rparr>) \<and>
    schema_wf (s\<lparr>sch_metric_list := map default_list_heap (sch_metric_list s)\<rparr>) \<and>
    0 < sz_array_card sz \<and> 8 dvd sz_meta sz \<and> 512 dvd sz_heap sz \<and>
    sz_meta sz = roundup (36 + (sch_meta_sz s + (length (sch_name s) + length inst))) 8 \<and>
    sz_array_data sz = sz_array_card sz * (sch_data_sz s + sz_heap sz) \<and> sz_total sz = sz_meta sz + sz_array_data sz \<and>
    (sch_array_card s \<noteq> 0 \<longrightarrow> int (sz_array_card sz) = sch_array_card s)"
proof -
  have "md_name \<circ> ent_mdef \<circ> default_list_heap = md_name \<circ> ent_mdef"
    "data_part \<circ> default_list_heap = data_part" "meta_part \<circ> default_list_heap = meta_part"
    by (auto simp: fun_eq_iff default_list_heap_wf)
  with wf have wf': "schema_wf (s\<lparr>sch_metric_list := map default_list_heap (sch_metric_list s)\<rparr>)"
    by (auto simp: schema_wf_def default_list_heap_wf)
  let ?l = "list_heap (map default_list_heap (sch_metric_list s))"
  let ?hp = "ldms_heap_size (if h < ?l then ?l else h)"
  let ?c = "if sch_array_card s = 0 then 1 else nat (sch_array_card s)"
  let ?M = "roundup (sch_meta_sz s + (length (sch_name s) + 2) + 32 + (length inst + 2)) 8"
  let ?sz = "\<lparr>sz_array_card = ?c, sz_meta = ?M, sz_array_data = (sch_data_sz s + ?hp) * ?c, sz_heap = ?hp,
              sz_total = ?M + (sch_data_sz s + ?hp) * ?c\<rparr>"
  have card: "0 \<le> sch_array_card s" using wf by (simp add: schema_wf_def)
  then have "compute_set_sizes inst s h = Some (Inr ?sz, s\<lparr>sch_metric_list := map default_list_heap (sch_metric_list s)\<rparr>)"
    using roundup_8_id [OF schema_data_8 [OF wf]] by (simp add: compute_set_sizes_def Let_def)
  then show ?thesis
    using wf' card roundup_8_bounds(3) roundup_512(3)
    by (intro exI [of _ ?sz]) (simp add: ldms_heap_size_def del: One_nat_def)
qed

text \<open>
  The metadata fits: the names, the descriptors and the values of the metadata end within \<^verbatim>\<open>meta_sz\<close>.
\<close>

lemma meta_part_split:
  "ent_wf e \<Longrightarrow> meta_part e = md_meta_sz (ent_mdef e) + meta_vsize e + 4 + ent_extra e"
  by (cases e) (auto simp: meta_part_def meta_vsize_def ent_extra_def rec_wf_def)

lemma meta_vsize_8: "ent_wf e \<Longrightarrow> 8 dvd meta_vsize e \<or> 8 \<le> ent_extra e"
proof (cases e)
  case (REC_DEF r)
  assume "ent_wf e"
  with REC_DEF have wf: "rec_wf r" by simp
  show ?thesis
  proof (cases "rec_metric_list r")
    case Nil
    then show ?thesis using wf REC_DEF by (simp add: meta_vsize_def rec_wf_def)
  next
    case (Cons m ms)
    then have "28 \<le> md_meta_sz m" using wf mdef_wf_meta_sz by (auto simp: rec_wf_def)
    then show ?thesis using wf REC_DEF Cons by (simp add: ent_extra_def rec_wf_def)
  qed
qed (use vsize_8 in \<open>auto simp: meta_vsize_def\<close>)

lemma metas_8:
  "(\<And>e. e \<in> set es \<Longrightarrow> ent_wf e) \<Longrightarrow> 8 dvd sum_list (map meta_vsize es) \<or> 8 \<le> sum_list (map ent_extra es)"
proof (induction es)
  case (Cons e es)
  then show ?case using meta_vsize_8 [of e] by fastforce
qed simp

lemma descs_8: "(\<And>e. e \<in> set es \<Longrightarrow> ent_wf e) \<Longrightarrow> 8 dvd descs_size es"
  unfolding descs_size_def using ent_wf_mdef desc_size_bounds(3) by (intro sum_list_dvd) (auto simp: mdef_wf_def)

lemma meta_fits:
  assumes wf: "schema_wf s" and sz: "M = roundup (36 + (sch_meta_sz s + (length (sch_name s) + length inst))) 8"
    and p: "p \<le> h_dict (sch_card s) + length inst + length (sch_name s) + 37"
  shows "roundup p 8 + descs_size (sch_metric_list s) + sum_list (map meta_vsize (sch_metric_list s)) \<le> M"
proof -
  let ?es = "sch_metric_list s"
  let ?D = "descs_size ?es" and ?V = "sum_list (map meta_vsize ?es)" and ?X = "sum_list (map ent_extra ?es)"
  let ?q = "4 * length ?es + length inst + length (sch_name s) + 177"
  have ewf: "\<And>e. e \<in> set ?es \<Longrightarrow> ent_wf e" and n: "sch_card s = length ?es" using wf by (auto simp: schema_wf_def)
  have "sum_list (map meta_part ?es) = sum_list (map (\<lambda>e. md_meta_sz (ent_mdef e) + meta_vsize e + 4 + ent_extra e) ?es)"
    using ewf meta_part_split by (intro arg_cong [of _ _ sum_list] map_cong) auto
  also have "\<dots> = ?D + ?V + 4 * length ?es + ?X"
    by (simp add: sum_list_addf sum_list_triv descs_size_def comp_def)
  finally have "sch_meta_sz s = 144 + (?D + ?V + 4 * length ?es + ?X)" using wf by (simp add: schema_wf_def)
  then have M: "M = roundup (?q + 3 + (?D + ?V) + ?X) 8" using sz by (simp add: ac_simps)
  have pq: "roundup p 8 \<le> roundup ?q 8" using p n by (intro roundup_8_mono) simp
  from metas_8 [OF ewf] show ?thesis
  proof
    assume "8 dvd ?V"
    then have "roundup ((?D + ?V) + ?q) 8 = (?D + ?V) + roundup ?q 8" using descs_8 [OF ewf] by (intro roundup_8_add) simp
    moreover have "roundup ((?D + ?V) + ?q) 8 \<le> M" unfolding M by (rule roundup_8_mono) simp
    ultimately show ?thesis using pq by simp
  next
    assume "8 \<le> ?X"
    then show ?thesis
      using pq roundup_8_bounds(2) [of ?q] roundup_8_bounds(1) [of "?q + 3 + (?D + ?V) + ?X"] M by linarith
  qed
qed

subsection \<open>Layouts\<close>

record layout =
  l_ents :: "metric_ent list"
  l_vd :: nat
  l_meta :: nat
  l_ds :: nat
  l_hp :: nat
  l_bufs :: nat

definition l_w :: "layout \<Rightarrow> nat" where
  "l_w L = l_ds L + l_hp L"

definition l_mv :: "layout \<Rightarrow> nat" where
  "l_mv L = l_vd L + descs_size (l_ents L)"

definition l_buf :: "layout \<Rightarrow> nat \<Rightarrow> nat" where
  "l_buf L k = l_meta L + k * l_w L"

definition layout_wf :: "layout \<Rightarrow> bool" where
  "layout_wf L \<longleftrightarrow>
     (\<forall>e \<in> set (l_ents L). ent_wf e) \<and> h_dict (length (l_ents L)) \<le> l_vd L \<and> 8 dvd l_vd L \<and>
     l_mv L + sum_list (map meta_vsize (l_ents L)) \<le> l_meta L \<and>
     l_ds L = sizeof_data_hdr + sum_list (map data_part (l_ents L)) \<and>
     (l_hp L = 0 \<or> 512 \<le> l_hp L) \<and> 0 < l_bufs L \<and> l_buf L (l_bufs L) < 2 ^ 31"

definition hdr_wf :: "layout \<Rightarrow> mem \<Rightarrow> bool" where
  "hdr_wf L m \<longleftrightarrow>
     length m = l_buf L (l_bufs L) \<and> peek 4 h_card m = Some (length (l_ents L)) \<and> peek 4 h_meta_sz m = Some (l_meta L) \<and>
     peek 4 h_data_sz m = Some (l_w L) \<and> peek 4 h_heap_sz m = Some (l_hp L) \<and> peek 4 h_array_card m = Some (l_bufs L) \<and>
     descs_at (l_ents L) 0 (l_vd L) sizeof_data_hdr m \<and> metas_at (l_ents L) (l_vd L) (l_mv L) m \<and>
     (\<forall>k < l_bufs L. buf_ok (l_ds L) (l_hp L) (l_buf L k) m)"

definition names_at :: "string \<Rightarrow> ldms_schema \<Rightarrow> nat \<Rightarrow> mem \<Rightarrow> bool" where
  "names_at inst schema n m \<longleftrightarrow>
     (let l = (length inst + 1) mod 256; s = length (sch_name schema) in
      peek 1 (h_dict n) m = Some l \<and> peek 1 (h_dict n + 1 + l) m = Some ((34 + s) mod 256) \<and>
      load (h_dict n + 2 + l) (s + 1) m = Some (str_bytes (sch_name schema)) \<and>
      load (h_dict n + 2 + l + s + 1) LDMS_DIGEST_LENGTH m = Some (sch_digest schema) \<and>
      (length inst < 255 \<longrightarrow> load (h_dict n + 1) (length inst + 1) m = Some (str_bytes inst)))"

lemma names_at_only:
  assumes "only_changes S m m'" and "names_at inst schema n m"
    and "\<And>x. h_dict n \<le> x \<Longrightarrow> x < h_dict n + 2 + (length inst + 1) mod 256 + length (sch_name schema) + 33 \<Longrightarrow> x \<notin> S"
  shows "names_at inst schema n m'"
proof -
  let ?l = "(length inst + 1) mod 256" and ?s = "length (sch_name schema)"
  have "peek 1 (h_dict n) m' = peek 1 (h_dict n) m" "peek 1 (h_dict n + 1 + ?l) m' = peek 1 (h_dict n + 1 + ?l) m"
    "load (h_dict n + 2 + ?l) (?s + 1) m' = load (h_dict n + 2 + ?l) (?s + 1) m"
    "load (h_dict n + 2 + ?l + ?s + 1) LDMS_DIGEST_LENGTH m' = load (h_dict n + 2 + ?l + ?s + 1) LDMS_DIGEST_LENGTH m"
    by (intro peek_only [OF assms(1)] load_only [OF assms(1)] assms(3); simp)+
  moreover have "load (h_dict n + 1) (length inst + 1) m' = load (h_dict n + 1) (length inst + 1) m" if "length inst < 255"
    by (intro load_only [OF assms(1)] assms(3)) (use that in simp_all)
  ultimately show ?thesis using assms(2) by (auto simp: names_at_def Let_def)
qed

lemma peek_zero: "a + n \<le> k \<Longrightarrow> peek n a (replicate k 0) = Some 0"
proof -
  have "le_nat (replicate j 0) = 0" for j by (induction j) (simp_all add: le_nat.simps)
  then show "a + n \<le> k \<Longrightarrow> ?thesis" by (simp add: peek_def load_def)
qed

text \<open>First half: header, names and the headers of the buffers.\<close>

lemma build_headers:
  fixes schema :: ldms_schema and sz :: set_sizes
  defines "M \<equiv> sz_meta sz" and "w \<equiv> sch_data_sz schema + sz_heap sz" and "c \<equiv> sz_array_card sz" and "n \<equiv> sch_card schema"
  assumes room: "h_dict n + length inst + length (sch_name schema) + 36 \<le> M" "M + c * w < 2 ^ 31" "96 \<le> sch_data_sz schema"
    and al: "8 dvd meta" "8 dvd M" "8 dvd sch_data_sz schema" "512 dvd sz_heap sz" and dig: "length (sch_digest schema) = 32"
  shows "\<exists>m. (do {
      m \<leftarrow> set_hdr_init schema sz uid gid perm (replicate (M + c * w) 0);
      m \<leftarrow> set_names_init inst schema m;
      data_hdrs_init meta schema sz [0..<c] m }) = Some m \<and>
    length m = M + c * w \<and> names_at inst schema n m \<and>
    peek 4 h_card m = Some n \<and> peek 4 h_meta_sz m = Some M \<and> peek 4 h_data_sz m = Some (w mod 2 ^ 32) \<and>
    peek 4 h_heap_sz m = Some (sz_heap sz mod 2 ^ 32) \<and> peek 4 h_array_card m = Some (c mod 2 ^ 32) \<and>
    (\<forall>k < c. buf_ok (sch_data_sz schema) (sz_heap sz) (M + k * w) m)"
proof -
  let ?m0 = "replicate (M + c * w) (0 :: u8)"
  have small: "n < 2 ^ 32" "M < 2 ^ 32" using room by auto
  obtain m1 where m1: "set_hdr_init schema sz uid gid perm ?m0 = Some m1" "only_changes {64..<112} ?m0 m1"
    "peek 4 h_card m1 = Some n" "peek 4 h_meta_sz m1 = Some M" "peek 4 h_data_sz m1 = Some (w mod 2 ^ 32)"
    "peek 4 h_heap_sz m1 = Some (sz_heap sz mod 2 ^ 32)" "peek 4 h_array_card m1 = Some (c mod 2 ^ 32)"
    "peek 8 h_meta_gn m1 = Some 1"
    using set_hdr_init_ok [of ?m0 schema sz uid gid perm] room small by (auto simp: M_def w_def c_def n_def)
  let ?N = "{h_dict n..<h_dict n + length inst + length (sch_name schema) + 36}"
  obtain m2 where m2: "set_names_init inst schema m1 = Some m2" "only_changes ?N m1 m2" "names_at inst schema n m2"
    using set_names_init_ok [OF m1(3), of schema inst] dig room only_length [OF m1(2)]
    by (auto simp: names_at_def n_def)
  have far: "M \<le> M + k * w" for k by simp
  have "peek 8 (M + k * w + (d_heap + heap_size)) m2 = Some 0" if "k < c" for k
  proof -
    have "M + k * w + 72 \<le> M + c * w" using buf_bound [OF that, of M w] room(3) by (simp add: w_def)
    then show ?thesis
      using peek_only [OF only_trans [OF m1(2) m2(2)], of "M + k * w + 64" 8] room(1) far [of k] by (simp add: peek_zero)
  qed
  moreover have "peek 8 h_meta_gn m2 = Some 1" using peek_only [OF m2(2)] m1(8) by simp
  ultimately obtain m3 where m3: "data_hdrs_init meta schema sz [0..<c] m2 = Some m3"
    "only_changes (\<Union>i\<in>set [0..<c]. buf M w i - {M + i * w..<M + i * w + d_set_off}) m2 m3"
    "\<forall>i\<in>set [0..<c]. buf_ok (sch_data_sz schema) (sz_heap sz) (M + i * w) m3"
    using data_hdrs_init_ok [of sz c schema m2 meta 1 "[0..<c]"] room al only_length [OF m1(2)] only_length [OF m2(2)]
    by (auto simp: M_def w_def c_def)
  have low: "x \<notin> (\<Union>i\<in>set [0..<c]. buf M w i - {M + i * w..<M + i * w + d_set_off})" if "x < M" for x
    using that far by (auto simp: buf_def)
  have "peek k a m3 = peek k a m1" if "a + k \<le> 140" for k a
    using peek_only [OF m3(2), of a k] peek_only [OF m2(2), of a k] that room(1) low by simp
  moreover have "names_at inst schema n m3"
    by (rule names_at_only [OF m3(2) m2(3)], rule low) (use room(1) mod_less_eq_dividend [of "length inst + 1" 256] in simp)
  ultimately show ?thesis
    using m1 m2(1) m3(1,3) only_length [OF m1(2)] only_length [OF m2(2)] only_length [OF m3(2)] by simp
qed

text \<open>Second half: the descriptors and the values of the metadata.\<close>

definition desc_start :: "string \<Rightarrow> ldms_schema \<Rightarrow> nat" where
  "desc_start inst schema =
     roundup (h_dict (sch_card schema) + 2 + (length inst + 1) mod 256 + (34 + length (sch_name schema)) mod 256) 8"

lemma first_desc:
  assumes "names_at inst schema n m" "peek 4 h_card m = Some n" "n = sch_card schema" "8 dvd meta"
  shows "get_first_metric_desc meta m = Some (desc_start inst schema)"
proof -
  let ?l = "(length inst + 1) mod 256" and ?k = "(34 + length (sch_name schema)) mod 256"
  have "get_schema_name m = Some (h_dict n + 1 + ?l)" "peek 1 (h_dict n + 1 + ?l) m = Some ?k"
    using assms(1,2) by (simp_all add: get_schema_name_def get_instance_name_def names_at_def Let_def)
  then have "get_first_metric_desc meta m = Some (roundup (meta + (h_dict n + 1 + ?l + 1 + ?k)) 8 - meta)"
    by (simp only: get_first_metric_desc_def bind.bind_lunit)
  moreover have "h_dict n + 1 + ?l + 1 + ?k = h_dict n + 2 + ?l + ?k" by simp
  ultimately show ?thesis
    using roundup_8_add [OF assms(4), of "h_dict n + 2 + ?l + ?k"] assms(3) by (simp only: desc_start_def) simp
qed

lemma build_metrics:
  fixes es :: "metric_ent list" and m :: mem and vd M :: nat
  defines "mv \<equiv> vd + descs_size es"
  assumes wf: "\<And>e. e \<in> set es \<Longrightarrow> ent_wf e" and room: "h_dict (length es) \<le> vd" "8 dvd vd"
    "mv + sum_list (map meta_vsize es) \<le> M" "M \<le> length m" "M < 2 ^ 31"
  shows "\<exists>m'. (do {
      (vd, m) \<leftarrow> add_metrics es 0 vd (roundup sizeof_data_hdr 8) m;
      place_meta es 0 (roundup vd 8) m }) = Some m' \<and>
    only_changes ({140..<h_dict (length es)} \<union> {vd..<M}) m m' \<and>
    descs_at es 0 vd sizeof_data_hdr m' \<and> metas_at es vd mv m'"
proof -
  obtain m1 where m1: "add_metrics es 0 vd sizeof_data_hdr m = Some (mv, m1)"
    "only_changes ({h_dict 0..<h_dict (0 + length es)} \<union> {vd..<vd + descs_size es}) m m1"
    "descs_at es 0 vd sizeof_data_hdr m1"
    using add_metrics_ok [of es 0 vd m sizeof_data_hdr] wf ent_wf_mdef room unfolding mv_def by auto
  obtain m2 where m2: "place_meta es 0 mv m1 = Some m2"
    "only_changes ({vd..<vd + descs_size es} \<union> {mv..<mv + sum_list (map meta_vsize es)}) m1 m2"
    "descs_at es 0 vd sizeof_data_hdr m2" "metas_at es vd mv m2"
    using place_meta_ok [of es 0 vd sizeof_data_hdr m1 mv] wf m1(3) room only_length [OF m1(2)] by (auto simp: mv_def)
  have "only_changes ({140..<h_dict (length es)} \<union> {vd..<M}) m m2"
    using only_trans [OF m1(2) m2(2)] by (rule only_weaken) (use room in \<open>auto simp: mv_def\<close>)
  moreover have "8 dvd mv" using room(2) descs_8 [OF wf] by (simp add: mv_def)
  ultimately show ?thesis using m1(1) m2 by (simp add: roundup_8_id)
qed

lemma sint_small: "n < 2 ^ 31 \<Longrightarrow> sint (of_nat n :: u32) = int n"
  by (simp add: signed_of_nat signed_take_bit_int_eq_self)

lemma set_build_ok:
  fixes s :: ldms_schema and inst :: string
  defines "s' \<equiv> s\<lparr>sch_metric_list := map default_list_heap (sch_metric_list s)\<rparr>"
  assumes wf: "schema_wf s" and name: "list_all ldms_set_instance_name_char_allowed inst"
    and meta: "meta \<noteq> NULL" "8 dvd meta" and sha: "\<And>x. length (sha256 x) = LDMS_DIGEST_LENGTH"
    and sz: "compute_set_sizes inst s (unat heap_sz) = Some (Inr sz, s')" "sz_total sz < 2 ^ 31"
  shows "\<exists>m. ldms_set_build EOK meta sha256 inst s uid gid perm heap_sz = Some (Inr m, ldms_schema_finalize sha256 s') \<and>
    layout_wf \<lparr>l_ents = sch_metric_list s', l_vd = desc_start inst s', l_meta = sz_meta sz, l_ds = sch_data_sz s',
               l_hp = sz_heap sz, l_bufs = sz_array_card sz\<rparr> \<and>
    hdr_wf \<lparr>l_ents = sch_metric_list s', l_vd = desc_start inst s', l_meta = sz_meta sz, l_ds = sch_data_sz s',
            l_hp = sz_heap sz, l_bufs = sz_array_card sz\<rparr> m \<and>
    (length (sch_name s) \<le> 221 \<longrightarrow> names_at inst (ldms_schema_finalize sha256 s') (sch_card s') m)"
proof -
  let ?f = "ldms_schema_finalize sha256 s'" and ?vd = "desc_start inst s'" and ?M = "sz_meta sz" and ?es = "sch_metric_list s'"
  let ?c = "sz_array_card sz" and ?w = "sch_data_sz s' + sz_heap sz"
  have f: "sch_card ?f = sch_card s'" "sch_name ?f = sch_name s'" "sch_data_sz ?f = sch_data_sz s'" "sch_metric_list ?f = ?es"
    "length (sch_digest ?f) = LDMS_DIGEST_LENGTH"
    using wf sha by (auto simp: ldms_schema_finalize_def s'_def schema_wf_def)
  note c = compute_set_sizes_ok [OF wf, of inst "unat heap_sz"]
  have sizes: "schema_wf s'" "0 < ?c" "8 dvd ?M" "512 dvd sz_heap sz" "sz_total sz = ?M + ?c * ?w"
    "?M = roundup (36 + (sch_meta_sz s' + (length (sch_name s') + length inst))) 8" "sz_array_data sz = ?c * ?w"
    using c sz(1) by (auto simp: s'_def)
  have wfs: "\<And>e. e \<in> set ?es \<Longrightarrow> ent_wf e" "sch_card s' = length ?es" "96 \<le> sch_data_sz s'" "8 dvd sch_data_sz s'"
    using sizes(1) schema_data_8 by (auto simp: schema_wf_def)
  have p: "h_dict (sch_card s') + 2 + (length inst + 1) mod 256 + (34 + length (sch_name s')) mod 256
      \<le> h_dict (sch_card s') + length inst + length (sch_name s') + 37"
    using mod_less_eq_dividend [of "length inst + 1" 256] mod_less_eq_dividend [of "34 + length (sch_name s')" 256] by linarith
  from meta_fits [OF sizes(1,6) p] have fits: "?vd + descs_size ?es + sum_list (map meta_vsize ?es) \<le> ?M"
    by (simp add: desc_start_def)
  have vd: "h_dict (length ?es) + 2 \<le> ?vd" "8 dvd ?vd" "length (sch_name s) \<le> 221 \<Longrightarrow>
      h_dict (length ?es) + 2 + (length inst + 1) mod 256 + length (sch_name s') + 33 \<le> ?vd"
    using roundup_8_bounds(1) [of "h_dict (sch_card s') + 2 + (length inst + 1) mod 256 + (34 + length (sch_name s')) mod 256"]
      wfs(2) by (auto simp: desc_start_def roundup_8_bounds(3) s'_def)
  have room: "h_dict (sch_card s') + length inst + length (sch_name s') + 36 \<le> ?M"
    using sizes(1,6) roundup_8_bounds(1) [of "36 + (sch_meta_sz s' + (length (sch_name s') + length inst))"]
      sum_list_lower [of ?es 4 meta_part] by (simp add: schema_wf_def meta_part_def)
  from build_headers [of ?f inst sz meta uid gid perm] obtain a b m1 where
    run1: "set_hdr_init ?f sz uid gid perm (replicate (?M + ?c * ?w) 0) = Some a" "set_names_init inst ?f a = Some b"
      "data_hdrs_init meta ?f sz [0..<?c] b = Some m1" and
    m1: "length m1 = ?M + ?c * ?w" "names_at inst ?f (sch_card s') m1" "peek 4 h_card m1 = Some (sch_card s')"
      "peek 4 h_meta_sz m1 = Some ?M" "peek 4 h_data_sz m1 = Some (?w mod 2 ^ 32)"
      "peek 4 h_heap_sz m1 = Some (sz_heap sz mod 2 ^ 32)" "peek 4 h_array_card m1 = Some (?c mod 2 ^ 32)"
      "\<And>k. k < ?c \<Longrightarrow> buf_ok (sch_data_sz s') (sz_heap sz) (?M + k * ?w) m1"
    using f sizes wfs room sz(2) meta by (auto simp: bind_eq_Some_conv)
  have fd: "get_first_metric_desc meta m1 = Some ?vd"
    using first_desc [OF m1(2,3) _ meta(2)] f by (simp add: desc_start_def)
  from build_metrics [of ?es ?vd ?M m1] obtain vd' m2 m where
    run2: "add_metrics ?es 0 ?vd (roundup sizeof_data_hdr 8) m1 = Some (vd', m2)" "place_meta ?es 0 (roundup vd' 8) m2 = Some m" and
    m: "only_changes ({140..<h_dict (length ?es)} \<union> {?vd..<?M}) m1 m" "descs_at ?es 0 ?vd sizeof_data_hdr m"
      "metas_at ?es ?vd (?vd + descs_size ?es) m"
    using wfs(1) vd fits m1(1) sizes(5) sz(2) by (auto simp: bind_eq_Some_conv)
  have total: "sz_meta sz + sz_array_data sz = sz_total sz" "0 < sz_total sz"
    "set_hdr_init ?f sz uid gid perm (replicate (sz_total sz) 0) = Some a"
    using sizes(2,5,7) wfs(3) run1(1) by simp_all
  have "ldms_set_build EOK meta sha256 inst s uid gid perm heap_sz = Some (Inr m, ?f)"
    using name sz(1) meta(1) total sint_small [OF sz(2)] run1(2,3) fd run2 f(4)
    by (simp add: ldms_set_build_def Let_def store_def)
  moreover have small: "?c < 2 ^ 31" "?w < 2 ^ 31"
  proof -
    have "?c \<le> ?c * ?w" "?w \<le> ?c * ?w" using sizes(2) wfs(3) by auto
    moreover have "?c * ?w < 2 ^ 31" using sizes(5) sz(2) by linarith
    ultimately show "?c < 2 ^ 31" "?w < 2 ^ 31" by (blast intro: le_less_trans)+
  qed
  have keep: "peek k a m = peek k a m1" if "a + k \<le> 140" for a k
    by (rule peek_only [OF m(1)]) (use that vd(1) in auto)
  have "buf_ok (sch_data_sz s') (sz_heap sz) (?M + k * ?w) m" if "k < ?c" for k
    by (rule buf_ok_only [OF m(1) m1(8) [OF that] wfs(3)]) (use sizes(4) vd(1) fits in \<open>auto elim!: dvdE\<close>)
  moreover have "names_at inst ?f (sch_card s') m" if "length (sch_name s) \<le> 221"
    by (rule names_at_only [OF m(1) m1(2)]) (use vd(3) [OF that] wfs(2) f(2) in auto)
  ultimately show ?thesis
    using sizes wfs vd fits m small keep m1 only_length [OF m(1)] sz(2)
    by (auto simp: layout_wf_def hdr_wf_def l_mv_def l_buf_def l_w_def schema_wf_def elim!: dvdE)
qed

end
