(* ===== verification/MetricSpec.thy ===== *)
theory MetricSpec
  imports MetricCreate
begin

section \<open>Well-formed sets\<close>

text \<open>
  The invariant of a set and the places of its values: every value lies in its section, values do
  not overlap, and a store into a value, a generation number or the state of a transaction keeps
  the invariant.
\<close>

subsection \<open>Places\<close>

definition data_off :: "metric_ent list \<Rightarrow> nat \<Rightarrow> nat" where
  "data_off es i = sizeof_data_hdr + sum_list (map advance (take i es))"

definition meta_off :: "layout \<Rightarrow> nat \<Rightarrow> nat" where
  "meta_off L i = l_mv L + sum_list (map meta_vsize (take i (l_ents L)))"

definition desc_off :: "layout \<Rightarrow> nat \<Rightarrow> nat" where
  "desc_off L i = l_vd L + descs_size (take i (l_ents L))"

lemma descs_at_nth:
  assumes "descs_at es idx vd off m" and "i < length es"
  shows "peek 4 (h_dict (idx + i)) m = Some (vd + descs_size (take i es)) \<and>
    desc_ok (vd + descs_size (take i es)) (ent_mdef (es ! i)) m \<and>
    (is_data (ent_mdef (es ! i)) \<longrightarrow>
       peek 4 (vd + descs_size (take i es) + vd_data_offset) m = Some ((off + sum_list (map advance (take i es))) mod 2 ^ 32))"
  using assms
proof (induction es arbitrary: idx vd off i)
  case (Cons e es)
  show ?case
  proof (cases i)
    case (Suc k)
    from Cons.IH [of "idx + 1" "vd + md_meta_sz (ent_mdef e)" "off + advance e" k] Cons.prems Suc
    show ?thesis by (simp add: add.assoc)
  qed (use Cons.prems in simp)
qed simp

lemma metas_at_nth:
  assumes "metas_at es vd off m" and "i < length es" "\<not> is_data (ent_mdef (es ! i))"
  shows "peek 4 (vd + descs_size (take i es) + vd_data_offset) m = Some (off + sum_list (map meta_vsize (take i es)))"
  using assms
proof (induction es arbitrary: vd off i)
  case (Cons e es)
  show ?case
  proof (cases i)
    case (Suc k)
    from Cons.IH [of "vd + md_meta_sz (ent_mdef e)" "off + meta_vsize e" k] Cons.prems Suc
    show ?thesis by (simp add: add.assoc)
  qed (use Cons.prems in simp)
qed simp

text \<open>
  \<open>add_metrics\<close> leaves more room behind an array of records than the schema counts for it. The
  values are where they belong when no value of the data section follows such an array.
\<close>

definition arrays_last :: "metric_ent list \<Rightarrow> bool" where
  "arrays_last es \<longleftrightarrow>
     (\<forall>i j. i < j \<longrightarrow> j < length es \<longrightarrow> md_type (ent_mdef (es ! i)) = LDMS_V_RECORD_ARRAY \<longrightarrow>
        md_count (ent_mdef (es ! i)) \<noteq> 0 \<longrightarrow> \<not> is_data (ent_mdef (es ! j)))"

lemma advance_data_part:
  assumes "ent_wf e" and "md_type (ent_mdef e) \<noteq> LDMS_V_RECORD_ARRAY \<or> md_count (ent_mdef e) = 0"
  shows "advance e = data_part e"
  using assms
  by (cases e) (auto simp: advance_def data_part_def rec_wf_def Let_def vsize_def ldms_value_size_get_def)

lemma sum_take_Suc: "i < length xs \<Longrightarrow> sum_list (map f (take (Suc i) xs)) = sum_list (map f (take i xs)) + (f (xs ! i) :: nat)"
  by (simp add: take_Suc_conv_app_nth)

lemma sum_take_mono: "i \<le> j \<Longrightarrow> sum_list (map (f :: _ \<Rightarrow> nat) (take i xs)) \<le> sum_list (map f (take j xs))"
proof (induction j)
  case (Suc j)
  then show ?case
    by (cases "i = Suc j"; cases "j < length xs") (auto simp: sum_take_Suc)
qed simp

lemma sum_take_all: "sum_list (map (f :: _ \<Rightarrow> nat) (take i xs)) \<le> sum_list (map f xs)"
  using sum_take_mono [of i "max i (length xs)" f xs] by simp

text \<open>The values up to \<open>i\<close> are where they belong when no array of records comes before it.\<close>

definition unshifted :: "metric_ent list \<Rightarrow> nat \<Rightarrow> bool" where
  "unshifted es i \<longleftrightarrow>
     (\<forall>k < i. md_type (ent_mdef (es ! k)) = LDMS_V_RECORD_ARRAY \<longrightarrow> md_count (ent_mdef (es ! k)) = 0)"

lemma arrays_last_unshifted: "arrays_last es \<Longrightarrow> i < length es \<Longrightarrow> is_data (ent_mdef (es ! i)) \<Longrightarrow> unshifted es i"
  by (auto simp: arrays_last_def unshifted_def)

lemma data_off_parts:
  assumes wf: "\<And>e. e \<in> set es \<Longrightarrow> ent_wf e" and al: "unshifted es i" and i: "i < length es" and "k \<le> i"
  shows "sum_list (map advance (take k es)) = sum_list (map data_part (take k es))"
  using assms(4)
proof (induction k)
  case (Suc k)
  then have "advance (es ! k) = data_part (es ! k)"
    using i al wf [of "es ! k"] by (intro advance_data_part) (auto simp: unshifted_def)
  then show ?case using Suc i by (simp add: sum_take_Suc)
qed simp

lemma unshifted_place:
  assumes "\<And>e. e \<in> set es \<Longrightarrow> ent_wf e" "unshifted es i" "i < length es" "is_data (ent_mdef (es ! i))"
  shows "data_off es i + md_data_sz (ent_mdef (es ! i)) \<le> sizeof_data_hdr + sum_list (map data_part es)"
    and "sizeof_data_hdr \<le> data_off es i"
proof -
  have part: "data_part (es ! i) = md_data_sz (ent_mdef (es ! i))" using assms(4) by (simp add: data_part_def)
  show "data_off es i + md_data_sz (ent_mdef (es ! i)) \<le> sizeof_data_hdr + sum_list (map data_part es)"
    using data_off_parts [OF assms(1-3) order_refl] sum_take_all [of data_part "Suc i" es] sum_take_Suc [OF assms(3), of data_part] part
    by (simp add: data_off_def)
  show "sizeof_data_hdr \<le> data_off es i" by (simp add: data_off_def)
qed

lemma data_place:
  assumes "\<And>e. e \<in> set es \<Longrightarrow> ent_wf e" "arrays_last es" "i < length es" "is_data (ent_mdef (es ! i))"
  shows "data_off es i + md_data_sz (ent_mdef (es ! i)) \<le> sizeof_data_hdr + sum_list (map data_part es)"
    and "sizeof_data_hdr \<le> data_off es i"
    and "i < j \<Longrightarrow> j < length es \<Longrightarrow> is_data (ent_mdef (es ! j)) \<Longrightarrow>
      data_off es i + md_data_sz (ent_mdef (es ! i)) \<le> data_off es j"
proof -
  have part: "data_part (es ! i) = md_data_sz (ent_mdef (es ! i))" using assms(4) by (simp add: data_part_def)
  note un = arrays_last_unshifted [OF assms(2)]
  show "data_off es i + md_data_sz (ent_mdef (es ! i)) \<le> sizeof_data_hdr + sum_list (map data_part es)"
    "sizeof_data_hdr \<le> data_off es i"
    using unshifted_place [OF assms(1) un [OF assms(3,4)] assms(3,4)] by auto
  assume j: "i < j" "j < length es" "is_data (ent_mdef (es ! j))"
  have "sum_list (map data_part (take (Suc i) es)) \<le> sum_list (map data_part (take j es))"
    using j(1) by (intro sum_take_mono) simp
  then show "data_off es i + md_data_sz (ent_mdef (es ! i)) \<le> data_off es j"
    using data_off_parts [OF assms(1) un [OF assms(3,4)] assms(3) order_refl]
      data_off_parts [OF assms(1) un [OF j(2,3)] j(2) order_refl] sum_take_Suc [OF assms(3), of data_part] part
    by (simp add: data_off_def)
qed

lemma meta_place:
  assumes "layout_wf L" "i < length (l_ents L)" "\<not> is_data (ent_mdef (l_ents L ! i))"
  shows "meta_off L i + md_data_sz (ent_mdef (l_ents L ! i)) \<le> l_meta L" and "l_mv L \<le> meta_off L i"
    and "i < j \<Longrightarrow> meta_off L i + md_data_sz (ent_mdef (l_ents L ! i)) \<le> meta_off L j"
proof -
  have "ent_wf (l_ents L ! i)" using assms by (simp add: layout_wf_def)
  then have sz: "meta_vsize (l_ents L ! i) = md_data_sz (ent_mdef (l_ents L ! i))"
    using assms(3) by (cases "l_ents L ! i") (auto simp: meta_vsize_def)
  show "meta_off L i + md_data_sz (ent_mdef (l_ents L ! i)) \<le> l_meta L"
    using assms sz sum_take_all [of meta_vsize "Suc i" "l_ents L"] sum_take_Suc [OF assms(2), of meta_vsize]
    by (simp add: meta_off_def layout_wf_def)
  show "l_mv L \<le> meta_off L i" by (simp add: meta_off_def)
  show "meta_off L i + md_data_sz (ent_mdef (l_ents L ! i)) \<le> meta_off L j" if "i < j"
    using sz sum_take_mono [of "Suc i" j meta_vsize "l_ents L"] sum_take_Suc [OF assms(2), of meta_vsize] that
    by (simp add: meta_off_def)
qed

subsection \<open>The invariant\<close>

definition set_wf :: "layout \<Rightarrow> ldms_set \<Rightarrow> bool" where
  "set_wf L s \<longleftrightarrow>
     layout_wf L \<and> arrays_last (l_ents L) \<and> hdr_wf L (set_mem s) \<and> set_data_array s = l_meta L \<and>
     set_curr_idx s < l_bufs L \<and> set_data s = l_buf L (set_curr_idx s) \<and>
     set_heap s = (if l_hp L = 0 then None else Some (set_data s + l_ds L))"

text \<open>
  The bytes that change over the life of a set: the generation number of the metadata and its values
  and, in each buffer, the transaction, the generation numbers, the index of the current buffer and
  the values.
\<close>

definition buf_writable :: "layout \<Rightarrow> nat \<Rightarrow> nat set" where
  "buf_writable L d = {d..<d + d_set_off} \<union> {d + d_gn..<d + d_size} \<union> {d + d_meta_gn..<d + 52} \<union>
     {d + sizeof_data_hdr..<d + l_ds L}"

definition writable :: "layout \<Rightarrow> nat set" where
  "writable L = {h_meta_gn..<h_version} \<union> {l_mv L..<l_meta L} \<union> (\<Union>k < l_bufs L. buf_writable L (l_buf L k))"

lemma layout_bounds:
  assumes "layout_wf L"
  shows "140 \<le> l_vd L" "l_vd L \<le> l_mv L" "l_mv L \<le> l_meta L" "96 \<le> l_ds L" "l_ds L \<le> l_w L"
    "k < l_bufs L \<Longrightarrow> l_buf L k + l_w L \<le> l_buf L (l_bufs L)" "l_meta L \<le> l_buf L k"
  using assms buf_bound [of k "l_bufs L" "l_meta L" "l_w L"] by (auto simp: layout_wf_def l_mv_def l_w_def l_buf_def)

lemma buf_writable_in: "layout_wf L \<Longrightarrow> x \<in> buf_writable L (l_buf L k) \<Longrightarrow> x \<in> buf (l_meta L) (l_w L) k"
  using layout_bounds(4,5) [of L] by (auto simp: buf_writable_def buf_def l_buf_def)

text \<open>A change of the values and buffers that leaves the headers of the buffers in order.\<close>

lemma hdr_wf_bufs:
  assumes wf: "layout_wf L" and "hdr_wf L m" and only: "only_changes S m m'" and S: "S \<subseteq> {h_meta_gn..<h_version} \<union> {l_mv L..}"
    and bufs: "\<And>k. k < l_bufs L \<Longrightarrow> buf_ok (l_ds L) (l_hp L) (l_buf L k) m'"
  shows "hdr_wf L m'"
proof -
  note b = layout_bounds [OF wf]
  have low: "x \<notin> S" if "x < l_mv L" "x < h_meta_gn \<or> h_version \<le> x" for x using S that by auto
  have peeks: "peek k a m' = peek k a m" if "72 \<le> a" "a + k \<le> l_mv L" for a k
    by (rule peek_only [OF only low]) (use that in auto)
  have wfs: "\<And>e. e \<in> set (l_ents L) \<Longrightarrow> mdef_wf (ent_mdef e)" using wf ent_wf_mdef by (auto simp: layout_wf_def)
  have mv: "140 \<le> l_mv L" using b(1,2) by simp
  have "descs_at (l_ents L) 0 (l_vd L) sizeof_data_hdr m'"
    by (rule descs_at_only [OF only _ wfs low low])
      (use assms(2) wf in \<open>auto simp: hdr_wf_def layout_wf_def l_mv_def\<close>)
  moreover have "metas_at (l_ents L) (l_vd L) (l_mv L) m'"
    by (rule metas_at_only [OF only _ wfs low]) (use assms(2) b(1) in \<open>auto simp: hdr_wf_def l_mv_def\<close>)
  ultimately show ?thesis
    using assms(2) bufs peeks mv only_length [OF only] by (auto simp: hdr_wf_def)
qed

lemma hdr_wf_only:
  assumes wf: "layout_wf L" and "hdr_wf L m" and only: "only_changes S m m'" and S: "S \<subseteq> writable L"
  shows "hdr_wf L m'"
proof (rule hdr_wf_bufs [OF wf assms(2) only])
  note b = layout_bounds [OF wf]
  have "buf_writable L (l_buf L k) \<subseteq> {l_mv L..}" for k using b(3) b(7) [of k] by (auto simp: buf_writable_def)
  then have "writable L \<subseteq> {h_meta_gn..<h_version} \<union> {l_mv L..}" by (auto simp: writable_def)
  then show "S \<subseteq> {h_meta_gn..<h_version} \<union> {l_mv L..}" using S by (rule subset_trans [rotated])
  fix k assume k: "k < l_bufs L"
  have out: "x \<notin> S" if "x \<in> buf (l_meta L) (l_w L) k" "x \<notin> buf_writable L (l_buf L k)" for x
  proof
    assume "x \<in> S"
    moreover have "l_meta L \<le> x" using that(1) by (auto simp: buf_def)
    ultimately obtain j where "j < l_bufs L" "x \<in> buf_writable L (l_buf L j)" using S b(1,2,3) by (auto simp: writable_def)
    with buf_writable_in [OF wf this(2)] buf_disjoint [of j k x] that show False by auto
  qed
  have hp: "l_hp L = 0 \<or> 512 \<le> l_hp L" using wf by (simp add: layout_wf_def)
  have "peek 8 (l_buf L k + d_size) m' = peek 8 (l_buf L k + d_size) m"
    "peek 4 (l_buf L k + d_set_off) m' = peek 4 (l_buf L k + d_set_off) m"
    "peek 8 (l_buf L k + (d_heap + heap_size)) m' = peek 8 (l_buf L k + (d_heap + heap_size)) m"
    by (intro peek_only [OF only] out; use b(4,5) in \<open>auto simp: buf_def buf_writable_def l_buf_def\<close>)+
  moreover have "load (l_buf L k + l_ds L) 8 m' = load (l_buf L k + l_ds L) 8 m" if "l_hp L \<noteq> 0"
    by (intro load_only [OF only] out; use b(4,5) hp that in \<open>auto simp: buf_def buf_writable_def l_buf_def l_w_def\<close>)
  ultimately show "buf_ok (l_ds L) (l_hp L) (l_buf L k) m'" using assms(2) k by (auto simp: hdr_wf_def buf_ok_def)
qed

subsection \<open>Arrays of records in a new set\<close>

lemma init_rec_insts_ok:
  assumes "\<And>j. j \<in> set js \<Longrightarrow> j < n" "16 \<le> inst_sz" "ra + 12 + n * inst_sz \<le> length m"
  shows "\<exists>m'. init_rec_insts js dh ra inst_sz rt m = Some m' \<and> only_changes {ra + 12..<ra + 12 + n * inst_sz} m m'"
  using assms
proof (induction js arbitrary: m)
  case (Cons j js)
  let ?r = "ra + 12 + j * inst_sz"
  have room: "?r + 16 \<le> ra + 12 + n * inst_sz"
    using Cons.prems(1) [of j] Cons.prems(2) buf_bound [of j n "ra + 12" inst_sz] by simp
  let ?m1 = "put ?r (le_bytes 4 2) (put (?r + 8) (le_bytes 4 (?r - dh)) (put (?r + 12) (le_bytes 4 rt) m))"
  obtain m' where m': "init_rec_insts js dh ra inst_sz rt ?m1 = Some m'" "only_changes {ra + 12..<ra + 12 + n * inst_sz} ?m1 m'"
    using Cons.IH [of ?m1] Cons.prems by auto
  have "only_changes {ra + 12..<ra + 12 + n * inst_sz} m ?m1" using room by (intro only_put_on) auto
  from only_trans [OF this m'(2)] have "only_changes {ra + 12..<ra + 12 + n * inst_sz} m m'" by simp
  moreover have "init_rec_insts (j # js) dh ra inst_sz rt m = Some m'"
    using m'(1) room Cons.prems(3) by (simp add: Let_def mem_simps)
  ultimately show ?case by blast
qed simp

lemma init_rec_bufs_ok:
  assumes "\<And>k. k \<in> set ks \<Longrightarrow> A + k * w + w \<le> length m" "16 \<le> inst_sz"
    and "96 \<le> off" "off + 12 + unat (md_count md) * inst_sz \<le> lim" "lim \<le> w"
  shows "\<exists>m'. init_rec_bufs ks A w off md rt inst_sz m = Some m' \<and>
    only_changes (\<Union>k\<in>set ks. {A + k * w + 96..<A + k * w + lim}) m m'"
  using assms(1)
proof (induction ks arbitrary: m)
  case (Cons k ks)
  let ?ra = "A + k * w + off" and ?rt = "unat (word_of_int rt :: u32)" and ?n = "unat (md_count md)"
  let ?m1 = "put (?ra + 4) (le_bytes 4 ?rt) (put ?ra (le_bytes 4 inst_sz) (put (?ra + 8) (le_bytes 4 ?n) m))"
  have room: "?ra + 12 + ?n * inst_sz \<le> A + k * w + lim" "A + k * w + lim \<le> length m"
    using Cons.prems [of k] assms(4,5) by auto
  have only1: "only_changes {A + k * w + 96..<A + k * w + lim} m ?m1"
    using room(1) assms(3) by (intro only_put_on) auto
  obtain m2 where m2: "init_rec_insts [0..<?n] (A + k * w) ?ra inst_sz ?rt ?m1 = Some m2"
    "only_changes {?ra + 12..<?ra + 12 + ?n * inst_sz} ?m1 m2"
    using init_rec_insts_ok [of "[0..<?n]" ?n inst_sz ?ra ?m1 "A + k * w" ?rt] room assms(2) by auto
  obtain m' where m': "init_rec_bufs ks A w off md rt inst_sz m2 = Some m'"
    "only_changes (\<Union>k\<in>set ks. {A + k * w + 96..<A + k * w + lim}) m2 m'"
    using Cons.IH [of m2] Cons.prems only_length [OF m2(2)] by auto
  have "only_changes (\<Union>k\<in>set (k # ks). {A + k * w + 96..<A + k * w + lim}) m m'"
    using only_trans [OF only_trans [OF only1 m2(2)] m'(2)] by (rule only_weaken) (use room(1) assms(3) in auto)
  moreover have "init_rec_bufs (k # ks) A w off md rt inst_sz m = Some m'"
    using m2(1) m'(1) room by (simp add: Let_def mem_simps)
  ultimately show ?case by blast
qed simp

lemma hdr_wf_desc:
  assumes "layout_wf L" "hdr_wf L m" "i < length (l_ents L)"
  shows "peek 4 (h_dict i) m = Some (desc_off L i)" "desc_ok (desc_off L i) (ent_mdef (l_ents L ! i)) m"
    "\<not> is_data (ent_mdef (l_ents L ! i)) \<Longrightarrow> peek 4 (desc_off L i + vd_data_offset) m = Some (meta_off L i)"
    "unshifted (l_ents L) i \<Longrightarrow> is_data (ent_mdef (l_ents L ! i)) \<Longrightarrow>
       peek 4 (desc_off L i + vd_data_offset) m = Some (data_off (l_ents L) i)"
proof -
  have at: "descs_at (l_ents L) 0 (l_vd L) sizeof_data_hdr m" "metas_at (l_ents L) (l_vd L) (l_mv L) m"
    using assms(2) by (auto simp: hdr_wf_def)
  note d = descs_at_nth [OF at(1) assms(3)]
  show "peek 4 (h_dict i) m = Some (desc_off L i)" "desc_ok (desc_off L i) (ent_mdef (l_ents L ! i)) m"
    using d by (auto simp: desc_off_def)
  show "peek 4 (desc_off L i + vd_data_offset) m = Some (meta_off L i)" if "\<not> is_data (ent_mdef (l_ents L ! i))"
    using metas_at_nth [OF at(2) assms(3) that] by (simp add: desc_off_def meta_off_def)
  assume data: "unshifted (l_ents L) i" "is_data (ent_mdef (l_ents L ! i))"
  have "data_off (l_ents L) i \<le> l_ds L" using unshifted_place(1) [OF _ data(1) assms(3) data(2)] assms(1) by (auto simp: layout_wf_def)
  moreover have "l_ds L < 2 ^ 31"
    using layout_bounds(5) [OF assms(1)] layout_bounds(6) [OF assms(1), of 0] assms(1) by (auto simp: layout_wf_def)
  ultimately have "data_off (l_ents L) i mod 2 ^ 32 = data_off (l_ents L) i" by simp
  then show "peek 4 (desc_off L i + vd_data_offset) m = Some (data_off (l_ents L) i)"
    using d data(2) by (simp add: desc_off_def data_off_def)
qed

lemma init_rec_arrays_ok:
  assumes wf: "layout_wf L"
    and al: "\<And>i. i < length (l_ents L) \<Longrightarrow> md_type (ent_mdef (l_ents L ! i)) = LDMS_V_RECORD_ARRAY \<Longrightarrow> unshifted (l_ents L) i"
    and "hdr_wf L m" "drop idx (l_ents L) = es" "c \<le> l_bufs L"
  shows "\<exists>m'. init_rec_arrays es idx c (l_meta L) m = Some m' \<and> hdr_wf L m' \<and> only_changes {l_meta L..} m m'"
  using assms(3-)
proof (induction es arbitrary: idx m)
  case (Cons e es)
  have idx: "idx < length (l_ents L)" "l_ents L ! idx = e" "drop (idx + 1) (l_ents L) = es"
    using Cons.prems(2) by (metis drop_eq_Nil leI list.distinct(1), metis nth_via_drop, metis drop_drop drop_Suc_Cons drop0 plus_1_eq_Suc)
  have ewf: "ent_wf e" using wf idx by (auto simp: layout_wf_def)
  note b = layout_bounds [OF wf]
  show ?case
  proof (cases "md_type (ent_mdef e) = LDMS_V_RECORD_ARRAY")
    case False
    then show ?thesis using Cons.IH [OF Cons.prems(1) idx(3) Cons.prems(3)] by auto
  next
    case True
    with ewf obtain md rt sz where e: "e = REC_ARRAY_DEF md rt sz" by (cases e) (auto simp: rec_wf_def)
    with ewf have md: "is_data md" "16 \<le> sz" "12 + unat (md_count md) * sz \<le> md_data_sz md"
      using roundup_8_bounds(1) [of "12 + unat (md_count md) * sz"] by auto
    have un: "unshifted (l_ents L) idx" using al [OF idx(1)] idx(2) True by simp
    note d = hdr_wf_desc [OF wf Cons.prems(1) idx(1)]
    have off: "data_off (l_ents L) idx + md_data_sz md \<le> l_ds L" "96 \<le> data_off (l_ents L) idx"
      using unshifted_place(1,2) [OF _ un idx(1)] wf idx(2) e md(1) by (auto simp: layout_wf_def)
    obtain m1 where m1: "init_rec_bufs [0..<c] (l_meta L) (l_w L) (data_off (l_ents L) idx) md rt sz m = Some m1"
      "only_changes (\<Union>k\<in>set [0..<c]. {l_meta L + k * l_w L + 96..<l_meta L + k * l_w L + l_ds L}) m m1"
      using init_rec_bufs_ok [of "[0..<c]" "l_meta L" "l_w L" m sz "data_off (l_ents L) idx" md "l_ds L" rt]
        md off b(5,6) Cons.prems(1,3) by (auto simp: hdr_wf_def l_buf_def)
    have "hdr_wf L m1"
      by (rule hdr_wf_only [OF wf Cons.prems(1) m1(2)])
        (use Cons.prems(3) in \<open>auto simp: writable_def buf_writable_def l_buf_def\<close>)
    with Cons.IH [OF _ idx(3) Cons.prems(3)] obtain m' where
      m': "init_rec_arrays es (idx + 1) c (l_meta L) m1 = Some m'" "hdr_wf L m'" "only_changes {l_meta L..} m1 m'" by blast
    have "only_changes {l_meta L..} m m'" using only_trans [OF m1(2) m'(3)] by (rule only_weaken) auto
    moreover have "peek 4 h_data_sz m = Some (l_w L)" using Cons.prems(1) by (simp add: hdr_wf_def)
    ultimately show ?thesis
      using m'(1,2) d(1,2) d(4) [OF un] m1(1) e True md(1) idx(2) by (auto simp: desc_ok_def)
  qed
qed simp

end
