(* ===== verification/MetricValue.thy ===== *)
theory MetricValue
  imports MetricSet
begin

section \<open>Typed access to metrics (ldms.c)\<close>

text \<open>
  The accessors of metric values. Signed values, \<^verbatim>\<open>float\<close> and \<^verbatim>\<open>double\<close> are modelled by the words that
  hold their bits, which is all the code looks at. An invalid index ends the program in the
  assertion of the accessor, a fault of the model.
\<close>

definition word_bytes :: "'a::len word \<Rightarrow> u8 list" where
  "word_bytes v = le_bytes (LENGTH('a) div 8) (unat v)"

definition bytes_word :: "u8 list \<Rightarrow> 'a::len word" where
  "bytes_word bs = of_nat (le_nat bs)"

subsection \<open>Scalars\<close>

definition metric_put :: "int \<Rightarrow> u8 list \<Rightarrow> ldms_set \<Rightarrow> ldms_set option" where
  "metric_put i bs s = do {
     r \<leftarrow> mval_to_set s i;
     case r of
       Some (mv, desc) \<Rightarrow> do {
         m \<leftarrow> store mv bs (set_mem s);
         ldms_gn_inc desc (s\<lparr>set_mem := m\<rparr>) }
     | None \<Rightarrow> None }"

definition metric_fetch :: "nat \<Rightarrow> ldms_set \<Rightarrow> int \<Rightarrow> u8 list option" where
  "metric_fetch w s i = do {
     r \<leftarrow> mval_to_get s i;
     case r of
       Some (mv, desc) \<Rightarrow> load mv w (set_mem s)
     | None \<Rightarrow> None }"

definition ldms_metric_set_char :: "int \<Rightarrow> u8 \<Rightarrow> ldms_set \<Rightarrow> ldms_set option" where
  "ldms_metric_set_char i v s = metric_put i (word_bytes v) s"

definition ldms_metric_set_u8 :: "int \<Rightarrow> u8 \<Rightarrow> ldms_set \<Rightarrow> ldms_set option" where
  "ldms_metric_set_u8 i v s = metric_put i (word_bytes v) s"

definition ldms_metric_set_s8 :: "int \<Rightarrow> u8 \<Rightarrow> ldms_set \<Rightarrow> ldms_set option" where
  "ldms_metric_set_s8 i v s = metric_put i (word_bytes v) s"

definition ldms_metric_set_u16 :: "int \<Rightarrow> u16 \<Rightarrow> ldms_set \<Rightarrow> ldms_set option" where
  "ldms_metric_set_u16 i v s = metric_put i (word_bytes v) s"

definition ldms_metric_set_s16 :: "int \<Rightarrow> u16 \<Rightarrow> ldms_set \<Rightarrow> ldms_set option" where
  "ldms_metric_set_s16 i v s = metric_put i (word_bytes v) s"

definition ldms_metric_set_u32 :: "int \<Rightarrow> u32 \<Rightarrow> ldms_set \<Rightarrow> ldms_set option" where
  "ldms_metric_set_u32 i v s = metric_put i (word_bytes v) s"

definition ldms_metric_set_s32 :: "int \<Rightarrow> u32 \<Rightarrow> ldms_set \<Rightarrow> ldms_set option" where
  "ldms_metric_set_s32 i v s = metric_put i (word_bytes v) s"

definition ldms_metric_set_u64 :: "int \<Rightarrow> u64 \<Rightarrow> ldms_set \<Rightarrow> ldms_set option" where
  "ldms_metric_set_u64 i v s = metric_put i (word_bytes v) s"

definition ldms_metric_set_s64 :: "int \<Rightarrow> u64 \<Rightarrow> ldms_set \<Rightarrow> ldms_set option" where
  "ldms_metric_set_s64 i v s = metric_put i (word_bytes v) s"

definition ldms_metric_set_float :: "int \<Rightarrow> u32 \<Rightarrow> ldms_set \<Rightarrow> ldms_set option" where
  "ldms_metric_set_float i v s = metric_put i (word_bytes v) s"

definition ldms_metric_set_double :: "int \<Rightarrow> u64 \<Rightarrow> ldms_set \<Rightarrow> ldms_set option" where
  "ldms_metric_set_double i v s = metric_put i (word_bytes v) s"

definition ldms_metric_get_char :: "ldms_set \<Rightarrow> int \<Rightarrow> u8 option" where
  "ldms_metric_get_char s i = map_option bytes_word (metric_fetch 1 s i)"

definition ldms_metric_get_u8 :: "ldms_set \<Rightarrow> int \<Rightarrow> u8 option" where
  "ldms_metric_get_u8 s i = map_option bytes_word (metric_fetch 1 s i)"

definition ldms_metric_get_s8 :: "ldms_set \<Rightarrow> int \<Rightarrow> u8 option" where
  "ldms_metric_get_s8 s i = map_option bytes_word (metric_fetch 1 s i)"

definition ldms_metric_get_u16 :: "ldms_set \<Rightarrow> int \<Rightarrow> u16 option" where
  "ldms_metric_get_u16 s i = map_option bytes_word (metric_fetch 2 s i)"

definition ldms_metric_get_s16 :: "ldms_set \<Rightarrow> int \<Rightarrow> u16 option" where
  "ldms_metric_get_s16 s i = map_option bytes_word (metric_fetch 2 s i)"

definition ldms_metric_get_u32 :: "ldms_set \<Rightarrow> int \<Rightarrow> u32 option" where
  "ldms_metric_get_u32 s i = map_option bytes_word (metric_fetch 4 s i)"

definition ldms_metric_get_s32 :: "ldms_set \<Rightarrow> int \<Rightarrow> u32 option" where
  "ldms_metric_get_s32 s i = map_option bytes_word (metric_fetch 4 s i)"

definition ldms_metric_get_u64 :: "ldms_set \<Rightarrow> int \<Rightarrow> u64 option" where
  "ldms_metric_get_u64 s i = map_option bytes_word (metric_fetch 8 s i)"

definition ldms_metric_get_s64 :: "ldms_set \<Rightarrow> int \<Rightarrow> u64 option" where
  "ldms_metric_get_s64 s i = map_option bytes_word (metric_fetch 8 s i)"

definition ldms_metric_get_float :: "ldms_set \<Rightarrow> int \<Rightarrow> u32 option" where
  "ldms_metric_get_float s i = map_option bytes_word (metric_fetch 4 s i)"

definition ldms_metric_get_double :: "ldms_set \<Rightarrow> int \<Rightarrow> u64 option" where
  "ldms_metric_get_double s i = map_option bytes_word (metric_fetch 8 s i)"

text \<open>The value union a caller passes is the list of its bytes.\<close>

fun scalar_width :: "ldms_value_type \<Rightarrow> nat option" where
  "scalar_width LDMS_V_CHAR = Some 1" | "scalar_width LDMS_V_U8 = Some 1" | "scalar_width LDMS_V_S8 = Some 1"
| "scalar_width LDMS_V_U16 = Some 2" | "scalar_width LDMS_V_S16 = Some 2"
| "scalar_width LDMS_V_U32 = Some 4" | "scalar_width LDMS_V_S32 = Some 4"
| "scalar_width LDMS_V_U64 = Some 8" | "scalar_width LDMS_V_S64 = Some 8"
| "scalar_width LDMS_V_F32 = Some 4" | "scalar_width LDMS_V_D64 = Some 8"
| "scalar_width t = None"

definition metric_set :: "nat \<Rightarrow> nat \<Rightarrow> u8 list \<Rightarrow> mem \<Rightarrow> mem option" where
  "metric_set desc mv v m = do {
     code \<leftarrow> peek 1 (desc + vd_type) m;
     type \<leftarrow> vt_of_code code;
     w \<leftarrow> scalar_width type;
     src \<leftarrow> load 0 w v;
     store mv src m }"

definition ldms_metric_set :: "int \<Rightarrow> u8 list \<Rightarrow> ldms_set \<Rightarrow> ldms_set option" where
  "ldms_metric_set i v s = do {
     n \<leftarrow> peek 4 h_card (set_mem s);
     if i < 0 \<or> i \<ge> int n then Some s
     else do {
       r \<leftarrow> mval_to_set s i;
       case r of
         Some (mv, desc) \<Rightarrow> do {
           m \<leftarrow> metric_set desc mv v (set_mem s);
           ldms_gn_inc desc (s\<lparr>set_mem := m\<rparr>) }
       | None \<Rightarrow> Some s } }"

subsection \<open>Arrays\<close>

text \<open>
  The index is an \<^verbatim>\<open>int\<close> that the bounds check compares with the unsigned length, so that a negative
  index counts as a huge one.
\<close>

definition elem_addr :: "nat \<Rightarrow> int \<Rightarrow> nat \<Rightarrow> nat option" where
  "elem_addr mv idx w = (let a = int mv + idx * int w in if a < 0 then None else Some (nat a))"

definition array_put :: "int \<Rightarrow> int \<Rightarrow> u8 list \<Rightarrow> ldms_set \<Rightarrow> ldms_set option" where
  "array_put mid idx bs s = do {
     r \<leftarrow> mval_to_set s mid;
     case r of
       Some (mv, desc) \<Rightarrow> do {
         count \<leftarrow> peek 4 (desc + vd_array_count) (set_mem s);
         c_assert (unat (word_of_int idx :: u32) < count);
         a \<leftarrow> elem_addr mv idx (length bs);
         m \<leftarrow> store a bs (set_mem s);
         ldms_gn_inc desc (s\<lparr>set_mem := m\<rparr>) }
     | None \<Rightarrow> None }"

definition array_fetch :: "nat \<Rightarrow> ldms_set \<Rightarrow> int \<Rightarrow> int \<Rightarrow> u8 list option" where
  "array_fetch w s mid idx = do {
     r \<leftarrow> mval_to_get s mid;
     case r of
       Some (mv, desc) \<Rightarrow> do {
         count \<leftarrow> peek 4 (desc + vd_array_count) (set_mem s);
         c_assert (unat (word_of_int idx :: u32) < count);
         a \<leftarrow> elem_addr mv idx w;
         load a w (set_mem s) }
     | None \<Rightarrow> None }"

definition ldms_metric_array_set_char :: "int \<Rightarrow> int \<Rightarrow> u8 \<Rightarrow> ldms_set \<Rightarrow> ldms_set option" where
  "ldms_metric_array_set_char mid idx v s = array_put mid idx (word_bytes v) s"

definition ldms_metric_array_set_u8 :: "int \<Rightarrow> int \<Rightarrow> u8 \<Rightarrow> ldms_set \<Rightarrow> ldms_set option" where
  "ldms_metric_array_set_u8 mid idx v s = array_put mid idx (word_bytes v) s"

definition ldms_metric_array_set_s8 :: "int \<Rightarrow> int \<Rightarrow> u8 \<Rightarrow> ldms_set \<Rightarrow> ldms_set option" where
  "ldms_metric_array_set_s8 mid idx v s = array_put mid idx (word_bytes v) s"

definition ldms_metric_array_set_u16 :: "int \<Rightarrow> int \<Rightarrow> u16 \<Rightarrow> ldms_set \<Rightarrow> ldms_set option" where
  "ldms_metric_array_set_u16 mid idx v s = array_put mid idx (word_bytes v) s"

definition ldms_metric_array_set_s16 :: "int \<Rightarrow> int \<Rightarrow> u16 \<Rightarrow> ldms_set \<Rightarrow> ldms_set option" where
  "ldms_metric_array_set_s16 mid idx v s = array_put mid idx (word_bytes v) s"

definition ldms_metric_array_set_u32 :: "int \<Rightarrow> int \<Rightarrow> u32 \<Rightarrow> ldms_set \<Rightarrow> ldms_set option" where
  "ldms_metric_array_set_u32 mid idx v s = array_put mid idx (word_bytes v) s"

definition ldms_metric_array_set_s32 :: "int \<Rightarrow> int \<Rightarrow> u32 \<Rightarrow> ldms_set \<Rightarrow> ldms_set option" where
  "ldms_metric_array_set_s32 mid idx v s = array_put mid idx (word_bytes v) s"

definition ldms_metric_array_set_u64 :: "int \<Rightarrow> int \<Rightarrow> u64 \<Rightarrow> ldms_set \<Rightarrow> ldms_set option" where
  "ldms_metric_array_set_u64 mid idx v s = array_put mid idx (word_bytes v) s"

definition ldms_metric_array_set_s64 :: "int \<Rightarrow> int \<Rightarrow> u64 \<Rightarrow> ldms_set \<Rightarrow> ldms_set option" where
  "ldms_metric_array_set_s64 mid idx v s = array_put mid idx (word_bytes v) s"

definition ldms_metric_array_set_float :: "int \<Rightarrow> int \<Rightarrow> u32 \<Rightarrow> ldms_set \<Rightarrow> ldms_set option" where
  "ldms_metric_array_set_float mid idx v s = array_put mid idx (word_bytes v) s"

definition ldms_metric_array_set_double :: "int \<Rightarrow> int \<Rightarrow> u64 \<Rightarrow> ldms_set \<Rightarrow> ldms_set option" where
  "ldms_metric_array_set_double mid idx v s = array_put mid idx (word_bytes v) s"

definition ldms_metric_array_get_char :: "ldms_set \<Rightarrow> int \<Rightarrow> int \<Rightarrow> u8 option" where
  "ldms_metric_array_get_char s mid idx = map_option bytes_word (array_fetch 1 s mid idx)"

definition ldms_metric_array_get_u8 :: "ldms_set \<Rightarrow> int \<Rightarrow> int \<Rightarrow> u8 option" where
  "ldms_metric_array_get_u8 s mid idx = map_option bytes_word (array_fetch 1 s mid idx)"

definition ldms_metric_array_get_s8 :: "ldms_set \<Rightarrow> int \<Rightarrow> int \<Rightarrow> u8 option" where
  "ldms_metric_array_get_s8 s mid idx = map_option bytes_word (array_fetch 1 s mid idx)"

definition ldms_metric_array_get_u16 :: "ldms_set \<Rightarrow> int \<Rightarrow> int \<Rightarrow> u16 option" where
  "ldms_metric_array_get_u16 s mid idx = map_option bytes_word (array_fetch 2 s mid idx)"

definition ldms_metric_array_get_s16 :: "ldms_set \<Rightarrow> int \<Rightarrow> int \<Rightarrow> u16 option" where
  "ldms_metric_array_get_s16 s mid idx = map_option bytes_word (array_fetch 2 s mid idx)"

definition ldms_metric_array_get_u32 :: "ldms_set \<Rightarrow> int \<Rightarrow> int \<Rightarrow> u32 option" where
  "ldms_metric_array_get_u32 s mid idx = map_option bytes_word (array_fetch 4 s mid idx)"

definition ldms_metric_array_get_s32 :: "ldms_set \<Rightarrow> int \<Rightarrow> int \<Rightarrow> u32 option" where
  "ldms_metric_array_get_s32 s mid idx = map_option bytes_word (array_fetch 4 s mid idx)"

definition ldms_metric_array_get_u64 :: "ldms_set \<Rightarrow> int \<Rightarrow> int \<Rightarrow> u64 option" where
  "ldms_metric_array_get_u64 s mid idx = map_option bytes_word (array_fetch 8 s mid idx)"

definition ldms_metric_array_get_s64 :: "ldms_set \<Rightarrow> int \<Rightarrow> int \<Rightarrow> u64 option" where
  "ldms_metric_array_get_s64 s mid idx = map_option bytes_word (array_fetch 8 s mid idx)"

definition ldms_metric_array_get_float :: "ldms_set \<Rightarrow> int \<Rightarrow> int \<Rightarrow> u32 option" where
  "ldms_metric_array_get_float s mid idx = map_option bytes_word (array_fetch 4 s mid idx)"

definition ldms_metric_array_get_double :: "ldms_set \<Rightarrow> int \<Rightarrow> int \<Rightarrow> u64 option" where
  "ldms_metric_array_get_double s mid idx = map_option bytes_word (array_fetch 8 s mid idx)"

text \<open>\<^verbatim>\<open>strncpy\<close>: the string cut or padded with zeros to the given length.\<close>

definition strncpy_bytes :: "string \<Rightarrow> nat \<Rightarrow> u8 list" where
  "strncpy_bytes str n = take n (map (\<lambda>c. of_nat (of_char c)) str @ replicate n 0)"

definition ldms_metric_array_set_str :: "int \<Rightarrow> string \<Rightarrow> ldms_set \<Rightarrow> ldms_set option" where
  "ldms_metric_array_set_str mid str s = do {
     r \<leftarrow> mval_to_set s mid;
     case r of
       Some (mv, desc) \<Rightarrow> do {
         count \<leftarrow> peek 4 (desc + vd_array_count) (set_mem s);
         m \<leftarrow> store mv (strncpy_bytes str count) (set_mem s);
         ldms_gn_inc desc (s\<lparr>set_mem := m\<rparr>) }
     | None \<Rightarrow> None }"

definition ldms_metric_array_get_str :: "ldms_set \<Rightarrow> int \<Rightarrow> string option" where
  "ldms_metric_array_get_str s mid = do {
     r \<leftarrow> mval_to_get s mid;
     case r of
       Some (mv, desc) \<Rightarrow> peek_str mv (set_mem s)
     | None \<Rightarrow> None }"

fun elem_width :: "ldms_value_type \<Rightarrow> nat option" where
  "elem_width LDMS_V_CHAR_ARRAY = Some 1" | "elem_width LDMS_V_U8_ARRAY = Some 1" | "elem_width LDMS_V_S8_ARRAY = Some 1"
| "elem_width LDMS_V_U16_ARRAY = Some 2" | "elem_width LDMS_V_S16_ARRAY = Some 2"
| "elem_width LDMS_V_U32_ARRAY = Some 4" | "elem_width LDMS_V_S32_ARRAY = Some 4"
| "elem_width LDMS_V_U64_ARRAY = Some 8" | "elem_width LDMS_V_S64_ARRAY = Some 8"
| "elem_width LDMS_V_F32_ARRAY = Some 4" | "elem_width LDMS_V_D64_ARRAY = Some 8"
| "elem_width t = None"

definition metric_array_set :: "nat \<Rightarrow> nat \<Rightarrow> int \<Rightarrow> u8 list \<Rightarrow> mem \<Rightarrow> mem option" where
  "metric_array_set desc dst i src m = do {
     count \<leftarrow> peek 4 (desc + vd_array_count) m;
     c_assert (\<not> (i < 0 \<or> unat (word_of_int i :: u32) \<ge> count));
     code \<leftarrow> peek 1 (desc + vd_type) m;
     type \<leftarrow> vt_of_code code;
     w \<leftarrow> elem_width type;
     v \<leftarrow> load 0 w src;
     a \<leftarrow> elem_addr dst i w;
     store a v m }"

definition ldms_metric_array_set_val :: "int \<Rightarrow> int \<Rightarrow> u8 list \<Rightarrow> ldms_set \<Rightarrow> ldms_set option" where
  "ldms_metric_array_set_val metric_idx array_idx src s = do {
     r \<leftarrow> mval_to_set s metric_idx;
     case r of
       Some (dst, desc) \<Rightarrow> do {
         m \<leftarrow> metric_array_set desc dst array_idx src (set_mem s);
         ldms_gn_inc desc (s\<lparr>set_mem := m\<rparr>) }
     | None \<Rightarrow> None }"

fun copy_elems :: "nat list \<Rightarrow> nat \<Rightarrow> nat \<Rightarrow> u8 list \<Rightarrow> mem \<Rightarrow> mem option" where
  "copy_elems [] w val mval m = Some m"
| "copy_elems (i # is) w val mval m = do {
     v \<leftarrow> load (i * w) w mval;
     m \<leftarrow> store (val + i * w) v m;
     copy_elems is w val mval m }"

definition ldms_metric_array_set :: "int \<Rightarrow> u8 list \<Rightarrow> nat \<Rightarrow> nat \<Rightarrow> ldms_set \<Rightarrow> ldms_set option" where
  "ldms_metric_array_set mid mval start count s = do {
     r \<leftarrow> mval_to_set s mid;
     case r of
       Some (val, desc) \<Rightarrow> do {
         code \<leftarrow> peek 1 (desc + vd_type) (set_mem s);
         type \<leftarrow> vt_of_code code;
         w \<leftarrow> elem_width type;
         n \<leftarrow> peek 4 (desc + vd_array_count) (set_mem s);
         m \<leftarrow> copy_elems [start..<min (start + count) n] w val mval (set_mem s);
         ldms_gn_inc desc (s\<lparr>set_mem := m\<rparr>) }
     | None \<Rightarrow> Some s }"

end
