(* ===== verification/MetricTrans.thy ===== *)
theory MetricTrans
  imports MetricSet
begin

section \<open>Transactions on a set (ldms.c)\<close>

text \<open>
  A transaction moves the set to the next buffer of its array, marks it, and stamps it when it
  ends. The clock reading is the pair of seconds and microseconds of \<^verbatim>\<open>gettimeofday\<close>. The mutex of
  the set makes each call one step; the push of the finished buffer to the peers is a matter of the
  transport and not modelled.
\<close>

definition memcpy :: "nat \<Rightarrow> nat \<Rightarrow> nat \<Rightarrow> mem \<Rightarrow> mem option" where
  "memcpy dst src n m = do {
     bs \<leftarrow> load src n m;
     store dst bs m }"

text \<open>The data of the previous buffer that the new one starts with.\<close>

definition carry_over :: "bool \<Rightarrow> nat \<Rightarrow> nat \<Rightarrow> nat \<Rightarrow> mem \<Rightarrow> mem option" where
  "carry_over data_copy dh dh_prev sz m =
     (if data_copy then memcpy dh dh_prev sz m
      else do {
        gn \<leftarrow> peek 4 (dh + (d_heap + heap_gn)) m;
        gn_prev \<leftarrow> peek 4 (dh_prev + (d_heap + heap_gn)) m;
        if gn \<noteq> gn_prev then memcpy dh dh_prev sz m
        else memcpy dh dh_prev sizeof_data_hdr m })"

fun set_curr_idxs :: "nat list \<Rightarrow> nat \<Rightarrow> ldms_set \<Rightarrow> ldms_set option" where
  "set_curr_idxs [] idx s = Some s"
| "set_curr_idxs (i # is) idx s = do {
     dh \<leftarrow> ldms_set_array_get s i;
     m \<leftarrow> poke 4 (dh + d_curr_idx) idx (set_mem s);
     set_curr_idxs is idx (s\<lparr>set_mem := m\<rparr>) }"

definition next_buffer :: "nat \<Rightarrow> ldms_set \<Rightarrow> ldms_set option" where
  "next_buffer n s =
     (if n = 0 then None
      else do {
        dh_prev \<leftarrow> ldms_set_array_get s (set_curr_idx s);
        let s = s\<lparr>set_curr_idx := (set_curr_idx s + 1) mod n\<rparr>;
        dh \<leftarrow> ldms_set_array_get s (set_curr_idx s);
        heap_sz \<leftarrow> peek 8 (dh + (d_heap + heap_size)) (set_mem s);
        sz \<leftarrow> peek 8 (dh + d_size) (set_mem s);
        let base = dh + (sz - heap_sz);
        set_off \<leftarrow> peek 4 (dh + d_set_off) (set_mem s);
        m \<leftarrow> carry_over (flag_on (set_flags s) LDMS_SET_F_DATA_COPY) dh dh_prev sz (set_mem s);
        m \<leftarrow> poke 4 (dh + d_set_off) set_off m;
        hsz \<leftarrow> peek 4 h_heap_sz m;
        heap \<leftarrow> (if hsz \<noteq> 0 then map_option Some (ldms_heap_get base m) else Some (set_heap s));
        set_curr_idxs [0..<n] (set_curr_idx s) (s\<lparr>set_mem := m, set_data := dh, set_heap := heap\<rparr>) })"

definition ldms_transaction_begin :: "nat \<times> nat \<Rightarrow> ldms_set \<Rightarrow> ldms_set option" where
  "ldms_transaction_begin tv s = do {
     n \<leftarrow> peek 4 h_array_card (set_mem s);
     s \<leftarrow> (if n = 1 then Some s else next_buffer n s);
     m \<leftarrow> poke 4 (set_data s + d_trans_flags) LDMS_TRANSACTION_BEGIN (set_mem s);
     m \<leftarrow> poke 4 (set_data s + d_ts_sec) (fst tv) m;
     m \<leftarrow> poke 4 (set_data s + d_ts_usec) (snd tv) m;
     Some (s\<lparr>set_mem := m\<rparr>) }"

text \<open>The difference of the clocks, in 32-bit arithmetic with a borrow from the seconds.\<close>

definition duration :: "nat \<times> nat \<Rightarrow> u32 \<Rightarrow> u32 \<Rightarrow> u32 \<times> u32" where
  "duration tv sec usec =
     (let dsec = of_nat (fst tv) - sec; dusec = of_nat (snd tv) - usec
      in if sint dusec < 0 then (dsec - 1, dusec + 1000000) else (dsec, dusec))"

definition ldms_transaction_end :: "nat \<times> nat \<Rightarrow> ldms_set \<Rightarrow> ldms_set option" where
  "ldms_transaction_end tv s = do {
     dh \<leftarrow> ldms_set_array_get s (set_curr_idx s);
     sec \<leftarrow> peek 4 (dh + d_ts_sec) (set_mem s);
     usec \<leftarrow> peek 4 (dh + d_ts_usec) (set_mem s);
     let (dsec, dusec) = duration tv (of_nat sec) (of_nat usec);
     m \<leftarrow> poke 4 (dh + d_dur_sec) (unat dsec) (set_mem s);
     m \<leftarrow> poke 4 (dh + d_dur_usec) (unat dusec) m;
     m \<leftarrow> poke 4 (dh + d_ts_sec) (fst tv) m;
     m \<leftarrow> poke 4 (dh + d_ts_usec) (snd tv) m;
     m \<leftarrow> poke 4 (dh + d_trans_flags) LDMS_TRANSACTION_END m;
     gn \<leftarrow> peek 8 (set_data s + d_gn) m;
     m \<leftarrow> poke 8 (set_data s + d_gn) (gn + 1) m;
     Some (s\<lparr>set_mem := m\<rparr>) }"

definition ldms_transaction_timestamp_get :: "ldms_set \<Rightarrow> (nat \<times> nat) option" where
  "ldms_transaction_timestamp_get s = do {
     sec \<leftarrow> peek 4 (set_data s + d_ts_sec) (set_mem s);
     usec \<leftarrow> peek 4 (set_data s + d_ts_usec) (set_mem s);
     Some (sec, usec) }"

definition ldms_transaction_duration_get :: "ldms_set \<Rightarrow> (nat \<times> nat) option" where
  "ldms_transaction_duration_get s = do {
     sec \<leftarrow> peek 4 (set_data s + d_dur_sec) (set_mem s);
     usec \<leftarrow> peek 4 (set_data s + d_dur_usec) (set_mem s);
     Some (sec, usec) }"

definition ldms_set_is_consistent :: "ldms_set \<Rightarrow> bool option" where
  "ldms_set_is_consistent s = do {
     flags \<leftarrow> peek 4 (set_data s + d_trans_flags) (set_mem s);
     Some (flags = LDMS_TRANSACTION_END) }"

end
