(* ===== verification/MetricAccess.thy ===== *)
theory MetricAccess
  imports MetricSpec MetricValue MetricTrans
begin

section \<open>Access to well-formed sets\<close>

text \<open>Where the accessors of a well-formed set read and write, and what they leave alone.\<close>

definition value_at :: "layout \<Rightarrow> nat \<Rightarrow> nat \<Rightarrow> nat" where
  "value_at L k i = (if is_data (ent_mdef (l_ents L ! i)) then l_buf L k + data_off (l_ents L) i else meta_off L i)"

definition value_sz :: "layout \<Rightarrow> nat \<Rightarrow> nat" where
  "value_sz L i = md_data_sz (ent_mdef (l_ents L ! i))"

definition region :: "layout \<Rightarrow> nat \<Rightarrow> nat \<Rightarrow> nat set" where
  "region L k i = {value_at L k i..<value_at L k i + value_sz L i}"

lemma set_wfD:
  assumes "set_wf L s"
  shows "layout_wf L" "arrays_last (l_ents L)" "hdr_wf L (set_mem s)" "set_curr_idx s < l_bufs L"
    "set_data s = l_buf L (set_curr_idx s)" "\<And>e. e \<in> set (l_ents L) \<Longrightarrow> ent_wf e"
    "length (set_mem s) = l_buf L (l_bufs L)" "set_data_array s = l_meta L"
  using assms by (auto simp: set_wf_def layout_wf_def hdr_wf_def)

lemma data_region:
  assumes "set_wf L s" "i < length (l_ents L)" "is_data (ent_mdef (l_ents L ! i))"
  shows "l_buf L k + sizeof_data_hdr \<le> value_at L k i" "value_at L k i + value_sz L i \<le> l_buf L k + l_ds L"
  using data_place(1,2) [OF set_wfD(6,2) [OF assms(1)] assms(2,3)] set_wfD(1) [OF assms(1)] assms(3)
  by (auto simp: value_at_def value_sz_def layout_wf_def)

lemma meta_region:
  assumes "set_wf L s" "i < length (l_ents L)" "\<not> is_data (ent_mdef (l_ents L ! i))"
  shows "l_mv L \<le> value_at L k i" "value_at L k i + value_sz L i \<le> l_meta L"
  using meta_place(1,2) [OF set_wfD(1) [OF assms(1)] assms(2,3)] assms(3) by (auto simp: value_at_def value_sz_def)

lemma region_writable:
  assumes "set_wf L s" "i < length (l_ents L)" "k < l_bufs L"
  shows "region L k i \<subseteq> writable L"
proof (cases "is_data (ent_mdef (l_ents L ! i))")
  case True
  then have "region L k i \<subseteq> buf_writable L (l_buf L k)"
    using data_region [OF assms(1,2) True, of k] by (auto simp: region_def buf_writable_def)
  then show ?thesis using assms(3) by (auto simp: writable_def)
next
  case False
  then show ?thesis using meta_region [OF assms(1,2) False, of k] by (auto simp: region_def writable_def)
qed

lemma region_in_buf:
  assumes "set_wf L s" "i < length (l_ents L)" "is_data (ent_mdef (l_ents L ! i))"
  shows "region L k i \<subseteq> buf (l_meta L) (l_w L) k"
  using data_region [OF assms, of k] layout_bounds(5) [OF set_wfD(1) [OF assms(1)]]
  by (auto simp: region_def buf_def l_buf_def)

lemma regions_disjoint:
  assumes wf: "set_wf L s" and i: "i < length (l_ents L)" and j: "j < length (l_ents L)"
    and "i \<noteq> j \<or> is_data (ent_mdef (l_ents L ! i)) \<and> k \<noteq> k'"
  shows "region L k i \<inter> region L k' j = {}"
proof -
  note b = layout_bounds [OF set_wfD(1) [OF wf]]
  let ?d = "\<lambda>i. is_data (ent_mdef (l_ents L ! i))"
  consider "?d i" "?d j" "k = k'" "i \<noteq> j" | "?d i" "?d j" "k \<noteq> k'" | "?d i \<noteq> ?d j" | "\<not> ?d i" "\<not> ?d j" "i \<noteq> j"
    using assms(4) by blast
  then show ?thesis
  proof cases
    case 1
    then show ?thesis
      using data_place(3) [OF set_wfD(6,2) [OF wf] i, of j] data_place(3) [OF set_wfD(6,2) [OF wf] j, of i] i j
      by (cases "i < j") (auto simp: region_def value_at_def value_sz_def)
  next
    case 2
    then show ?thesis using region_in_buf [OF wf i, of k] region_in_buf [OF wf j, of k'] buf_disjoint [of k k'] by blast
  next
    case 3
    then show ?thesis
      using data_region(1) [OF wf i, of k] meta_region(2) [OF wf i, of k] data_region(1) [OF wf j, of k']
        meta_region(2) [OF wf j, of k'] b(7) [of k] b(7) [of k'] by (fastforce simp: region_def)
  next
    case 4
    then show ?thesis
      using meta_place(3) [OF set_wfD(1) [OF wf] i, of j] meta_place(3) [OF set_wfD(1) [OF wf] j, of i]
      by (cases "i < j") (auto simp: region_def value_at_def value_sz_def)
  qed
qed

subsection \<open>Places the accessors use\<close>

lemma mval_to_set_wf:
  assumes wf: "set_wf L s" and i: "i < length (l_ents L)"
  shows "mval_to_set s (int i) = Some (Some (value_at L (set_curr_idx s) i, desc_off L i))"
  using hdr_wf_desc [OF set_wfD(1,3) [OF wf] i] arrays_last_unshifted [OF set_wfD(2) [OF wf] i] set_wfD [OF wf] i
  by (auto simp: mval_to_set_def desc_ok_def value_at_def hdr_wf_def)

lemma mval_to_set_bad: "set_wf L s \<Longrightarrow> i < 0 \<or> i \<ge> int (length (l_ents L)) \<Longrightarrow> mval_to_set s i = Some None"
  by (auto simp: mval_to_set_def set_wf_def hdr_wf_def)

text \<open>
  A reader inside a transaction sees the buffer before the current one, except for lists and arrays
  of records.
\<close>

definition in_transaction :: "ldms_set \<Rightarrow> bool" where
  "in_transaction s \<longleftrightarrow> peek 4 (set_data s + d_trans_flags) (set_mem s) \<noteq> Some LDMS_TRANSACTION_END"

definition read_buf :: "layout \<Rightarrow> ldms_set \<Rightarrow> nat \<Rightarrow> nat" where
  "read_buf L s i =
     (if in_transaction s \<and> md_type (ent_mdef (l_ents L ! i)) \<noteq> LDMS_V_LIST \<and>
         md_type (ent_mdef (l_ents L ! i)) \<noteq> LDMS_V_RECORD_ARRAY
      then (set_curr_idx s + (l_bufs L - 1)) mod l_bufs L else set_curr_idx s)"

lemma vt_code_inj: "vt_code t = vt_code u \<longleftrightarrow> t = u"
  by (metis option.inject vt_of_code_code)

lemma mval_to_get_wf:
  assumes wf: "set_wf L s" and i: "i < length (l_ents L)"
  shows "mval_to_get s (int i) = Some (Some (value_at L (read_buf L s i) i, desc_off L i))"
proof -
  note d = hdr_wf_desc [OF set_wfD(1,3) [OF wf] i]
  have hdr: "peek 4 h_card (set_mem s) = Some (length (l_ents L))" "peek 4 h_array_card (set_mem s) = Some (l_bufs L)"
    "peek 4 h_data_sz (set_mem s) = Some (l_w L)" "0 < l_bufs L"
    using set_wfD(1,3) [OF wf] by (auto simp: hdr_wf_def layout_wf_def)
  note b = layout_bounds [OF set_wfD(1) [OF wf]]
  have "set_data s + 20 \<le> length (set_mem s)"
    using set_wfD(4,5,7) [OF wf] b(4,5) b(6) [OF set_wfD(4) [OF wf]] by simp
  then obtain t where t: "peek 4 (set_data s + d_trans_flags) (set_mem s) = Some t"
    using peek_Some [of "set_data s + d_trans_flags" 4 "set_mem s"] by auto
  show ?thesis
  proof (cases "is_data (ent_mdef (l_ents L ! i))")
    case True
    then show ?thesis
      using d(1,2) d(4) [OF arrays_last_unshifted [OF set_wfD(2) [OF wf] i True] True] hdr i t set_wfD(5,8) [OF wf]
        vt_code_inj [of _ LDMS_V_LIST] vt_code_inj [of _ LDMS_V_RECORD_ARRAY]
      by (auto simp: mval_to_get_def desc_ok_def value_at_def read_buf_def in_transaction_def ldms_set_array_get_def l_buf_def)
  next
    case False
    then show ?thesis using d hdr i by (auto simp: mval_to_get_def desc_ok_def value_at_def)
  qed
qed

subsection \<open>Stores into values\<close>

definition gn_bytes :: "ldms_set \<Rightarrow> nat set" where
  "gn_bytes s = {h_meta_gn..<h_version} \<union> {set_data s + d_gn..<set_data s + d_size} \<union>
     {set_data s + d_meta_gn..<set_data s + d_curr_idx}"

lemma gn_bytes_writable:
  assumes "set_wf L s" shows "gn_bytes s \<subseteq> writable L"
proof -
  have "{set_data s + d_gn..<set_data s + d_size} \<union> {set_data s + d_meta_gn..<set_data s + d_curr_idx} \<subseteq>
      buf_writable L (l_buf L (set_curr_idx s))"
    using set_wfD(5) [OF assms] by (auto simp: buf_writable_def)
  then show ?thesis using set_wfD(4) [OF assms] by (auto simp: gn_bytes_def writable_def)
qed

lemma hdr_region:
  assumes wf: "set_wf L s" and i: "i < length (l_ents L)" and x: "x < 140 \<or> l_buf L k \<le> x \<and> x < l_buf L k + 96"
  shows "x \<notin> region L j i"
proof
  assume r: "x \<in> region L j i"
  note b = layout_bounds [OF set_wfD(1) [OF wf]]
  show False
  proof (cases "is_data (ent_mdef (l_ents L ! i))")
    case True
    then have "l_buf L j + 96 \<le> x" using r data_region(1) [OF wf i True, of j] by (auto simp: region_def)
    then have "l_buf L k \<le> x" "x < l_buf L k + 96" using x b(1,2,3) b(7) [of j] by auto
    then have "x \<in> buf (l_meta L) (l_w L) k" using b(4,5) by (auto simp: buf_def l_buf_def)
    with r region_in_buf [OF wf i True, of j] have "k = j" using buf_disjoint by blast
    with \<open>l_buf L j + 96 \<le> x\<close> \<open>x < l_buf L k + 96\<close> show False by simp
  next
    case False
    then show False using r x meta_region [OF wf i False, of j] b(1,2) b(7) [of k] by (auto simp: region_def)
  qed
qed

lemma gn_bytes_region:
  assumes wf: "set_wf L s" and i: "i < length (l_ents L)"
  shows "gn_bytes s \<inter> region L k i = {}"
proof -
  have "x \<notin> region L k i" if "x \<in> gn_bytes s" for x
    using hdr_region [OF wf i, of x "set_curr_idx s" k] that set_wfD(5) [OF wf] by (auto simp: gn_bytes_def)
  then show ?thesis by blast
qed

definition generation :: "layout \<Rightarrow> ldms_set \<Rightarrow> nat \<Rightarrow> nat option" where
  "generation L s i = (if is_data (ent_mdef (l_ents L ! i)) then ldms_set_data_gn_get s else ldms_set_meta_gn_get s)"

lemma ldms_gn_inc_wf:
  assumes wf: "set_wf L s" and i: "i < length (l_ents L)"
  shows "\<exists>m. ldms_gn_inc (desc_off L i) s = Some (s\<lparr>set_mem := m\<rparr>) \<and> only_changes (gn_bytes s) (set_mem s) m \<and>
    (\<exists>g. generation L s i = Some g \<and> generation L (s\<lparr>set_mem := m\<rparr>) i = Some ((g + 1) mod 2 ^ 64))"
proof -
  let ?m = "set_mem s" and ?d = "set_data s"
  note b = layout_bounds [OF set_wfD(1) [OF wf]]
  have room: "140 \<le> ?d" "?d + 96 \<le> length ?m"
    using set_wfD(5,7) [OF wf] b(1,2,3,4,5) b(6) [OF set_wfD(4) [OF wf]] b(7) [of "set_curr_idx s"] by auto
  have flags: "peek 1 (desc_off L i + vd_flags) ?m = Some (md_flags (ent_mdef (l_ents L ! i)))"
    using hdr_wf_desc(2) [OF set_wfD(1,3) [OF wf] i] by (simp add: desc_ok_def)
  show ?thesis
  proof (cases "is_data (ent_mdef (l_ents L ! i))")
    case True
    obtain g where g: "peek 8 (?d + d_gn) ?m = Some g" using peek_Some [of "?d + d_gn" 8 ?m] room by auto
    let ?m' = "put (?d + d_gn) (le_bytes 8 (g + 1)) ?m"
    have "only_changes (gn_bytes s) ?m ?m'" by (rule only_put_on) (auto simp: gn_bytes_def)
    then show ?thesis
      using True flags g room
      by (intro exI [of _ ?m']) (simp add: ldms_gn_inc_def generation_def ldms_set_data_gn_get_def mem_simps)
  next
    case False
    obtain g where g: "peek 8 h_meta_gn ?m = Some g" using peek_Some [of h_meta_gn 8 ?m] room by auto
    let ?m1 = "put h_meta_gn (le_bytes 8 (g + 1)) ?m"
    let ?m' = "put (?d + d_meta_gn) (le_bytes 8 ((g + 1) mod 2 ^ 64)) ?m1"
    have "only_changes (gn_bytes s) ?m ?m'" by (intro only_put_on) (auto simp: gn_bytes_def)
    then show ?thesis
      using False flags g room
      by (intro exI [of _ ?m']) (simp add: ldms_gn_inc_def generation_def ldms_set_meta_gn_get_def mem_simps)
  qed
qed

lemma set_wf_mem:
  assumes wf: "set_wf L s" and "only_changes S (set_mem s) m" "S \<subseteq> writable L"
  shows "set_wf L (s\<lparr>set_mem := m\<rparr>)"
  using hdr_wf_only [OF set_wfD(1,3) [OF wf] assms(2,3)] wf by (simp add: set_wf_def)

text \<open>
  A store into the value of metric \<open>i\<close> in the current buffer, with the step of its generation number,
  as all setters do it.
\<close>

definition content :: "layout \<Rightarrow> ldms_set \<Rightarrow> nat \<Rightarrow> nat \<Rightarrow> u8 list option" where
  "content L s k i = load (value_at L k i) (value_sz L i) (set_mem s)"

lemma load_put_part:
  assumes "load a n m = Some xs" and "off + length bs \<le> n"
  shows "load a n (put (a + off) bs m) = Some (put off bs xs)"
proof -
  have n: "a + n \<le> length m" and xs: "xs = take n (drop a m)" using assms(1) by (auto simp: load_def split: if_splits)
  have "take n (drop a (put (a + off) bs m)) = put off bs xs"
    using n assms(2) by (intro nth_equalityI) (auto simp: xs put_def nth_append)
  then show ?thesis using n by (simp add: load_def)
qed

definition updated :: "layout \<Rightarrow> nat \<Rightarrow> (u8 list \<Rightarrow> u8 list) \<Rightarrow> ldms_set \<Rightarrow> ldms_set \<Rightarrow> bool" where
  "updated L i f s s' \<longleftrightarrow>
     set_wf L s' \<and> s' = s\<lparr>set_mem := set_mem s'\<rparr> \<and> in_transaction s' = in_transaction s \<and>
     ldms_transaction_timestamp_get s' = ldms_transaction_timestamp_get s \<and>
     content L s' (set_curr_idx s) i = map_option f (content L s (set_curr_idx s) i) \<and>
     (\<forall>k < l_bufs L. \<forall>j < length (l_ents L). j \<noteq> i \<or> is_data (ent_mdef (l_ents L ! i)) \<and> k \<noteq> set_curr_idx s \<longrightarrow>
        content L s' k j = content L s k j) \<and>
     (\<exists>g. generation L s i = Some g \<and> generation L s' i = Some ((g + 1) mod 2 ^ 64))"

lemma region_in_mem:
  assumes wf: "set_wf L s" and i: "i < length (l_ents L)" and k: "k < l_bufs L"
  shows "value_at L k i + value_sz L i \<le> length (set_mem s)"
proof -
  note b = layout_bounds [OF set_wfD(1) [OF wf]]
  show ?thesis
    using data_region(2) [OF wf i, of k] meta_region(2) [OF wf i, of k] b(5) b(6) [OF k] b(7) [of "l_bufs L"] set_wfD(7) [OF wf]
    by (cases "is_data (ent_mdef (l_ents L ! i))") auto
qed

lemma content_Some:
  assumes "set_wf L s" "i < length (l_ents L)" "k < l_bufs L"
  shows "\<exists>xs. content L s k i = Some xs \<and> length xs = value_sz L i"
  using region_in_mem [OF assms] by (auto simp: content_def load_def)

lemma put_value:
  fixes L :: layout and s :: ldms_set and i off :: nat
  defines "a \<equiv> value_at L (set_curr_idx s) i + off"
  assumes wf: "set_wf L s" and i: "i < length (l_ents L)" and fit: "off + length bs \<le> value_sz L i"
  shows "\<exists>s'. ldms_gn_inc (desc_off L i) (s\<lparr>set_mem := put a bs (set_mem s)\<rparr>) = Some s' \<and> updated L i (put off bs) s s'"
    and "a + length bs \<le> length (set_mem s)"
proof -
  let ?k = "set_curr_idx s" and ?R = "region L (set_curr_idx s) i" and ?m = "put a bs (set_mem s)"
  note k = set_wfD(4) [OF wf]
  have sub: "{a..<a + length bs} \<subseteq> ?R" using fit by (auto simp: a_def region_def)
  note b = layout_bounds [OF set_wfD(1) [OF wf]]
  show "a + length bs \<le> length (set_mem s)" using fit region_in_mem [OF wf i k] by (simp add: a_def)
  let ?s1 = "s\<lparr>set_mem := ?m\<rparr>"
  have only1: "only_changes {a..<a + length bs} (set_mem s) ?m" by (rule only_put)
  have wf1: "set_wf L ?s1" using set_wf_mem [OF wf only1] sub region_writable [OF wf i k] by auto
  obtain m' g where m': "ldms_gn_inc (desc_off L i) ?s1 = Some (s\<lparr>set_mem := m'\<rparr>)" "only_changes (gn_bytes s) ?m m'"
    and g: "generation L ?s1 i = Some g" "generation L (s\<lparr>set_mem := m'\<rparr>) i = Some ((g + 1) mod 2 ^ 64)"
    using ldms_gn_inc_wf [OF wf1 i] by (auto simp: gn_bytes_def)
  let ?s' = "s\<lparr>set_mem := m'\<rparr>"
  have only: "only_changes ({a..<a + length bs} \<union> gn_bytes s) (set_mem s) m'" by (rule only_trans [OF only1 m'(2)])
  have wf': "set_wf L ?s'" using set_wf_mem [OF wf1, of "gn_bytes s" m'] m'(2) gn_bytes_writable [OF wf] by simp
  have gn_out: "x \<notin> gn_bytes s" if "l < length (l_ents L)" "x \<in> region L j l" for x j l
    using gn_bytes_region [OF wf that(1), of j] that(2) by blast
  have same: "content L ?s' j l = content L s j l"
    if "l < length (l_ents L)" "l \<noteq> i \<or> is_data (ent_mdef (l_ents L ! i)) \<and> j \<noteq> ?k" for j l
  proof -
    have "?R \<inter> region L j l = {}" using regions_disjoint [OF wf i that(1), of ?k j] that(2) by auto
    then have "x \<notin> {a..<a + length bs} \<union> gn_bytes s" if "x \<in> region L j l" for x
      using gn_out [OF \<open>l < length (l_ents L)\<close> that] sub that by blast
    then show ?thesis unfolding content_def using load_only [OF only] by (simp add: region_def)
  qed
  have hdr: "x \<notin> {a..<a + length bs}" if "set_data s \<le> x \<and> x < set_data s + 96 \<or> x < 140" for x
    using that hdr_region [OF wf i, of x ?k ?k] sub set_wfD(5) [OF wf] by auto
  have hdr': "peek 4 (set_data s + o') m' = peek 4 (set_data s + o') (set_mem s)" if "o' \<le> d_set_off - 4" for o'
    using peek_only [OF only, of "set_data s + o'" 4] hdr b(1,2,3) b(7) [of ?k] set_wfD(5) [OF wf] that
    by (auto simp: gn_bytes_def)
  then have "in_transaction ?s' = in_transaction s" "ldms_transaction_timestamp_get ?s' = ldms_transaction_timestamp_get s"
    using hdr' [of 0] by (simp_all add: in_transaction_def ldms_transaction_timestamp_get_def)
  moreover have "generation L s i = Some g"
    using g(1) peek_only [OF only1, of "set_data s + d_gn" 8] peek_only [OF only1, of h_meta_gn 8] hdr
    by (auto simp: generation_def ldms_set_data_gn_get_def ldms_set_meta_gn_get_def)
  moreover have "content L ?s' ?k i = map_option (put off bs) (content L s ?k i)"
  proof -
    obtain xs where "content L s ?k i = Some xs" using content_Some [OF wf i k] by blast
    moreover have "content L ?s' ?k i = content L ?s1 ?k i"
      unfolding content_def by (rule load_only) (use m'(2) gn_out [OF i, of _ ?k] in \<open>auto simp: region_def\<close>)
    ultimately show ?thesis using load_put_part [OF _ fit] by (simp add: content_def a_def)
  qed
  ultimately show "\<exists>s'. ldms_gn_inc (desc_off L i) ?s1 = Some s' \<and> updated L i (put off bs) s s'"
    using m' g wf' same by (auto simp: updated_def)
qed

end
