(* ===== verification/MetricOps.thy ===== *)
theory MetricOps
  imports MetricAccess
begin

section \<open>Setters and getters on well-formed sets\<close>

text \<open>
  What the accessors of metric values do: a setter changes one value of the current buffer and a
  generation number and nothing else, and a getter outside of a transaction returns what was set.
  The accessors of one shape share a contract, a locale, that every typed accessor of ldms.c
  satisfies.
\<close>

lemma load_load: "load a n m = Some xs \<Longrightarrow> i + k \<le> n \<Longrightarrow> load (a + i) k m = load i k xs"
  using load_part [of a n m xs i k] length_load [of a n m xs] by (simp add: load_def)

lemma length_word_bytes [simp]: "length (word_bytes (v :: 'a::len word)) = LENGTH('a) div 8"
  by (simp add: word_bytes_def)

lemma bytes_word_bytes:
  assumes "LENGTH('a::len) = 8 * w" shows "bytes_word (word_bytes (v :: 'a word)) = v"
proof -
  have "unat v < 2 ^ LENGTH('a)" by (rule unsigned_less)
  then have "unat v < 256 ^ w" using power_mult [of "2::nat" 8 w] assms by simp
  then show ?thesis using assms by (simp add: bytes_word_def word_bytes_def)
qed

subsection \<open>What a reader sees\<close>

definition view :: "layout \<Rightarrow> ldms_set \<Rightarrow> nat \<Rightarrow> u8 list option" where
  "view L s i = content L s (read_buf L s i) i"

definition visible :: "layout \<Rightarrow> ldms_set \<Rightarrow> nat \<Rightarrow> bool" where
  "visible L s i \<longleftrightarrow> \<not> is_data (ent_mdef (l_ents L ! i)) \<or> \<not> in_transaction s \<or> l_bufs L = 1"

lemma read_buf_bound: "set_wf L s \<Longrightarrow> read_buf L s i < l_bufs L"
  using set_wfD(1,4) [of L s] by (auto simp: read_buf_def layout_wf_def)

lemma view_Some:
  "set_wf L s \<Longrightarrow> i < length (l_ents L) \<Longrightarrow> \<exists>xs. view L s i = Some xs \<and> length xs = value_sz L i"
  unfolding view_def by (rule content_Some) (simp_all add: read_buf_bound)

lemma view_visible:
  assumes "set_wf L s" "visible L s i"
  shows "view L s i = content L s (set_curr_idx s) i"
proof (cases "is_data (ent_mdef (l_ents L ! i))")
  case True
  then have "read_buf L s i = set_curr_idx s" using assms set_wfD(4) [OF assms(1)] by (auto simp: visible_def read_buf_def)
  then show ?thesis by (simp add: view_def)
qed (simp add: view_def content_def value_at_def)

lemma metric_fetch_view:
  assumes "set_wf L s" "i < length (l_ents L)" "w \<le> value_sz L i"
  shows "metric_fetch w s (int i) = Option.bind (view L s i) (load 0 w)"
proof -
  obtain xs where xs: "view L s i = Some xs" "length xs = value_sz L i" using view_Some assms by blast
  from load_load [of "value_at L (read_buf L s i) i" "value_sz L i" "set_mem s" xs 0 w] xs assms(3)
  show ?thesis by (simp add: metric_fetch_def mval_to_get_wf [OF assms(1,2)] view_def content_def)
qed

lemma updatedD:
  assumes "updated L i f s s'"
  shows "set_wf L s'" "set_curr_idx s' = set_curr_idx s" "visible L s' j = visible L s j" "read_buf L s' j = read_buf L s j"
proof -
  have s': "set_wf L s'" "s' = s\<lparr>set_mem := set_mem s'\<rparr>" "in_transaction s' = in_transaction s"
    using assms by (auto simp: updated_def)
  show "set_curr_idx s' = set_curr_idx s" using arg_cong [OF s'(2), of set_curr_idx] by simp
  then show "set_wf L s'" "visible L s' j = visible L s j" "read_buf L s' j = read_buf L s j"
    using s'(1,3) by (simp_all add: visible_def read_buf_def)
qed

lemma updated_view:
  assumes "set_wf L s" "updated L i f s s'" "visible L s i"
  shows "view L s' i = map_option f (view L s i)"
  using view_visible [OF assms(1,3)] view_visible [OF updatedD(1) [OF assms(2)], of i] updatedD [OF assms(2)] assms
  by (simp add: updated_def)

lemma updated_view_other:
  assumes "set_wf L s" "updated L i f s s'" "j < length (l_ents L)" "j \<noteq> i \<or> \<not> visible L s i \<and> read_buf L s i \<noteq> set_curr_idx s"
  shows "view L s' j = view L s j"
  using assms read_buf_bound [OF assms(1), of j] updatedD(4) [OF assms(2), of j]
  by (cases "j = i") (auto simp: view_def updated_def visible_def)

subsection \<open>Stores through the accessors\<close>

lemma metric_put_wf:
  assumes "set_wf L s" "i < length (l_ents L)" "length bs \<le> value_sz L i"
  shows "\<exists>s'. metric_put (int i) bs s = Some s' \<and> updated L i (put 0 bs) s s'"
  using put_value [OF assms(1,2), of 0 bs] assms(3)
  by (simp add: metric_put_def mval_to_set_wf [OF assms(1,2)] mem_simps)

lemma desc_count:
  assumes "set_wf L s" "i < length (l_ents L)"
  shows "peek 4 (desc_off L i + vd_array_count) (set_mem s) = Some (unat (md_count (ent_mdef (l_ents L ! i))))"
  using hdr_wf_desc(2) [OF set_wfD(1,3) [OF assms(1)] assms(2)] by (simp add: desc_ok_def)

lemma unat_word_of_nat32: "j < 2 ^ 32 \<Longrightarrow> unat (of_nat j :: u32) = j"
  by (simp add: unat_of_nat)

lemma elem_addr_nat [simp]: "elem_addr mv (int j) w = Some (mv + j * w)"
  by (simp add: elem_addr_def Let_def nat_add_distrib nat_mult_distrib flip: of_nat_mult of_nat_add)

lemma count_less: "unat (c :: u32) < 2 ^ 32"
  by (rule order_less_le_trans, rule unsigned_less) simp

lemma elem_bound: "j < (n::nat) \<Longrightarrow> n * w \<le> sz \<Longrightarrow> j * w + w \<le> sz"
  using mult_le_mono1 [of "Suc j" n w] by simp

lemma array_put_wf:
  assumes wf: "set_wf L s" "i < length (l_ents L)"
    and "j < unat (md_count (ent_mdef (l_ents L ! i)))" "unat (md_count (ent_mdef (l_ents L ! i))) * length bs \<le> value_sz L i"
  shows "\<exists>s'. array_put (int i) (int j) bs s = Some s' \<and> updated L i (put (j * length bs) bs) s s'"
  using put_value [OF wf, of "j * length bs" bs] elem_bound [OF assms(3,4)] assms(3) count_less [of "md_count (ent_mdef (l_ents L ! i))"]
  by (simp add: array_put_def mval_to_set_wf [OF wf] desc_count [OF wf] unat_word_of_nat32 c_assert_def mem_simps)

lemma array_put_range:
  assumes wf: "set_wf L s" "i < length (l_ents L)"
    and "unat (md_count (ent_mdef (l_ents L ! i))) \<le> unat (word_of_int j :: u32)"
  shows "array_put (int i) j bs s = None"
  using assms(3) by (simp add: array_put_def mval_to_set_wf [OF wf] desc_count [OF wf] c_assert_def)

lemma array_fetch_range:
  assumes wf: "set_wf L s" "i < length (l_ents L)"
    and "unat (md_count (ent_mdef (l_ents L ! i))) \<le> unat (word_of_int j :: u32)"
  shows "array_fetch w s (int i) j = None"
  using assms(3) by (simp add: array_fetch_def mval_to_get_wf [OF wf] desc_count [OF wf] c_assert_def)

lemma array_fetch_view:
  assumes wf: "set_wf L s" "i < length (l_ents L)"
    and "j < unat (md_count (ent_mdef (l_ents L ! i)))" "unat (md_count (ent_mdef (l_ents L ! i))) * w \<le> value_sz L i"
  shows "array_fetch w s (int i) (int j) = Option.bind (view L s i) (load (j * w) w)"
proof -
  obtain xs where xs: "view L s i = Some xs" "length xs = value_sz L i" using view_Some wf by blast
  from load_load [of "value_at L (read_buf L s i) i" "value_sz L i" "set_mem s" xs "j * w" w] xs elem_bound [OF assms(3,4)]
    assms(3) count_less [of "md_count (ent_mdef (l_ents L ! i))"]
  show ?thesis
    by (simp add: array_fetch_def mval_to_get_wf [OF wf] desc_count [OF wf] unat_word_of_nat32 c_assert_def view_def content_def)
qed

subsection \<open>Typed scalars\<close>

lemma value_sz_bytes:
  assumes "set_wf L s" "i < length (l_ents L)"
    and "value_bytes (md_type (ent_mdef (l_ents L ! i))) (unat (md_count (ent_mdef (l_ents L ! i)))) = Some n"
    and "md_type (ent_mdef (l_ents L ! i)) \<noteq> LDMS_V_RECORD_TYPE" "md_type (ent_mdef (l_ents L ! i)) \<noteq> LDMS_V_RECORD_ARRAY"
  shows "n \<le> value_sz L i"
proof -
  have "ent_wf (l_ents L ! i)" using set_wfD(6) [OF assms(1)] assms(2) by simp
  with assms(3-) show ?thesis
    using roundup_8_bounds(1) [of n]
    by (cases "l_ents L ! i") (auto simp: value_sz_def vsize_def ldms_value_size_get_def rec_wf_def)
qed

lemma scalar_fits:
  assumes "set_wf L s" "i < length (l_ents L)" "scalar_width (md_type (ent_mdef (l_ents L ! i))) = Some w"
  shows "w \<le> value_sz L i"
  using value_sz_bytes [OF assms(1,2)] assms(3) by (cases "md_type (ent_mdef (l_ents L ! i))") auto

lemma desc_type:
  assumes "set_wf L s" "i < length (l_ents L)"
  shows "peek 1 (desc_off L i + vd_type) (set_mem s) = Some (vt_code (md_type (ent_mdef (l_ents L ! i))))"
    "peek 4 h_card (set_mem s) = Some (length (l_ents L))"
  using hdr_wf_desc(2) [OF set_wfD(1,3) [OF assms(1)] assms(2)] set_wfD(3) [OF assms(1)]
  by (simp_all add: desc_ok_def hdr_wf_def)

lemma ldms_metric_set_put:
  assumes "set_wf L s" "i < length (l_ents L)" "scalar_width (md_type (ent_mdef (l_ents L ! i))) = Some w" "w \<le> length v"
  shows "ldms_metric_set (int i) v s = metric_put (int i) (take w v) s"
  using assms(2-) desc_type [OF assms(1,2)]
  by (simp add: ldms_metric_set_def metric_set_def metric_put_def mval_to_set_wf [OF assms(1,2)] vt_of_code_code load_def)

definition set_get ::
  "layout \<Rightarrow> ldms_set \<Rightarrow> nat \<Rightarrow> (int \<Rightarrow> 'a::len word \<Rightarrow> ldms_set \<Rightarrow> ldms_set option) \<Rightarrow>
   (ldms_set \<Rightarrow> int \<Rightarrow> 'a word option) \<Rightarrow> bool" where
  "set_get L s i setv getv \<longleftrightarrow>
     (\<forall>v. \<exists>s'. setv (int i) v s = Some s' \<and> updated L i (put 0 (word_bytes v)) s s' \<and>
        (visible L s i \<longrightarrow> getv s' (int i) = Some v) \<and>
        (\<forall>pad. ldms_metric_set (int i) (word_bytes v @ pad) s = Some s'))"

text \<open>The contract of a setter and the getter of the same type.\<close>

locale scalar_access =
  fixes w :: nat and setv :: "int \<Rightarrow> 'a::len word \<Rightarrow> ldms_set \<Rightarrow> ldms_set option"
    and getv :: "ldms_set \<Rightarrow> int \<Rightarrow> 'a word option"
  assumes width: "LENGTH('a) = 8 * w"
    and setv: "setv i v s = metric_put i (word_bytes v) s"
    and getv: "getv s i = map_option bytes_word (metric_fetch w s i)"
begin

lemma set_updates:
  assumes "set_wf L s" "i < length (l_ents L)" "w \<le> value_sz L i"
  shows "\<exists>s'. setv (int i) v s = Some s' \<and> updated L i (put 0 (word_bytes v)) s s'"
  using metric_put_wf [OF assms(1,2), of "word_bytes v"] assms(3) width by (simp add: setv)

lemma get_view:
  assumes "set_wf L s" "i < length (l_ents L)" "w \<le> value_sz L i"
  shows "getv s (int i) = map_option bytes_word (Option.bind (view L s i) (load 0 w))"
  using metric_fetch_view [OF assms] by (simp add: getv)

lemma get_set:
  assumes wf: "set_wf L s" "i < length (l_ents L)" "w \<le> value_sz L i" and "updated L i (put 0 (word_bytes v)) s s'" "visible L s i"
  shows "getv s' (int i) = Some v"
proof -
  obtain xs where "view L s i = Some xs" "length xs = value_sz L i" using view_Some wf(1,2) by blast
  then show ?thesis
    using get_view [OF updatedD(1) [OF assms(4)] wf(2,3)] updated_view [OF wf(1) assms(4,5)] wf(3) width
      bytes_word_bytes [OF width, of v]
    by (simp add: load_put_same)
qed

lemma generic_set:
  assumes "set_wf L s" "i < length (l_ents L)" "scalar_width (md_type (ent_mdef (l_ents L ! i))) = Some w"
  shows "ldms_metric_set (int i) (word_bytes v @ pad) s = setv (int i) v s"
  using ldms_metric_set_put [OF assms, of "word_bytes v @ pad"] width by (simp add: setv)

lemma set_get_ok:
  assumes "set_wf L s" "i < length (l_ents L)" "scalar_width (md_type (ent_mdef (l_ents L ! i))) = Some w"
  shows "set_get L s i setv getv"
  using set_updates [OF assms(1,2) scalar_fits [OF assms]] get_set [OF assms(1,2) scalar_fits [OF assms]] generic_set [OF assms]
  unfolding set_get_def by metis

end

interpretation acc_char: scalar_access 1 ldms_metric_set_char ldms_metric_get_char
  by unfold_locales (simp_all add: ldms_metric_set_char_def ldms_metric_get_char_def)

interpretation acc_u8: scalar_access 1 ldms_metric_set_u8 ldms_metric_get_u8
  by unfold_locales (simp_all add: ldms_metric_set_u8_def ldms_metric_get_u8_def)

interpretation acc_s8: scalar_access 1 ldms_metric_set_s8 ldms_metric_get_s8
  by unfold_locales (simp_all add: ldms_metric_set_s8_def ldms_metric_get_s8_def)

interpretation acc_u16: scalar_access 2 ldms_metric_set_u16 ldms_metric_get_u16
  by unfold_locales (simp_all add: ldms_metric_set_u16_def ldms_metric_get_u16_def)

interpretation acc_s16: scalar_access 2 ldms_metric_set_s16 ldms_metric_get_s16
  by unfold_locales (simp_all add: ldms_metric_set_s16_def ldms_metric_get_s16_def)

interpretation acc_u32: scalar_access 4 ldms_metric_set_u32 ldms_metric_get_u32
  by unfold_locales (simp_all add: ldms_metric_set_u32_def ldms_metric_get_u32_def)

interpretation acc_s32: scalar_access 4 ldms_metric_set_s32 ldms_metric_get_s32
  by unfold_locales (simp_all add: ldms_metric_set_s32_def ldms_metric_get_s32_def)

interpretation acc_u64: scalar_access 8 ldms_metric_set_u64 ldms_metric_get_u64
  by unfold_locales (simp_all add: ldms_metric_set_u64_def ldms_metric_get_u64_def)

interpretation acc_s64: scalar_access 8 ldms_metric_set_s64 ldms_metric_get_s64
  by unfold_locales (simp_all add: ldms_metric_set_s64_def ldms_metric_get_s64_def)

interpretation acc_float: scalar_access 4 ldms_metric_set_float ldms_metric_get_float
  by unfold_locales (simp_all add: ldms_metric_set_float_def ldms_metric_get_float_def)

interpretation acc_double: scalar_access 8 ldms_metric_set_double ldms_metric_get_double
  by unfold_locales (simp_all add: ldms_metric_set_double_def ldms_metric_get_double_def)

lemmas scalar_accessors =
  acc_char.set_get_ok acc_u8.set_get_ok acc_s8.set_get_ok acc_u16.set_get_ok
  acc_s16.set_get_ok acc_u32.set_get_ok acc_s32.set_get_ok acc_u64.set_get_ok
  acc_s64.set_get_ok acc_float.set_get_ok acc_double.set_get_ok

text \<open>The accessors that belong to the type of a scalar metric.\<close>

definition typed_set_get :: "layout \<Rightarrow> ldms_set \<Rightarrow> nat \<Rightarrow> bool" where
  "typed_set_get L s i =
     (case md_type (ent_mdef (l_ents L ! i)) of
        LDMS_V_CHAR \<Rightarrow> set_get L s i ldms_metric_set_char ldms_metric_get_char
      | LDMS_V_U8 \<Rightarrow> set_get L s i ldms_metric_set_u8 ldms_metric_get_u8
      | LDMS_V_S8 \<Rightarrow> set_get L s i ldms_metric_set_s8 ldms_metric_get_s8
      | LDMS_V_U16 \<Rightarrow> set_get L s i ldms_metric_set_u16 ldms_metric_get_u16
      | LDMS_V_S16 \<Rightarrow> set_get L s i ldms_metric_set_s16 ldms_metric_get_s16
      | LDMS_V_U32 \<Rightarrow> set_get L s i ldms_metric_set_u32 ldms_metric_get_u32
      | LDMS_V_S32 \<Rightarrow> set_get L s i ldms_metric_set_s32 ldms_metric_get_s32
      | LDMS_V_U64 \<Rightarrow> set_get L s i ldms_metric_set_u64 ldms_metric_get_u64
      | LDMS_V_S64 \<Rightarrow> set_get L s i ldms_metric_set_s64 ldms_metric_get_s64
      | LDMS_V_F32 \<Rightarrow> set_get L s i ldms_metric_set_float ldms_metric_get_float
      | LDMS_V_D64 \<Rightarrow> set_get L s i ldms_metric_set_double ldms_metric_get_double
      | _ \<Rightarrow> True)"

lemma typed_set_get_wf:
  assumes "set_wf L s" "i < length (l_ents L)"
  shows "typed_set_get L s i"
  unfolding typed_set_get_def
  by (cases "md_type (ent_mdef (l_ents L ! i))") (simp_all add: scalar_accessors [OF assms])

subsection \<open>Typed arrays\<close>

text \<open>The number of elements of an array, as its descriptor has it.\<close>

definition elems :: "layout \<Rightarrow> nat \<Rightarrow> nat" where
  "elems L i = unat (md_count (ent_mdef (l_ents L ! i)))"

lemma load_put_elem:
  assumes "length bs = w" "n * w \<le> length xs" "j < n" "k < n"
  shows "load (k * w) w (put (j * w) bs xs) = (if k = j then Some bs else load (k * w) w xs)"
proof -
  have "k * w + w \<le> j * w \<or> j * w + w \<le> k * w" if "k \<noteq> j"
    using that elem_bound [of k j w "j * w"] elem_bound [of j k w "k * w"] by (cases "k < j") auto
  then show ?thesis using elem_bound [OF assms(3,2)] assms(1) by (auto simp: load_put_same load_put_other)
qed

lemma elems_fit:
  assumes "set_wf L s" "i < length (l_ents L)" "elem_width (md_type (ent_mdef (l_ents L ! i))) = Some w"
  shows "elems L i * w \<le> value_sz L i"
  using value_sz_bytes [OF assms(1,2)] assms(3)
  by (cases "md_type (ent_mdef (l_ents L ! i))") (auto simp: elems_def mult.commute)

lemma ldms_metric_array_set_val_put:
  assumes "set_wf L s" "i < length (l_ents L)" "elem_width (md_type (ent_mdef (l_ents L ! i))) = Some w" "j < elems L i"
    and "w \<le> length v"
  shows "ldms_metric_array_set_val (int i) (int j) v s = array_put (int i) (int j) (take w v) s"
  using assms(3-) count_less [of "md_count (ent_mdef (l_ents L ! i))"] desc_type(1) [OF assms(1,2)]
  by (simp add: ldms_metric_array_set_val_def metric_array_set_def array_put_def mval_to_set_wf [OF assms(1,2)]
    desc_count [OF assms(1,2)] vt_of_code_code load_def elems_def unat_word_of_nat32 c_assert_def)

definition elem_set_get ::
  "layout \<Rightarrow> ldms_set \<Rightarrow> nat \<Rightarrow> nat \<Rightarrow> (int \<Rightarrow> int \<Rightarrow> 'a::len word \<Rightarrow> ldms_set \<Rightarrow> ldms_set option) \<Rightarrow>
   (ldms_set \<Rightarrow> int \<Rightarrow> int \<Rightarrow> 'a word option) \<Rightarrow> bool" where
  "elem_set_get L s i w aset aget \<longleftrightarrow>
     (\<forall>j < elems L i. \<forall>v. \<exists>s'. aset (int i) (int j) v s = Some s' \<and> updated L i (put (j * w) (word_bytes v)) s s' \<and>
        (visible L s i \<longrightarrow> (\<forall>k < elems L i. aget s' (int i) (int k) = (if k = j then Some v else aget s (int i) (int k)))) \<and>
        (\<forall>pad. ldms_metric_array_set_val (int i) (int j) (word_bytes v @ pad) s = Some s')) \<and>
     (\<forall>idx v. elems L i \<le> unat (word_of_int idx :: u32) \<longrightarrow> aset (int i) idx v s = None \<and> aget s (int i) idx = None)"

locale array_access =
  fixes w :: nat and aset :: "int \<Rightarrow> int \<Rightarrow> 'a::len word \<Rightarrow> ldms_set \<Rightarrow> ldms_set option"
    and aget :: "ldms_set \<Rightarrow> int \<Rightarrow> int \<Rightarrow> 'a word option"
  assumes awidth: "LENGTH('a) = 8 * w"
    and aset: "aset mid idx v s = array_put mid idx (word_bytes v) s"
    and aget: "aget s mid idx = map_option bytes_word (array_fetch w s mid idx)"
begin

lemma aset_updates:
  assumes "set_wf L s" "i < length (l_ents L)" "elems L i * w \<le> value_sz L i" "j < elems L i"
  shows "\<exists>s'. aset (int i) (int j) v s = Some s' \<and> updated L i (put (j * w) (word_bytes v)) s s'"
  using array_put_wf [OF assms(1,2), of j "word_bytes v"] assms(3,4) awidth by (simp add: aset elems_def)

lemma aget_view:
  assumes "set_wf L s" "i < length (l_ents L)" "elems L i * w \<le> value_sz L i" "j < elems L i"
  shows "aget s (int i) (int j) = map_option bytes_word (Option.bind (view L s i) (load (j * w) w))"
  using array_fetch_view [OF assms(1,2), of j w] assms(3,4) by (simp add: aget elems_def)

lemma aget_aset:
  assumes wf: "set_wf L s" "i < length (l_ents L)" "elems L i * w \<le> value_sz L i"
    and "updated L i (put (j * w) (word_bytes v)) s s'" "visible L s i" "j < elems L i" "k < elems L i"
  shows "aget s' (int i) (int k) = (if k = j then Some v else aget s (int i) (int k))"
proof -
  obtain xs where "view L s i = Some xs" "length xs = value_sz L i" using view_Some wf(1,2) by blast
  then show ?thesis
    using aget_view [OF updatedD(1) [OF assms(4)] wf(2,3) assms(7)] aget_view [OF wf assms(7)] updated_view [OF wf(1) assms(4,5)]
      load_put_elem [of "word_bytes v" w "elems L i" xs j k] wf(3) assms(6,7) awidth bytes_word_bytes [OF awidth, of v]
    by simp
qed

lemma generic_aset:
  assumes "set_wf L s" "i < length (l_ents L)" "elem_width (md_type (ent_mdef (l_ents L ! i))) = Some w" "j < elems L i"
  shows "ldms_metric_array_set_val (int i) (int j) (word_bytes v @ pad) s = aset (int i) (int j) v s"
  using ldms_metric_array_set_val_put [OF assms, of "word_bytes v @ pad"] awidth by (simp add: aset)

lemma elem_set_get_ok:
  assumes "set_wf L s" "i < length (l_ents L)" "elem_width (md_type (ent_mdef (l_ents L ! i))) = Some w"
  shows "elem_set_get L s i w aset aget"
  unfolding elem_set_get_def
proof (intro conjI allI impI)
  fix j v assume "j < elems L i"
  with aset_updates [OF assms(1,2) elems_fit [OF assms], of j v] aget_aset [OF assms(1,2) elems_fit [OF assms], of j v]
    generic_aset [OF assms, of j v]
  show "\<exists>s'. aset (int i) (int j) v s = Some s' \<and> updated L i (put (j * w) (word_bytes v)) s s' \<and>
    (visible L s i \<longrightarrow> (\<forall>k < elems L i. aget s' (int i) (int k) = (if k = j then Some v else aget s (int i) (int k)))) \<and>
    (\<forall>pad. ldms_metric_array_set_val (int i) (int j) (word_bytes v @ pad) s = Some s')"
    by metis
next
  fix idx v assume "elems L i \<le> unat (word_of_int idx :: u32)"
  then show "aset (int i) idx v s = None" "aget s (int i) idx = None"
    by (simp_all add: aset aget elems_def array_put_range [OF assms(1,2)] array_fetch_range [OF assms(1,2)])
qed

end

interpretation arr_char: array_access 1 ldms_metric_array_set_char ldms_metric_array_get_char
  by unfold_locales (simp_all add: ldms_metric_array_set_char_def ldms_metric_array_get_char_def)

interpretation arr_u8: array_access 1 ldms_metric_array_set_u8 ldms_metric_array_get_u8
  by unfold_locales (simp_all add: ldms_metric_array_set_u8_def ldms_metric_array_get_u8_def)

interpretation arr_s8: array_access 1 ldms_metric_array_set_s8 ldms_metric_array_get_s8
  by unfold_locales (simp_all add: ldms_metric_array_set_s8_def ldms_metric_array_get_s8_def)

interpretation arr_u16: array_access 2 ldms_metric_array_set_u16 ldms_metric_array_get_u16
  by unfold_locales (simp_all add: ldms_metric_array_set_u16_def ldms_metric_array_get_u16_def)

interpretation arr_s16: array_access 2 ldms_metric_array_set_s16 ldms_metric_array_get_s16
  by unfold_locales (simp_all add: ldms_metric_array_set_s16_def ldms_metric_array_get_s16_def)

interpretation arr_u32: array_access 4 ldms_metric_array_set_u32 ldms_metric_array_get_u32
  by unfold_locales (simp_all add: ldms_metric_array_set_u32_def ldms_metric_array_get_u32_def)

interpretation arr_s32: array_access 4 ldms_metric_array_set_s32 ldms_metric_array_get_s32
  by unfold_locales (simp_all add: ldms_metric_array_set_s32_def ldms_metric_array_get_s32_def)

interpretation arr_u64: array_access 8 ldms_metric_array_set_u64 ldms_metric_array_get_u64
  by unfold_locales (simp_all add: ldms_metric_array_set_u64_def ldms_metric_array_get_u64_def)

interpretation arr_s64: array_access 8 ldms_metric_array_set_s64 ldms_metric_array_get_s64
  by unfold_locales (simp_all add: ldms_metric_array_set_s64_def ldms_metric_array_get_s64_def)

interpretation arr_float: array_access 4 ldms_metric_array_set_float ldms_metric_array_get_float
  by unfold_locales (simp_all add: ldms_metric_array_set_float_def ldms_metric_array_get_float_def)

interpretation arr_double: array_access 8 ldms_metric_array_set_double ldms_metric_array_get_double
  by unfold_locales (simp_all add: ldms_metric_array_set_double_def ldms_metric_array_get_double_def)

lemmas array_accessors =
  arr_char.elem_set_get_ok arr_u8.elem_set_get_ok arr_s8.elem_set_get_ok arr_u16.elem_set_get_ok
  arr_s16.elem_set_get_ok arr_u32.elem_set_get_ok arr_s32.elem_set_get_ok arr_u64.elem_set_get_ok
  arr_s64.elem_set_get_ok arr_float.elem_set_get_ok arr_double.elem_set_get_ok

definition typed_elem_set_get :: "layout \<Rightarrow> ldms_set \<Rightarrow> nat \<Rightarrow> bool" where
  "typed_elem_set_get L s i =
     (case md_type (ent_mdef (l_ents L ! i)) of
        LDMS_V_CHAR_ARRAY \<Rightarrow> elem_set_get L s i 1 ldms_metric_array_set_char ldms_metric_array_get_char
      | LDMS_V_U8_ARRAY \<Rightarrow> elem_set_get L s i 1 ldms_metric_array_set_u8 ldms_metric_array_get_u8
      | LDMS_V_S8_ARRAY \<Rightarrow> elem_set_get L s i 1 ldms_metric_array_set_s8 ldms_metric_array_get_s8
      | LDMS_V_U16_ARRAY \<Rightarrow> elem_set_get L s i 2 ldms_metric_array_set_u16 ldms_metric_array_get_u16
      | LDMS_V_S16_ARRAY \<Rightarrow> elem_set_get L s i 2 ldms_metric_array_set_s16 ldms_metric_array_get_s16
      | LDMS_V_U32_ARRAY \<Rightarrow> elem_set_get L s i 4 ldms_metric_array_set_u32 ldms_metric_array_get_u32
      | LDMS_V_S32_ARRAY \<Rightarrow> elem_set_get L s i 4 ldms_metric_array_set_s32 ldms_metric_array_get_s32
      | LDMS_V_U64_ARRAY \<Rightarrow> elem_set_get L s i 8 ldms_metric_array_set_u64 ldms_metric_array_get_u64
      | LDMS_V_S64_ARRAY \<Rightarrow> elem_set_get L s i 8 ldms_metric_array_set_s64 ldms_metric_array_get_s64
      | LDMS_V_F32_ARRAY \<Rightarrow> elem_set_get L s i 4 ldms_metric_array_set_float ldms_metric_array_get_float
      | LDMS_V_D64_ARRAY \<Rightarrow> elem_set_get L s i 8 ldms_metric_array_set_double ldms_metric_array_get_double
      | _ \<Rightarrow> True)"

lemma typed_elem_set_get_wf:
  assumes "set_wf L s" "i < length (l_ents L)"
  shows "typed_elem_set_get L s i"
  unfolding typed_elem_set_get_def
  by (cases "md_type (ent_mdef (l_ents L ! i))") (simp_all add: array_accessors [OF assms] del: One_nat_def)

text \<open>Strings in arrays of characters.\<close>

lemma strncpy_str_bytes:
  assumes "length str < n" shows "\<exists>pad. strncpy_bytes str n = str_bytes str @ pad"
  using assms by (intro exI [of _ "replicate (n - length str - 1) 0"])
    (simp add: strncpy_bytes_def str_bytes_def flip: replicate_Suc)

lemma str_set_get_wf:
  assumes wf: "set_wf L s" "i < length (l_ents L)" and ty: "md_type (ent_mdef (l_ents L ! i)) = LDMS_V_CHAR_ARRAY"
    and str: "length str < elems L i" "c_string str"
  shows "\<exists>s'. ldms_metric_array_set_str (int i) str s = Some s' \<and> updated L i (put 0 (strncpy_bytes str (elems L i))) s s' \<and>
    (visible L s i \<longrightarrow> ldms_metric_array_get_str s' (int i) = Some str)"
proof -
  have fit: "elems L i \<le> value_sz L i" using elems_fit [OF wf, of 1] ty by simp
  have len: "length (strncpy_bytes str (elems L i)) = elems L i" by (simp add: strncpy_bytes_def)
  obtain s' where s': "ldms_metric_array_set_str (int i) str s = Some s'" "updated L i (put 0 (strncpy_bytes str (elems L i))) s s'"
    using put_value [OF wf, of 0 "strncpy_bytes str (elems L i)"] fit len
    by (auto simp: ldms_metric_array_set_str_def mval_to_set_wf [OF wf] desc_count [OF wf] elems_def mem_simps)
  have "ldms_metric_array_get_str s' (int i) = Some str" if v: "visible L s i"
  proof -
    obtain xs where xs: "view L s i = Some xs" "length xs = value_sz L i" using view_Some wf by blast
    obtain pad where pad: "strncpy_bytes str (elems L i) = str_bytes str @ pad" using strncpy_str_bytes [OF str(1)] by blast
    let ?a = "value_at L (read_buf L s' i) i"
    have view: "load ?a (value_sz L i) (set_mem s') = Some (put 0 (strncpy_bytes str (elems L i)) xs)"
      using updated_view [OF wf(1) s'(2) v] xs by (simp add: view_def content_def)
    have "load ?a (length str + 1) (set_mem s') = Some (str_bytes str)"
      using load_part [OF view, of 0 "length str + 1"] str(1) fit xs(2) len pad by (simp add: put_def)
    then show ?thesis
      using peek_str_load [OF _ str(2)] by (simp add: ldms_metric_array_get_str_def mval_to_get_wf [OF updatedD(1) [OF s'(2)] wf(2)])
  qed
  with s' show ?thesis by blast
qed

end
