(* ===== verification/MetricAtomic.thy ===== *)
theory MetricAtomic
  imports MetricOps
begin

section \<open>Transactions on well-formed sets\<close>

text \<open>
  A transaction moves the writer to the next buffer and leaves the readers on the one before, so that
  what is set inside of it appears at its end, all at once.
\<close>

definition copies_data :: "ldms_set \<Rightarrow> bool" where
  "copies_data s \<longleftrightarrow> flag_on (set_flags s) LDMS_SET_F_DATA_COPY"

definition next_idx :: "layout \<Rightarrow> ldms_set \<Rightarrow> nat" where
  "next_idx L s = (set_curr_idx s + 1) mod l_bufs L"

lemma next_idx_bound: "set_wf L s \<Longrightarrow> next_idx L s < l_bufs L"
  using set_wfD(1) [of L s] by (simp add: next_idx_def layout_wf_def)

lemma next_idx_neq: "set_wf L s \<Longrightarrow> l_bufs L \<noteq> 1 \<Longrightarrow> next_idx L s \<noteq> set_curr_idx s"
  using set_wfD(4) [of L s] by (cases "set_curr_idx s + 1 = l_bufs L") (auto simp: next_idx_def)

lemma memcpy_put:
  assumes "load src n m = Some bs" "dst + n \<le> length m"
  shows "memcpy dst src n m = Some (put dst bs m)"
  using assms length_load [OF assms(1)] by (simp add: memcpy_def mem_simps)

lemma load_Some: "a + n \<le> length m \<Longrightarrow> \<exists>bs. load a n m = Some bs \<and> length bs = n"
  by (simp add: load_def)

text \<open>Either the whole buffer is copied or only its header.\<close>

lemma carry_over_ok:
  assumes "96 \<le> w" "d + w \<le> length m" "p + w \<le> length m"
  shows "\<exists>n bs. carry_over dc d p w m = Some (put d bs m) \<and> load p n m = Some bs \<and> (n = w \<or> n = 96 \<and> \<not> dc)"
proof -
  obtain g h where gn: "peek 4 (d + (d_heap + heap_gn)) m = Some g" "peek 4 (p + (d_heap + heap_gn)) m = Some h"
    using peek_Some [of "d + (d_heap + heap_gn)" 4 m] peek_Some [of "p + (d_heap + heap_gn)" 4 m] assms by auto
  obtain bs where all: "load p w m = Some bs" using load_Some [OF assms(3)] by blast
  obtain bs' where hdr: "load p 96 m = Some bs'" using load_Some [of p 96 m] assms(1,3) by auto
  show ?thesis
    using gn all hdr memcpy_put [OF all assms(2)] memcpy_put [OF hdr, of d] assms
    by (cases "dc \<or> g \<noteq> h") (auto simp: carry_over_def)
qed

text \<open>A change of the transaction fields of the headers leaves the values alone.\<close>

definition same_values :: "layout \<Rightarrow> ldms_set \<Rightarrow> ldms_set \<Rightarrow> bool" where
  "same_values L s s' \<longleftrightarrow>
     set_wf L s' \<and> (\<exists>m. s' = s\<lparr>set_mem := m\<rparr>) \<and> (\<forall>k. \<forall>i < length (l_ents L). content L s' k i = content L s k i)"

lemma same_values_refl: "set_wf L s \<Longrightarrow> same_values L s s"
  by (auto simp: same_values_def intro!: exI [of _ "set_mem s"])

lemma same_values_trans: "same_values L s s' \<Longrightarrow> same_values L s' s'' \<Longrightarrow> same_values L s s''"
  by (auto simp: same_values_def)

lemma content_hdr:
  assumes wf: "set_wf L s" and only: "only_changes S (set_mem s) m" and i: "i < length (l_ents L)"
    and S: "\<And>x. x \<in> S \<Longrightarrow> x < 140 \<or> (\<exists>k. l_buf L k \<le> x \<and> x < l_buf L k + 96)"
  shows "load (value_at L k i) (value_sz L i) m = content L s k i"
  unfolding content_def
proof (rule load_only [OF only])
  fix x assume "value_at L k i \<le> x" "x < value_at L k i + value_sz L i"
  then have "x \<in> region L k i" by (simp add: region_def)
  then show "x \<notin> S" using S [of x] hdr_region [OF wf i, of x _ k] by blast
qed

lemma same_values_hdr:
  assumes wf: "set_wf L s" and only: "only_changes S (set_mem s) m" and k: "k < l_bufs L"
    and S: "S \<subseteq> {l_buf L k..<l_buf L k + d_set_off} \<union> {l_buf L k + d_gn..<l_buf L k + d_size} \<union> {l_buf L k + d_curr_idx..<l_buf L k + 52}"
  shows "same_values L s (s\<lparr>set_mem := m\<rparr>)"
proof -
  have "S \<subseteq> buf_writable L (l_buf L k)" using S by (auto simp: buf_writable_def)
  then have "S \<subseteq> writable L" using k by (auto simp: writable_def)
  moreover have "\<And>x. x \<in> S \<Longrightarrow> x < 140 \<or> (\<exists>k. l_buf L k \<le> x \<and> x < l_buf L k + 96)"
    using S by (intro disjI2 exI [of _ k]) auto
  ultimately show ?thesis
    using set_wf_mem [OF wf only] content_hdr [OF wf only] by (auto simp: same_values_def content_def)
qed

lemma set_curr_idxs_ok:
  assumes "set_wf L s" "\<And>i. i \<in> set is \<Longrightarrow> i < l_bufs L"
  shows "\<exists>s'. set_curr_idxs is idx s = Some s' \<and> same_values L s s'"
  using assms
proof (induction "is" arbitrary: s)
  case (Cons i "is")
  let ?a = "l_buf L i + d_curr_idx" and ?m = "set_mem s"
  let ?s1 = "s\<lparr>set_mem := put ?a (le_bytes 4 idx) ?m\<rparr>"
  have "same_values L s ?s1"
    by (rule same_values_hdr [OF Cons.prems(1) only_put, of i]) (use Cons.prems(2) in auto)
  moreover from this obtain s' where "set_curr_idxs is idx ?s1 = Some s'" "same_values L ?s1 s'"
    using Cons.IH [of ?s1] Cons.prems(2) by (auto simp: same_values_def)
  moreover have "ldms_set_array_get s i = Some (l_buf L i)"
    using set_wfD(3,8) [OF Cons.prems(1)] by (simp add: ldms_set_array_get_def hdr_wf_def l_buf_def)
  moreover have "?a + 4 \<le> length ?m"
    using layout_bounds(4,5) [OF set_wfD(1) [OF Cons.prems(1)]] layout_bounds(6) [OF set_wfD(1) [OF Cons.prems(1)], of i] Cons.prems(2) set_wfD(7) [OF Cons.prems(1)] by simp
  ultimately show ?case using same_values_trans by (auto simp: mem_simps)
qed (simp add: same_values_refl)

lemma copy_load:
  assumes "load p n m = Some bs" "d + n \<le> length m" "x + l \<le> n"
  shows "load (d + x) l (put d bs m) = load (p + x) l m"
proof -
  have "load d n (put d bs m) = Some bs" using assms(1,2) length_load [OF assms(1)] by (simp add: load_put_same)
  from load_part [OF this assms(3)] load_part [OF assms(1,3)] show ?thesis by simp
qed

lemma copy_peek:
  assumes "load p n m = Some bs" "d + n \<le> length m" "x + l \<le> n"
  shows "peek l (d + x) (put d bs m) = peek l (p + x) m"
  using copy_load [OF assms] by (simp add: peek_def)

text \<open>The header of the new buffer after the copy, with its own offset put back.\<close>

lemma copied_buf_ok:
  assumes wf: "layout_wf L" "hdr_wf L m" and j: "j < l_bufs L" and k: "k < l_bufs L"
    and bs: "load (l_buf L j) n m = Some bs" "n = l_w L \<or> n = 96"
  shows "buf_ok (l_ds L) (l_hp L) (l_buf L k) (put (l_buf L k + d_set_off) (le_bytes 4 (l_buf L k)) (put (l_buf L k) bs m))"
proof -
  let ?d = "l_buf L k" and ?p = "l_buf L j"
  note b = layout_bounds [OF wf(1)]
  have len: "length bs = n" "96 \<le> n" "n \<le> l_w L" using length_load [OF bs(1)] bs(2) b(4,5) by auto
  have room: "?d + l_w L \<le> length m" "?d < 2 ^ 32"
    using b(6) [OF k] wf by (auto simp: hdr_wf_def layout_wf_def)
  have ok: "buf_ok (l_ds L) (l_hp L) ?d m" "buf_ok (l_ds L) (l_hp L) ?p m" using wf(2) j k by (auto simp: hdr_wf_def)
  have fields: "peek 8 (?d + d_size) (put ?d bs m) = Some (l_ds L + l_hp L)"
    "peek 8 (?d + (d_heap + heap_size)) (put ?d bs m) = Some (l_hp L)"
    using copy_peek [OF bs(1), of ?d d_size 8] copy_peek [OF bs(1), of ?d "d_heap + heap_size" 8] room(1) len ok(2)
    by (auto simp: buf_ok_def)
  have "load (?d + l_ds L) 8 (put ?d bs m) = Some (str_bytes ''BOHEAP0'')" if hp: "l_hp L \<noteq> 0"
  proof (cases "n = l_w L")
    case True
    have "512 \<le> l_hp L" using wf(1) hp by (simp add: layout_wf_def)
    then have "l_ds L + 8 \<le> n" using True by (simp add: l_w_def)
    with copy_load [OF bs(1), of ?d "l_ds L" 8] room(1) len ok(2) hp show ?thesis by (simp add: buf_ok_def)
  next
    case False
    then have "?d + length bs \<le> ?d + l_ds L" using bs(2) len(1) b(4) by simp
    then show ?thesis using ok(1) hp by (simp add: buf_ok_def load_put_other)
  qed
  then show ?thesis using fields room b(4,5) by (simp add: buf_ok_def mem_simps)
qed

definition copied :: "layout \<Rightarrow> ldms_set \<Rightarrow> u8 list \<Rightarrow> mem" where
  "copied L s bs =
     (let d = l_buf L (next_idx L s) in put (d + d_set_off) (le_bytes 4 d) (put d bs (set_mem s)))"

lemma copied_wf:
  assumes wf: "set_wf L s" and bs: "load (l_buf L (set_curr_idx s)) n (set_mem s) = Some bs" "n = l_w L \<or> n = 96"
  shows "hdr_wf L (copied L s bs)"
    and "only_changes {l_buf L (next_idx L s)..<l_buf L (next_idx L s) + n} (set_mem s) (copied L s bs)"
proof -
  let ?k = "next_idx L s" and ?m = "copied L s bs"
  note b = layout_bounds [OF set_wfD(1) [OF wf]]
  have len: "length bs = n" "96 \<le> n" "n \<le> l_w L" using length_load [OF bs(1)] bs(2) b(4,5) by auto
  show only: "only_changes {l_buf L ?k..<l_buf L ?k + n} (set_mem s) ?m"
    unfolding copied_def Let_def using len by (intro only_put_on) auto
  show "hdr_wf L ?m"
  proof (rule hdr_wf_bufs [OF set_wfD(1,3) [OF wf] only])
    show "{l_buf L ?k..<l_buf L ?k + n} \<subseteq> {h_meta_gn..<h_version} \<union> {l_mv L..}" using b(3) b(7) [of ?k] by auto
    fix k assume k: "k < l_bufs L"
    show "buf_ok (l_ds L) (l_hp L) (l_buf L k) ?m"
    proof (cases "k = ?k")
      case True
      then show ?thesis
        using copied_buf_ok [OF set_wfD(1,3,4) [OF wf] next_idx_bound [OF wf] bs] by (simp add: copied_def Let_def)
    next
      case False
      have "buf_ok (l_ds L) (l_hp L) (l_buf L k) (set_mem s)" "l_hp L = 0 \<or> 8 \<le> l_hp L"
        using set_wfD(1,3) [OF wf] k by (auto simp: hdr_wf_def layout_wf_def)
      moreover have "x \<notin> {l_buf L ?k..<l_buf L ?k + n}" if "l_buf L k \<le> x" "x < l_buf L k + (l_ds L + l_hp L)" for x
        using buf_disjoint [OF False, of x "l_meta L" "l_w L"] that len(3) by (auto simp: buf_def l_buf_def l_w_def)
      ultimately show ?thesis using buf_ok_only [OF only _ b(4)] by blast
    qed
  qed
qed

lemma copied_content:
  assumes wf: "set_wf L s" and bs: "load (l_buf L (set_curr_idx s)) n (set_mem s) = Some bs" "n = l_w L \<or> n = 96"
    and i: "i < length (l_ents L)"
  shows "load (value_at L k i) (value_sz L i) (copied L s bs) =
    content L s (if is_data (ent_mdef (l_ents L ! i)) \<and> k = next_idx L s \<and> n = l_w L then set_curr_idx s else k) i"
proof -
  let ?k = "next_idx L s" and ?j = "set_curr_idx s"
  let ?d = "l_buf L ?k" and ?m1 = "put (l_buf L (next_idx L s)) bs (set_mem s)"
  note b = layout_bounds [OF set_wfD(1) [OF wf]]
  consider "is_data (ent_mdef (l_ents L ! i))" "k = ?k" "n = l_w L" | "n \<noteq> l_w L"
    | "n = l_w L" "is_data (ent_mdef (l_ents L ! i))" "k \<noteq> ?k" | "n = l_w L" "\<not> is_data (ent_mdef (l_ents L ! i))" by blast
  then show ?thesis
  proof cases
    case 1
    let ?o = "data_off (l_ents L) i"
    have o: "96 \<le> ?o" "?o + value_sz L i \<le> n" using data_region [OF wf i 1(1), of ?k] 1 b(5) by (auto simp: value_at_def)
    have "load (?d + ?o) (value_sz L i) (copied L s bs) = load (?d + ?o) (value_sz L i) ?m1"
      unfolding copied_def Let_def using o(1) by (intro load_put_other) simp
    also have "\<dots> = load (l_buf L ?j + ?o) (value_sz L i) (set_mem s)"
      using copy_load [OF bs(1) _ o(2), of ?d] b(6) [OF next_idx_bound [OF wf]] set_wfD(7) [OF wf] 1(3) by simp
    finally show ?thesis using 1 by (simp add: content_def value_at_def)
  next
    case 2
    then have "load (value_at L k i) (value_sz L i) (copied L s bs) = content L s k i"
      using bs(2) by (intro content_hdr [OF wf copied_wf(2) [OF wf bs] i]) auto
    then show ?thesis using 2 by simp
  next
    case 3
    then have "x \<notin> {?d..<?d + n}" if "x \<in> region L k i" for x
      using that region_in_buf [OF wf i 3(2), of k] buf_disjoint [OF 3(3), of x "l_meta L" "l_w L"]
      by (auto simp: buf_def l_buf_def)
    then show ?thesis using load_only [OF copied_wf(2) [OF wf bs]] 3 by (simp add: content_def region_def)
  next
    case 4
    then show ?thesis
      using load_only [OF copied_wf(2) [OF wf bs], of "value_at L k i" "value_sz L i"] meta_region [OF wf i 4(2), of k] b(7) [of ?k]
      by (simp add: content_def)
  qed
qed

definition moved :: "layout \<Rightarrow> ldms_set \<Rightarrow> ldms_set \<Rightarrow> bool" where
  "moved L s s' \<longleftrightarrow>
     set_wf L s' \<and> set_curr_idx s' = next_idx L s \<and> set_flags s' = set_flags s \<and> set_meta s' = set_meta s \<and>
     (\<exists>c. (copies_data s \<longrightarrow> c) \<and> (\<forall>i < length (l_ents L). \<forall>k < l_bufs L.
        content L s' k i = content L s (if c \<and> is_data (ent_mdef (l_ents L ! i)) \<and> k = next_idx L s then set_curr_idx s else k) i))"

lemma next_buffer_ok:
  assumes wf: "set_wf L s" and n: "l_bufs L \<noteq> 1"
  shows "\<exists>s'. next_buffer (l_bufs L) s = Some s' \<and> moved L s s'"
proof -
  let ?k = "next_idx L s" and ?j = "set_curr_idx s"
  let ?d = "l_buf L ?k" and ?p = "l_buf L ?j"
  note b = layout_bounds [OF set_wfD(1) [OF wf]]
  note k = next_idx_bound [OF wf]
  have hdr: "ldms_set_array_get s x = Some (l_buf L x)" "ldms_set_array_get (s\<lparr>set_curr_idx := ?k\<rparr>) x = Some (l_buf L x)" for x
    using set_wfD(3,8) [OF wf] by (simp_all add: ldms_set_array_get_def hdr_wf_def l_buf_def)
  have buf: "peek 8 (?d + (d_heap + heap_size)) (set_mem s) = Some (l_hp L)" "peek 8 (?d + d_size) (set_mem s) = Some (l_w L)"
    "peek 4 (?d + d_set_off) (set_mem s) = Some ?d"
    using set_wfD(3) [OF wf] k by (auto simp: hdr_wf_def buf_ok_def l_w_def)
  have room: "?d + l_w L \<le> length (set_mem s)" "?p + l_w L \<le> length (set_mem s)" "96 \<le> l_w L"
    using b(4,5) b(6) [OF k] b(6) [OF set_wfD(4) [OF wf]] set_wfD(7) [OF wf] by auto
  obtain N bs where c: "carry_over (copies_data s) ?d ?p (l_w L) (set_mem s) = Some (put ?d bs (set_mem s))"
    "load ?p N (set_mem s) = Some bs" "N = l_w L \<or> N = 96 \<and> \<not> copies_data s"
    using carry_over_ok [OF room(3,1,2), of "copies_data s"] by blast
  then have N: "N = l_w L \<or> N = 96" by blast
  let ?m = "copied L s bs"
  note cw = copied_wf [OF wf c(2) N] copied_content [OF wf c(2) N]
  let ?s1 = "s\<lparr>set_curr_idx := ?k, set_mem := ?m, set_data := ?d, set_heap := if l_hp L = 0 then None else Some (?d + l_ds L)\<rparr>"
  have wf1: "set_wf L ?s1" using wf cw(1) k by (simp add: set_wf_def)
  obtain s' where s': "set_curr_idxs [0..<l_bufs L] ?k ?s1 = Some s'" "same_values L ?s1 s'"
    using set_curr_idxs_ok [OF wf1, of "[0..<l_bufs L]" ?k] by auto
  have "moved L s s'"
    unfolding moved_def using s'(2) cw(3) c(3)
    by (intro conjI exI [of _ "N = l_w L"]) (auto simp: same_values_def content_def)
  moreover have "next_buffer (l_bufs L) s = Some s'"
  proof -
    have "buf_ok (l_ds L) (l_hp L) ?d ?m" "peek 4 h_heap_sz ?m = Some (l_hp L)" using cw(1) k by (auto simp: hdr_wf_def)
    then have heap: "l_hp L \<noteq> 0 \<Longrightarrow> ldms_heap_get (?d + l_ds L) ?m = Some (?d + l_ds L)" "peek 4 h_heap_sz ?m = Some (l_hp L)"
      by (simp_all add: ldms_heap_get_def buf_ok_def c_assert_def)
    have m: "poke 4 (?d + d_set_off) ?d (put ?d bs (set_mem s)) = Some ?m"
      using room by (simp add: mem_simps copied_def Let_def)
    have "0 < l_bufs L" "l_hp L = 0 \<Longrightarrow> set_heap s = None" using wf by (auto simp: set_wf_def layout_wf_def)
    then show ?thesis
      using c(1) hdr buf heap m s'(1) by (auto simp: next_buffer_def copies_data_def next_idx_def Let_def l_w_def)
  qed
  ultimately show ?thesis by blast
qed

subsection \<open>Begin and end\<close>

lemma moved_same_values: "moved L s s1 \<Longrightarrow> same_values L s1 s2 \<Longrightarrow> moved L s s2"
  by (auto simp: moved_def same_values_def)

lemma hdr_room:
  assumes "set_wf L s" shows "set_data s + 96 \<le> length (set_mem s)"
  using layout_bounds(4,5) [OF set_wfD(1) [OF assms]] layout_bounds(6) [OF set_wfD(1) [OF assms] set_wfD(4) [OF assms]]
    set_wfD(5,7) [OF assms] by simp

lemma ldms_transaction_begin_ok:
  assumes wf: "set_wf L s"
  shows "\<exists>s'. ldms_transaction_begin tv s = Some s' \<and> moved L s s' \<and> in_transaction s' \<and>
    ldms_transaction_timestamp_get s' = Some (fst tv mod 2 ^ 32, snd tv mod 2 ^ 32)"
proof -
  have n: "peek 4 h_array_card (set_mem s) = Some (l_bufs L)" using set_wfD(3) [OF wf] by (simp add: hdr_wf_def)
  have "\<exists>s1. (if l_bufs L = 1 then Some s else next_buffer (l_bufs L) s) = Some s1 \<and> moved L s s1"
  proof (cases "l_bufs L = 1")
    case True
    then show ?thesis using wf set_wfD(4) [OF wf] by (auto simp: moved_def next_idx_def)
  qed (use next_buffer_ok [OF wf] in auto)
  then obtain s1 where s1: "(if l_bufs L = 1 then Some s else next_buffer (l_bufs L) s) = Some s1" "moved L s s1" by blast
  then have wf1: "set_wf L s1" by (simp add: moved_def)
  let ?d = "set_data s1"
  let ?m = "put (?d + d_ts_usec) (le_bytes 4 (snd tv)) (put (?d + d_ts_sec) (le_bytes 4 (fst tv))
      (put (?d + d_trans_flags) (le_bytes 4 LDMS_TRANSACTION_BEGIN) (set_mem s1)))"
  have room: "?d + 96 \<le> length (set_mem s1)" by (rule hdr_room [OF wf1])
  have "only_changes {?d..<?d + d_set_off} (set_mem s1) ?m" by (intro only_put_on) auto
  then have same: "same_values L s1 (s1\<lparr>set_mem := ?m\<rparr>)"
    using set_wfD(4,5) [OF wf1] by (intro same_values_hdr [OF wf1, of _ _ "set_curr_idx s1"]) auto
  moreover have "ldms_transaction_begin tv s = Some (s1\<lparr>set_mem := ?m\<rparr>)"
    using n s1(1) room by (simp add: ldms_transaction_begin_def mem_simps)
  moreover have "in_transaction (s1\<lparr>set_mem := ?m\<rparr>)"
    "ldms_transaction_timestamp_get (s1\<lparr>set_mem := ?m\<rparr>) = Some (fst tv mod 2 ^ 32, snd tv mod 2 ^ 32)"
    using room by (simp_all add: in_transaction_def ldms_transaction_timestamp_get_def mem_simps)
  ultimately show ?thesis using moved_same_values [OF s1(2)] by blast
qed

lemma ldms_transaction_end_ok:
  assumes wf: "set_wf L s" and ts: "ldms_transaction_timestamp_get s = Some (sec, usec)"
    and du: "duration tv (of_nat sec) (of_nat usec) = (dsec, dusec)"
  shows "\<exists>s'. ldms_transaction_end tv s = Some s' \<and> same_values L s s' \<and> \<not> in_transaction s' \<and>
    ldms_transaction_timestamp_get s' = Some (fst tv mod 2 ^ 32, snd tv mod 2 ^ 32) \<and>
    ldms_transaction_duration_get s' = Some (unat dsec, unat dusec) \<and>
    (\<exists>g. ldms_set_data_gn_get s = Some g \<and> ldms_set_data_gn_get s' = Some ((g + 1) mod 2 ^ 64))"
proof -
  let ?d = "set_data s" and ?m = "set_mem s"
  have room: "?d + 96 \<le> length ?m" by (rule hdr_room [OF wf])
  have dh: "ldms_set_array_get s (set_curr_idx s) = Some ?d"
    using set_wfD(3,5,8) [OF wf] by (simp add: ldms_set_array_get_def hdr_wf_def l_buf_def)
  obtain g where g: "peek 8 (?d + d_gn) ?m = Some g" using peek_Some [of "?d + d_gn" 8 ?m] room by auto
  let ?m' = "put (?d + d_gn) (le_bytes 8 (g + 1)) (put (?d + d_trans_flags) (le_bytes 4 LDMS_TRANSACTION_END)
      (put (?d + d_ts_usec) (le_bytes 4 (snd tv)) (put (?d + d_ts_sec) (le_bytes 4 (fst tv))
      (put (?d + d_dur_usec) (le_bytes 4 (unat dusec)) (put (?d + d_dur_sec) (le_bytes 4 (unat dsec)) ?m)))))"
  have "only_changes ({?d..<?d + d_set_off} \<union> {?d + d_gn..<?d + d_size}) ?m ?m'" by (intro only_put_on) auto
  then have same: "same_values L s (s\<lparr>set_mem := ?m'\<rparr>)"
    using set_wfD(4,5) [OF wf] by (intro same_values_hdr [OF wf, of _ _ "set_curr_idx s"]) auto
  have t: "peek 4 (?d + d_ts_sec) ?m = Some sec" "peek 4 (?d + d_ts_usec) ?m = Some usec"
    using ts by (auto simp: ldms_transaction_timestamp_get_def bind_eq_Some_conv)
  have "ldms_transaction_end tv s = Some (s\<lparr>set_mem := ?m'\<rparr>)"
    using dh t g du room by (simp add: ldms_transaction_end_def mem_simps)
  moreover have "\<not> in_transaction (s\<lparr>set_mem := ?m'\<rparr>)"
    "ldms_transaction_timestamp_get (s\<lparr>set_mem := ?m'\<rparr>) = Some (fst tv mod 2 ^ 32, snd tv mod 2 ^ 32)"
    "ldms_transaction_duration_get (s\<lparr>set_mem := ?m'\<rparr>) = Some (unat dsec, unat dusec)"
    "ldms_set_data_gn_get (s\<lparr>set_mem := ?m'\<rparr>) = Some ((g + 1) mod 2 ^ 64)"
    using room count_less [of dsec] count_less [of dusec]
    by (simp_all add: in_transaction_def ldms_transaction_timestamp_get_def ldms_transaction_duration_get_def ldms_set_data_gn_get_def mem_simps)
  ultimately show ?thesis using same g by (auto simp: ldms_set_data_gn_get_def)
qed

text \<open>Between two readings of the clock less than \<open>2 ^ 32\<close> seconds apart, the duration is their difference.\<close>

lemma duration_diff:
  assumes "u0 < 1000000" "u1 < 1000000" "t0 * 1000000 + u0 \<le> t1 * 1000000 + u1" "t1 < 2 ^ 32"
    and "duration (t1, u1) (of_nat t0) (of_nat u0) = (dsec, dusec)"
  shows "unat dusec < 1000000" "unat dsec * 1000000 + unat dusec = (t1 * 1000000 + u1) - (t0 * 1000000 + u0)"
proof -
  have t0: "t0 \<le> t1" "t0 = t1 \<Longrightarrow> u0 \<le> u1" using assms(1-3) by auto
  have "(of_nat u1 - of_nat u0 :: u32) = word_of_int (int u1 - int u0)" by simp
  then have "sint (of_nat u1 - of_nat u0 :: u32) = int u1 - int u0"
    using assms(1,2) by (simp only: signed_of_int) (simp add: signed_take_bit_int_eq_self)
  moreover have "(of_nat (t1 - Suc t0) :: u32) = of_nat t1 - of_nat t0 - 1" if "u1 < u0"
  proof -
    have "t1 = t0 + Suc (t1 - Suc t0)" using that t0 by (cases "t0 = t1") auto
    then have "(of_nat t1 :: u32) = of_nat t0 + (1 + of_nat (t1 - Suc t0))" by (metis of_nat_Suc of_nat_add)
    then show ?thesis by simp
  qed
  ultimately have "(dsec, dusec) = (if u1 < u0 then (of_nat (t1 - t0 - 1), of_nat (1000000 + u1 - u0)) else (of_nat (t1 - t0), of_nat (u1 - u0)))"
    using assms(5) t0 assms(1) by (auto simp: duration_def Let_def of_nat_diff split: if_splits)
  then have "(unat dsec, unat dusec) = (if u1 < u0 then (t1 - t0 - 1, 1000000 + u1 - u0) else (t1 - t0, u1 - u0))"
    using assms(1,2,4) by (auto simp: unat_word_of_nat32 simp del: of_nat_diff of_nat_add split: if_splits)
  then show "unat dusec < 1000000" "unat dsec * 1000000 + unat dusec = (t1 * 1000000 + u1) - (t0 * 1000000 + u0)"
    using assms(1-3) t0 by (auto simp: diff_mult_distrib split: if_splits)
qed

subsection \<open>Sequences of stores\<close>

text \<open>
  The calls a sampler makes between the begin and the end of a transaction, by the setters that take
  the type from the descriptor; the typed setters do the same.
\<close>

datatype value_op = SetVal nat "u8 list" | SetElem nat nat "u8 list" | SetStr nat string

fun value_step :: "value_op \<Rightarrow> ldms_set \<Rightarrow> ldms_set option" where
  "value_step (SetVal i v) s = ldms_metric_set (int i) v s"
| "value_step (SetElem i j v) s = ldms_metric_array_set_val (int i) (int j) v s"
| "value_step (SetStr i str) s = ldms_metric_array_set_str (int i) str s"

fun value_run :: "value_op list \<Rightarrow> ldms_set \<Rightarrow> ldms_set option" where
  "value_run [] s = Some s"
| "value_run (x # xs) s = do { s \<leftarrow> value_step x s; value_run xs s }"

fun op_metric :: "value_op \<Rightarrow> nat" where
  "op_metric (SetVal i v) = i" | "op_metric (SetElem i j v) = i" | "op_metric (SetStr i str) = i"

fun value_op_ok :: "layout \<Rightarrow> value_op \<Rightarrow> bool" where
  "value_op_ok L (SetVal i v) \<longleftrightarrow> i < length (l_ents L) \<and>
     (case scalar_width (md_type (ent_mdef (l_ents L ! i))) of Some w \<Rightarrow> w \<le> length v | None \<Rightarrow> False)"
| "value_op_ok L (SetElem i j v) \<longleftrightarrow> i < length (l_ents L) \<and> j < elems L i \<and>
     (case elem_width (md_type (ent_mdef (l_ents L ! i))) of Some w \<Rightarrow> w \<le> length v | None \<Rightarrow> False)"
| "value_op_ok L (SetStr i str) \<longleftrightarrow> i < length (l_ents L) \<and> md_type (ent_mdef (l_ents L ! i)) = LDMS_V_CHAR_ARRAY"

text \<open>The bytes of the value after the call.\<close>

fun op_effect :: "layout \<Rightarrow> value_op \<Rightarrow> u8 list \<Rightarrow> u8 list" where
  "op_effect L (SetVal i v) = put 0 (take (the (scalar_width (md_type (ent_mdef (l_ents L ! i))))) v)"
| "op_effect L (SetElem i j v) =
     (let w = the (elem_width (md_type (ent_mdef (l_ents L ! i)))) in put (j * w) (take w v))"
| "op_effect L (SetStr i str) = put 0 (strncpy_bytes str (elems L i))"

fun effects :: "layout \<Rightarrow> value_op list \<Rightarrow> nat \<Rightarrow> u8 list \<Rightarrow> u8 list" where
  "effects L [] i xs = xs"
| "effects L (x # ops) i xs = effects L ops i (if op_metric x = i then op_effect L x xs else xs)"

lemma effects_Cons:
  "map_option (effects L (x # ops) i) c = map_option (effects L ops i) (map_option (if op_metric x = i then op_effect L x else id) c)"
  by (cases c) auto

lemma effects_Nil: "effects L [] i = id"
  by auto

lemma value_step_ok:
  assumes wf: "set_wf L s" and x: "value_op_ok L x"
  shows "\<exists>s'. value_step x s = Some s' \<and> updated L (op_metric x) (op_effect L x) s s'"
proof (cases x)
  case (SetVal i v)
  then obtain w where i: "i < length (l_ents L)" "scalar_width (md_type (ent_mdef (l_ents L ! i))) = Some w" "w \<le> length v"
    using x by (auto split: option.splits)
  then show ?thesis
    using ldms_metric_set_put [OF wf i] metric_put_wf [OF wf i(1), of "take w v"] scalar_fits [OF wf i(1,2)] SetVal by (simp add: min.absorb2)
next
  case (SetElem i j v)
  then obtain w where i: "i < length (l_ents L)" "elem_width (md_type (ent_mdef (l_ents L ! i))) = Some w" "j < elems L i" "w \<le> length v"
    using x by (auto split: option.splits)
  then show ?thesis
    using ldms_metric_array_set_val_put [OF wf i] array_put_wf [OF wf i(1), of j "take w v"] elems_fit [OF wf i(1,2)] SetElem
    by (simp add: min.absorb2 elems_def Let_def)
next
  case (SetStr i str)
  then have i: "i < length (l_ents L)" "md_type (ent_mdef (l_ents L ! i)) = LDMS_V_CHAR_ARRAY" using x by auto
  then show ?thesis
    using put_value [OF wf i(1), of 0 "strncpy_bytes str (elems L i)"] elems_fit [OF wf i(1), of 1] SetStr
    by (simp add: ldms_metric_array_set_str_def mval_to_set_wf [OF wf i(1)] desc_count [OF wf i(1)] elems_def strncpy_bytes_def mem_simps)
qed

definition changed_by :: "layout \<Rightarrow> value_op list \<Rightarrow> ldms_set \<Rightarrow> ldms_set \<Rightarrow> bool" where
  "changed_by L ops s s' \<longleftrightarrow>
     set_wf L s' \<and> set_curr_idx s' = set_curr_idx s \<and> set_flags s' = set_flags s \<and> in_transaction s' = in_transaction s \<and>
     ldms_transaction_timestamp_get s' = ldms_transaction_timestamp_get s \<and>
     (\<forall>i < length (l_ents L). content L s' (set_curr_idx s) i = map_option (effects L ops i) (content L s (set_curr_idx s) i) \<and>
        (\<forall>k < l_bufs L. is_data (ent_mdef (l_ents L ! i)) \<longrightarrow> k \<noteq> set_curr_idx s \<longrightarrow> content L s' k i = content L s k i))"

lemma value_run_ok:
  assumes "set_wf L s" "list_all (value_op_ok L) ops"
  shows "\<exists>s'. value_run ops s = Some s' \<and> changed_by L ops s s'"
  using assms
proof (induction ops arbitrary: s)
  case (Cons x ops)
  then obtain s1 where s1: "value_step x s = Some s1" "updated L (op_metric x) (op_effect L x) s s1"
    using value_step_ok [of L s x] by auto
  note u = updatedD [OF s1(2)]
  have flags: "set_flags s1 = set_flags s" using s1(2) unfolding updated_def by (metis ldms_set.select_convs(6) ldms_set.surjective ldms_set.update_convs(1))
  obtain s' where s': "value_run ops s1 = Some s'" "changed_by L ops s1 s'" using Cons.IH [OF u(1)] Cons.prems(2) by auto
  have "content L s1 (set_curr_idx s) i = map_option (if op_metric x = i then op_effect L x else id) (content L s (set_curr_idx s) i)"
    if "i < length (l_ents L)" for i
    using s1(2) that set_wfD(4) [OF Cons.prems(1)] by (cases "op_metric x = i") (auto simp: updated_def option.map_id)
  moreover have "content L s1 k i = content L s k i"
    if "i < length (l_ents L)" "k < l_bufs L" "is_data (ent_mdef (l_ents L ! i))" "k \<noteq> set_curr_idx s" for i k
    using s1(2) that by (auto simp: updated_def)
  moreover have "in_transaction s1 = in_transaction s" "ldms_transaction_timestamp_get s1 = ldms_transaction_timestamp_get s"
    using s1(2) by (simp_all add: updated_def)
  ultimately have "changed_by L (x # ops) s s'"
    using s'(2) u(2) flags by (simp add: changed_by_def effects_Cons)
  with s1(1) s'(1) show ?case by auto
qed (simp add: changed_by_def effects_Nil option.map_id)

end
