(* ===== verification/MetricLife.thy ===== *)
theory MetricLife
  imports MetricAtomic
begin

section \<open>The life of a set\<close>

text \<open>
  What holds of a set from its schema to its transactions: \<open>ldms_set_create\<close> of a schema made by
  the calls that add metrics gives a well-formed set, whose names and descriptors are those of the
  schema, whose values can be set and read, and whose transactions are atomic for readers.
\<close>

subsection \<open>A new set is well-formed\<close>

definition set_layout :: "string \<Rightarrow> ldms_schema \<Rightarrow> set_sizes \<Rightarrow> layout" where
  "set_layout inst s sz =
     \<lparr>l_ents = sch_metric_list s, l_vd = desc_start inst s, l_meta = sz_meta sz, l_ds = sch_data_sz s,
      l_hp = sz_heap sz, l_bufs = sz_array_card sz\<rparr>"

definition with_lists :: "ldms_schema \<Rightarrow> ldms_schema" where
  "with_lists s = s\<lparr>sch_metric_list := map default_list_heap (sch_metric_list s)\<rparr>"

definition new_set :: "layout \<Rightarrow> addr \<Rightarrow> mem \<Rightarrow> ldms_set" where
  "new_set L meta m =
     \<lparr>set_mem = m, set_meta = meta, set_data = l_buf L (l_bufs L - 1), set_data_array = l_meta L,
      set_curr_idx = l_bufs L - 1, set_flags = LDMS_SET_F_LOCAL,
      set_heap = (if l_hp L = 0 then None else Some (l_buf L (l_bufs L - 1) + l_ds L))\<rparr>"

lemma set_finish_ok:
  assumes wf: "layout_wf L" "hdr_wf L m" and L: "l_ents L = sch_metric_list s" "l_ds L = sch_data_sz s"
    and c: "nat (sch_array_card s) \<le> l_bufs L"
    and al: "\<And>i. i < length (l_ents L) \<Longrightarrow> md_type (ent_mdef (l_ents L ! i)) = LDMS_V_RECORD_ARRAY \<Longrightarrow> unshifted (l_ents L) i"
  shows "\<exists>m'. Option.bind (set_handle meta LDMS_SET_F_LOCAL m) (set_finish s) = Some (new_set L meta m') \<and>
    hdr_wf L m' \<and> only_changes {l_meta L..} m m'"
proof -
  obtain m' where m': "init_rec_arrays (l_ents L) 0 (nat (sch_array_card s)) (l_meta L) m = Some m'" "hdr_wf L m'"
    "only_changes {l_meta L..} m m'"
    using init_rec_arrays_ok [OF wf(1) al wf(2) _ c, of 0 "l_ents L"] by auto
  have hdr: "peek 4 h_array_card m = Some (l_bufs L)" "peek 4 h_meta_sz m = Some (l_meta L)" "peek 4 h_data_sz m = Some (l_w L)"
    "peek 4 h_heap_sz m = Some (l_hp L)" "buf_ok (l_ds L) (l_hp L) (l_buf L (l_bufs L - 1)) m"
    using wf by (auto simp: hdr_wf_def layout_wf_def)
  have "l_hp L \<noteq> 0 \<Longrightarrow> ldms_heap_get (l_buf L (l_bufs L - 1) + l_ds L) m = Some (l_buf L (l_bufs L - 1) + l_ds L)"
    using hdr(5) by (simp add: buf_ok_def ldms_heap_get_def c_assert_def)
  then show ?thesis
    using m' hdr(1-4) L by (intro exI [of _ m']) (simp add: set_handle_def set_finish_def ldms_set_array_get_def new_set_def l_buf_def Let_def)
qed

lemma set_create_hdr:
  assumes wf: "schema_wf s" and name: "list_all ldms_set_instance_name_char_allowed inst"
    and meta: "meta \<noteq> NULL" "8 dvd meta" and sha: "\<And>x. length (sha256 x) = LDMS_DIGEST_LENGTH"
    and sz: "compute_set_sizes inst s (unat heap_sz) = Some (Inr sz, with_lists s)" "sz_total sz < 2 ^ 31"
    and al: "\<And>i. i < length (sch_metric_list s) \<Longrightarrow> md_type (ent_mdef (map default_list_heap (sch_metric_list s) ! i)) = LDMS_V_RECORD_ARRAY \<Longrightarrow>
      unshifted (map default_list_heap (sch_metric_list s)) i"
  defines "L \<equiv> set_layout inst (with_lists s) sz" and "f \<equiv> ldms_schema_finalize sha256 (with_lists s)"
  shows "\<exists>m. ldms_set_create EOK meta EOK sha256 inst s uid gid perm heap_sz = Some (Inr (new_set L meta m), f) \<and>
    layout_wf L \<and> hdr_wf L m \<and> (length (sch_name s) \<le> 221 \<longrightarrow> names_at inst f (length (sch_metric_list s)) m)"
proof -
  note c = compute_set_sizes_ok [OF wf, of inst "unat heap_sz"]
  have ents: "l_ents L = map default_list_heap (sch_metric_list s)" by (simp add: L_def set_layout_def with_lists_def)
  obtain m where m: "ldms_set_build EOK meta sha256 inst s uid gid perm heap_sz = Some (Inr m, f)" "layout_wf L" "hdr_wf L m"
    "length (sch_name s) \<le> 221 \<longrightarrow> names_at inst f (sch_card s) m"
    using set_build_ok [where ?sha256.0 = sha256 and heap_sz = heap_sz and sz = sz and uid = uid and gid = gid and perm = perm, OF wf name meta sha] sz
    unfolding L_def f_def set_layout_def with_lists_def by auto
  have f: "sch_metric_list f = l_ents L" "sch_data_sz f = l_ds L" "sch_array_card f = sch_array_card s"
    by (simp_all add: f_def L_def set_layout_def with_lists_def ldms_schema_finalize_def)
  have card: "nat (sch_array_card s) \<le> l_bufs L"
    using c sz(1) by (cases "sch_array_card s = 0") (auto simp: L_def set_layout_def)
  obtain m' where m': "Option.bind (set_handle meta LDMS_SET_F_LOCAL m) (set_finish f) = Some (new_set L meta m')"
    "hdr_wf L m'" "only_changes {l_meta L..} m m'"
    using set_finish_ok [OF m(2,3) f(1,2) [symmetric], of meta] card al f(3) ents by auto
  have "names_at inst f (sch_card s) m'" if "length (sch_name s) \<le> 221"
  proof (rule names_at_only [OF m'(3)])
    show "names_at inst f (sch_card s) m" using m(4) that by blast
    have "h_dict (sch_card s) + 2 + (length inst + 1) mod 256 + (34 + length (sch_name s)) \<le> l_vd L"
      using that roundup_8_bounds(1) by (simp add: L_def set_layout_def desc_start_def with_lists_def)
    moreover have "l_vd L \<le> l_meta L" using layout_bounds(2,3) [OF m(2)] by simp
    moreover have "sch_name f = sch_name s" by (simp add: f_def with_lists_def ldms_schema_finalize_def)
    ultimately show "x \<notin> {l_meta L..}"
      if "x < h_dict (sch_card s) + 2 + (length inst + 1) mod 256 + length (sch_name f) + 33" for x
      using that by simp
  qed
  then show ?thesis
    using m m' wf by (auto simp: ldms_set_create_def schema_wf_def bind_eq_Some_conv)
qed

text \<open>The bytes a set of a schema takes.\<close>

definition set_bytes :: "string \<Rightarrow> ldms_schema \<Rightarrow> u32 \<Rightarrow> nat" where
  "set_bytes inst s heap_sz =
     (case compute_set_sizes inst s (unat heap_sz) of Some (Inr sz, _) \<Rightarrow> sz_total sz | _ \<Rightarrow> 0)"

lemma default_list_heap_mdef [simp]:
  "md_type (ent_mdef (default_list_heap e)) = md_type (ent_mdef e)"
  "md_flags (ent_mdef (default_list_heap e)) = md_flags (ent_mdef e)"
  "md_name (ent_mdef (default_list_heap e)) = md_name (ent_mdef e)"
  "md_unit (ent_mdef (default_list_heap e)) = md_unit (ent_mdef e)"
  "md_data_sz (ent_mdef (default_list_heap e)) = md_data_sz (ent_mdef e)"
  "md_type (ent_mdef e) \<noteq> LDMS_V_LIST \<Longrightarrow> default_list_heap e = e"
  by (auto simp: default_list_heap_def split: metric_ent.splits)

lemma arrays_last_lists: "arrays_last es \<Longrightarrow> arrays_last (map default_list_heap es)"
  by (auto simp: arrays_last_def)

lemma set_wf_new:
  assumes "layout_wf L" "hdr_wf L m" "arrays_last (l_ents L)"
  shows "set_wf L (new_set L meta m)"
  using assms by (auto simp: set_wf_def new_set_def layout_wf_def)

lemma set_create_wf:
  assumes wf: "schema_wf s" and al: "arrays_last (sch_metric_list s)" and name: "list_all ldms_set_instance_name_char_allowed inst"
    and meta: "meta \<noteq> NULL" "8 dvd meta" and sha: "\<And>x. length (sha256 x) = LDMS_DIGEST_LENGTH"
    and sz: "set_bytes inst s heap_sz < 2 ^ 31"
  shows "\<exists>set f L. ldms_set_create EOK meta EOK sha256 inst s uid gid perm heap_sz = Some (Inr set, f) \<and> set_wf L set \<and>
    l_ents L = map default_list_heap (sch_metric_list s) \<and> (sch_array_card s \<noteq> 0 \<longrightarrow> int (l_bufs L) = sch_array_card s) \<and> 8 dvd l_meta L \<and> 8 dvd l_w L \<and>
    f = ldms_schema_finalize sha256 (with_lists s) \<and> set_flags set = LDMS_SET_F_LOCAL \<and>
    (length (sch_name s) \<le> 221 \<longrightarrow> names_at inst f (length (sch_metric_list s)) (set_mem set))"
proof -
  obtain sz where sz: "compute_set_sizes inst s (unat heap_sz) = Some (Inr sz, with_lists s)" "sz_total sz < 2 ^ 31"
    "8 dvd sz_meta sz" "512 dvd sz_heap sz" "0 < sz_array_card sz"
    "sch_array_card s \<noteq> 0 \<longrightarrow> int (sz_array_card sz) = sch_array_card s"
    using compute_set_sizes_ok [OF wf, of inst "unat heap_sz"] sz by (auto simp: set_bytes_def with_lists_def)
  let ?L = "set_layout inst (with_lists s) sz" and ?es = "map default_list_heap (sch_metric_list s)"
  have ents: "l_ents ?L = ?es" by (simp add: set_layout_def with_lists_def)
  have un: "unshifted ?es i" if "i < length (sch_metric_list s)" "md_type (ent_mdef (?es ! i)) = LDMS_V_RECORD_ARRAY" for i
  proof (rule arrays_last_unshifted [OF arrays_last_lists [OF al]])
    have "ent_wf (sch_metric_list s ! i)" using wf that(1) by (simp add: schema_wf_def)
    then show "is_data (ent_mdef (?es ! i))" using that by (cases "sch_metric_list s ! i") (auto simp: rec_wf_def)
  qed (use that in auto)
  obtain m where m: "ldms_set_create EOK meta EOK sha256 inst s uid gid perm heap_sz =
      Some (Inr (new_set ?L meta m), ldms_schema_finalize sha256 (with_lists s))" "layout_wf ?L" "hdr_wf ?L m"
    "length (sch_name s) \<le> 221 \<longrightarrow> names_at inst (ldms_schema_finalize sha256 (with_lists s)) (length (sch_metric_list s)) m"
    using set_create_hdr [where ?sha256.0 = sha256 and heap_sz = heap_sz and uid = uid and gid = gid and perm = perm,
        OF wf name meta sha sz(1,2) un] by blast
  have wf': "set_wf ?L (new_set ?L meta m)"
    using set_wf_new [OF m(2,3)] arrays_last_lists [OF al] ents by simp
  have "8 dvd l_w ?L" using schema_data_8 [OF wf] dvd_trans [OF _ sz(4), of 8] by (simp add: set_layout_def with_lists_def l_w_def)
  moreover have "l_meta ?L = sz_meta sz" "l_bufs ?L = sz_array_card sz" by (simp_all add: set_layout_def)
  moreover have "set_mem (new_set ?L meta m) = m" "set_flags (new_set ?L meta m) = LDMS_SET_F_LOCAL" by (simp_all add: new_set_def)
  ultimately show ?thesis
    using m(1,4) wf' ents sz(3,6) 
    by (intro exI [of _ "new_set ?L meta m"] exI [of _ "ldms_schema_finalize sha256 (with_lists s)"] exI [of _ ?L]) simp
qed

subsection \<open>Descriptors and names\<close>

lemma desc_get_wf:
  assumes "set_wf L s" "i < length (l_ents L)"
  shows "desc_get s (int i) = Some (Some (desc_off L i))"
  using hdr_wf_desc(1) [OF set_wfD(1,3) [OF assms(1)] assms(2)] desc_type(2) [OF assms] assms(2) by (simp add: desc_get_def)

lemma desc_fields:
  assumes wf: "set_wf L s" "i < length (l_ents L)"
  shows "ldms_metric_type_get s (int i) = Some (md_type (ent_mdef (l_ents L ! i)))"
    "ldms_metric_flags_get s (int i) = Some (md_flags (ent_mdef (l_ents L ! i)))"
    "ldms_metric_get s (int i) = Some (Some (value_at L (read_buf L s i) i))"
  using desc_type(1) [OF wf] desc_get_wf [OF wf] mval_to_get_wf [OF wf] hdr_wf_desc(2) [OF set_wfD(1,3) [OF wf(1)] wf(2)]
  by (simp_all add: ldms_metric_type_get_def ldms_metric_flags_get_def ldms_metric_get_def vt_of_code_code desc_ok_def)

lemma ldms_metric_name_get_wf:
  assumes wf: "set_wf L s" "i < length (l_ents L)" and str: "c_string (md_name (ent_mdef (l_ents L ! i)))"
  shows "peek_str (desc_off L i + vd_name_unit) (set_mem s) = Some (md_name (ent_mdef (l_ents L ! i)))"
    "ldms_metric_name_get s (int i) = Some (Some (md_name (ent_mdef (l_ents L ! i))))"
proof -
  show "peek_str (desc_off L i + vd_name_unit) (set_mem s) = Some (md_name (ent_mdef (l_ents L ! i)))"
    using hdr_wf_desc(2) [OF set_wfD(1,3) [OF wf(1)] wf(2)] peek_str_load [OF _ str] by (simp add: desc_ok_def)
  then show "ldms_metric_name_get s (int i) = Some (Some (md_name (ent_mdef (l_ents L ! i))))"
    by (simp add: ldms_metric_name_get_def desc_get_wf [OF wf])
qed

definition unit_fits :: "mdef \<Rightarrow> bool" where
  "unit_fits md \<longleftrightarrow> length (md_name md) + 1 + unit_len (md_unit md) < 256 \<and> (\<forall>u. md_unit md = Some u \<longrightarrow> c_string u)"

lemma ldms_metric_unit_get_wf:
  assumes wf: "set_wf L s" "i < length (l_ents L)" and str: "c_string (md_name (ent_mdef (l_ents L ! i)))"
    and fit: "unit_fits (ent_mdef (l_ents L ! i))"
  shows "ldms_metric_unit_get s (int i) = Some (md_unit (ent_mdef (l_ents L ! i)))"
proof -
  let ?md = "ent_mdef (l_ents L ! i)" and ?d = "desc_off L i"
  have d: "desc_ok ?d ?md (set_mem s)" by (rule hdr_wf_desc(2) [OF set_wfD(1,3) [OF wf(1)] wf(2)])
  have len: "peek 1 (?d + vd_name_unit_len) (set_mem s) = Some (length (md_name ?md) + 1 + unit_len (md_unit ?md))"
    using d fit by (simp add: desc_ok_def unit_fits_def)
  show ?thesis
  proof (cases "md_unit ?md")
    case None
    then show ?thesis
      using len ldms_metric_name_get_wf(1) [OF wf str] by (simp add: ldms_metric_unit_get_def desc_get_wf [OF wf] Let_def unit_len_def)
  next
    case (Some u)
    then have "peek_str (?d + vd_name_unit + (length (md_name ?md) + 1)) (set_mem s) = Some u"
      using d fit by (intro peek_str_load) (auto simp: desc_ok_def unit_fits_def)
    then show ?thesis
      using len Some ldms_metric_name_get_wf(1) [OF wf str]
      by (simp add: ldms_metric_unit_get_def desc_get_wf [OF wf] Let_def unit_len_def add.assoc)
  qed
qed

text \<open>The search by name finds the index of the metric with the name, or none.\<close>

definition name_index :: "metric_ent list \<Rightarrow> string \<Rightarrow> int" where
  "name_index es name =
     (case find (\<lambda>i. md_name (ent_mdef (es ! i)) = name) [0..<length es] of Some i \<Rightarrow> int i | None \<Rightarrow> -1)"

lemma metric_by_name_find:
  assumes wf: "set_wf L s" and "\<And>i. i \<in> set is \<Longrightarrow> i < length (l_ents L)"
    and str: "\<And>e. e \<in> set (l_ents L) \<Longrightarrow> c_string (md_name (ent_mdef e))" "c_string name"
  shows "metric_by_name is s name =
    Some (case find (\<lambda>i. md_name (ent_mdef (l_ents L ! i)) = name) is of Some i \<Rightarrow> int i | None \<Rightarrow> -1)"
  using assms(2)
proof (induction "is")
  case (Cons i "is")
  then have i: "i < length (l_ents L)" by simp
  then have "c_string (md_name (ent_mdef (l_ents L ! i)))" using str(1) by simp
  then show ?case
    using Cons strcmp_eq_0 [OF _ str(2)] ldms_metric_name_get_wf(1) [OF wf i] hdr_wf_desc(1) [OF set_wfD(1,3) [OF wf] i] by simp
qed simp

lemma ldms_metric_by_name_wf:
  assumes wf: "set_wf L s" and str: "\<And>e. e \<in> set (l_ents L) \<Longrightarrow> c_string (md_name (ent_mdef e))" "c_string name"
  shows "ldms_metric_by_name s name = Some (name_index (l_ents L) name)"
  using metric_by_name_find [OF wf _ str, of "[0..<length (l_ents L)]"] set_wfD(3) [OF wf]
  by (simp add: ldms_metric_by_name_def ldms_set_card_get_def hdr_wf_def name_index_def)

lemma names_read:
  assumes wf: "set_wf L s" and at: "names_at inst f (length (l_ents L)) (set_mem s)"
    and str: "c_string inst" "length inst < 255" "c_string (sch_name f)" "length (sch_name f) \<le> 221"
  shows "ldms_set_instance_name_get s = Some inst" "ldms_set_schema_name_get s = Some (sch_name f)"
    "ldms_set_digest_get s = Some (sch_digest f)"
proof -
  let ?n = "h_dict (length (l_ents L))" and ?l = "length inst + 1" and ?s = "length (sch_name f)"
  have card: "peek 4 h_card (set_mem s) = Some (length (l_ents L))" using set_wfD(3) [OF wf] by (simp add: hdr_wf_def)
  have at: "peek 1 ?n (set_mem s) = Some ?l" "peek 1 (?n + 1 + ?l) (set_mem s) = Some (34 + ?s)"
    "load (?n + 2 + ?l) (?s + 1) (set_mem s) = Some (str_bytes (sch_name f))"
    "load (?n + 2 + ?l + ?s + 1) LDMS_DIGEST_LENGTH (set_mem s) = Some (sch_digest f)"
    "load (?n + 1) ?l (set_mem s) = Some (str_bytes inst)"
    using at str(2,4) by (auto simp: names_at_def Let_def)
  have inst: "get_instance_name (set_mem s) = Some ?n" using card by (simp add: get_instance_name_def)
  have schema: "get_schema_name (set_mem s) = Some (?n + 1 + ?l)" using inst at(1) by (simp add: get_schema_name_def)
  show "ldms_set_instance_name_get s = Some inst"
    using inst peek_str_load [OF at(5) str(1)] by (simp add: ldms_set_instance_name_get_def)
  have name: "peek_str (?n + 1 + ?l + 1) (set_mem s) = Some (sch_name f)"
    using peek_str_load [OF at(3) str(3)] by (simp add: ac_simps)
  then show "ldms_set_schema_name_get s = Some (sch_name f)" using schema by (simp add: ldms_set_schema_name_get_def)
  show "ldms_set_digest_get s = Some (sch_digest f)"
    using schema name at(2,4) by (simp add: ldms_set_digest_get_def ac_simps)
qed

subsection \<open>A value behind an array of records\<close>

lemma advance_ge:
  assumes "ent_wf e" shows "data_part e \<le> advance e"
    "md_type (ent_mdef e) = LDMS_V_RECORD_ARRAY \<Longrightarrow> md_count (ent_mdef e) \<noteq> 0 \<Longrightarrow> data_part e + 16 \<le> advance e"
proof -
  have "data_part e + 16 \<le> advance e" if t: "md_type (ent_mdef e) = LDMS_V_RECORD_ARRAY" "md_count (ent_mdef e) \<noteq> 0"
  proof -
    have "is_data (ent_mdef e)" "vsize (ent_mdef e) = 16"
      using assms t by (cases e; auto simp: rec_wf_def vsize_def ldms_value_size_get_def roundup_8)+
    moreover have "md_data_sz (ent_mdef e) \<le> unat (md_count (ent_mdef e)) * md_data_sz (ent_mdef e)"
      using t(2) unat_eq_zero [of "md_count (ent_mdef e)"] by (simp add: Suc_le_eq del: unat_eq_zero)
    ultimately show ?thesis using t(1) by (simp add: advance_def data_part_def Let_def)
  qed
  then show "md_type (ent_mdef e) = LDMS_V_RECORD_ARRAY \<Longrightarrow> md_count (ent_mdef e) \<noteq> 0 \<Longrightarrow> data_part e + 16 \<le> advance e"
    "data_part e \<le> advance e"
    using advance_data_part [OF assms] by (fastforce, cases "md_type (ent_mdef e) = LDMS_V_RECORD_ARRAY \<and> md_count (ent_mdef e) \<noteq> 0", auto)
qed

lemma sum_list_excess:
  assumes "\<And>x. x \<in> set xs \<Longrightarrow> (f x :: nat) \<le> g x" "y \<in> set xs" "f y + d \<le> g y"
  shows "sum_list (map f xs) + d \<le> sum_list (map g xs)"
  using assms
proof (induction xs)
  case (Cons x xs)
  show ?case
  proof (cases "y \<in> set xs")
    case True
    then show ?thesis using Cons.IH Cons.prems(1) [of x] Cons.prems by force
  next
    case False
    then have "y = x" using Cons.prems(2) by simp
    moreover have "sum_list (map f xs) \<le> sum_list (map g xs)" using Cons.prems(1) by (intro sum_list_mono) auto
    ultimately show ?thesis using Cons.prems(3) by simp
  qed
qed simp

lemma data_behind_array:
  assumes wf: "\<And>e. e \<in> set es \<Longrightarrow> ent_wf e" and a: "a < j" "md_type (ent_mdef (es ! a)) = LDMS_V_RECORD_ARRAY" "md_count (ent_mdef (es ! a)) \<noteq> 0"
    and j: "j < length es" and last: "\<And>i. j < i \<Longrightarrow> i < length es \<Longrightarrow> \<not> is_data (ent_mdef (es ! i))"
  shows "sizeof_data_hdr + sum_list (map data_part es) + 16 \<le> data_off es j + data_part (es ! j)"
proof -
  have "sum_list (map data_part (drop (Suc j) es)) = 0"
    using last by (auto simp: sum_list_eq_0_iff data_part_def in_set_conv_nth)
  moreover have "es = take (Suc j) es @ drop (Suc j) es" by simp
  ultimately have "sum_list (map data_part es) = sum_list (map data_part (take (Suc j) es))"
    by (metis add.right_neutral map_append sum_list_append)
  moreover have "sum_list (map data_part (take j es)) + 16 \<le> sum_list (map advance (take j es))"
  proof (rule sum_list_excess [of _ _ _ "es ! a"])
    show "es ! a \<in> set (take j es)" using a(1) j by (auto simp: in_set_conv_nth intro!: exI [of _ a])
  qed (use advance_ge wf a j in \<open>auto dest: in_set_takeD\<close>)
  ultimately show ?thesis using sum_take_Suc [OF j, of data_part] by (simp add: data_off_def)
qed

end
