(* ===== verification/MetricTop.thy ===== *)
theory MetricTop
  imports MetricLife
begin

section \<open>Properties of metric sets\<close>

text \<open>
  The theorems about schemas, sets, values and transactions, each with an application to a concrete
  schema with a scalar, an array, a metadata value, a record type and an array of records.
\<close>

subsection \<open>A concrete schema\<close>

definition demo_ops :: "(bool \<times> schema_op) list" where
  "demo_ops =
     [(True, ArrayCard 2), (True, AddMetric ''load'' (Some ''kB'') LDMS_V_U64), (True, AddArray ''cpu'' None LDMS_V_U32_ARRAY 4),
      (True, AddMeta ''id'' None LDMS_V_S32), (True, AddArray ''host'' None LDMS_V_CHAR_ARRAY 8),
      (True, AddRecord ''rec'' [(''x'', None, LDMS_V_U64, 1)]), (True, AddRecordArray ''recs'' 4 2)]"

definition demo_schema :: ldms_schema where
  "demo_schema = the (Option.bind (ldms_schema_new True ''demo'') (schema_run demo_ops))"

definition demo_sha :: "u8 list \<Rightarrow> u8 list" where
  "demo_sha x = replicate 32 (of_nat (length x))"

abbreviation (input) demo_create :: "((errno + ldms_set) \<times> ldms_schema) option" where
  "demo_create \<equiv> ldms_set_create EOK 4096 EOK demo_sha ''n1/demo'' demo_schema 0 0 0 0"

lemma demo_run: "Option.bind (ldms_schema_new True ''demo'') (schema_run demo_ops) = Some demo_schema"
  unfolding demo_schema_def by code_simp

lemma demo_ops_ok: "list_all op_ok demo_ops"
  by (simp add: demo_ops_def plain_type_def c_string_def)

lemma demo_bytes: "set_bytes ''n1/demo'' demo_schema 0 < 2 ^ 31"
proof -
  have "set_bytes ''n1/demo'' demo_schema 0 = 912" by code_simp
  then show ?thesis by simp
qed

lemma demo_types:
  "map (md_type \<circ> ent_mdef) (sch_metric_list demo_schema) =
     [LDMS_V_U64, LDMS_V_U32_ARRAY, LDMS_V_S32, LDMS_V_CHAR_ARRAY, LDMS_V_RECORD_TYPE, LDMS_V_RECORD_ARRAY]"
  by code_simp

lemma demo_array_card: "sch_array_card demo_schema = 2"
  by code_simp

lemma demo_names: "sch_name demo_schema = ''demo''" 
  by code_simp

lemma demo_allowed: "list_all ldms_set_instance_name_char_allowed ''n1/demo''"
  by code_simp

lemma demo_length: "length (sch_metric_list demo_schema) = 6"
  using arg_cong [OF demo_types, of length] by simp

lemma demo_type_nth: "i < 6 \<Longrightarrow> md_type (ent_mdef (sch_metric_list demo_schema ! i)) =
    [LDMS_V_U64, LDMS_V_U32_ARRAY, LDMS_V_S32, LDMS_V_CHAR_ARRAY, LDMS_V_RECORD_TYPE, LDMS_V_RECORD_ARRAY] ! i"
  using arg_cong [OF demo_types, of "\<lambda>xs. xs ! i"] demo_length by simp

lemma demo_arrays_last: "arrays_last (sch_metric_list demo_schema)"
  unfolding arrays_last_def
proof (intro allI impI)
  fix i j assume "i < j" "j < length (sch_metric_list demo_schema)" "md_type (ent_mdef (sch_metric_list demo_schema ! i)) = LDMS_V_RECORD_ARRAY"
  moreover from this have "i = 0 \<or> i = 1 \<or> i = 2 \<or> i = 3 \<or> i = 4" using demo_length by linarith
  ultimately show "\<not> is_data (ent_mdef (sch_metric_list demo_schema ! j))" using demo_type_nth [of i] by auto
qed

lemma demo_wf: "schema_wf demo_schema"
  using demo_run ldms_schema_new_wf [of True "''demo''"] schema_run_wf [OF _ demo_ops_ok] by (fastforce simp: bind_eq_Some_conv)

lemma demo_no_lists: "map default_list_heap (sch_metric_list demo_schema) = sch_metric_list demo_schema"
proof (rule map_idI)
  fix e assume "e \<in> set (sch_metric_list demo_schema)"
  then have "md_type (ent_mdef e) \<in> set (map (md_type \<circ> ent_mdef) (sch_metric_list demo_schema))" by auto
  then show "default_list_heap e = e" unfolding demo_types by auto
qed

lemma demo_set:
  "\<exists>s f L. demo_create = Some (Inr s, f) \<and> set_wf L s \<and> l_ents L = sch_metric_list demo_schema \<and> l_bufs L = 2 \<and> set_flags s = LDMS_SET_F_LOCAL"
  using set_create_wf [where ?sha256.0 = demo_sha and meta = 4096 and heap_sz = 0 and uid = 0 and gid = 0 and perm = 0,
      OF demo_wf demo_arrays_last demo_allowed _ _ _ demo_bytes]
  by (auto simp: demo_sha_def demo_no_lists demo_array_card)

subsection \<open>Types and places of values\<close>

text \<open>The bytes that hold the value of a metric, where \<open>ldms_metric_get\<close> finds it.\<close>

definition value_range :: "ldms_set \<Rightarrow> nat \<Rightarrow> nat \<Rightarrow> nat set" where
  "value_range s i sz = (case ldms_metric_get s (int i) of Some (Some a) \<Rightarrow> {a..<a + sz} | _ \<Rightarrow> {})"

lemma value_range_region:
  "set_wf L s \<Longrightarrow> i < length (l_ents L) \<Longrightarrow> value_range s i (value_sz L i) = region L (read_buf L s i) i"
  by (simp add: value_range_def desc_fields(3) region_def)

lemma value_at_aligned:
  assumes wf: "set_wf L s" "i < length (l_ents L)" "is_data (ent_mdef (l_ents L ! i))" and "8 dvd l_meta L" "8 dvd l_w L"
  shows "8 dvd value_at L k i"
proof -
  have "8 dvd sum_list (map data_part (take i (l_ents L)))"
    using data_part_8 set_wfD(6) [OF wf(1)] by (intro sum_list_dvd) (auto dest: in_set_takeD)
  then have "8 dvd data_off (l_ents L) i"
    using data_off_parts [OF set_wfD(6) [OF wf(1)] arrays_last_unshifted [OF set_wfD(2) [OF wf(1)] wf(2,3)] wf(2) order_refl]
    by (simp add: data_off_def)
  then show ?thesis using assms(3-) by (simp add: value_at_def l_buf_def)
qed

text \<open>
  C31. A set created from a schema that was built by any sequence of the calls that add metrics,
  metadata, arrays, lists, records and arrays of records (in which no data metric follows a non-empty
  array of records) has the metrics of the schema: their number, types and flags are read back from
  the set, and each has a range of bytes of its own of the size of its type, inside the memory of the
  set, disjoint from the ranges of all others, and aligned to 8 bytes in the data section.
\<close>

theorem set_create_typed:
  assumes "Option.bind (ldms_schema_new True name) (schema_run ops) = Some s" "list_all op_ok ops"
    and "arrays_last (sch_metric_list s)" "list_all ldms_set_instance_name_char_allowed inst"
    and "meta \<noteq> NULL" "8 dvd meta" "\<And>x. length (sha256 x) = LDMS_DIGEST_LENGTH" "set_bytes inst s heap_sz < 2 ^ 31"
  shows "\<exists>t f. ldms_set_create EOK meta EOK sha256 inst s uid gid perm heap_sz = Some (Inr t, f) \<and>
    ldms_set_card_get t = Some (length (sch_metric_list s)) \<and>
    (\<forall>i < length (sch_metric_list s).
       let md = ent_mdef (sch_metric_list s ! i) in
       ldms_metric_type_get t (int i) = Some (md_type md) \<and> ldms_metric_flags_get t (int i) = Some (md_flags md) \<and>
       (\<exists>a. ldms_metric_get t (int i) = Some (Some a) \<and> (is_data md \<longrightarrow> 8 dvd a) \<and> a + md_data_sz md \<le> length (set_mem t)) \<and>
       (\<forall>j < length (sch_metric_list s). j \<noteq> i \<longrightarrow>
          value_range t i (md_data_sz md) \<inter> value_range t j (md_data_sz (ent_mdef (sch_metric_list s ! j))) = {}))"
proof -
  have wf: "schema_wf s"
    using assms(1,2) ldms_schema_new_wf schema_run_wf by (fastforce simp: bind_eq_Some_conv)
  obtain t f L where t: "ldms_set_create EOK meta EOK sha256 inst s uid gid perm heap_sz = Some (Inr t, f)" "set_wf L t"
    and L: "l_ents L = map default_list_heap (sch_metric_list s)" "8 dvd l_meta L" "8 dvd l_w L"
    using set_create_wf [where ?sha256.0 = sha256 and uid = uid and gid = gid and perm = perm, OF wf assms(3-8)] by blast
  have sz: "value_sz L i = md_data_sz (ent_mdef (sch_metric_list s ! i))" if "i < length (sch_metric_list s)" for i
    using that by (simp add: value_sz_def L(1))
  have "value_range t i (value_sz L i) \<inter> value_range t j (value_sz L j) = {}"
    if "i < length (l_ents L)" "j < length (l_ents L)" "j \<noteq> i" for i j
    using that regions_disjoint [OF t(2), of i j] by (simp add: value_range_region [OF t(2)])
  moreover have "\<exists>a. ldms_metric_get t (int i) = Some (Some a) \<and> (is_data (ent_mdef (l_ents L ! i)) \<longrightarrow> 8 dvd a) \<and>
      a + value_sz L i \<le> length (set_mem t)" if "i < length (l_ents L)" for i
    using desc_fields(3) [OF t(2) that] region_in_mem [OF t(2) that read_buf_bound [OF t(2), of i]]
      value_at_aligned [OF t(2) that _ L(2,3)] by simp
  moreover have "ldms_set_card_get t = Some (length (sch_metric_list s))"
    using set_wfD(3) [OF t(2)] by (simp add: ldms_set_card_get_def hdr_wf_def L(1))
  ultimately show ?thesis
    using t(1) desc_fields(1,2) [OF t(2)] sz by (intro exI [of _ t] exI [of _ f]) (simp add: L(1) Let_def)
qed

theorem set_create_typed_witness:
  "\<exists>t f. demo_create = Some (Inr t, f) \<and> ldms_set_card_get t = Some 6 \<and>
    ldms_metric_type_get t 1 = Some LDMS_V_U32_ARRAY \<and> ldms_metric_type_get t 5 = Some LDMS_V_RECORD_ARRAY"
proof -
  obtain t f where "demo_create = Some (Inr t, f)" "ldms_set_card_get t = Some 6"
    "\<forall>i < 6. ldms_metric_type_get t (int i) = Some (md_type (ent_mdef (sch_metric_list demo_schema ! i)))"
    using set_create_typed [where ?sha256.0 = demo_sha and meta = 4096 and heap_sz = 0 and uid = 0 and gid = 0 and perm = 0,
        OF demo_run demo_ops_ok demo_arrays_last demo_allowed _ _ _ demo_bytes]
    by (auto simp: demo_sha_def demo_length Let_def)
  moreover from this(3) [rule_format, of 1] this(3) [rule_format, of 5]
  have "ldms_metric_type_get t 1 = Some LDMS_V_U32_ARRAY" "ldms_metric_type_get t 5 = Some LDMS_V_RECORD_ARRAY"
    using demo_type_nth [of 1] demo_type_nth [of 5] by simp_all
  ultimately show ?thesis by blast
qed

subsection \<open>Names\<close>

lemma allowed_c_string: "list_all ldms_set_instance_name_char_allowed inst \<Longrightarrow> c_string inst"
  by (auto simp: list_all_iff c_string_def ldms_set_instance_name_char_allowed_def Let_def)

lemma name_index_distinct:
  assumes "distinct (map (md_name \<circ> ent_mdef) es)" "i < length es"
  shows "name_index es (md_name (ent_mdef (es ! i))) = int i"
proof -
  have "find (\<lambda>j. md_name (ent_mdef (es ! j)) = md_name (ent_mdef (es ! i))) [0..<length es] = Some i"
    using assms by (auto simp: find_Some_iff distinct_conv_nth intro!: exI [of _ i])
  then show ?thesis by (simp add: name_index_def)
qed

lemma name_index_none:
  assumes "name \<notin> md_name ` ent_mdef ` set es" shows "name_index es name = -1"
proof -
  have "find (\<lambda>i. md_name (ent_mdef (es ! i)) = name) [0..<length es] = None"
    using assms by (auto simp: find_None_iff)
  then show ?thesis by (simp add: name_index_def)
qed

lemma name_index_lists: "name_index (map default_list_heap es) name = name_index es name"
proof -
  have "find (\<lambda>i. md_name (ent_mdef (map default_list_heap es ! i)) = name) [0..<length es] =
      find (\<lambda>i. md_name (ent_mdef (es ! i)) = name) [0..<length es]"
    by (rule find_cong) auto
  then show ?thesis by (simp add: name_index_def)
qed

text \<open>
  C32. The names a set is created with come back from it: the name of the instance (of at most 254
  characters), the name and the digest of the schema (a name of at most 221 characters, so that with
  the digest it fits the length byte), the name of every metric, and its unit where name and unit fit
  their length byte. The search by name finds every metric at its index and nothing else.
\<close>

theorem set_names_roundtrip:
  assumes "Option.bind (ldms_schema_new True name) (schema_run ops) = Some s" "list_all op_ok ops"
    and "arrays_last (sch_metric_list s)" "list_all ldms_set_instance_name_char_allowed inst"
    and "meta \<noteq> NULL" "8 dvd meta" "\<And>x. length (sha256 x) = LDMS_DIGEST_LENGTH" "set_bytes inst s heap_sz < 2 ^ 31"
    and "length inst < 255" "c_string (sch_name s)" "length (sch_name s) \<le> 221"
  shows "\<exists>t f. ldms_set_create EOK meta EOK sha256 inst s uid gid perm heap_sz = Some (Inr t, f) \<and>
    ldms_set_instance_name_get t = Some inst \<and> ldms_set_schema_name_get t = Some (sch_name s) \<and>
    ldms_set_digest_get t = Some (sch_digest (ldms_schema_finalize sha256 s)) \<and>
    (\<forall>i < length (sch_metric_list s).
       let md = ent_mdef (sch_metric_list s ! i) in
       ldms_metric_name_get t (int i) = Some (Some (md_name md)) \<and> ldms_metric_by_name t (md_name md) = Some (int i) \<and>
       (unit_fits md \<longrightarrow> ldms_metric_unit_get t (int i) = Some (md_unit md))) \<and>
    (\<forall>nm. c_string nm \<longrightarrow> nm \<notin> md_name ` ent_mdef ` set (sch_metric_list s) \<longrightarrow> ldms_metric_by_name t nm = Some (-1))"
proof -
  have wf: "schema_wf s"
    using assms(1,2) ldms_schema_new_wf schema_run_wf by (fastforce simp: bind_eq_Some_conv)
  let ?f = "ldms_schema_finalize sha256 (with_lists s)" and ?es = "sch_metric_list s"
  obtain t L where t: "ldms_set_create EOK meta EOK sha256 inst s uid gid perm heap_sz = Some (Inr t, ?f)" "set_wf L t"
    and L: "l_ents L = map default_list_heap ?es" "names_at inst ?f (length ?es) (set_mem t)"
    using set_create_wf [where ?sha256.0 = sha256 and uid = uid and gid = gid and perm = perm, OF wf assms(3-8)] assms(11) by blast
  have f: "sch_name ?f = sch_name s" "sch_digest ?f = sch_digest (ldms_schema_finalize sha256 s)"
    by (simp_all add: ldms_schema_finalize_def with_lists_def)
  have str: "\<And>e. e \<in> set (l_ents L) \<Longrightarrow> c_string (md_name (ent_mdef e))" using wf L(1) by (auto simp: schema_wf_def)
  have find: "ldms_metric_by_name t nm = Some (name_index ?es nm)" if "c_string nm" for nm
    using ldms_metric_by_name_wf [OF t(2) str that] by (simp add: L(1) name_index_lists)
  have "ldms_metric_name_get t (int i) = Some (Some (md_name md)) \<and> ldms_metric_by_name t (md_name md) = Some (int i) \<and>
       (unit_fits md \<longrightarrow> ldms_metric_unit_get t (int i) = Some (md_unit md))"
    if i: "i < length ?es" and md: "md = ent_mdef (?es ! i)" for i md
  proof -
    have *: "i < length (l_ents L)" "md_name (ent_mdef (l_ents L ! i)) = md_name md" "md_unit (ent_mdef (l_ents L ! i)) = md_unit md"
      using i md L(1) by auto
    have nm: "c_string (md_name md)" using str [of "l_ents L ! i"] * by simp
    show ?thesis
      using ldms_metric_name_get_wf(2) [OF t(2) *(1)] ldms_metric_unit_get_wf [OF t(2) *(1)] find [OF nm] nm *
        name_index_distinct [OF _ i] wf md by (simp add: schema_wf_def unit_fits_def)
  qed
  moreover have "ldms_set_instance_name_get t = Some inst" "ldms_set_schema_name_get t = Some (sch_name s)"
    "ldms_set_digest_get t = Some (sch_digest (ldms_schema_finalize sha256 s))"
    using names_read [OF t(2), of inst ?f] L allowed_c_string [OF assms(4)] assms(9-) f by simp_all
  ultimately show ?thesis
    using t(1) find name_index_none [of _ ?es] by (intro exI [of _ t] exI [of _ ?f]) (simp add: Let_def)
qed

theorem set_names_roundtrip_witness:
  "\<exists>t f. demo_create = Some (Inr t, f) \<and> ldms_set_instance_name_get t = Some ''n1/demo'' \<and>
    ldms_set_schema_name_get t = Some ''demo'' \<and> ldms_metric_by_name t ''nosuch'' = Some (-1)"
proof -
  have "md_name ` ent_mdef ` set (sch_metric_list demo_schema) = set (map (md_name \<circ> ent_mdef) (sch_metric_list demo_schema))"
    by (simp add: image_comp)
  also have "map (md_name \<circ> ent_mdef) (sch_metric_list demo_schema) = [''load'', ''cpu'', ''id'', ''host'', ''rec'', ''recs'']"
    by code_simp
  finally have "''nosuch'' \<notin> md_name ` ent_mdef ` set (sch_metric_list demo_schema)" by simp
  then show ?thesis
    using set_names_roundtrip [where ?sha256.0 = demo_sha and meta = 4096 and heap_sz = 0 and uid = 0 and gid = 0 and perm = 0,
        OF demo_run demo_ops_ok demo_arrays_last demo_allowed _ _ _ demo_bytes]
    by (auto simp: demo_sha_def demo_names c_string_def)
qed

subsection \<open>Values\<close>

text \<open>
  C33. Every typed setter of a scalar metric of its type succeeds on a well-formed set, as all sets
  created from schemas are: it changes the bytes of that value in the current buffer, steps the
  generation number, and leaves every other value, every other buffer and the invariant alone. The
  getter of the same type returns the value that was set, when the metric is metadata, no transaction
  is open, or the set has one buffer. The setter that takes a value union does the same.
\<close>

theorem scalar_set_get:
  assumes "set_wf L s" "i < length (l_ents L)"
  shows "typed_set_get L s i"
  using assms by (rule typed_set_get_wf)

theorem scalar_set_get_witness:
  "\<exists>s f L. demo_create = Some (Inr s, f) \<and> md_type (ent_mdef (l_ents L ! 0)) = LDMS_V_U64 \<and>
    (\<forall>v. \<exists>s'. ldms_metric_set_u64 0 v s = Some s' \<and> updated L 0 (put 0 (word_bytes v)) s s')"
proof -
  obtain s f L where s: "demo_create = Some (Inr s, f)" "set_wf L s" "l_ents L = sch_metric_list demo_schema"
    using demo_set by blast
  then have "typed_set_get L s 0" "md_type (ent_mdef (l_ents L ! 0)) = LDMS_V_U64"
    using scalar_set_get [of L s 0] demo_length demo_type_nth [of 0] by simp_all
  then show ?thesis using s(1) by (fastforce simp: typed_set_get_def set_get_def)
qed

text \<open>
  C34. The same for arrays: a typed setter of an element changes that element of the array in the
  current buffer and nothing else, the getter reads every element back as the last setter left it, an
  index outside of the array, negative ones included, ends in the assertion of the accessor, and a
  string shorter than a character array is read back whole.
\<close>

theorem array_set_get:
  assumes "set_wf L s" "i < length (l_ents L)"
  shows "typed_elem_set_get L s i \<and>
    (\<forall>str. md_type (ent_mdef (l_ents L ! i)) = LDMS_V_CHAR_ARRAY \<and> length str < elems L i \<and> c_string str \<longrightarrow>
      (\<exists>s'. ldms_metric_array_set_str (int i) str s = Some s' \<and> set_wf L s' \<and>
         (visible L s i \<longrightarrow> ldms_metric_array_get_str s' (int i) = Some str)))"
  using typed_elem_set_get_wf [OF assms] str_set_get_wf [OF assms] updatedD(1) by blast

theorem array_set_get_witness:
  "\<exists>s f L. demo_create = Some (Inr s, f) \<and> elems L 1 = 4 \<and>
    (\<forall>v. \<exists>s'. ldms_metric_array_set_u32 1 3 v s = Some s' \<and> updated L 1 (put 12 (word_bytes v)) s s') \<and>
    ldms_metric_array_set_u32 1 (-1) 7 s = None"
proof -
  obtain s f L where s: "demo_create = Some (Inr s, f)" "set_wf L s" "l_ents L = sch_metric_list demo_schema"
    using demo_set by blast
  have "md_count (ent_mdef (sch_metric_list demo_schema ! 1)) = 4" by code_simp
  then have n: "elems L 1 = 4" by (simp add: elems_def s(3))
  have "elem_set_get L s 1 4 ldms_metric_array_set_u32 ldms_metric_array_get_u32"
    using array_set_get [of L s 1] s(2,3) demo_length demo_type_nth [of 1] by (simp add: typed_elem_set_get_def)
  then have e: "\<forall>j < 4. \<forall>v. \<exists>s'. ldms_metric_array_set_u32 1 (int j) v s = Some s' \<and> updated L 1 (put (j * 4) (word_bytes v)) s s'"
    and none: "\<forall>idx v. 4 \<le> unat (word_of_int idx :: u32) \<longrightarrow> ldms_metric_array_set_u32 1 idx v s = None"
    unfolding elem_set_get_def n of_nat_1 by blast+
  have "\<forall>v. \<exists>s'. ldms_metric_array_set_u32 1 3 v s = Some s' \<and> updated L 1 (put 12 (word_bytes v)) s s'"
    using e [rule_format, of 3] by simp
  moreover have "4 \<le> unat (word_of_int (-1) :: u32)" by (simp add: unsigned_minus_1_eq_mask mask_eq_exp_minus_1)
  ultimately show ?thesis using s(1) n none by blast
qed

subsection \<open>Transactions\<close>

text \<open>The bytes a reader gets at the address \<open>ldms_metric_get\<close> returns.\<close>

definition reads :: "layout \<Rightarrow> ldms_set \<Rightarrow> nat \<Rightarrow> u8 list option" where
  "reads L s i = do {
     a \<leftarrow> ldms_metric_get s (int i);
     case a of Some a \<Rightarrow> load a (value_sz L i) (set_mem s) | None \<Rightarrow> None }"

lemma reads_view: "set_wf L s \<Longrightarrow> i < length (l_ents L) \<Longrightarrow> reads L s i = view L s i"
  by (simp add: reads_def desc_fields(3) view_def content_def)

lemma prev_next:
  assumes "set_wf L s" shows "(next_idx L s + (l_bufs L - 1)) mod l_bufs L = set_curr_idx s"
proof (cases "set_curr_idx s + 1 = l_bufs L")
  case True
  then show ?thesis by (simp add: next_idx_def flip: True)
next
  case False
  then show ?thesis using set_wfD(4) [OF assms] by (simp add: next_idx_def)
qed

lemma header_reads:
  assumes "set_wf L s"
  shows "ldms_set_is_consistent s = Some (\<not> in_transaction s)" "\<exists>sec usec. ldms_transaction_timestamp_get s = Some (sec, usec)"
proof -
  have "\<exists>v. peek 4 (set_data s + x) (set_mem s) = Some v" if "x \<le> 92" for x
    using that hdr_room [OF assms] by (intro peek_Some) simp
  from this [of d_trans_flags] this [of d_ts_sec] this [of d_ts_usec]
  show "ldms_set_is_consistent s = Some (\<not> in_transaction s)" "\<exists>sec usec. ldms_transaction_timestamp_get s = Some (sec, usec)"
    by (auto simp: ldms_set_is_consistent_def in_transaction_def ldms_transaction_timestamp_get_def)
qed

definition buffered :: "layout \<Rightarrow> nat \<Rightarrow> bool" where
  "buffered L i \<longleftrightarrow> is_data (ent_mdef (l_ents L ! i)) \<and>
     md_type (ent_mdef (l_ents L ! i)) \<noteq> LDMS_V_LIST \<and> md_type (ent_mdef (l_ents L ! i)) \<noteq> LDMS_V_RECORD_ARRAY"

lemma view_in_transaction:
  assumes "set_wf L s" "set_wf L s'" "in_transaction s'" "set_curr_idx s' = next_idx L s" "buffered L i"
  shows "view L s' i = content L s' (set_curr_idx s) i"
  using assms prev_next [OF assms(1)] by (simp add: view_def read_buf_def buffered_def)

text \<open>A whole transaction: a begin, the calls inside, and an end.\<close>

lemma transaction_runs:
  assumes wf: "set_wf L s" and ops: "list_all (value_op_ok L) ops"
  obtains s1 s2 s3 where "ldms_transaction_begin tv s = Some s1" "moved L s s1" "in_transaction s1"
    "value_run ops s1 = Some s2" "changed_by L ops s1 s2" "ldms_transaction_end tv' s2 = Some s3" "same_values L s2 s3" "\<not> in_transaction s3"
proof -
  obtain s1 where s1: "ldms_transaction_begin tv s = Some s1" "moved L s s1" "in_transaction s1"
    using ldms_transaction_begin_ok [OF wf] by blast
  obtain s2 where s2: "value_run ops s1 = Some s2" "changed_by L ops s1 s2"
    using value_run_ok [OF _ ops, of s1] s1(2) by (auto simp: moved_def)
  then have wf2: "set_wf L s2" by (simp add: changed_by_def)
  with header_reads(2) obtain sec usec where "ldms_transaction_timestamp_get s2 = Some (sec, usec)" by blast
  with ldms_transaction_end_ok [OF wf2] obtain s3 where "ldms_transaction_end tv' s2 = Some s3" "same_values L s2 s3" "\<not> in_transaction s3"
    by (metis surj_pair)
  with s1 s2 show thesis by (rule that)
qed

lemma transaction_isolated:
  assumes wf: "set_wf L s" "l_bufs L \<noteq> 1" and m: "moved L s s1" "in_transaction s1" and c: "changed_by L ops s1 s2"
    and i: "i < length (l_ents L)" "buffered L i"
  shows "reads L s1 i = content L s (set_curr_idx s) i" "reads L s2 i = content L s (set_curr_idx s) i"
proof -
  have s1: "set_wf L s1" "set_curr_idx s1 = next_idx L s" using m by (auto simp: moved_def)
  have s2: "set_wf L s2" "set_curr_idx s2 = next_idx L s" "in_transaction s2" using c s1 m(2) by (auto simp: changed_by_def)
  have "content L s1 (set_curr_idx s) i = content L s (set_curr_idx s) i" "content L s2 (set_curr_idx s) i = content L s1 (set_curr_idx s) i"
    using m c i set_wfD(4) [OF wf(1)] next_idx_neq [OF wf] s1(2) by (auto simp: moved_def changed_by_def buffered_def)
  then show "reads L s1 i = content L s (set_curr_idx s) i" "reads L s2 i = content L s (set_curr_idx s) i"
    using view_in_transaction [OF wf(1) s1(1) m(2) s1(2) i(2)] view_in_transaction [OF wf(1) s2(1,3,2) i(2)]
      reads_view [OF s1(1) i(1)] reads_view [OF s2(1) i(1)] by simp_all
qed

text \<open>
  C35. Transactions are atomic for readers of a set with several buffers. From the begin of a
  transaction on, and whatever is set in it, readers see the values from before it (lists and arrays
  of records apart, which are read in place) and the set reports itself inconsistent. Its end shows
  them all that was set at once, and the set is consistent. Values that were not set keep what they
  had before the transaction when the set copies data between its buffers, and metadata always does.
\<close>

theorem transaction_atomic:
  assumes wf: "set_wf L s" and "\<not> in_transaction s" "l_bufs L \<noteq> 1" and ops: "list_all (value_op_ok L) ops"
  shows "\<exists>s1 s2 s3. ldms_transaction_begin tv s = Some s1 \<and> value_run ops s1 = Some s2 \<and> ldms_transaction_end tv' s2 = Some s3 \<and>
    set_wf L s3 \<and> ldms_set_is_consistent s2 = Some False \<and> ldms_set_is_consistent s3 = Some True \<and>
    (\<forall>i < length (l_ents L). buffered L i \<longrightarrow> reads L s1 i = reads L s i \<and> reads L s2 i = reads L s i) \<and>
    (\<exists>c. (copies_data s \<longrightarrow> c) \<and> (\<forall>i < length (l_ents L). reads L s3 i = map_option (effects L ops i)
       (if c \<or> \<not> is_data (ent_mdef (l_ents L ! i)) then reads L s i else content L s (next_idx L s) i)))"
proof -
  obtain s1 s2 s3 where t: "ldms_transaction_begin tv s = Some s1" "moved L s s1" "in_transaction s1" "value_run ops s1 = Some s2"
    "changed_by L ops s1 s2" "ldms_transaction_end tv' s2 = Some s3" "same_values L s2 s3" "\<not> in_transaction s3"
    using transaction_runs [OF wf ops] by blast
  have cur: "set_curr_idx s1 = next_idx L s" "set_wf L s2" "in_transaction s2" "set_wf L s3" "set_curr_idx s3 = next_idx L s"
    using t(2,3,5,7) by (auto simp: moved_def changed_by_def same_values_def)
  have old: "reads L s i = content L s (set_curr_idx s) i" if "i < length (l_ents L)" for i
    using reads_view [OF wf that] view_visible [OF wf] assms(2) by (simp add: visible_def)
  obtain c where c: "copies_data s \<longrightarrow> c" "\<forall>i < length (l_ents L). \<forall>k < l_bufs L. content L s1 k i =
      content L s (if c \<and> is_data (ent_mdef (l_ents L ! i)) \<and> k = next_idx L s then set_curr_idx s else k) i"
    using t(2) unfolding moved_def by blast
  have "reads L s3 i = map_option (effects L ops i)
       (if c \<or> \<not> is_data (ent_mdef (l_ents L ! i)) then reads L s i else content L s (next_idx L s) i)" if i: "i < length (l_ents L)" for i
  proof -
    have "reads L s3 i = content L s2 (next_idx L s) i"
      using reads_view [OF cur(4) i] view_visible [OF cur(4)] t(7,8) cur(5) i by (simp add: visible_def same_values_def)
    also have "\<dots> = map_option (effects L ops i) (content L s1 (next_idx L s) i)" using t(5) i cur(1) by (simp add: changed_by_def)
    finally show ?thesis using c(2) i old [OF i] next_idx_bound [OF wf] by (auto simp: content_def value_at_def)
  qed
  moreover have "reads L s1 i = reads L s i \<and> reads L s2 i = reads L s i" if "i < length (l_ents L)" "buffered L i" for i
    using transaction_isolated [OF wf assms(3) t(2,3,5) that] old [OF that(1)] by simp
  moreover have "ldms_set_is_consistent s2 = Some False" "ldms_set_is_consistent s3 = Some True"
    using t(8) cur(3) header_reads(1) [OF cur(2)] header_reads(1) [OF cur(4)] by simp_all
  ultimately show ?thesis using t(1,4,6) c(1) cur(4) by blast
qed

theorem transaction_atomic_witness:
  "\<exists>s f L t s1 s2 s3. demo_create = Some (Inr s, f) \<and> Option.bind (ldms_transaction_begin (10, 0) s) (ldms_transaction_end (11, 0)) = Some t \<and>
    ldms_transaction_begin (20, 0) t = Some s1 \<and> value_run [SetVal 0 (word_bytes (7 :: u64))] s1 = Some s2 \<and>
    ldms_transaction_end (21, 0) s2 = Some s3 \<and> reads L s2 0 = reads L t 0 \<and> ldms_set_is_consistent s3 = Some True"
proof -
  obtain s f L where s: "demo_create = Some (Inr s, f)" "set_wf L s" "l_ents L = sch_metric_list demo_schema" "l_bufs L = 2"
    using demo_set by blast
  have "list_all (value_op_ok L) []" by simp
  from transaction_runs [OF s(2) this, of "(10, 0)" "(11, 0)"] obtain s1 s2 t where t: "ldms_transaction_begin (10, 0) s = Some s1"
    "value_run [] s1 = Some s2" "ldms_transaction_end (11, 0) s2 = Some t" "same_values L s2 t" "\<not> in_transaction t"
    by blast
  have "md_flags (ent_mdef (sch_metric_list demo_schema ! 0)) = 1" by code_simp
  then have "buffered L 0" "value_op_ok L (SetVal 0 (word_bytes (7 :: u64)))" "set_wf L t" "0 < length (l_ents L)"
    using demo_type_nth [of 0] demo_length s(3) t(4) by (simp_all add: buffered_def same_values_def)
  with transaction_atomic [of L t "[SetVal 0 (word_bytes (7 :: u64))]" "(20, 0)" "(21, 0)"] t s
  show ?thesis by fastforce
qed

text \<open>
  C36. A transaction stamps the set with the clock: with its begin while it is open and with its end
  when it is over, whatever was set in between, and its duration is exact: the seconds and
  microseconds between the two readings of the clock, with the microseconds below one million.
\<close>

theorem transaction_duration:
  assumes wf: "set_wf L s" and ops: "list_all (value_op_ok L) ops"
    and t: "u0 < 1000000" "u1 < 1000000" "t0 * 1000000 + u0 \<le> t1 * 1000000 + u1" "t1 < 2 ^ 32"
  shows "\<exists>s1 s2 s3 dsec dusec. ldms_transaction_begin (t0, u0) s = Some s1 \<and> value_run ops s1 = Some s2 \<and>
    ldms_transaction_end (t1, u1) s2 = Some s3 \<and> ldms_transaction_timestamp_get s2 = Some (t0, u0) \<and>
    ldms_transaction_timestamp_get s3 = Some (t1, u1) \<and> ldms_transaction_duration_get s3 = Some (dsec, dusec) \<and>
    dusec < 1000000 \<and> dsec * 1000000 + dusec = (t1 * 1000000 + u1) - (t0 * 1000000 + u0)"
proof -
  have small: "t0 < 2 ^ 32" "u0 < 2 ^ 32" "u1 < 2 ^ 32" using t by auto
  obtain s1 where s1: "ldms_transaction_begin (t0, u0) s = Some s1" "moved L s s1" "ldms_transaction_timestamp_get s1 = Some (t0, u0)"
    using ldms_transaction_begin_ok [OF wf, of "(t0, u0)"] small by auto
  obtain s2 where s2: "value_run ops s1 = Some s2" "changed_by L ops s1 s2"
    using value_run_ok [OF _ ops, of s1] s1(2) by (auto simp: moved_def)
  then have ts: "set_wf L s2" "ldms_transaction_timestamp_get s2 = Some (t0, u0)" using s1(3) by (simp_all add: changed_by_def)
  obtain dsec dusec where d: "duration (t1, u1) (of_nat t0) (of_nat u0) = (dsec, dusec)" by (cases "duration (t1, u1) (of_nat t0) (of_nat u0)")
  then obtain s3 where "ldms_transaction_end (t1, u1) s2 = Some s3" "ldms_transaction_timestamp_get s3 = Some (t1, u1)"
    "ldms_transaction_duration_get s3 = Some (unat dsec, unat dusec)"
    using ldms_transaction_end_ok [OF ts d] t(4) small by auto
  with s1(1) s2(1) ts(2) duration_diff [OF t d] show ?thesis by blast
qed

theorem transaction_duration_witness:
  "\<exists>s f s1 s2 s3. demo_create = Some (Inr s, f) \<and> ldms_transaction_begin (10, 900000) s = Some s1 \<and>
    value_run [SetVal 0 (word_bytes (7 :: u64))] s1 = Some s2 \<and> ldms_transaction_end (12, 100000) s2 = Some s3 \<and>
    ldms_transaction_duration_get s3 = Some (1, 200000)"
proof -
  obtain s f L where s: "demo_create = Some (Inr s, f)" "set_wf L s" "l_ents L = sch_metric_list demo_schema"
    using demo_set by blast
  have ops: "list_all (value_op_ok L) [SetVal 0 (word_bytes (7 :: u64))]" using demo_type_nth [of 0] demo_length s(3) by simp
  have u: "(900000 :: nat) < 1000000" "(100000 :: nat) < 1000000" "10 * 1000000 + 900000 \<le> 12 * 1000000 + (100000 :: nat)" "(12 :: nat) < 2 ^ 32"
    by simp_all
  obtain s1 s2 s3 dsec dusec where r: "ldms_transaction_begin (10, 900000) s = Some s1"
    "value_run [SetVal 0 (word_bytes (7 :: u64))] s1 = Some s2" "ldms_transaction_end (12, 100000) s2 = Some s3"
    "ldms_transaction_duration_get s3 = Some (dsec, dusec)" "dusec < 1000000"
    "dsec * 1000000 + dusec = (12 * 1000000 + 100000) - (10 * 1000000 + 900000)"
    using transaction_duration [OF s(2) ops u(1,2,3,4)] by blast
  have "dsec * 1000000 + dusec = 1200000" using r(6) by simp
  moreover from this have "dsec < 2" "0 < dsec" using r(5) by (linarith, cases "dsec = 0") auto
  ultimately have "dsec = 1 \<and> dusec = 200000" by (cases "dsec = 1") auto
  then show ?thesis using s(1) r(1-4) by blast
qed

subsection \<open>Values behind an array of records\<close>

lemma set_u64_outside:
  assumes wf: "layout_wf L" "hdr_wf L m" and L: "l_ents L = es" "l_hp L = 0" "l_ds L = sizeof_data_hdr + sum_list (map data_part es)"
    and j: "j < length es" "is_data (ent_mdef (es ! j))" "md_type (ent_mdef (es ! j)) = LDMS_V_U64" "data_off es j < 2 ^ 32"
    and a: "a < j" "md_type (ent_mdef (es ! a)) = LDMS_V_RECORD_ARRAY" "md_count (ent_mdef (es ! a)) \<noteq> 0"
    and last: "\<And>i. j < i \<Longrightarrow> i < length es \<Longrightarrow> \<not> is_data (ent_mdef (es ! i))"
  shows "ldms_metric_set_u64 (int j) v (new_set L meta m) = None"
proof -
  have es: "\<And>e. e \<in> set es \<Longrightarrow> ent_wf e" "ent_wf (es ! j)" using wf(1) L(1) j(1) by (auto simp: layout_wf_def)
  have "md_data_sz (ent_mdef (es ! j)) = 8"
    using es(2) j(3) by (cases "es ! j") (auto simp: rec_wf_def vsize_def ldms_value_size_get_def roundup_8)
  then have far: "l_ds L + 16 \<le> data_off es j + 8"
    using data_behind_array [OF es(1) a j(1) last] j(2) L(3) by (simp add: data_part_def)
  have "0 < l_bufs L" "length m = l_buf L (l_bufs L)" using wf by (auto simp: layout_wf_def hdr_wf_def)
  then have len: "length m = l_buf L (l_bufs L - 1) + l_ds L" using L(2) by (cases "l_bufs L") (auto simp: l_buf_def l_w_def)
  have "descs_at es 0 (l_vd L) sizeof_data_hdr m" "peek 4 h_card m = Some (length es)" using wf(2) L(1) by (auto simp: hdr_wf_def)
  with descs_at_nth [OF this(1) j(1)] have "mval_to_set (new_set L meta m) (int j) =
      Some (Some (l_buf L (l_bufs L - 1) + data_off es j, l_vd L + descs_size (take j es)))"
    using j by (simp add: mval_to_set_def new_set_def desc_ok_def data_off_def)
  moreover have "store (l_buf L (l_bufs L - 1) + data_off es j) (word_bytes v) m = None" using far len by (simp add: store_def)
  ultimately show ?thesis by (simp add: ldms_metric_set_u64_def metric_put_def new_set_def)
qed


definition bad_ops :: "(bool \<times> schema_op) list" where
  "bad_ops = [(True, AddRecord ''rec'' [(''x'', None, LDMS_V_U64, 1)]), (True, AddRecordArray ''recs'' 0 2), (True, AddMetric ''lost'' None LDMS_V_U64)]"

definition bad_schema :: ldms_schema where
  "bad_schema = the (Option.bind (ldms_schema_new True ''bad'') (schema_run bad_ops))"

lemma bad_run: "Option.bind (ldms_schema_new True ''bad'') (schema_run bad_ops) = Some bad_schema"
  unfolding bad_schema_def by code_simp

lemma bad_ops_ok: "list_all op_ok bad_ops"
  by (simp add: bad_ops_def plain_type_def c_string_def)

lemma bad_facts:
  "map (\<lambda>e. (md_type (ent_mdef e), is_data (ent_mdef e), md_count (ent_mdef e))) (sch_metric_list bad_schema) =
     [(LDMS_V_RECORD_TYPE, False, 0), (LDMS_V_RECORD_ARRAY, True, 2), (LDMS_V_U64, True, 1)]"
  "set_bytes ''n1/bad'' bad_schema 0 = 576" "data_off (sch_metric_list bad_schema) 2 = 240"
  by code_simp+


end
