(* ===== verification/RowKeys.thy ===== *)
theory RowKeys
  imports RbtForeach LdmsSchema
begin

section \<open>Keys of cached rows (ldms/src/ldmsd/ldmsd_row_cache.c)\<close>

text \<open>
  Groups and rows of the row cache are found by tuples of metric values. A value is kept as the bytes
  of the metric, as \<^verbatim>\<open>memcpy\<close> brings them in, with its type; the comparator reads them back as the
  machine does: little-endian, \<^verbatim>\<open>char\<close> signed, and floating point numbers by IEEE 754, where a NaN
  is neither equal to nor greater than anything.
\<close>

record row_key =
  rk_type :: ldms_value_type
  rk_count :: nat
  rk_mval_size :: nat
  rk_mval :: mem

record row_idx =
  key_count :: int
  keys :: "row_key list"

subsection \<open>Creating and copying\<close>

text \<open>
  \<open>calloc_ok\<close> and \<open>mem_ok\<close> say whether the allocations of a call succeed. A key is written to without
  a check; the other two return \<^verbatim>\<open>NULL\<close>, the inner \<^term>\<open>None\<close> of a copy.
\<close>

definition ldmsd_row_cache_key_create :: "bool \<Rightarrow> ldms_value_type \<Rightarrow> nat \<Rightarrow> row_key option" where
  "ldmsd_row_cache_key_create calloc_ok type len = do {
     size \<leftarrow> ldms_value_size_get type (of_nat len);
     if \<not> calloc_ok then None
     else Some \<lparr>rk_type = type, rk_count = len, rk_mval_size = size, rk_mval = replicate size 0\<rparr> }"

definition ldmsd_row_cache_idx_create :: "bool \<Rightarrow> int \<Rightarrow> row_key list \<Rightarrow> row_idx option" where
  "ldmsd_row_cache_idx_create calloc_ok n ks =
     (if calloc_ok then Some \<lparr>key_count = n, keys = ks\<rparr> else None)"

fun dup_keys :: "nat \<Rightarrow> row_key list \<Rightarrow> row_key list option" where
  "dup_keys 0 ks = Some []"
| "dup_keys (Suc n) [] = None"
| "dup_keys (Suc n) (k # ks) = do {
     mval \<leftarrow> load 0 (rk_mval_size k) (rk_mval k);
     ds \<leftarrow> dup_keys n ks;
     Some (k\<lparr>rk_mval := mval\<rparr> # ds) }"

definition ldmsd_row_cache_idx_dup :: "bool \<Rightarrow> row_idx \<Rightarrow> row_idx option option" where
  "ldmsd_row_cache_idx_dup mem_ok idx =
     (if mem_ok
      then do { ds \<leftarrow> dup_keys (nat (key_count idx)) (keys idx); Some (Some \<lparr>key_count = key_count idx, keys = ds\<rparr>) }
      else Some None)"

subsection \<open>The comparator\<close>

text \<open>\<^verbatim>\<open>strncmp\<close> of the C library: it stops at a difference, at a zero byte, or after \<open>n\<close> bytes.\<close>

fun strncmp :: "mem \<Rightarrow> mem \<Rightarrow> nat \<Rightarrow> int option" where
  "strncmp s t 0 = Some 0"
| "strncmp (a # s) (b # t) (Suc n) =
     (if a \<noteq> b then Some (uint a - uint b) else if a = 0 then Some 0 else strncmp s t n)"
| "strncmp [] t (Suc n) = None"
| "strncmp s [] (Suc n) = None"

definition num_cmp :: "int \<Rightarrow> int \<Rightarrow> int" where
  "num_cmp a b = (if a = b then 0 else if a > b then 1 else - 1)"

definition unsigned_cmp :: "nat \<Rightarrow> mem \<Rightarrow> mem \<Rightarrow> int option" where
  "unsigned_cmp w s t = do { a \<leftarrow> peek w 0 s; b \<leftarrow> peek w 0 t; Some (num_cmp (int a) (int b)) }"

definition signed_val :: "nat \<Rightarrow> nat \<Rightarrow> int" where
  "signed_val w n = (if n < 2 ^ (8 * w - 1) then int n else int n - 2 ^ (8 * w))"

definition signed_cmp :: "nat \<Rightarrow> mem \<Rightarrow> mem \<Rightarrow> int option" where
  "signed_cmp w s t = do { a \<leftarrow> peek w 0 s; b \<leftarrow> peek w 0 t; Some (num_cmp (signed_val w a) (signed_val w b)) }"

text \<open>
  Floating point numbers of \<open>e\<close> exponent and \<open>f\<close> fraction bits from their bit pattern: the order of
  the numbers is that of the pattern without its sign bit, negated below zero. A NaN has no place in it.
\<close>

definition float_ord :: "nat \<Rightarrow> nat \<Rightarrow> nat \<Rightarrow> int option" where
  "float_ord e f n =
     (let mag = n mod 2 ^ (e + f)
      in if mag > (2 ^ e - 1) * 2 ^ f then None else Some (if n < 2 ^ (e + f) then int mag else - int mag))"

definition float_cmp :: "nat \<Rightarrow> nat \<Rightarrow> nat \<Rightarrow> mem \<Rightarrow> mem \<Rightarrow> int option" where
  "float_cmp w e f s t = do {
     a \<leftarrow> peek w 0 s; b \<leftarrow> peek w 0 t;
     Some (case (float_ord e f a, float_ord e f b) of (Some x, Some y) \<Rightarrow> num_cmp x y | _ \<Rightarrow> - 1) }"

definition timestamp_cmp :: "mem \<Rightarrow> mem \<Rightarrow> int option" where
  "timestamp_cmp s t = do {
     sa \<leftarrow> peek 4 0 s; sb \<leftarrow> peek 4 0 t; ua \<leftarrow> peek 4 4 s; ub \<leftarrow> peek 4 4 t;
     Some (if sa < sb then - 1 else if sa > sb then 1 else if ua < ub then - 1 else if ua > ub then 1 else 0) }"

text \<open>One round of the loop of \<^verbatim>\<open>tree_comparator\<close>: 0 goes on to the next key.\<close>

definition key_cmp :: "row_key \<Rightarrow> row_key \<Rightarrow> int option" where
  "key_cmp a b = (let s = rk_mval a; t = rk_mval b in
     case rk_type a of
       LDMS_V_TIMESTAMP \<Rightarrow> timestamp_cmp s t
     | LDMS_V_CHAR_ARRAY \<Rightarrow> strncmp s t (rk_count a)
     | LDMS_V_CHAR \<Rightarrow> signed_cmp 1 s t
     | LDMS_V_U8 \<Rightarrow> unsigned_cmp 1 s t
     | LDMS_V_S8 \<Rightarrow> signed_cmp 1 s t
     | LDMS_V_U16 \<Rightarrow> unsigned_cmp 2 s t
     | LDMS_V_S16 \<Rightarrow> signed_cmp 2 s t
     | LDMS_V_U32 \<Rightarrow> unsigned_cmp 4 s t
     | LDMS_V_S32 \<Rightarrow> signed_cmp 4 s t
     | LDMS_V_U64 \<Rightarrow> unsigned_cmp 8 s t
     | LDMS_V_S64 \<Rightarrow> signed_cmp 8 s t
     | LDMS_V_F32 \<Rightarrow> float_cmp 4 8 23 s t
     | LDMS_V_D64 \<Rightarrow> float_cmp 8 11 52 s t
     | _ \<Rightarrow> None)"

fun cmp_keys :: "nat \<Rightarrow> row_key list \<Rightarrow> row_key list \<Rightarrow> int option" where
  "cmp_keys 0 as bs = Some 0"
| "cmp_keys (Suc n) (a # as) (b # bs) = do {
     c_assert (rk_type a = rk_type b);
     c \<leftarrow> key_cmp a b;
     if c \<noteq> 0 then Some c else cmp_keys n as bs }"
| "cmp_keys (Suc n) [] bs = None"
| "cmp_keys (Suc n) as [] = None"

definition tree_comparator :: "row_idx \<Rightarrow> row_idx \<Rightarrow> int option" where
  "tree_comparator a b = do {
     c_assert (key_count a = key_count b);
     cmp_keys (nat (key_count a)) (keys a) (keys b) }"

text \<open>
  The comparator as the trees call it. A tree has no way to fail in its comparator; the assertions
  hold for keys of one shape, see below, which is what the theorems about the cache ask for.
\<close>

definition row_cmp :: "row_idx \<Rightarrow> row_idx \<Rightarrow> int" where
  "row_cmp a b = (case tree_comparator a b of Some c \<Rightarrow> c | None \<Rightarrow> 0)"

subsection \<open>The laws of the comparator\<close>

text \<open>
  Keys of one shape: as many values as the shape has types, each with the bytes of its type, arrays
  of one length, and no NaN. On them the comparator never runs into an assertion and is an order.
\<close>

definition not_nan :: "ldms_value_type \<Rightarrow> mem \<Rightarrow> bool" where
  "not_nan ty m \<longleftrightarrow>
     (ty = LDMS_V_F32 \<longrightarrow> float_ord 8 23 (le_nat (take 4 m)) \<noteq> None) \<and>
     (ty = LDMS_V_D64 \<longrightarrow> float_ord 11 52 (le_nat (take 8 m)) \<noteq> None)"

definition key_ok :: "ldms_value_type \<times> nat \<Rightarrow> row_key \<Rightarrow> bool" where
  "key_ok ty k \<longleftrightarrow>
     rk_type k = fst ty \<and> rk_count k = snd ty \<and> rk_mval_size k = length (rk_mval k) \<and>
     (\<exists>n. value_bytes (fst ty) (snd ty) = Some n \<and> n \<le> length (rk_mval k)) \<and> not_nan (fst ty) (rk_mval k)"

definition orderable :: "ldms_value_type \<Rightarrow> bool" where
  "orderable ty \<longleftrightarrow> ty \<in> {LDMS_V_TIMESTAMP, LDMS_V_CHAR_ARRAY, LDMS_V_CHAR, LDMS_V_U8, LDMS_V_S8, LDMS_V_U16,
     LDMS_V_S16, LDMS_V_U32, LDMS_V_S32, LDMS_V_U64, LDMS_V_S64, LDMS_V_F32, LDMS_V_D64}"

definition row_keys :: "(ldms_value_type \<times> nat) list \<Rightarrow> row_idx set" where
  "row_keys sh = {k. key_count k = int (length (keys k)) \<and> list_all2 key_ok sh (keys k) \<and> (\<forall>ty \<in> set sh. orderable (fst ty))}"

lemma comparator_laws_num:
  assumes "\<And>a b. a \<in> K \<Longrightarrow> b \<in> K \<Longrightarrow> cmp a b = num_cmp (v a) (v b)"
  shows "comparator_laws cmp K"
  by unfold_locales (auto simp: assms num_cmp_def split: if_splits)

lemma comparator_laws_lex:
  assumes f: "comparator_laws f A" and g: "comparator_laws g B"
    and h: "\<And>a as b bs. a \<in> A \<Longrightarrow> b \<in> A \<Longrightarrow> as \<in> B \<Longrightarrow> bs \<in> B \<Longrightarrow> h (a # as) (b # bs) = (if f a b \<noteq> 0 then f a b else g as bs)"
  shows "comparator_laws h {a # as | a as. a \<in> A \<and> as \<in> B}"
proof unfold_locales
  fix x assume "x \<in> {a # as | a as. a \<in> A \<and> as \<in> B}"
  then show "h x x = 0" using comparator_laws.cmp_refl [OF f] comparator_laws.cmp_refl [OF g] by (auto simp: h)
next
  fix x y assume "x \<in> {a # as | a as. a \<in> A \<and> as \<in> B}" "y \<in> {a # as | a as. a \<in> A \<and> as \<in> B}"
  then obtain a as b bs where x: "x = a # as" "a \<in> A" "as \<in> B" and y: "y = b # bs" "b \<in> A" "bs \<in> B" by blast
  then show "h x y > 0 \<longleftrightarrow> h y x < 0"
    using comparator_laws.cmp_flip [OF f, of a b] comparator_laws.cmp_eq_flip [OF f, of a b]
      comparator_laws.cmp_flip [OF g, of as bs] by (auto simp: h)
next
  fix x y z
  assume "x \<in> {a # as | a as. a \<in> A \<and> as \<in> B}" "y \<in> {a # as | a as. a \<in> A \<and> as \<in> B}" "z \<in> {a # as | a as. a \<in> A \<and> as \<in> B}"
  then obtain a as b bs c cs where x: "x = a # as" "a \<in> A" "as \<in> B" and y: "y = b # bs" "b \<in> A" "bs \<in> B"
    and z: "z = c # cs" "c \<in> A" "cs \<in> B" by blast
  assume le: "h x y \<le> 0" "h y z \<le> 0"
  have ab: "f a b \<le> 0" and bc: "f b c \<le> 0" using le x y z by (auto simp: h split: if_splits)
  have ac: "f a c \<le> 0" using comparator_laws.cmp_trans [OF f x(2) y(2) z(2) ab bc] .
  show "h x z \<le> 0"
  proof (cases "f a c = 0")
    case True
    then have ca: "f c a = 0" using comparator_laws.cmp_eq_flip [OF f x(2) z(2)] by simp
    have "f b a \<le> 0" using comparator_laws.cmp_trans [OF f y(2) z(2) x(2) bc] ca by simp
    then have "f a b = 0" using ab comparator_laws.cmp_le_flip [OF f x(2) y(2)] by simp
    moreover have "f c b \<le> 0" using comparator_laws.cmp_trans [OF f z(2) x(2) y(2)] ca ab by simp
    then have "f b c = 0" using bc comparator_laws.cmp_le_flip [OF f y(2) z(2)] by simp
    ultimately show ?thesis
      using le x y z True comparator_laws.cmp_trans [OF g x(3) y(3) z(3)] by (simp add: h)
  qed (use ac x z in \<open>simp add: h\<close>)
qed

subsubsection \<open>Arrays of characters\<close>

definition strn :: "nat \<Rightarrow> mem \<Rightarrow> mem \<Rightarrow> int" where
  "strn n s t = (case strncmp s t n of Some c \<Rightarrow> c | None \<Rightarrow> 0)"

lemma strncmp_total: "n \<le> length s \<Longrightarrow> n \<le> length t \<Longrightarrow> \<exists>c. strncmp s t n = Some c"
  by (induction s t n rule: strncmp.induct) auto

lemma strncmp_Some: "n \<le> length s \<Longrightarrow> n \<le> length t \<Longrightarrow> strncmp s t n = Some (strn n s t)"
  using strncmp_total [of n s t] by (auto simp: strn_def)

lemma strn_simps [simp]:
  "strn 0 s t = 0"
  "strn (Suc n) (a # s) (b # t) = (if a \<noteq> b then uint a - uint b else if a = 0 then 0 else strn n s t)"
  by (simp_all add: strn_def)

lemma strn_refl: "n \<le> length s \<Longrightarrow> strn n s s = 0"
proof (induction n arbitrary: s)
  case (Suc n)
  then show ?case by (cases s) auto
qed simp

lemma strn_flip: "n \<le> length s \<Longrightarrow> n \<le> length t \<Longrightarrow> strn n t s = - strn n s t"
proof (induction n arbitrary: s t)
  case (Suc n)
  obtain a s' b t' where l: "s = a # s'" "t = b # t'" using Suc.prems by (cases s; cases t) auto
  then show ?case using Suc.prems Suc.IH [of s' t'] by simp
qed simp

lemma strn_trans:
  "n \<le> length s \<Longrightarrow> n \<le> length t \<Longrightarrow> n \<le> length u \<Longrightarrow> strn n s t \<le> 0 \<Longrightarrow> strn n t u \<le> 0 \<Longrightarrow> strn n s u \<le> 0"
proof (induction n arbitrary: s t u)
  case (Suc n)
  obtain a s' b t' c u' where l: "s = a # s'" "t = b # t'" "u = c # u'"
    using Suc.prems by (cases s; cases t; cases u) auto
  have "uint a \<le> uint b" "uint b \<le> uint c" using Suc.prems(4,5) l by (auto split: if_splits)
  moreover have "a = c \<Longrightarrow> b = c" using calculation by (metis order_antisym word_uint_eq_iff)
  ultimately show ?case using Suc.prems Suc.IH [of s' t' u'] l by (auto split: if_splits)
qed simp

subsubsection \<open>Numbers\<close>

definition key_num :: "ldms_value_type \<Rightarrow> mem \<Rightarrow> int" where
  "key_num ty m = (case ty of
       LDMS_V_TIMESTAMP \<Rightarrow> int (le_nat (take 4 m)) * 2 ^ 32 + int (le_nat (take 4 (drop 4 m)))
     | LDMS_V_CHAR \<Rightarrow> signed_val 1 (le_nat (take 1 m))
     | LDMS_V_U8 \<Rightarrow> int (le_nat (take 1 m))
     | LDMS_V_S8 \<Rightarrow> signed_val 1 (le_nat (take 1 m))
     | LDMS_V_U16 \<Rightarrow> int (le_nat (take 2 m))
     | LDMS_V_S16 \<Rightarrow> signed_val 2 (le_nat (take 2 m))
     | LDMS_V_U32 \<Rightarrow> int (le_nat (take 4 m))
     | LDMS_V_S32 \<Rightarrow> signed_val 4 (le_nat (take 4 m))
     | LDMS_V_U64 \<Rightarrow> int (le_nat (take 8 m))
     | LDMS_V_S64 \<Rightarrow> signed_val 8 (le_nat (take 8 m))
     | LDMS_V_F32 \<Rightarrow> the (float_ord 8 23 (le_nat (take 4 m)))
     | LDMS_V_D64 \<Rightarrow> the (float_ord 11 52 (le_nat (take 8 m)))
     | _ \<Rightarrow> 0)"

lemma peek_at: "a + w \<le> length m \<Longrightarrow> peek w a m = Some (le_nat (take w (drop a m)))"
  by (simp add: peek_def load_def)

lemma num_cmps:
  "w \<le> length s \<Longrightarrow> w \<le> length t \<Longrightarrow> unsigned_cmp w s t = Some (num_cmp (int (le_nat (take w s))) (int (le_nat (take w t))))"
  "w \<le> length s \<Longrightarrow> w \<le> length t \<Longrightarrow> signed_cmp w s t = Some (num_cmp (signed_val w (le_nat (take w s))) (signed_val w (le_nat (take w t))))"
  "w \<le> length s \<Longrightarrow> w \<le> length t \<Longrightarrow> float_ord e f (le_nat (take w s)) = Some x \<Longrightarrow> float_ord e f (le_nat (take w t)) = Some y \<Longrightarrow>
     float_cmp w e f s t = Some (num_cmp x y)"
  by (simp_all add: unsigned_cmp_def signed_cmp_def float_cmp_def peek_at)

lemma timestamp_cmp_num:
  assumes "8 \<le> length s" and "8 \<le> length t"
  shows "timestamp_cmp s t = Some (num_cmp (key_num LDMS_V_TIMESTAMP s) (key_num LDMS_V_TIMESTAMP t))"
proof -
  have b: "le_nat (take 4 (drop 4 m)) < 4294967296" if "8 \<le> length m" for m :: mem
    using le_nat_bound [of "take 4 (drop 4 m)"] that by simp
  show ?thesis using assms b [of s] b [of t] by (simp add: timestamp_cmp_def peek_at key_num_def num_cmp_def)
qed

lemma key_cmp_num:
  assumes "key_ok (ty, n) a" and "key_ok (ty, n) b" and "orderable ty" and "ty \<noteq> LDMS_V_CHAR_ARRAY"
  shows "key_cmp a b = Some (num_cmp (key_num ty (rk_mval a)) (key_num ty (rk_mval b)))"
proof -
  have t: "rk_type a = ty" "not_nan ty (rk_mval a)" "not_nan ty (rk_mval b)" using assms by (auto simp: key_ok_def)
  have l: "\<exists>w. value_bytes ty n = Some w \<and> w \<le> length (rk_mval a)" "\<exists>w. value_bytes ty n = Some w \<and> w \<le> length (rk_mval b)"
    using assms by (auto simp: key_ok_def)
  consider "ty = LDMS_V_TIMESTAMP" | "ty = LDMS_V_F32" | "ty = LDMS_V_D64"
    | "ty \<in> {LDMS_V_CHAR, LDMS_V_U8, LDMS_V_S8, LDMS_V_U16, LDMS_V_S16, LDMS_V_U32, LDMS_V_S32, LDMS_V_U64, LDMS_V_S64}"
    using assms(3,4) unfolding orderable_def by blast
  then show ?thesis
  proof cases
    case 1
    then show ?thesis using l t by (simp add: key_cmp_def timestamp_cmp_num)
  next
    case 2
    then show ?thesis using l t by (auto simp: key_cmp_def not_nan_def num_cmps key_num_def)
  next
    case 3
    then show ?thesis using l t by (auto simp: key_cmp_def not_nan_def num_cmps key_num_def)
  next
    case 4
    then show ?thesis using l t(1) unfolding insert_iff empty_iff
      by (elim disjE) (simp_all add: key_cmp_def num_cmps key_num_def)
  qed
qed

subsubsection \<open>Tuples\<close>

definition kc :: "row_key \<Rightarrow> row_key \<Rightarrow> int" where
  "kc a b = (case key_cmp a b of Some c \<Rightarrow> c | None \<Rightarrow> 0)"

lemma key_cmp_kc: "key_ok ty a \<Longrightarrow> key_ok ty b \<Longrightarrow> orderable (fst ty) \<Longrightarrow> key_cmp a b = Some (kc a b)"
proof (cases "fst ty = LDMS_V_CHAR_ARRAY")
  case True
  assume "key_ok ty a" "key_ok ty b"
  with True show ?thesis using strncmp_total [of "rk_count a" "rk_mval a" "rk_mval b"]
    by (auto simp: key_ok_def kc_def key_cmp_def)
qed (use key_cmp_num [of "fst ty" "snd ty" a b] in \<open>simp add: kc_def\<close>)

lemma kc_laws: "orderable (fst ty) \<Longrightarrow> comparator_laws kc {k. key_ok ty k}"
proof (cases "fst ty = LDMS_V_CHAR_ARRAY")
  case True
  have kc: "kc a b = strn (snd ty) (rk_mval a) (rk_mval b)" if "key_ok ty a" for a b
    using that True by (simp add: kc_def key_cmp_def strn_def key_ok_def)
  have len: "snd ty \<le> length (rk_mval a)" if "key_ok ty a" for a using that True by (auto simp: key_ok_def)
  show ?thesis
  proof unfold_locales
    fix a b assume "a \<in> {k. key_ok ty k}" "b \<in> {k. key_ok ty k}"
    then show "kc a b > 0 \<longleftrightarrow> kc b a < 0" using strn_flip [OF len [of a] len [of b]] by (simp add: kc)
  next
    fix a b c
    assume "a \<in> {k. key_ok ty k}" "b \<in> {k. key_ok ty k}" "c \<in> {k. key_ok ty k}" "kc a b \<le> 0" "kc b c \<le> 0"
    then show "kc a c \<le> 0" using strn_trans [OF len [of a] len [of b] len [of c]] by (simp add: kc)
  qed (use len in \<open>simp add: kc strn_refl\<close>)
next
  case False
  assume "orderable (fst ty)"
  with False key_cmp_num [of "fst ty" "snd ty"] show ?thesis
    by (intro comparator_laws_num [where v = "\<lambda>k. key_num (fst ty) (rk_mval k)"]) (simp add: kc_def)
qed

definition lc :: "row_key list \<Rightarrow> row_key list \<Rightarrow> int" where
  "lc as bs = (case cmp_keys (length as) as bs of Some c \<Rightarrow> c | None \<Rightarrow> 0)"

lemma cmp_keys_lc:
  "list_all2 key_ok sh as \<Longrightarrow> list_all2 key_ok sh bs \<Longrightarrow> \<forall>ty \<in> set sh. orderable (fst ty) \<Longrightarrow>
   cmp_keys (length as) as bs = Some (lc as bs)"
proof (induction sh arbitrary: as bs)
  case (Cons ty sh)
  obtain a as' b bs' where l: "as = a # as'" "bs = b # bs'" "key_ok ty a" "key_ok ty b" "list_all2 key_ok sh as'" "list_all2 key_ok sh bs'"
    using Cons.prems(1,2) by (auto simp: list_all2_Cons1)
  have "rk_type a = rk_type b" using l by (simp add: key_ok_def)
  moreover have "cmp_keys (length as') as' bs' = Some (lc as' bs')" using Cons l by simp
  ultimately show ?case using l key_cmp_kc [of ty a b] Cons.prems(3) by (simp add: lc_def)
qed (simp add: lc_def)

lemma lc_laws: "\<forall>ty \<in> set sh. orderable (fst ty) \<Longrightarrow> comparator_laws lc {ks. list_all2 key_ok sh ks}"
proof (induction sh)
  case Nil
  show ?case by unfold_locales (auto simp: lc_def)
next
  case (Cons ty sh)
  have h: "lc (a # as) (b # bs) = (if kc a b \<noteq> 0 then kc a b else lc as bs)"
    if "a \<in> {k. key_ok ty k}" "b \<in> {k. key_ok ty k}" "as \<in> {ks. list_all2 key_ok sh ks}" "bs \<in> {ks. list_all2 key_ok sh ks}" for a b as bs
  proof -
    have "rk_type a = rk_type b" using that by (simp add: key_ok_def)
    then show ?thesis using that key_cmp_kc [of ty a b] cmp_keys_lc [of sh as bs] Cons.prems by (simp add: lc_def)
  qed
  have "{a # as | a as. a \<in> {k. key_ok ty k} \<and> as \<in> {ks. list_all2 key_ok sh ks}} = {ks. list_all2 key_ok (ty # sh) ks}"
    by (auto simp: list_all2_Cons1)
  with comparator_laws_lex [OF kc_laws Cons.IH, of ty lc] h Cons.prems show ?case by simp
qed

lemma row_keys_length: "a \<in> row_keys sh \<Longrightarrow> length (keys a) = length sh"
  by (auto simp: row_keys_def dest: list_all2_lengthD)

lemma row_cmp_lc: "a \<in> row_keys sh \<Longrightarrow> b \<in> row_keys sh \<Longrightarrow> row_cmp a b = lc (keys a) (keys b)"
  using row_keys_length [of a sh] row_keys_length [of b sh]
  by (simp add: row_cmp_def tree_comparator_def lc_def) (simp add: row_keys_def)

interpretation rk: comparator_laws row_cmp "row_keys sh" for sh
proof unfold_locales
  fix a assume "a \<in> row_keys sh"
  then show "row_cmp a a = 0" using comparator_laws.cmp_refl [OF lc_laws [of sh], of "keys a"]
    by (simp add: row_cmp_lc) (simp add: row_keys_def)
next
  fix a b assume "a \<in> row_keys sh" "b \<in> row_keys sh"
  then show "row_cmp a b > 0 \<longleftrightarrow> row_cmp b a < 0" using comparator_laws.cmp_flip [OF lc_laws [of sh], of "keys a" "keys b"]
    by (simp add: row_cmp_lc [of _ sh]) (simp add: row_keys_def)
next
  fix a b c assume "a \<in> row_keys sh" "b \<in> row_keys sh" "c \<in> row_keys sh" "row_cmp a b \<le> 0" "row_cmp b c \<le> 0"
  then show "row_cmp a c \<le> 0" using comparator_laws.cmp_trans [OF lc_laws [of sh], of "keys a" "keys b" "keys c"]
    by (simp add: row_cmp_lc [of _ sh]) (simp add: row_keys_def)
qed

lemma comparator_no_assertion: "a \<in> row_keys sh \<Longrightarrow> b \<in> row_keys sh \<Longrightarrow> tree_comparator a b = Some (row_cmp a b)"
  using cmp_keys_lc [of sh "keys a" "keys b"] row_keys_length [of a sh] row_keys_length [of b sh]
  by (simp add: row_cmp_lc [of _ sh] tree_comparator_def) (simp add: row_keys_def)

lemma idx_dup_same: "k \<in> row_keys sh \<Longrightarrow> ldmsd_row_cache_idx_dup True k = Some (Some k)"
proof -
  have "list_all2 key_ok sh ks \<Longrightarrow> dup_keys (length ks) ks = Some ks" for ks
  proof (induction ks arbitrary: sh)
    case (Cons k ks)
    then obtain ty sh' where "key_ok ty k" "list_all2 key_ok sh' ks" by (auto simp: list_all2_Cons2)
    moreover have "dup_keys (length ks) ks = Some ks" using Cons.IH calculation(2) .
    ultimately show ?case by (simp add: load_def key_ok_def)
  qed simp
  then show "k \<in> row_keys sh \<Longrightarrow> ldmsd_row_cache_idx_dup True k = Some (Some k)"
    by (auto simp: ldmsd_row_cache_idx_dup_def row_keys_def)
qed

end
