(* ===== verification/RowCache.thy ===== *)
theory RowCache
  imports RowKeys
begin

section \<open>The row cache (ldms/src/ldmsd/ldmsd_row_cache.c): the code\<close>

text \<open>
  A storage policy with functional operators keeps the last rows of each group. The cache is a
  tree of groups, each with a tree of rows of at most \<^verbatim>\<open>row_limit\<close> entries. Groups are also kept in three
  lists, the buckets, by the time window they were last used in; when the clock leaves the current
  window the groups of the oldest bucket are freed. A group or entry of the model is the C structure
  without its tree node, which is in the store of its tree under the same address; \<open>rc_freed\<close>
  lists the rows handed to \<^verbatim>\<open>free\<close>, in order. The lock makes every call one step.
\<close>

subsection \<open>Time (ldms/src/ldmsd/ldmsd_strgp.c)\<close>

type_synonym timespec = "int \<times> int"

definition ldmsd_timespec_cmp :: "timespec \<Rightarrow> timespec \<Rightarrow> int" where
  "ldmsd_timespec_cmp a b =
     (if fst a < fst b then - 1 else if fst a > fst b then 1
      else if snd a < snd b then - 1 else if snd a > snd b then 1 else 0)"

definition ldmsd_timespec_add :: "timespec \<Rightarrow> timespec \<Rightarrow> timespec" where
  "ldmsd_timespec_add a b =
     (if snd a + snd b < 1000000000 then (fst a + fst b, snd a + snd b)
      else (fst a + fst b + 1, snd a + snd b - 1000000000))"

subsection \<open>Structures\<close>

record row_group =
  rg_row_key_count :: int
  rg_row_tree :: "row_idx rbt"
  rg_last_update :: timespec

record row_entry =
  re_row :: addr
  re_idx :: row_idx

record row_cache =
  rc_row_limit :: int
  rc_group_tree :: "row_idx rbt"
  rc_groups :: "addr \<Rightarrow> row_group option"
  rc_entries :: "addr \<Rightarrow> row_entry option"
  rc_group_bucket :: "addr list list"
  rc_gb_idx :: nat
  rc_bucket_ts :: timespec
  rc_cfg_timeout :: timespec
  rc_freed :: "addr list"

abbreviation GB_LEN :: nat where "GB_LEN \<equiv> 3"

definition ldmsd_row_cache_create :: "bool \<Rightarrow> int \<Rightarrow> timespec option \<Rightarrow> row_cache option" where
  "ldmsd_row_cache_create calloc_ok row_limit timeout =
     (if \<not> calloc_ok then None
      else Some \<lparr>rc_row_limit = row_limit, rc_group_tree = rbt_init row_cmp rbt_blank, rc_groups = Map.empty,
        rc_entries = Map.empty, rc_group_bucket = [[], [], []], rc_gb_idx = 0, rc_bucket_ts = (0, 0),
        rc_cfg_timeout = (case timeout of Some t \<Rightarrow> t | None \<Rightarrow> (0, 0)), rc_freed = []\<rparr>)"

subsection \<open>Freeing the groups of a bucket\<close>

definition free_entry :: "addr \<Rightarrow> row_cache \<Rightarrow> row_cache option" where
  "free_entry a C = do {
     cent \<leftarrow> rc_entries C a;
     Some (C\<lparr>rc_entries := (rc_entries C)(a := None), rc_freed := rc_freed C @ [re_row cent]\<rparr>) }"

partial_function (option) free_rows :: "row_idx rbt \<Rightarrow> row_cache \<Rightarrow> row_cache option" where
  "free_rows row_tree C = do {
     rbn \<leftarrow> rbt_min row_tree;
     if rbn = NULL then Some C
     else do {
       row_tree \<leftarrow> rbt_del row_tree rbn;
       C \<leftarrow> free_entry rbn C;
       free_rows row_tree C } }"

declare free_rows.simps [code]

fun cleanup_groups :: "nat \<Rightarrow> addr list \<Rightarrow> row_cache \<Rightarrow> row_cache option" where
  "cleanup_groups ci [] C = Some C"
| "cleanup_groups ci (g # gs) C = do {
     let C = C\<lparr>rc_group_bucket := (rc_group_bucket C)[ci := gs]\<rparr>;
     t \<leftarrow> rbt_del (rc_group_tree C) g;
     group \<leftarrow> rc_groups C g;
     C \<leftarrow> free_rows (rg_row_tree group) (C\<lparr>rc_group_tree := t\<rparr>);
     cleanup_groups ci gs (C\<lparr>rc_groups := (rc_groups C)(g := None)\<rparr>) }"

definition ldmsd_row_group_bucket_cleanup :: "nat \<Rightarrow> row_cache \<Rightarrow> row_cache option" where
  "ldmsd_row_group_bucket_cleanup ci C = cleanup_groups ci (rc_group_bucket C ! ci) C"

subsection \<open>Caching a row\<close>

fun advance_buckets :: "nat \<Rightarrow> timespec \<Rightarrow> row_cache \<Rightarrow> (nat \<times> row_cache) option" where
  "advance_buckets 0 ts C = Some (0, C)"
| "advance_buckets (Suc count) ts C =
     (if ldmsd_timespec_cmp (rc_bucket_ts C) ts < 0 then do {
        let C = C\<lparr>rc_gb_idx := (rc_gb_idx C + 1) mod GB_LEN,
          rc_bucket_ts := ldmsd_timespec_add (rc_bucket_ts C) (rc_cfg_timeout C)\<rparr>;
        C \<leftarrow> ldmsd_row_group_bucket_cleanup ((rc_gb_idx C + 1) mod GB_LEN) C;
        advance_buckets count ts C }
      else Some (Suc count, C))"

definition bucket_processing :: "timespec \<Rightarrow> row_cache \<Rightarrow> row_cache option" where
  "bucket_processing ts C =
     (if rc_cfg_timeout C = (0, 0) then Some C
      else do {
        (count, C) \<leftarrow> advance_buckets GB_LEN ts C;
        Some (if count = 0 \<and> ldmsd_timespec_cmp (rc_bucket_ts C) ts < 0
              then C\<lparr>rc_bucket_ts := ldmsd_timespec_add ts (rc_cfg_timeout C)\<rparr> else C) })"

text \<open>
  What a call gets from its surroundings: the memory of the entry and of a new group, \<^verbatim>\<open>NULL\<close> when
  there is none, whether the group key can be copied, and the clock. The memory of a group is written to
  without a check; a key that could not be copied is a null pointer in the tree, dereferenced by the next
  comparison or when the group is freed, and counts as a fault here.
\<close>

record row_env =
  entry_mem :: addr
  group_mem :: addr
  dup_ok :: bool
  clock_realtime :: "errno + timespec"

definition new_group :: "row_env \<Rightarrow> row_idx \<Rightarrow> row_idx \<Rightarrow> row_cache \<Rightarrow> (addr \<times> row_cache) option" where
  "new_group env group_key row_key C =
     (let group = group_mem env in
      if group = NULL then None
      else do {
        dup \<leftarrow> ldmsd_row_cache_idx_dup (dup_ok env) group_key;
        group_key \<leftarrow> dup;
        t \<leftarrow> rbt_ins (rbn_init group group_key (rc_group_tree C)) group;
        Some (group, C\<lparr>rc_group_tree := t,
          rc_groups := (rc_groups C)(group \<mapsto> \<lparr>rg_row_key_count = key_count row_key,
            rg_row_tree = rbt_init row_cmp rbt_blank, rg_last_update = (0, 0)\<rparr>),
          rc_group_bucket := (rc_group_bucket C)[rc_gb_idx C := group # rc_group_bucket C ! rc_gb_idx C]\<rparr>) })"

definition drop_min :: "row_idx rbt \<Rightarrow> row_cache \<Rightarrow> (row_idx rbt \<times> row_cache) option" where
  "drop_min row_tree C = do {
     rbn \<leftarrow> rbt_min row_tree;
     row_tree \<leftarrow> rbt_del row_tree rbn;
     C \<leftarrow> free_entry rbn C;
     Some (row_tree, C) }"

text \<open>\<^verbatim>\<open>LIST_REMOVE\<close> takes the group out of the bucket it is in.\<close>

definition to_current :: "addr \<Rightarrow> row_cache \<Rightarrow> row_cache" where
  "to_current g C =
     (let bs = map (remove1 g) (rc_group_bucket C)
      in C\<lparr>rc_group_bucket := bs[rc_gb_idx C := g # bs ! rc_gb_idx C]\<rparr>)"

definition insert_row :: "addr \<Rightarrow> timespec \<Rightarrow> addr \<Rightarrow> row_idx \<Rightarrow> addr \<Rightarrow> row_cache \<Rightarrow> row_cache option" where
  "insert_row entry ts group_rbn row_key row C = do {
     group \<leftarrow> rc_groups C group_rbn;
     (row_tree, C) \<leftarrow>
       (if rbt_card (rg_row_tree group) = rc_row_limit C then drop_min (rg_row_tree group) C
        else Some (rg_row_tree group, C));
     row_tree \<leftarrow> rbt_ins (rbn_init entry row_key row_tree) entry;
     let C = C\<lparr>rc_entries := (rc_entries C)(entry \<mapsto> \<lparr>re_row = row, re_idx = row_key\<rparr>),
       rc_groups := (rc_groups C)(group_rbn \<mapsto> group\<lparr>rg_row_tree := row_tree, rg_last_update := ts\<rparr>)\<rparr>;
     Some (to_current group_rbn C) }"

definition cache_row :: "row_env \<Rightarrow> row_idx \<Rightarrow> row_idx \<Rightarrow> addr \<Rightarrow> row_cache \<Rightarrow> (errno \<times> row_cache) option" where
  "cache_row env group_key row_key row C =
     (let entry = entry_mem env in
      if entry = NULL then Some (ENOMEM, C)
      else case clock_realtime env of
        Inl e \<Rightarrow> Some (e, C)
      | Inr ts \<Rightarrow> do {
          C \<leftarrow> bucket_processing ts C;
          group_rbn \<leftarrow> rbt_find (rc_group_tree C) group_key;
          (group_rbn, C) \<leftarrow> (if group_rbn = NULL then new_group env group_key row_key C else Some (group_rbn, C));
          C \<leftarrow> insert_row entry ts group_rbn row_key row C;
          Some (EOK, C) })"

definition ldmsd_row_cache ::
  "row_env \<Rightarrow> row_cache option \<Rightarrow> row_idx \<Rightarrow> row_idx \<Rightarrow> addr \<Rightarrow> (errno \<times> row_cache option) option" where
  "ldmsd_row_cache env rcache group_key row_key row = (case rcache of
     None \<Rightarrow> Some (EINVAL, None)
   | Some C \<Rightarrow> do { (rc, C) \<leftarrow> cache_row env group_key row_key row C; Some (rc, Some C) })"

subsection \<open>Reading the newest rows\<close>

function list_rows :: "row_cache \<Rightarrow> row_idx rbt \<Rightarrow> int \<Rightarrow> int \<Rightarrow> addr \<Rightarrow> (int \<times> addr list) option" where
  "list_rows C row_tree row_count count rbn =
     (if count < row_count then do {
        entry \<leftarrow> rc_entries C rbn;
        rbn \<leftarrow> rbn_pred row_tree rbn;
        if rbn = NULL then Some (count + 1, [re_row entry])
        else do {
          (count, rows) \<leftarrow> list_rows C row_tree row_count (count + 1) rbn;
          Some (count, re_row entry # rows) } }
      else Some (count, []))"
  by auto

termination by (relation "measure (\<lambda>(C, row_tree, row_count, count, rbn). nat (row_count - count))") auto

declare list_rows.simps [simp del]

definition ldmsd_row_cache_make_list :: "int \<Rightarrow> row_cache \<Rightarrow> row_idx \<Rightarrow> (int \<times> addr list) option" where
  "ldmsd_row_cache_make_list row_count C group_key = do {
     rbn \<leftarrow> rbt_find (rc_group_tree C) group_key;
     if rbn = NULL then Some (0, [])
     else do {
       group \<leftarrow> rc_groups C rbn;
       rbn \<leftarrow> rbt_max (rg_row_tree group);
       if rbn = NULL then Some (0, [])
       else list_rows C (rg_row_tree group) row_count 0 rbn } }"

end
