(* ===== verification/RowCacheSpec.thy ===== *)
theory RowCacheSpec
  imports RowCache "HOL-Library.Multiset"
begin

section \<open>What the row cache keeps\<close>

text \<open>
  The invariant of a cache, and each part of a call under it. \<open>es\<close> are the entries of the tree of
  groups and \<open>rs g\<close> those of the tree of rows of group \<open>g\<close>.
\<close>

subsection \<open>Rows are freed once\<close>

definition held :: "row_cache \<Rightarrow> addr multiset" where
  "held C = image_mset (\<lambda>a. re_row (the (rc_entries C a))) (mset_set (dom (rc_entries C)))"

definition books :: "row_cache \<Rightarrow> addr multiset" where
  "books C = mset (rc_freed C) + held C"

lemma books_free:
  assumes "finite (dom (rc_entries C))" and "rc_entries C a = Some e"
  shows "\<exists>C'. free_entry a C = Some C' \<and> books C' = books C \<and> (\<exists>fr. C' = C\<lparr>rc_entries := (rc_entries C)(a := None), rc_freed := fr\<rparr>)"
proof -
  have "dom (rc_entries C) = insert a (dom ((rc_entries C)(a := None)))" using assms(2) by auto
  then have "mset_set (dom (rc_entries C)) = add_mset a (mset_set (dom ((rc_entries C)(a := None))))"
    using assms(1) by (metis Diff_insert_absorb dom_fun_upd finite_Diff insertI1 insert_Diff_single mset_set.insert mset_set.remove)
  moreover have "image_mset (\<lambda>x. re_row (the (((rc_entries C)(a := None)) x))) (mset_set (dom ((rc_entries C)(a := None)))) =
    image_mset (\<lambda>x. re_row (the (rc_entries C x))) (mset_set (dom ((rc_entries C)(a := None))))"
    using assms(1) by (intro image_mset_cong) auto
  ultimately show ?thesis using assms(2) by (auto simp: free_entry_def books_def held_def)
qed

lemma books_add:
  assumes "finite (dom (rc_entries C))" and "rc_entries C a = None" and "re_row e = row"
  shows "books (C\<lparr>rc_entries := (rc_entries C)(a \<mapsto> e)\<rparr>) = add_mset row (books C)"
proof -
  have "image_mset (\<lambda>x. re_row (the (((rc_entries C)(a \<mapsto> e)) x))) (mset_set (dom (rc_entries C))) =
    image_mset (\<lambda>x. re_row (the (rc_entries C x))) (mset_set (dom (rc_entries C)))"
    using assms(1,2) by (intro image_mset_cong) auto
  then show ?thesis using assms by (simp add: books_def held_def domIff)
qed

lemma books_cong: "rc_entries C' = rc_entries C \<Longrightarrow> rc_freed C' = rc_freed C \<Longrightarrow> books C' = books C"
  by (simp add: books_def held_def)

subsection \<open>The invariant\<close>

definition rows_ok :: "(ldms_value_type \<times> nat) list \<Rightarrow> (addr \<Rightarrow> row_entry option) \<Rightarrow> row_group \<Rightarrow> (addr \<times> row_idx) list \<Rightarrow> bool" where
  "rows_ok rsh ents G xs \<longleftrightarrow> rbt_seq row_cmp (row_keys rsh) (rg_row_tree G) xs \<and>
     (\<forall>p \<in> set xs. \<exists>row. ents (fst p) = Some \<lparr>re_row = row, re_idx = snd p\<rparr>)"

definition one_each :: "(addr \<times> row_idx) list \<Rightarrow> bool" where
  "one_each es \<longleftrightarrow> (\<forall>p \<in> set es. \<forall>q \<in> set es. row_cmp (snd p) (snd q) = 0 \<longrightarrow> p = q)"

definition cache_ok :: "(ldms_value_type \<times> nat) list \<Rightarrow> (ldms_value_type \<times> nat) list \<Rightarrow> (addr \<times> row_idx) list \<Rightarrow>
    (addr \<Rightarrow> (addr \<times> row_idx) list) \<Rightarrow> row_cache \<Rightarrow> bool" where
  "cache_ok gsh rsh es rs C \<longleftrightarrow>
     rbt_seq row_cmp (row_keys gsh) (rc_group_tree C) es \<and> one_each es \<and> dom (rc_groups C) = fst ` set es \<and>
     (\<forall>g G. rc_groups C g = Some G \<longrightarrow> rows_ok rsh (rc_entries C) G (rs g) \<and> int (length (rs g)) \<le> rc_row_limit C) \<and>
     dom (rc_entries C) = (\<Union>g \<in> dom (rc_groups C). fst ` set (rs g)) \<and>
     (\<forall>g \<in> dom (rc_groups C). \<forall>h \<in> dom (rc_groups C). g \<noteq> h \<longrightarrow> fst ` set (rs g) \<inter> fst ` set (rs h) = {}) \<and>
     length (rc_group_bucket C) = GB_LEN \<and> rc_gb_idx C < GB_LEN \<and>
     mset (concat (rc_group_bucket C)) = mset_set (dom (rc_groups C))"

lemma cache_okD:
  assumes "cache_ok gsh rsh es rs C"
  shows "rbt_seq row_cmp (row_keys gsh) (rc_group_tree C) es" "one_each es" "dom (rc_groups C) = fst ` set es"
    "rc_groups C g = Some G \<Longrightarrow> rows_ok rsh (rc_entries C) G (rs g)"
    "rc_groups C g = Some G \<Longrightarrow> int (length (rs g)) \<le> rc_row_limit C"
    "dom (rc_entries C) = (\<Union>g \<in> dom (rc_groups C). fst ` set (rs g))"
    "g \<in> dom (rc_groups C) \<Longrightarrow> h \<in> dom (rc_groups C) \<Longrightarrow> g \<noteq> h \<Longrightarrow> fst ` set (rs g) \<inter> fst ` set (rs h) = {}"
    "length (rc_group_bucket C) = GB_LEN" "rc_gb_idx C < GB_LEN"
    "mset (concat (rc_group_bucket C)) = mset_set (dom (rc_groups C))" "finite (dom (rc_groups C))"
  using assms unfolding cache_ok_def by simp_all

lemma cache_okI:
  assumes "rbt_seq row_cmp (row_keys gsh) (rc_group_tree C) es" and "one_each es" and "dom (rc_groups C) = fst ` set es"
    and "\<And>g G. rc_groups C g = Some G \<Longrightarrow> rows_ok rsh (rc_entries C) G (rs g) \<and> int (length (rs g)) \<le> rc_row_limit C"
    and "dom (rc_entries C) = (\<Union>g \<in> dom (rc_groups C). fst ` set (rs g))"
    and "\<And>g h. g \<in> dom (rc_groups C) \<Longrightarrow> h \<in> dom (rc_groups C) \<Longrightarrow> g \<noteq> h \<Longrightarrow> fst ` set (rs g) \<inter> fst ` set (rs h) = {}"
    and "length (rc_group_bucket C) = GB_LEN" and "rc_gb_idx C < GB_LEN"
    and "mset (concat (rc_group_bucket C)) = mset_set (dom (rc_groups C))"
  shows "cache_ok gsh rsh es rs C"
  using assms unfolding cache_ok_def by blast

lemma cache_ok_finite: "cache_ok gsh rsh es rs C \<Longrightarrow> finite (dom (rc_entries C))"
  by (simp add: cache_ok_def)

subsection \<open>Freeing rows\<close>

lemma rbt_seq_min: "rbt_seq c K t es \<Longrightarrow> rbt_min t = Some (first_addr es)"
  by (simp add: rbt_seq_def rbt_min_rep)

lemma rbt_seq_fst: "rbt_seq c K t ((a, k) # es) \<Longrightarrow> a \<noteq> NULL \<and> a \<notin> fst ` set es \<and> distinct (map fst es)"
  using rbt_rep_distinct [of t "(a, k) # es"] by (auto simp: rbt_seq_def)

lemma free_rows_ok:
  assumes "rbt_seq row_cmp K t xs" and "\<forall>p \<in> set xs. rc_entries C (fst p) \<noteq> None" and "finite (dom (rc_entries C))"
  shows "\<exists>fr. free_rows t C = Some (C\<lparr>rc_entries := rc_entries C |` (- fst ` set xs), rc_freed := fr\<rparr>) \<and>
    books (C\<lparr>rc_entries := rc_entries C |` (- fst ` set xs), rc_freed := fr\<rparr>) = books C"
  using assms
proof (induction xs arbitrary: t C)
  case Nil
  have "C = C\<lparr>rc_entries := rc_entries C |` (- fst ` set []), rc_freed := rc_freed C\<rparr>" by (simp add: restrict_map_def)
  moreover have "free_rows t C = Some C" using rbt_seq_min [OF Nil.prems(1)] by (simp add: free_rows.simps)
  ultimately show ?case by metis
next
  case (Cons p xs)
  obtain a k where p: "p = (a, k)" by fastforce
  have a: "a \<noteq> NULL" "a \<notin> fst ` set xs" using rbt_seq_fst [of row_cmp K t a k xs] Cons.prems(1) p by auto
  have xs: "del_entry a (p # xs) = xs" using a(2) p by (force simp: del_entry_def filter_id_conv)
  obtain t' where t': "rbt_del t a = Some t'" "rbt_seq row_cmp K t' xs"
    using rbt_del_seq [OF Cons.prems(1), of a] xs p by auto
  obtain e where "rc_entries C a = Some e" using Cons.prems(2) p by auto
  from books_free [OF Cons.prems(3) this] obtain fr where
    f: "free_entry a C = Some (C\<lparr>rc_entries := (rc_entries C)(a := None), rc_freed := fr\<rparr>)"
      "books (C\<lparr>rc_entries := (rc_entries C)(a := None), rc_freed := fr\<rparr>) = books C" by blast
  let ?C = "C\<lparr>rc_entries := (rc_entries C)(a := None), rc_freed := fr\<rparr>"
  have "\<forall>q \<in> set xs. rc_entries ?C (fst q) \<noteq> None" using Cons.prems(2) a(2) by (auto simp: image_iff)
  moreover have "finite (dom (rc_entries ?C))" using Cons.prems(3) by simp
  ultimately obtain fr' where
    g: "free_rows t' ?C = Some (?C\<lparr>rc_entries := rc_entries ?C |` (- fst ` set xs), rc_freed := fr'\<rparr>)"
      "books (?C\<lparr>rc_entries := rc_entries ?C |` (- fst ` set xs), rc_freed := fr'\<rparr>) = books ?C"
    using Cons.IH [OF t'(2)] by blast
  have "rc_entries ?C |` (- fst ` set xs) = rc_entries C |` (- fst ` set (p # xs))"
    using p by (auto simp: restrict_map_def fun_eq_iff)
  moreover have "free_rows t C = free_rows t' ?C"
    by (subst free_rows.simps) (use rbt_seq_min [OF Cons.prems(1)] p a t' f in simp)
  ultimately show ?case using f g by (intro exI [of _ fr']) simp
qed

subsection \<open>Freeing the groups of a bucket\<close>

lemma mset_concat_update: "i < length bs \<Longrightarrow> mset (concat (bs[i := xs])) + mset (bs ! i) = mset (concat bs) + mset xs"
proof (induction bs arbitrary: i)
  case (Cons b bs)
  then show ?case by (cases i) (auto simp: union_ac)
qed simp

lemma rows_ok_other: "rows_ok rsh ents G xs \<Longrightarrow> (\<And>p. p \<in> set xs \<Longrightarrow> ents' (fst p) = ents (fst p)) \<Longrightarrow> rows_ok rsh ents' G xs"
  by (simp add: rows_ok_def)

lemma one_each_filter: "one_each es \<Longrightarrow> one_each (filter P es)"
  by (simp add: one_each_def)

text \<open>What freeing groups leaves: everything about the groups that stay.\<close>

definition cleaned :: "addr set \<Rightarrow> row_cache \<Rightarrow> row_cache \<Rightarrow> bool" where
  "cleaned D C C' \<longleftrightarrow> rc_groups C' = rc_groups C |` (- D) \<and> rc_entries C' \<subseteq>\<^sub>m rc_entries C \<and> books C' = books C \<and>
     rc_row_limit C' = rc_row_limit C \<and> rc_cfg_timeout C' = rc_cfg_timeout C"

lemma cleaned_refl: "cleaned {} C C"
  by (simp add: cleaned_def restrict_map_def)

lemma cleaned_trans: "cleaned D C C' \<Longrightarrow> cleaned E C' C'' \<Longrightarrow> cleaned (D \<union> E) C C''"
  unfolding cleaned_def by (auto intro: map_le_trans simp: Int_commute)

lemma cleanup_group:
  assumes ok: "cache_ok gsh rsh es rs C" and ci: "ci < GB_LEN" "rc_group_bucket C ! ci = g # gs"
  obtains t G C' where "rbt_del (rc_group_tree C) g = Some t" "rc_groups C g = Some G"
    "free_rows (rg_row_tree G) (C\<lparr>rc_group_bucket := (rc_group_bucket C)[ci := gs], rc_group_tree := t\<rparr>) = Some C'"
    "cache_ok gsh rsh (del_entry g es) rs (C'\<lparr>rc_groups := (rc_groups C')(g := None)\<rparr>)"
    "cleaned {g} C (C'\<lparr>rc_groups := (rc_groups C')(g := None)\<rparr>)"
    "rc_group_bucket C' = (rc_group_bucket C)[ci := gs]" "rc_gb_idx C' = rc_gb_idx C" "rc_bucket_ts C' = rc_bucket_ts C"
proof -
  let ?bs = "rc_group_bucket C"
  have l: "length ?bs = GB_LEN" and b: "mset (concat ?bs) = mset_set (dom (rc_groups C))"
    and d: "dom (rc_groups C) = fst ` set es" using ok by (simp_all add: cache_ok_def)
  have fin: "finite (dom (rc_groups C))" using d by simp
  have "g \<in># mset (concat ?bs)" using ci l nth_mem [of ci ?bs] by force
  then have g: "g \<in> dom (rc_groups C)" using b fin by simp
  obtain t where t: "rbt_del (rc_group_tree C) g = Some t" "rbt_seq row_cmp (row_keys gsh) t (del_entry g es)"
    using rbt_del_seq [of row_cmp "row_keys gsh" "rc_group_tree C" es g] ok g d by (auto simp: cache_ok_def)
  obtain G where "rc_groups C g = Some G" using g by blast
  moreover from this ok have "rows_ok rsh (rc_entries C) G (rs g)" by (simp add: cache_ok_def)
  ultimately have G: "rc_groups C g = Some G" "rows_ok rsh (rc_entries C) G (rs g)" .
  let ?C1 = "C\<lparr>rc_group_bucket := ?bs[ci := gs], rc_group_tree := t\<rparr>"
  have "\<forall>p \<in> set (rs g). rc_entries ?C1 (fst p) \<noteq> None" "finite (dom (rc_entries ?C1))"
    using G(2) cache_ok_finite [OF ok] by (auto simp: rows_ok_def)
  then obtain fr where fr: "free_rows (rg_row_tree G) ?C1 = Some (?C1\<lparr>rc_entries := rc_entries ?C1 |` (- fst ` set (rs g)), rc_freed := fr\<rparr>)"
      "books (?C1\<lparr>rc_entries := rc_entries ?C1 |` (- fst ` set (rs g)), rc_freed := fr\<rparr>) = books ?C1"
    using free_rows_ok [of "row_keys rsh" "rg_row_tree G" "rs g" ?C1] G(2) by (auto simp: rows_ok_def)
  let ?C2 = "?C1\<lparr>rc_entries := rc_entries ?C1 |` (- fst ` set (rs g)), rc_freed := fr\<rparr>"
  let ?C3 = "?C2\<lparr>rc_groups := (rc_groups ?C2)(g := None)\<rparr>"
  have dg: "dom (rc_groups ?C3) = dom (rc_groups C) - {g}" by simp
  have dis: "fst ` set (rs g) \<inter> fst ` set (rs h) = {}" if "h \<in> dom (rc_groups C) - {g}" for h
    using cache_okD(7) [OF ok g, of h] that by blast
  have "cache_ok gsh rsh (del_entry g es) rs ?C3"
  proof (rule cache_okI)
    fix h H
    assume H: "rc_groups ?C3 h = Some H"
    then have h: "rc_groups C h = Some H" "h \<in> dom (rc_groups C) - {g}" by (auto split: if_splits)
    have "rc_entries ?C3 (fst p) = rc_entries C (fst p)" if "p \<in> set (rs h)" for p
      using dis [OF h(2)] that by (auto simp: restrict_map_def)
    then show "rows_ok rsh (rc_entries ?C3) H (rs h) \<and> int (length (rs h)) \<le> rc_row_limit ?C3"
      using rows_ok_other [OF cache_okD(4) [OF ok h(1)], of "rc_entries ?C3"] cache_okD(5) [OF ok h(1)] by simp
  next
    have "dom (rc_entries ?C3) = (\<Union>h \<in> dom (rc_groups C). fst ` set (rs h)) - fst ` set (rs g)"
      using cache_okD(6) [OF ok] by (simp add: Diff_eq)
    also have "\<dots> = (\<Union>h \<in> dom (rc_groups C) - {g}. fst ` set (rs h))" using dis by blast
    finally show "dom (rc_entries ?C3) = (\<Union>h \<in> dom (rc_groups ?C3). fst ` set (rs h))" by simp
  next
    fix h h'
    assume "h \<in> dom (rc_groups ?C3)" "h' \<in> dom (rc_groups ?C3)" "h \<noteq> h'"
    then show "fst ` set (rs h) \<inter> fst ` set (rs h') = {}" unfolding dg using cache_okD(7) [OF ok, of h h'] by blast
  next
    show "mset (concat (rc_group_bucket ?C3)) = mset_set (dom (rc_groups ?C3))"
      using mset_concat_update [of ci ?bs gs] ci l b g fin by (simp add: mset_set.remove [OF fin g])
  next
    show "dom (rc_groups ?C3) = fst ` set (del_entry g es)" unfolding dg using d by (auto simp: del_entry_def)
  next
    show "one_each (del_entry g es)" using cache_okD(2) [OF ok] by (simp add: del_entry_def one_each_filter)
  qed (use t(2) l cache_okD(9) [OF ok] in simp_all)
  moreover have "rc_entries ?C3 \<subseteq>\<^sub>m rc_entries C" by (auto simp: map_le_def)
  moreover have "books ?C3 = books C"
    using fr(2) books_cong [of ?C3 ?C2] books_cong [of ?C1 C] by simp
  ultimately have "cache_ok gsh rsh (del_entry g es) rs ?C3 \<and> cleaned {g} C ?C3"
    by (simp add: cleaned_def restrict_complement_singleton_eq)
  then show thesis using that [OF t(1) G(1) fr(1)] by simp
qed

lemma cleanup_ok:
  "cache_ok gsh rsh es rs C \<Longrightarrow> rc_group_bucket C ! ci = gs \<Longrightarrow> ci < GB_LEN \<Longrightarrow>
   \<exists>C'. cleanup_groups ci gs C = Some C' \<and> cache_ok gsh rsh (filter (\<lambda>p. fst p \<notin> set gs) es) rs C' \<and> cleaned (set gs) C C' \<and>
     rc_group_bucket C' = (rc_group_bucket C)[ci := []] \<and> rc_gb_idx C' = rc_gb_idx C \<and> rc_bucket_ts C' = rc_bucket_ts C"
proof (induction gs arbitrary: C es)
  case Nil
  then have "rc_group_bucket C = (rc_group_bucket C)[ci := []]" by (metis list_update_id)
  with Nil show ?case by (simp add: cleaned_refl)
next
  case (Cons g gs)
  obtain t G C' where s: "rbt_del (rc_group_tree C) g = Some t" "rc_groups C g = Some G"
    "free_rows (rg_row_tree G) (C\<lparr>rc_group_bucket := (rc_group_bucket C)[ci := gs], rc_group_tree := t\<rparr>) = Some C'"
    "cache_ok gsh rsh (del_entry g es) rs (C'\<lparr>rc_groups := (rc_groups C')(g := None)\<rparr>)"
    "cleaned {g} C (C'\<lparr>rc_groups := (rc_groups C')(g := None)\<rparr>)"
    "rc_group_bucket C' = (rc_group_bucket C)[ci := gs]" "rc_gb_idx C' = rc_gb_idx C" "rc_bucket_ts C' = rc_bucket_ts C"
    using cleanup_group [OF Cons.prems(1) Cons.prems(3) Cons.prems(2)] by blast
  have l: "length (rc_group_bucket C) = GB_LEN" using Cons.prems(1) by (simp add: cache_ok_def)
  then have "rc_group_bucket (C'\<lparr>rc_groups := (rc_groups C')(g := None)\<rparr>) ! ci = gs" using s(6) Cons.prems(3) by simp
  from Cons.IH [OF s(4) this Cons.prems(3)] obtain C'' where c: "cleanup_groups ci gs (C'\<lparr>rc_groups := (rc_groups C')(g := None)\<rparr>) = Some C''"
    "cache_ok gsh rsh (filter (\<lambda>p. fst p \<notin> set gs) (del_entry g es)) rs C''"
    "cleaned (set gs) (C'\<lparr>rc_groups := (rc_groups C')(g := None)\<rparr>) C''" "rc_group_bucket C'' = (rc_group_bucket C)[ci := []]"
    "rc_gb_idx C'' = rc_gb_idx C" "rc_bucket_ts C'' = rc_bucket_ts C"
    using s(6-8) by auto
  have "filter (\<lambda>p. fst p \<notin> set gs) (del_entry g es) = filter (\<lambda>p. fst p \<notin> set (g # gs)) es"
    by (auto simp: del_entry_def intro: filter_cong)
  moreover have "cleaned (set (g # gs)) C C''" using cleaned_trans [OF s(5) c(3)] by simp
  moreover have "cleanup_groups ci (g # gs) C = Some C''" using s c(1) by simp
  ultimately show ?case using c by auto
qed

subsection \<open>Time windows\<close>

definition ns :: "timespec \<Rightarrow> int" where
  "ns t = fst t * 1000000000 + snd t"

definition valid_ts :: "timespec \<Rightarrow> bool" where
  "valid_ts t \<longleftrightarrow> 0 \<le> snd t \<and> snd t < 1000000000"

lemma timespec_cmp_ns: "valid_ts a \<Longrightarrow> valid_ts b \<Longrightarrow> ldmsd_timespec_cmp a b < 0 \<longleftrightarrow> ns a < ns b"
  by (auto simp: ldmsd_timespec_cmp_def ns_def valid_ts_def)

lemma timespec_add_ns: "valid_ts a \<Longrightarrow> valid_ts b \<Longrightarrow> valid_ts (ldmsd_timespec_add a b) \<and> ns (ldmsd_timespec_add a b) = ns a + ns b"
  by (auto simp: ldmsd_timespec_add_def ns_def valid_ts_def)

definition last_in :: "row_cache \<Rightarrow> addr set \<Rightarrow> int \<Rightarrow> int \<Rightarrow> bool" where
  "last_in C S lo hi \<longleftrightarrow> (\<forall>g \<in> S. \<forall>G. rc_groups C g = Some G \<longrightarrow> lo \<le> ns (rg_last_update G) \<and> ns (rg_last_update G) \<le> hi)"

text \<open>
  The current window ends at \<^verbatim>\<open>bucket_ts\<close>: the current bucket has the groups last used in it, the
  previous bucket those last used in the window before, and the next bucket is empty.
\<close>

definition windows :: "row_cache \<Rightarrow> bool" where
  "windows C \<longleftrightarrow> (let bs = rc_group_bucket C; i = rc_gb_idx C; B = ns (rc_bucket_ts C); T = ns (rc_cfg_timeout C) in
     valid_ts (rc_bucket_ts C) \<and> valid_ts (rc_cfg_timeout C) \<and> 0 \<le> T \<and> bs ! ((i + 1) mod GB_LEN) = [] \<and>
     last_in C (set (bs ! i)) (B - T) B \<and> last_in C (set (bs ! ((i + 2) mod GB_LEN))) (B - 2 * T) (B - T))"

text \<open>After one step of the clock the current bucket is empty, after two the previous one as well.\<close>

definition idle :: "nat \<Rightarrow> row_cache \<Rightarrow> bool" where
  "idle k C \<longleftrightarrow> (1 \<le> k \<longrightarrow> rc_group_bucket C ! rc_gb_idx C = []) \<and>
     (2 \<le> k \<longrightarrow> rc_group_bucket C ! ((rc_gb_idx C + 2) mod GB_LEN) = [])"

lemma last_in_cleaned: "last_in C S lo hi \<Longrightarrow> cleaned D C C' \<Longrightarrow> last_in C' S lo hi"
  by (auto simp: last_in_def cleaned_def restrict_map_def split: if_splits)

lemma mod3: "i < GB_LEN \<Longrightarrow> i = 0 \<or> i = 1 \<or> i = 2"
  by auto

lemma advance_step:
  assumes ok: "cache_ok gsh rsh es rs C" and w: "windows C" and k: "idle k C" and late: "ns (rc_bucket_ts C) < ns ts"
  defines "C1 \<equiv> C\<lparr>rc_gb_idx := (rc_gb_idx C + 1) mod GB_LEN, rc_bucket_ts := ldmsd_timespec_add (rc_bucket_ts C) (rc_cfg_timeout C)\<rparr>"
  shows "\<exists>C' D. ldmsd_row_group_bucket_cleanup ((rc_gb_idx C1 + 1) mod GB_LEN) C1 = Some C' \<and>
    cache_ok gsh rsh (filter (\<lambda>p. fst p \<notin> D) es) rs C' \<and> cleaned D C C' \<and> windows C' \<and> idle (k + 1) C' \<and>
    ns (rc_bucket_ts C') = ns (rc_bucket_ts C) + ns (rc_cfg_timeout C) \<and>
    (\<forall>g \<in> D. \<forall>G. rc_groups C g = Some G \<longrightarrow> ns (rg_last_update G) + ns (rc_cfg_timeout C) < ns ts)"
proof -
  let ?i = "rc_gb_idx C" and ?bs = "rc_group_bucket C" and ?ci = "(rc_gb_idx C1 + 1) mod GB_LEN"
  let ?T = "ns (rc_cfg_timeout C)" and ?B = "ns (rc_bucket_ts C)"
  have i: "?i < GB_LEN" and l: "length ?bs = GB_LEN" using cache_okD(9,8) [OF ok] .
  have ci: "?ci = (?i + 2) mod GB_LEN" "?ci < GB_LEN" using mod3 [OF i] by (auto simp: C1_def)
  have "cache_ok gsh rsh es rs C1" using ok i by (simp add: cache_ok_def C1_def)
  from cleanup_ok [OF this refl ci(2)] obtain C' where c: "ldmsd_row_group_bucket_cleanup ?ci C1 = Some C'"
    "cache_ok gsh rsh (filter (\<lambda>p. fst p \<notin> set (?bs ! ?ci)) es) rs C'" "cleaned (set (?bs ! ?ci)) C1 C'"
    "rc_group_bucket C' = ?bs[?ci := []]" "rc_gb_idx C' = (?i + 1) mod GB_LEN"
    "rc_bucket_ts C' = ldmsd_timespec_add (rc_bucket_ts C) (rc_cfg_timeout C)"
    unfolding ldmsd_row_group_bucket_cleanup_def by (auto simp: C1_def)
  have cl: "cleaned (set (?bs ! ?ci)) C C'" using c(3) by (simp add: cleaned_def C1_def books_def held_def)
  have v: "valid_ts (rc_bucket_ts C')" "ns (rc_bucket_ts C') = ?B + ?T" "rc_cfg_timeout C' = rc_cfg_timeout C"
    using timespec_add_ns w c(6) cl by (simp_all add: windows_def Let_def cleaned_def)
  have b: "rc_group_bucket C' ! ((?i + 2) mod GB_LEN) = []" "rc_group_bucket C' ! ((?i + 1) mod GB_LEN) = []"
    "rc_group_bucket C' ! ?i = ?bs ! ?i"
    using c(4) ci l w mod3 [OF i] by (auto simp: windows_def Let_def)
  have j: "((?i + 1) mod GB_LEN + 1) mod GB_LEN = (?i + 2) mod GB_LEN" "((?i + 1) mod GB_LEN + 2) mod GB_LEN = ?i"
    using mod3 [OF i] by auto
  have "last_in C' (set (?bs ! ?i)) (?B - ?T) ?B" using w last_in_cleaned [OF _ cl] by (simp add: windows_def Let_def)
  then have "windows C'" using v b w unfolding windows_def Let_def c(5) j by (simp add: last_in_def)
  moreover have "idle (k + 1) C'" using k b unfolding idle_def c(5) j by auto
  moreover have "\<forall>g \<in> set (?bs ! ?ci). \<forall>G. rc_groups C g = Some G \<longrightarrow> ns (rg_last_update G) + ?T < ns ts"
    using w late unfolding ci(1) windows_def Let_def last_in_def by force
  ultimately show ?thesis using c(1,2) cl v(2) by blast
qed

lemma advance_ok:
  assumes "cache_ok gsh rsh es rs C" and "windows C" and "idle k C" and "valid_ts ts"
  shows "\<exists>n C' D. advance_buckets m ts C = Some (n, C') \<and> cache_ok gsh rsh (filter (\<lambda>p. fst p \<notin> D) es) rs C' \<and> cleaned D C C' \<and>
    windows C' \<and> idle (k + m - n) C' \<and> (0 < n \<longrightarrow> ns ts \<le> ns (rc_bucket_ts C')) \<and>
    (rc_bucket_ts C' = rc_bucket_ts C \<or> ns (rc_bucket_ts C') - ns (rc_cfg_timeout C) < ns ts) \<and>
    (\<forall>g \<in> D. \<forall>G. rc_groups C g = Some G \<longrightarrow> ns (rg_last_update G) + ns (rc_cfg_timeout C) < ns ts)"
  using assms
proof (induction m arbitrary: C es k)
  case 0
  then show ?case by (intro exI [of _ 0] exI [of _ C] exI [of _ "{}"]) (simp add: cleaned_refl)
next
  case (Suc m)
  have v: "valid_ts (rc_bucket_ts C)" "valid_ts (rc_cfg_timeout C)" using Suc.prems(2) by (simp_all add: windows_def Let_def)
  show ?case
  proof (cases "ns (rc_bucket_ts C) < ns ts")
    case False
    then have "advance_buckets (Suc m) ts C = Some (Suc m, C)" using timespec_cmp_ns [OF v(1) Suc.prems(4)] by simp
    then show ?thesis using Suc.prems False
      by (intro exI [of _ "Suc m"] exI [of _ C] exI [of _ "{}"]) (simp add: cleaned_refl)
  next
    case True
    obtain C1 D where s: "ldmsd_row_group_bucket_cleanup (((rc_gb_idx C + 1) mod GB_LEN + 1) mod GB_LEN)
        (C\<lparr>rc_gb_idx := (rc_gb_idx C + 1) mod GB_LEN, rc_bucket_ts := ldmsd_timespec_add (rc_bucket_ts C) (rc_cfg_timeout C)\<rparr>) = Some C1"
      "cache_ok gsh rsh (filter (\<lambda>p. fst p \<notin> D) es) rs C1" "cleaned D C C1" "windows C1" "idle (k + 1) C1"
      "ns (rc_bucket_ts C1) = ns (rc_bucket_ts C) + ns (rc_cfg_timeout C)"
      "\<forall>g \<in> D. \<forall>G. rc_groups C g = Some G \<longrightarrow> ns (rg_last_update G) + ns (rc_cfg_timeout C) < ns ts"
      using advance_step [OF Suc.prems(1-3) True] by auto
    have T: "rc_cfg_timeout C1 = rc_cfg_timeout C" using s(3) by (simp add: cleaned_def)
    obtain n C' E where r: "advance_buckets m ts C1 = Some (n, C')"
      "cache_ok gsh rsh (filter (\<lambda>p. fst p \<notin> E) (filter (\<lambda>p. fst p \<notin> D) es)) rs C'" "cleaned E C1 C'" "windows C'"
      "idle (k + 1 + m - n) C'" "0 < n \<longrightarrow> ns ts \<le> ns (rc_bucket_ts C')"
      "rc_bucket_ts C' = rc_bucket_ts C1 \<or> ns (rc_bucket_ts C') - ns (rc_cfg_timeout C) < ns ts"
      "\<forall>g \<in> E. \<forall>G. rc_groups C1 g = Some G \<longrightarrow> ns (rg_last_update G) + ns (rc_cfg_timeout C) < ns ts"
      using Suc.IH [OF s(2,4,5) Suc.prems(4)] unfolding T by blast
    have "advance_buckets (Suc m) ts C = Some (n, C')" using s(1) r(1) True timespec_cmp_ns [OF v(1) Suc.prems(4)] by simp
    moreover have "filter (\<lambda>p. fst p \<notin> E) (filter (\<lambda>p. fst p \<notin> D) es) = filter (\<lambda>p. fst p \<notin> D \<union> E) es"
      by (auto intro: filter_cong)
    moreover have "ns (rg_last_update G) + ns (rc_cfg_timeout C) < ns ts" if "g \<in> D \<union> E" "rc_groups C g = Some G" for g G
      using that s(3,7) r(8) by (cases "g \<in> D") (auto simp: cleaned_def)
    moreover have "ns (rc_bucket_ts C') - ns (rc_cfg_timeout C) < ns ts" using r(7) s(6) True by auto
    ultimately show ?thesis using r cleaned_trans [OF s(3) r(3)]
      by (intro exI [of _ n] exI [of _ C'] exI [of _ "D \<union> E"]) auto
  qed
qed

text \<open>The clock as a cache sees it: \<open>now\<close> is the time of the last call.\<close>

definition timed :: "int \<Rightarrow> row_cache \<Rightarrow> bool" where
  "timed now C \<longleftrightarrow> valid_ts (rc_cfg_timeout C) \<and> 0 \<le> ns (rc_cfg_timeout C) \<and>
     (rc_cfg_timeout C \<noteq> (0, 0) \<longrightarrow> windows C \<and> ns (rc_bucket_ts C) - ns (rc_cfg_timeout C) \<le> now)"

lemma bucket_processing_ok:
  assumes ok: "cache_ok gsh rsh es rs C" and t: "timed now C" and ts: "valid_ts ts" "now \<le> ns ts"
  shows "\<exists>C' D. bucket_processing ts C = Some C' \<and> cache_ok gsh rsh (filter (\<lambda>p. fst p \<notin> D) es) rs C' \<and> cleaned D C C' \<and>
    timed (ns ts) C' \<and> (rc_cfg_timeout C \<noteq> (0, 0) \<longrightarrow> ns ts \<le> ns (rc_bucket_ts C')) \<and> (rc_cfg_timeout C = (0, 0) \<longrightarrow> D = {}) \<and>
    (\<forall>g \<in> D. \<forall>G. rc_groups C g = Some G \<longrightarrow> ns (rg_last_update G) + ns (rc_cfg_timeout C) < ns ts)"
proof (cases "rc_cfg_timeout C = (0, 0)")
  case True
  then show ?thesis using ok t ts
    by (intro exI [of _ C] exI [of _ "{}"]) (simp add: bucket_processing_def cleaned_refl timed_def)
next
  case False
  have w: "windows C" "ns (rc_bucket_ts C) - ns (rc_cfg_timeout C) \<le> ns ts" and T: "0 \<le> ns (rc_cfg_timeout C)" "valid_ts (rc_cfg_timeout C)"
    using t ts False by (auto simp: timed_def)
  have "idle 0 C" by (simp add: idle_def)
  from advance_ok [OF ok w(1) this ts(1), of GB_LEN] obtain n C1 D where
    a: "advance_buckets GB_LEN ts C = Some (n, C1)" "cache_ok gsh rsh (filter (\<lambda>p. fst p \<notin> D) es) rs C1" "cleaned D C C1"
      "windows C1" "idle (0 + GB_LEN - n) C1" "0 < n \<longrightarrow> ns ts \<le> ns (rc_bucket_ts C1)"
      "rc_bucket_ts C1 = rc_bucket_ts C \<or> ns (rc_bucket_ts C1) - ns (rc_cfg_timeout C) < ns ts"
      "\<forall>g \<in> D. \<forall>G. rc_groups C g = Some G \<longrightarrow> ns (rg_last_update G) + ns (rc_cfg_timeout C) < ns ts" by blast
  have T1: "rc_cfg_timeout C1 = rc_cfg_timeout C" using a(3) by (simp add: cleaned_def)
  have v: "valid_ts (rc_bucket_ts C1)" using a(4) by (simp add: windows_def Let_def)
  show ?thesis
  proof (cases "n = 0 \<and> ns (rc_bucket_ts C1) < ns ts")
    case True
    let ?C = "C1\<lparr>rc_bucket_ts := ldmsd_timespec_add ts (rc_cfg_timeout C1)\<rparr>"
    have "bucket_processing ts C = Some ?C"
      using a(1) True False timespec_cmp_ns [OF v ts(1)] by (simp add: bucket_processing_def)
    moreover have s: "valid_ts (rc_bucket_ts ?C)" "ns (rc_bucket_ts ?C) = ns ts + ns (rc_cfg_timeout C)"
      using timespec_add_ns [OF ts(1) T(2)] T1 by simp_all
    moreover have "windows ?C" using a(4,5) True s T1 T by (simp add: windows_def Let_def idle_def last_in_def)
    moreover have "cache_ok gsh rsh (filter (\<lambda>p. fst p \<notin> D) es) rs ?C" using a(2) by (simp add: cache_ok_def)
    moreover have "cleaned D C ?C" using a(3) by (simp add: cleaned_def books_def held_def)
    ultimately show ?thesis using a(8) T T1 False
      by (intro exI [of _ ?C] exI [of _ D]) (simp add: timed_def)
  next
    case no: False
    have "bucket_processing ts C = Some C1"
      using a(1) no False timespec_cmp_ns [OF v ts(1)] by (auto simp: bucket_processing_def)
    moreover have "ns ts \<le> ns (rc_bucket_ts C1)" using a(6) no by auto
    moreover have "timed (ns ts) C1" using a(4,7) T T1 w(2) by (auto simp: timed_def)
    ultimately show ?thesis using a(2,3,8) False by (intro exI [of _ C1] exI [of _ D]) simp
  qed
qed

lemma windows_all:
  assumes "cache_ok gsh rsh es rs C" and "windows C" and "rc_groups C g = Some G"
  shows "ns (rc_bucket_ts C) - 2 * ns (rc_cfg_timeout C) \<le> ns (rg_last_update G)"
proof -
  let ?bs = "rc_group_bucket C" and ?i = "rc_gb_idx C"
  have "g \<in># mset (concat ?bs)" using cache_okD(10,11) [OF assms(1)] assms(3) by (metis domI elem_mset_set)
  then obtain b where "b \<in> set ?bs" "g \<in> set b" by auto
  then obtain j where j: "j < GB_LEN" "g \<in> set (?bs ! j)" using cache_okD(8) [OF assms(1)] by (auto simp: in_set_conv_nth)
  moreover have "j = ?i \<or> j = (?i + 1) mod GB_LEN \<or> j = (?i + 2) mod GB_LEN"
    using mod3 [OF j(1)] mod3 [OF cache_okD(9) [OF assms(1)]] by auto
  ultimately consider "g \<in> set (?bs ! ?i)" | "g \<in> set (?bs ! ((?i + 2) mod GB_LEN))"
    using assms(2) by (auto simp: windows_def Let_def)
  then show ?thesis using assms(2,3) by cases (force simp: windows_def Let_def last_in_def)+
qed

subsection \<open>Inserting a row\<close>

definition room :: "row_cache \<Rightarrow> (addr \<times> row_idx) list \<Rightarrow> (addr \<times> row_idx) list" where
  "room C xs = (if int (length xs) = rc_row_limit C then tl xs else xs)"

lemma make_room:
  assumes ok: "cache_ok gsh rsh es rs C" and G: "rc_groups C g = Some G" and lim: "1 \<le> rc_row_limit C"
  shows "\<exists>t fr. (if rbt_card (rg_row_tree G) = rc_row_limit C then drop_min (rg_row_tree G) C else Some (rg_row_tree G, C)) =
      Some (t, C\<lparr>rc_entries := rc_entries C |` (- (fst ` set (rs g) - fst ` set (room C (rs g)))), rc_freed := fr\<rparr>) \<and>
    books (C\<lparr>rc_entries := rc_entries C |` (- (fst ` set (rs g) - fst ` set (room C (rs g)))), rc_freed := fr\<rparr>) = books C \<and>
    rbt_seq row_cmp (row_keys rsh) t (room C (rs g))"
proof -
  have r: "rbt_seq row_cmp (row_keys rsh) (rg_row_tree G) (rs g)" using cache_okD(4) [OF ok G] by (simp add: rows_ok_def)
  then have card: "rbt_card (rg_row_tree G) = int (length (rs g))" by (simp add: rbt_card_def rbt_seq_def rbt_rep_def)
  show ?thesis
  proof (cases "int (length (rs g)) = rc_row_limit C")
    case False
    then have "C = C\<lparr>rc_entries := rc_entries C |` (- (fst ` set (rs g) - fst ` set (room C (rs g)))), rc_freed := rc_freed C\<rparr>"
      by (simp add: room_def restrict_map_def)
    then show ?thesis using card r False by (intro exI [of _ "rg_row_tree G"] exI [of _ "rc_freed C"]) (simp add: room_def)
  next
    case True
    then obtain a k xs where xs: "rs g = (a, k) # xs" using lim by (cases "rs g") auto
    have a: "a \<noteq> NULL" "a \<notin> fst ` set xs" using rbt_seq_fst [of row_cmp "row_keys rsh" "rg_row_tree G" a k xs] r xs by auto
    have del: "del_entry a (rs g) = xs" using a(2) xs by (force simp: del_entry_def filter_id_conv)
    obtain t where t: "rbt_del (rg_row_tree G) a = Some t" "rbt_seq row_cmp (row_keys rsh) t xs"
      using rbt_del_seq [OF r, of a] xs del by auto
    have "(a, k) \<in> set (rs g)" using xs by simp
    then obtain e where "rc_entries C a = Some e" using cache_okD(4) [OF ok G] unfolding rows_ok_def by fastforce
    from books_free [OF cache_ok_finite [OF ok] this] obtain fr where
      f: "free_entry a C = Some (C\<lparr>rc_entries := (rc_entries C)(a := None), rc_freed := fr\<rparr>)"
        "books (C\<lparr>rc_entries := (rc_entries C)(a := None), rc_freed := fr\<rparr>) = books C" by blast
    have "fst ` set (rs g) - fst ` set (room C (rs g)) = {a}" using xs a(2) True by (auto simp: room_def)
    then have "rc_entries C |` (- (fst ` set (rs g) - fst ` set (room C (rs g)))) = (rc_entries C)(a := None)"
      by (simp add: restrict_complement_singleton_eq)
    then show ?thesis using f t card True xs rbt_seq_min [OF r]
      by (intro exI [of _ t] exI [of _ fr]) (simp add: drop_min_def room_def)
  qed
qed

lemma mset_remove1_all: "mset (concat (map (remove1 g) bs)) + replicate_mset (length (filter (\<lambda>b. g \<in> set b) bs)) g = mset (concat bs)"
proof (induction bs)
  case (Cons b bs)
  have "mset (remove1 g b) + (if g \<in> set b then {#g#} else {#}) = mset b" by simp
  with Cons show ?case by (auto simp: union_ac)
qed simp

lemma to_current_buckets:
  assumes "length (rc_group_bucket C) = GB_LEN" and "rc_gb_idx C < GB_LEN" and fin: "finite D" and g: "g \<in> D"
    and b: "mset (concat (rc_group_bucket C)) = mset_set D"
  shows "mset (concat (rc_group_bucket (to_current g C))) = mset_set D" "length (rc_group_bucket (to_current g C)) = GB_LEN"
proof -
  let ?bs = "rc_group_bucket C" and ?ms = "map (remove1 g) (rc_group_bucket C)"
  have "count (mset (concat ?bs)) g = 1" using b fin g by simp
  moreover have "g \<in># mset (concat ?bs)" using b fin g by simp
  then have "length (filter (\<lambda>b. g \<in> set b) ?bs) \<noteq> 0" by (auto simp: filter_empty_conv)
  moreover have "count (mset (concat ?bs)) g = count (mset (concat ?ms)) g + length (filter (\<lambda>b. g \<in> set b) ?bs)"
    by (subst mset_remove1_all [of g, symmetric]) simp
  ultimately have "length (filter (\<lambda>b. g \<in> set b) ?bs) = 1" by linarith
  then have "add_mset g (mset (concat ?ms)) = mset_set D" using mset_remove1_all [of g ?bs] b by simp
  then show "mset (concat (rc_group_bucket (to_current g C))) = mset_set D" "length (rc_group_bucket (to_current g C)) = GB_LEN"
    using mset_concat_update [of "rc_gb_idx C" ?ms "g # ?ms ! rc_gb_idx C"] assms(1,2) by (simp_all add: to_current_def Let_def)
qed

lemma room_sub: "set (room C xs) \<subseteq> set xs"
  by (cases xs) (auto simp: room_def)

lemma UN_update: "g \<in> D \<Longrightarrow> (\<Union>h \<in> D. F ((f(g := x)) h)) = F x \<union> (\<Union>h \<in> D - {g}. F (f h))"
  by (auto split: if_splits)

lemma UN_shrink:
  assumes "g \<in> D" and "R \<subseteq> F g" and "\<And>h. h \<in> D \<Longrightarrow> h \<noteq> g \<Longrightarrow> F h \<inter> F g = {}"
  shows "(\<Union>h \<in> D. F h) - (F g - R) = R \<union> (\<Union>h \<in> D - {g}. F h)"
  using assms by blast

lemma cache_ok_insert:
  assumes ok: "cache_ok gsh rsh es rs C" and G: "rc_groups C g = Some G" and lim: "1 \<le> rc_row_limit C"
    and e: "e \<notin> dom (rc_entries C)" and t': "rbt_seq row_cmp (row_keys rsh) t' (ins_entry row_cmp e k (room C (rs g)))"
    and f: "rc_groups C' = (rc_groups C)(g \<mapsto> G\<lparr>rg_row_tree := t', rg_last_update := ts\<rparr>)"
    "rc_entries C' = (rc_entries C |` (- (fst ` set (rs g) - fst ` set (room C (rs g)))))(e \<mapsto> \<lparr>re_row = row, re_idx = k\<rparr>)"
    "rc_group_tree C' = rc_group_tree C" "rc_row_limit C' = rc_row_limit C" "rc_gb_idx C' = rc_gb_idx C"
    "rc_group_bucket C' = rc_group_bucket (to_current g C)"
  shows "cache_ok gsh rsh es (rs(g := ins_entry row_cmp e k (room C (rs g)))) C'"
proof (rule cache_okI)
  let ?gone = "fst ` set (rs g) - fst ` set (room C (rs g))" and ?xs = "ins_entry row_cmp e k (room C (rs g))"
  have g: "g \<in> dom (rc_groups C)" using G by blast
  have dg: "dom (rc_groups C') = dom (rc_groups C)" using g unfolding f(1) by auto
  have fresh: "e \<notin> fst ` set (rs h)" if "h \<in> dom (rc_groups C)" for h using cache_okD(6) [OF ok] that e by blast
  have sub: "fst ` set (room C (rs g)) \<subseteq> fst ` set (rs g)" using room_sub by blast
  have xs: "fst ` set ?xs = insert e (fst ` set (room C (rs g)))" by (simp add: set_ins_entry)
  have dis: "fst ` set (rs h) \<inter> fst ` set (rs g) = {}" if "h \<in> dom (rc_groups C)" "h \<noteq> g" for h
    using cache_okD(7) [OF ok that(1) g that(2)] .
  have new: "fst ` set ?xs \<inter> fst ` set (rs h) = {}" if "h \<in> dom (rc_groups C)" "h \<noteq> g" for h
    unfolding xs using dis [OF that] fresh [OF that(1)] sub by blast
  show "rows_ok rsh (rc_entries C') H ((rs(g := ?xs)) h) \<and> int (length ((rs(g := ?xs)) h)) \<le> rc_row_limit C'"
    if H: "rc_groups C' h = Some H" for h H
  proof (cases "h = g")
    case True
    have "\<exists>row. rc_entries C (fst p) = Some \<lparr>re_row = row, re_idx = snd p\<rparr>" if "p \<in> set (room C (rs g))" for p
      using cache_okD(4) [OF ok G] that room_sub [of C "rs g"] by (auto simp: rows_ok_def)
    then have "rows_ok rsh (rc_entries C') H ?xs"
      using t' H True fresh [OF g] sub unfolding rows_ok_def f(1,2) by (force simp: set_ins_entry)
    moreover have "int (length ?xs) \<le> rc_row_limit C"
      using cache_okD(5) [OF ok G] lim by (auto simp: length_ins_entry room_def)
    ultimately show ?thesis using True f(4) by simp
  next
    case False
    then have h: "rc_groups C h = Some H" using H f(1) by simp
    have "rc_entries C' (fst p) = rc_entries C (fst p)" if "p \<in> set (rs h)" for p
      using dis [of h] fresh [of h] h False that unfolding f(2) by (auto simp: restrict_map_def)
    then show ?thesis using rows_ok_other [OF cache_okD(4) [OF ok h], of "rc_entries C'"] cache_okD(5) [OF ok h] False f(4) by simp
  qed
  show "dom (rc_entries C') = (\<Union>h \<in> dom (rc_groups C'). fst ` set ((rs(g := ?xs)) h))"
  proof -
    have "dom (rc_entries C') = insert e (dom (rc_entries C) - ?gone)" unfolding f(2) by (simp add: Diff_eq)
    also have "\<dots> = insert e ((\<Union>h \<in> dom (rc_groups C). fst ` set (rs h)) - ?gone)" unfolding cache_okD(6) [OF ok] ..
    also have "\<dots> = fst ` set ?xs \<union> (\<Union>h \<in> dom (rc_groups C) - {g}. fst ` set (rs h))"
      unfolding xs using UN_shrink [of g "dom (rc_groups C)" "fst ` set (room C (rs g))" "\<lambda>h. fst ` set (rs h)"] g sub dis by simp
    finally show ?thesis unfolding dg using UN_update [OF g, of "\<lambda>x. fst ` set x" rs ?xs] by simp
  qed
  show "fst ` set ((rs(g := ?xs)) h) \<inter> fst ` set ((rs(g := ?xs)) h') = {}"
    if h: "h \<in> dom (rc_groups C')" "h' \<in> dom (rc_groups C')" "h \<noteq> h'" for h h'
    using h cache_okD(7) [OF ok, of h h'] new [of h] new [of h'] unfolding dg
    by (cases "h = g"; cases "h' = g") (simp_all add: Int_commute)
qed (use cache_okD(1,2,3,8,9,10,11) [OF ok] to_current_buckets [of C "dom (rc_groups C)" g] G f domI [of "rc_groups C" g] in \<open>simp_all add: insert_absorb\<close>)

lemma row_inserted:
  assumes ok: "cache_ok gsh rsh es rs C" and G: "rc_groups C g = Some G" and lim: "1 \<le> rc_row_limit C"
    and e: "e \<noteq> NULL" "e \<notin> dom (rc_entries C)" and k: "k \<in> row_keys rsh"
  obtains t' C' where "insert_row e ts g k row C = Some C'"
    "cache_ok gsh rsh es (rs(g := ins_entry row_cmp e k (room C (rs g)))) C'" "books C' = add_mset row (books C)"
    "rc_groups C' = (rc_groups C)(g \<mapsto> G\<lparr>rg_row_tree := t', rg_last_update := ts\<rparr>)"
    "rc_entries C' = (rc_entries C |` (- (fst ` set (rs g) - fst ` set (room C (rs g)))))(e \<mapsto> \<lparr>re_row = row, re_idx = k\<rparr>)"
    "rc_group_bucket C' = rc_group_bucket (to_current g C)" "rc_gb_idx C' = rc_gb_idx C" "rc_bucket_ts C' = rc_bucket_ts C"
    "rc_cfg_timeout C' = rc_cfg_timeout C" "rc_row_limit C' = rc_row_limit C"
proof -
  let ?gone = "fst ` set (rs g) - fst ` set (room C (rs g))" and ?xs = "ins_entry row_cmp e k (room C (rs g))"
  obtain t fr where m: "(if rbt_card (rg_row_tree G) = rc_row_limit C then drop_min (rg_row_tree G) C else Some (rg_row_tree G, C)) =
      Some (t, C\<lparr>rc_entries := rc_entries C |` (- ?gone), rc_freed := fr\<rparr>)"
    "books (C\<lparr>rc_entries := rc_entries C |` (- ?gone), rc_freed := fr\<rparr>) = books C" "rbt_seq row_cmp (row_keys rsh) t (room C (rs g))"
    using make_room [OF ok G lim] by blast
  let ?C1 = "C\<lparr>rc_entries := rc_entries C |` (- ?gone), rc_freed := fr\<rparr>"
  have fr: "e \<notin> fst ` set (room C (rs g))" using cache_okD(6) [OF ok] G room_sub [of C "rs g"] e(2) by blast
  obtain t' where t': "rbt_ins (rbn_init e k t) e = Some t'" "rbt_seq row_cmp (row_keys rsh) t' ?xs"
    using rk.rbt_ins_seq [OF rbt_seq_rbn_init [OF m(3) fr] e(1) fr get_key_rbn_init [OF e(1)] k] by blast
  let ?C' = "to_current g (?C1\<lparr>rc_entries := (rc_entries ?C1)(e \<mapsto> \<lparr>re_row = row, re_idx = k\<rparr>),
    rc_groups := (rc_groups ?C1)(g \<mapsto> G\<lparr>rg_row_tree := t', rg_last_update := ts\<rparr>)\<rparr>)"
  have f: "rc_groups ?C' = (rc_groups C)(g \<mapsto> G\<lparr>rg_row_tree := t', rg_last_update := ts\<rparr>)"
    "rc_entries ?C' = (rc_entries C |` (- ?gone))(e \<mapsto> \<lparr>re_row = row, re_idx = k\<rparr>)" "rc_group_tree ?C' = rc_group_tree C"
    "rc_row_limit ?C' = rc_row_limit C" "rc_gb_idx ?C' = rc_gb_idx C" "rc_group_bucket ?C' = rc_group_bucket (to_current g C)"
    "rc_bucket_ts ?C' = rc_bucket_ts C" "rc_cfg_timeout ?C' = rc_cfg_timeout C"
    by (simp_all add: to_current_def Let_def)
  have "books ?C' = books (?C1\<lparr>rc_entries := (rc_entries ?C1)(e \<mapsto> \<lparr>re_row = row, re_idx = k\<rparr>)\<rparr>)"
    by (rule books_cong) (simp_all add: to_current_def Let_def)
  also have "\<dots> = add_mset row (books ?C1)"
    using cache_ok_finite [OF ok] e(2) by (intro books_add) (simp_all add: domIff, simp add: restrict_map_def)
  finally have "books ?C' = add_mset row (books C)" using m(2) by simp
  moreover have "insert_row e ts g k row C = Some ?C'" using G m(1) t'(1) by (simp add: insert_row_def)
  ultimately show thesis using that [OF _ cache_ok_insert [OF ok G lim e(2) t'(2) f(1-6)]] f by blast
qed

subsection \<open>Finding and creating the group\<close>

lemma group_found:
  assumes ok: "cache_ok gsh rsh es rs C" and k: "k \<in> row_keys gsh"
  obtains a where "rbt_find (rc_group_tree C) k = Some a"
    and "a = NULL \<Longrightarrow> \<forall>p \<in> set es. row_cmp (snd p) k \<noteq> 0"
    and "a \<noteq> NULL \<Longrightarrow> \<exists>k'. (a, k') \<in> set es \<and> row_cmp k' k = 0"
proof -
  obtain a where a: "rbt_find (rc_group_tree C) k = Some a" "found_in row_cmp k es a"
    using rk.rbt_search_seq(1) [OF cache_okD(1) [OF ok] k] by blast
  have nz: "NULL \<notin> fst ` set es" using rbt_rep_distinct cache_okD(1) [OF ok] by (auto simp: rbt_seq_def)
  have "\<forall>p \<in> set es. row_cmp (snd p) k \<noteq> 0" if "a = NULL"
    using a(2) nz that by (fastforce simp: found_in_def Let_def filter_empty_conv split: if_splits)
  moreover have "\<exists>k'. (a, k') \<in> set es \<and> row_cmp k' k = 0" if "a \<noteq> NULL"
    using a(2) that by (auto simp: found_in_def Let_def split: if_splits)
  ultimately show thesis using that [OF a(1)] by blast
qed

lemma group_keys: "cache_ok gsh rsh es rs C \<Longrightarrow> p \<in> set es \<Longrightarrow> snd p \<in> row_keys gsh"
  by (drule cache_okD(1)) (auto simp: rbt_seq_def ordered_def)

lemma row_cmp_eq_trans:
  assumes "a \<in> row_keys sh" "b \<in> row_keys sh" "c \<in> row_keys sh" "row_cmp a b = 0" "row_cmp b c = 0"
  shows "row_cmp a c = 0"
proof -
  have "row_cmp a c \<le> 0" using rk.cmp_trans [OF assms(1-3)] assms(4,5) by simp
  moreover have "row_cmp b a = 0" "row_cmp c b = 0"
    using rk.cmp_eq_flip [OF assms(1,2)] rk.cmp_eq_flip [OF assms(2,3)] assms(4,5) by simp_all
  then have "row_cmp c a \<le> 0" using rk.cmp_trans [OF assms(3,2,1)] by simp
  ultimately show ?thesis using rk.cmp_le_flip [OF assms(1,3)] by simp
qed

definition blank_group :: "row_idx \<Rightarrow> row_group" where
  "blank_group k = \<lparr>rg_row_key_count = key_count k, rg_row_tree = rbt_init row_cmp rbt_blank, rg_last_update = (0, 0)\<rparr>"

lemma new_group_ok:
  assumes ok: "cache_ok gsh rsh es rs C" and k: "k \<in> row_keys gsh" and none: "\<forall>p \<in> set es. row_cmp (snd p) k \<noteq> 0"
    and g: "group_mem env = g" "g \<noteq> NULL" "g \<notin> dom (rc_groups C)" and dup: "dup_ok env" and lim: "1 \<le> rc_row_limit C"
  obtains t C' where "new_group env k rk C = Some (g, C')" "C' = C\<lparr>rc_group_tree := t, rc_groups := (rc_groups C)(g \<mapsto> blank_group rk),
      rc_group_bucket := (rc_group_bucket C)[rc_gb_idx C := g # rc_group_bucket C ! rc_gb_idx C]\<rparr>"
    "cache_ok gsh rsh (ins_entry row_cmp g k es) (rs(g := [])) C'"
proof -
  have fresh: "g \<notin> fst ` set es" using g(3) cache_okD(3) [OF ok] by simp
  obtain t where t: "rbt_ins (rbn_init g k (rc_group_tree C)) g = Some t" "rbt_seq row_cmp (row_keys gsh) t (ins_entry row_cmp g k es)"
    using rk.rbt_ins_seq [OF rbt_seq_rbn_init [OF cache_okD(1) [OF ok] fresh] g(2) fresh get_key_rbn_init [OF g(2)] k] by blast
  let ?C = "C\<lparr>rc_group_tree := t, rc_groups := (rc_groups C)(g \<mapsto> blank_group rk),
      rc_group_bucket := (rc_group_bucket C)[rc_gb_idx C := g # rc_group_bucket C ! rc_gb_idx C]\<rparr>"
  have "new_group env k rk C = Some (g, ?C)"
    using g dup t(1) idx_dup_same [OF k] by (simp add: new_group_def Let_def blank_group_def)
  moreover have "cache_ok gsh rsh (ins_entry row_cmp g k es) (rs(g := [])) ?C"
  proof (rule cache_okI)
    have "row_cmp k (snd p) \<noteq> 0" if "p \<in> set es" for p
      using none that rk.cmp_eq_flip [OF group_keys [OF ok that] k] by simp
    then show "one_each (ins_entry row_cmp g k es)"
      using cache_okD(2) [OF ok] none unfolding one_each_def set_ins_entry by auto
  next
    fix h H
    assume H: "rc_groups ?C h = Some H"
    show "rows_ok rsh (rc_entries ?C) H ((rs(g := [])) h) \<and> int (length ((rs(g := [])) h)) \<le> rc_row_limit ?C"
    proof (cases "h = g")
      case True
      then show ?thesis using H lim rbt_seq_init [of row_cmp "row_keys rsh"] by (auto simp: rows_ok_def blank_group_def)
    next
      case False
      then show ?thesis using H cache_okD(4,5) [OF ok, of h H] by simp
    qed
  next
    have "dom (rc_groups ?C) - {g} = dom (rc_groups C)" using g(3) by auto
    then show "dom (rc_entries ?C) = (\<Union>h \<in> dom (rc_groups ?C). fst ` set ((rs(g := [])) h))"
      using UN_update [of g "dom (rc_groups ?C)" "\<lambda>x. fst ` set x" rs "[]"] cache_okD(6) [OF ok] by simp
  next
    fix h h'
    assume "h \<in> dom (rc_groups ?C)" "h' \<in> dom (rc_groups ?C)" "h \<noteq> h'"
    then show "fst ` set ((rs(g := [])) h) \<inter> fst ` set ((rs(g := [])) h') = {}" using cache_okD(7) [OF ok, of h h'] by auto
  next
    show "mset (concat (rc_group_bucket ?C)) = mset_set (dom (rc_groups ?C))"
      using mset_concat_update [of "rc_gb_idx C" "rc_group_bucket C" "g # rc_group_bucket C ! rc_gb_idx C"]
        cache_okD(8-11) [OF ok] g(3) by simp
  qed (use t(2) cache_okD(3,8,9) [OF ok] in \<open>simp_all add: set_ins_entry\<close>)
  ultimately show thesis using that by blast
qed

subsection \<open>The cache as a table\<close>

text \<open>
  What a cache holds for a group key: when the group was last used and its rows in order, each with its
  key. Keys that compare equal name the same group.
\<close>

type_synonym row_table = "row_idx \<Rightarrow> (timespec \<times> (row_idx \<times> addr) list) option"

definition rows_of :: "row_cache \<Rightarrow> (addr \<times> row_idx) list \<Rightarrow> (row_idx \<times> addr) list" where
  "rows_of C xs = map (\<lambda>p. (snd p, re_row (the (rc_entries C (fst p))))) xs"

definition group_view :: "row_cache \<Rightarrow> (addr \<times> row_idx) list \<Rightarrow> (addr \<Rightarrow> (addr \<times> row_idx) list) \<Rightarrow> row_table" where
  "group_view C es rs k = (case filter (\<lambda>p. row_cmp (snd p) k = 0) es of
     [] \<Rightarrow> None
   | p # _ \<Rightarrow> Some (rg_last_update (the (rc_groups C (fst p))), rows_of C (rs (fst p))))"

lemma group_view_None: "\<forall>p \<in> set es. row_cmp (snd p) k \<noteq> 0 \<Longrightarrow> group_view C es rs k = None"
  by (simp add: group_view_def)

lemma match_unique:
  assumes ok: "cache_ok gsh rsh es rs C" and k: "k \<in> row_keys gsh"
    and p: "p \<in> set es" "row_cmp (snd p) k = 0" and q: "q \<in> set es" "row_cmp (snd q) k = 0"
  shows "q = p"
proof -
  have "row_cmp k (snd p) = 0" using p(2) rk.cmp_eq_flip [OF group_keys [OF ok p(1)] k] by simp
  then have "row_cmp (snd q) (snd p) = 0"
    using row_cmp_eq_trans [OF group_keys [OF ok q(1)] k group_keys [OF ok p(1)] q(2)] by simp
  then show ?thesis using cache_okD(2) [OF ok] p(1) q(1) unfolding one_each_def by blast
qed

lemma group_view_Some:
  assumes ok: "cache_ok gsh rsh es rs C" and k: "k \<in> row_keys gsh" and p: "p \<in> set es" "row_cmp (snd p) k = 0"
    and G: "rc_groups C (fst p) = Some G"
  shows "group_view C es rs k = Some (rg_last_update G, rows_of C (rs (fst p)))"
proof -
  have "\<forall>q \<in> set (filter (\<lambda>p. row_cmp (snd p) k = 0) es). q = p" using match_unique [OF ok k p] by simp
  moreover have "p \<in> set (filter (\<lambda>p. row_cmp (snd p) k = 0) es)" using p by simp
  ultimately obtain xs where "filter (\<lambda>p. row_cmp (snd p) k = 0) es = p # xs"
    by (cases "filter (\<lambda>p. row_cmp (snd p) k = 0) es") simp_all
  then show ?thesis using G by (simp add: group_view_def)
qed

lemma group_of_entry: "cache_ok gsh rsh es rs C \<Longrightarrow> p \<in> set es \<Longrightarrow> \<exists>G. rc_groups C (fst p) = Some G"
  using cache_okD(3) [of gsh rsh es rs C] by (metis domD image_eqI)

lemma rows_of_cong: "(\<And>p. p \<in> set xs \<Longrightarrow> rc_entries C' (fst p) = rc_entries C (fst p)) \<Longrightarrow> rows_of C' xs = rows_of C xs"
  by (simp add: rows_of_def)

lemma group_view_cleaned:
  assumes ok: "cache_ok gsh rsh es rs C" and ok': "cache_ok gsh rsh (filter (\<lambda>p. fst p \<notin> D) es) rs C'"
    and c: "cleaned D C C'" and k: "k \<in> row_keys gsh"
  shows "group_view C' (filter (\<lambda>p. fst p \<notin> D) es) rs k = group_view C es rs k \<or>
    group_view C' (filter (\<lambda>p. fst p \<notin> D) es) rs k = None \<and>
    (\<exists>g G rows. g \<in> D \<and> rc_groups C g = Some G \<and> group_view C es rs k = Some (rg_last_update G, rows))"
proof (cases "\<exists>p \<in> set es. row_cmp (snd p) k = 0")
  case True
  then obtain p where p: "p \<in> set es" "row_cmp (snd p) k = 0" by blast
  obtain G where G: "rc_groups C (fst p) = Some G" using group_of_entry [OF ok p(1)] by blast
  note v = group_view_Some [OF ok k p G]
  show ?thesis
  proof (cases "fst p \<in> D")
    case True
    then have "group_view C' (filter (\<lambda>p. fst p \<notin> D) es) rs k = None"
      using match_unique [OF ok k p] by (intro group_view_None) auto
    then show ?thesis using True G v by blast
  next
    case False
    then have p': "p \<in> set (filter (\<lambda>p. fst p \<notin> D) es)" and G': "rc_groups C' (fst p) = Some G"
      using p(1) G c by (simp_all add: cleaned_def)
    have "rows_of C' (rs (fst p)) = rows_of C (rs (fst p))"
    proof (rule rows_of_cong)
      fix q assume "q \<in> set (rs (fst p))"
      then have "fst q \<in> dom (rc_entries C')" using cache_okD(4) [OF ok' G'] by (auto simp: rows_ok_def)
      then show "rc_entries C' (fst q) = rc_entries C (fst q)" using c by (simp add: cleaned_def map_le_def)
    qed
    then show ?thesis using group_view_Some [OF ok' k p' p(2) G'] v by simp
  qed
qed (simp add: group_view_None)

definition cache_rep :: "(ldms_value_type \<times> nat) list \<Rightarrow> (ldms_value_type \<times> nat) list \<Rightarrow> int \<Rightarrow> row_cache \<Rightarrow> row_table \<Rightarrow> bool" where
  "cache_rep gsh rsh now C A \<longleftrightarrow>
     (\<exists>es rs. cache_ok gsh rsh es rs C \<and> timed now C \<and> (\<forall>k \<in> row_keys gsh. A k = group_view C es rs k))"

end
