(* ===== verification/RowCacheTop.thy ===== *)
theory RowCacheTop
  imports RowCacheSpec
begin

section \<open>What the row cache promises\<close>

subsection \<open>Putting a row into the table\<close>

definition ins_row :: "row_idx \<Rightarrow> addr \<Rightarrow> (row_idx \<times> addr) list \<Rightarrow> (row_idx \<times> addr) list" where
  "ins_row k row rows = takeWhile (\<lambda>p. row_cmp (fst p) k \<le> 0) rows @ (k, row) # dropWhile (\<lambda>p. row_cmp (fst p) k \<le> 0) rows"

text \<open>A full group loses its least row first, even when the new row is below it.\<close>

definition put_row :: "int \<Rightarrow> row_idx \<Rightarrow> addr \<Rightarrow> (row_idx \<times> addr) list \<Rightarrow> (row_idx \<times> addr) list" where
  "put_row limit k row rows = ins_row k row (if int (length rows) = limit then tl rows else rows)"

definition rows_in :: "row_table \<Rightarrow> row_idx \<Rightarrow> (row_idx \<times> addr) list" where
  "rows_in A k = (case A k of None \<Rightarrow> [] | Some (t, rows) \<Rightarrow> rows)"

definition table_put :: "int \<Rightarrow> timespec \<Rightarrow> row_idx \<Rightarrow> row_idx \<Rightarrow> addr \<Rightarrow> row_table \<Rightarrow> row_table" where
  "table_put limit ts gk k row A = (\<lambda>k'. if row_cmp gk k' = 0 then Some (ts, put_row limit k row (rows_in A gk)) else A k')"

lemma rows_of_ins:
  assumes "rc_entries C' e = Some \<lparr>re_row = row, re_idx = k\<rparr>" and "rows_of C' xs = rows_of C xs"
  shows "rows_of C' (ins_entry row_cmp e k xs) = ins_row k row (rows_of C xs)"
  using assms by (simp add: ins_entry_def ins_row_def assms(2) [symmetric]) (simp add: rows_of_def takeWhile_map dropWhile_map comp_def)

lemma rows_of_room: "rows_of C (room C xs) = (if int (length (rows_of C xs)) = rc_row_limit C then tl (rows_of C xs) else rows_of C xs)"
  by (simp add: room_def rows_of_def map_tl)

lemma group_view_put:
  assumes ok: "cache_ok gsh rsh es rs C" and ok': "cache_ok gsh rsh es (rs(g := ins_entry row_cmp e k (room C (rs g)))) C'"
    and p: "(g, gk') \<in> set es" "row_cmp gk' gk = 0" "rc_groups C g = Some G" and gk: "gk \<in> row_keys gsh"
    and groups: "rc_groups C' = (rc_groups C)(g \<mapsto> G\<lparr>rg_row_tree := t', rg_last_update := ts\<rparr>)" and e: "e \<notin> dom (rc_entries C)"
    and entries: "rc_entries C' = (rc_entries C |` (- (fst ` set (rs g) - fst ` set (room C (rs g)))))(e \<mapsto> \<lparr>re_row = row, re_idx = k\<rparr>)"
    and k': "k' \<in> row_keys gsh"
  shows "group_view C' es (rs(g := ins_entry row_cmp e k (room C (rs g)))) k' = table_put (rc_row_limit C) ts gk k row (group_view C es rs) k'"
proof -
  let ?rs = "rs(g := ins_entry row_cmp e k (room C (rs g)))"
  have g: "g \<in> dom (rc_groups C)" and gk': "gk' \<in> row_keys gsh" using p group_keys [OF ok p(1)] by auto
  have fresh: "e \<notin> fst ` set (rs h)" if "h \<in> dom (rc_groups C)" for h using cache_okD(6) [OF ok] that e by blast
  have same: "row_cmp gk k' = 0 \<longleftrightarrow> row_cmp gk' k' = 0"
    using row_cmp_eq_trans [OF gk' gk k' p(2)] row_cmp_eq_trans [OF gk gk' k'] rk.cmp_eq_flip [OF gk' gk] p(2) by blast
  have own: "rows_of C' (room C (rs g)) = rows_of C (room C (rs g))"
  proof (rule rows_of_cong)
    fix q assume q: "q \<in> set (room C (rs g))"
    then have "fst q \<noteq> e" using fresh [OF g] room_sub [of C "rs g"] by blast
    then show "rc_entries C' (fst q) = rc_entries C (fst q)" using q by (simp add: entries restrict_map_def)
  qed
  have "rows_in (group_view C es rs) gk = rows_of C (rs g)" using group_view_Some [OF ok gk p(1)] p by (simp add: rows_in_def)
  moreover have "rows_of C' (?rs g) = put_row (rc_row_limit C) k row (rows_of C (rs g))"
    using rows_of_ins [OF _ own, of e row k] entries by (simp add: put_row_def rows_of_room)
  moreover have "group_view C' es ?rs k' = group_view C es rs k'" if no: "row_cmp gk' k' \<noteq> 0"
  proof (cases "\<exists>q \<in> set es. row_cmp (snd q) k' = 0")
    case True
    then obtain q where q: "q \<in> set es" "row_cmp (snd q) k' = 0" by blast
    obtain H where H: "rc_groups C (fst q) = Some H" using group_of_entry [OF ok q(1)] by blast
    have "distinct (map fst es)" using cache_okD(1) [OF ok] rbt_rep_distinct by (auto simp: rbt_seq_def)
    then have ne: "fst q \<noteq> g" using q p(1) no by (metis eq_key_imp_eq_value prod.collapse)
    have "fst ` set (rs (fst q)) \<inter> fst ` set (rs g) = {}" using cache_okD(7) [OF ok _ g ne] H by blast
    then have "rows_of C' (rs (fst q)) = rows_of C (rs (fst q))"
      using fresh [of "fst q"] H by (intro rows_of_cong) (auto simp: entries restrict_map_def)
    moreover have "rc_groups C' (fst q) = Some H" using H groups ne by simp
    ultimately show ?thesis using group_view_Some [OF ok' k' q] group_view_Some [OF ok k' q H] ne by simp
  qed (simp add: group_view_None)
  ultimately show ?thesis using same group_view_Some [OF ok' k' p(1)] groups by (auto simp: table_put_def)
qed

subsection \<open>Windows after a put\<close>

lemma windows_put:
  assumes w: "windows C" and i: "rc_gb_idx C < GB_LEN" and ts: "ns (rc_bucket_ts C) - ns (rc_cfg_timeout C) \<le> ns ts" "ns ts \<le> ns (rc_bucket_ts C)"
    and g: "\<And>h H. rc_groups C' h = Some H \<Longrightarrow> if h = g then rg_last_update H = ts else rc_groups C h = Some H"
    and b: "\<And>j. j < GB_LEN \<Longrightarrow> set (rc_group_bucket C' ! j) \<subseteq> (if j = rc_gb_idx C then insert g else id) (set (rc_group_bucket C ! j))"
    and same: "rc_gb_idx C' = rc_gb_idx C" "rc_bucket_ts C' = rc_bucket_ts C" "rc_cfg_timeout C' = rc_cfg_timeout C"
    and stale: "g \<notin> set (rc_group_bucket C' ! ((rc_gb_idx C + 2) mod GB_LEN))"
  shows "windows C'"
proof -
  let ?i = "rc_gb_idx C"
  have ne: "(?i + 1) mod GB_LEN \<noteq> ?i" "(?i + 2) mod GB_LEN \<noteq> ?i" using mod3 [OF i] by auto
  have "rc_group_bucket C' ! ((?i + 1) mod GB_LEN) = []" using b [of "(?i + 1) mod GB_LEN"] ne(1) w by (simp add: windows_def Let_def)
  moreover have "last_in C' (set (rc_group_bucket C' ! ?i)) (ns (rc_bucket_ts C) - ns (rc_cfg_timeout C)) (ns (rc_bucket_ts C))"
    unfolding last_in_def
  proof (intro ballI allI impI)
    fix h H assume "h \<in> set (rc_group_bucket C' ! ?i)" "rc_groups C' h = Some H"
    then show "ns (rc_bucket_ts C) - ns (rc_cfg_timeout C) \<le> ns (rg_last_update H) \<and> ns (rg_last_update H) \<le> ns (rc_bucket_ts C)"
      using b [OF i] g [of h H] w ts by (cases "h = g") (auto simp: windows_def Let_def last_in_def)
  qed
  moreover have "last_in C' (set (rc_group_bucket C' ! ((?i + 2) mod GB_LEN))) (ns (rc_bucket_ts C) - 2 * ns (rc_cfg_timeout C))
      (ns (rc_bucket_ts C) - ns (rc_cfg_timeout C))"
    unfolding last_in_def
  proof (intro ballI allI impI)
    fix h H assume h: "h \<in> set (rc_group_bucket C' ! ((?i + 2) mod GB_LEN))" "rc_groups C' h = Some H"
    then have "rc_groups C h = Some H" using g [of h H] stale by (cases "h = g") simp_all
    moreover have "h \<in> set (rc_group_bucket C ! ((?i + 2) mod GB_LEN))" using h(1) b [of "(?i + 2) mod GB_LEN"] ne(2) by auto
    ultimately show "ns (rc_bucket_ts C) - 2 * ns (rc_cfg_timeout C) \<le> ns (rg_last_update H) \<and>
        ns (rg_last_update H) \<le> ns (rc_bucket_ts C) - ns (rc_cfg_timeout C)" using w by (simp add: windows_def Let_def last_in_def)
  qed
  ultimately show ?thesis using w by (simp add: windows_def Let_def same)
qed

lemma to_current_sub:
  assumes "length (rc_group_bucket C) = GB_LEN" and "rc_gb_idx C < GB_LEN" and "j < GB_LEN"
  shows "set (rc_group_bucket (to_current g C) ! j) \<subseteq> (if j = rc_gb_idx C then insert g else id) (set (rc_group_bucket C ! j))"
  using assms set_remove1_subset [of g "rc_group_bucket C ! j"] by (auto simp: to_current_def Let_def nth_list_update)

lemma to_current_gone:
  assumes "length (rc_group_bucket C) = GB_LEN" and i: "rc_gb_idx C < GB_LEN" and b: "mset (concat (rc_group_bucket C)) = mset_set D" "finite D"
  shows "g \<notin> set (rc_group_bucket (to_current g C) ! ((rc_gb_idx C + 2) mod GB_LEN))"
proof -
  let ?j = "(rc_gb_idx C + 2) mod GB_LEN"
  have j: "?j < GB_LEN" "?j \<noteq> rc_gb_idx C" using mod3 [OF i] by auto
  have "distinct (concat (rc_group_bucket C))" using b by (metis distinct_count_atmost_1 count_mset_set(1) count_mset_set(3) mset_eq_setD set_mset_mset finite_set_mset_mset_set)
  then have "distinct (rc_group_bucket C ! ?j)" using j(1) assms(1) nth_mem by (fastforce simp: distinct_concat_iff)
  then show ?thesis using j assms(1) by (simp add: to_current_def Let_def)
qed

subsection \<open>A call\<close>

text \<open>A cache in which the group \<open>g\<close> may be new in the current bucket.\<close>

definition but_for :: "addr \<Rightarrow> row_cache \<Rightarrow> row_cache \<Rightarrow> bool" where
  "but_for g C0 C \<longleftrightarrow> (\<forall>h. h \<noteq> g \<longrightarrow> rc_groups C h = rc_groups C0 h) \<and>
     (\<forall>j < GB_LEN. set (rc_group_bucket C ! j) \<subseteq> (if j = rc_gb_idx C0 then insert g else id) (set (rc_group_bucket C0 ! j))) \<and>
     rc_gb_idx C = rc_gb_idx C0 \<and> rc_bucket_ts C = rc_bucket_ts C0 \<and> rc_cfg_timeout C = rc_cfg_timeout C0"

lemma put_ok:
  assumes ok: "cache_ok gsh rsh es rs C" and C0: "but_for g C0 C" "timed (ns ts) C0" "rc_cfg_timeout C \<noteq> (0, 0) \<longrightarrow> ns ts \<le> ns (rc_bucket_ts C)"
    and p: "(g, gk') \<in> set es" "row_cmp gk' gk = 0" and gk: "gk \<in> row_keys gsh" and k: "k \<in> row_keys rsh"
    and e: "e \<noteq> NULL" "e \<notin> dom (rc_entries C)" and lim: "1 \<le> rc_row_limit C"
  shows "\<exists>C'. insert_row e ts g k row C = Some C' \<and>
    cache_rep gsh rsh (ns ts) C' (table_put (rc_row_limit C) ts gk k row (group_view C es rs)) \<and> books C' = add_mset row (books C) \<and>
    rc_row_limit C' = rc_row_limit C \<and> rc_cfg_timeout C' = rc_cfg_timeout C"
proof -
  obtain G where G: "rc_groups C g = Some G" using group_of_entry [OF ok p(1)] by auto
  obtain t' C' where c: "insert_row e ts g k row C = Some C'"
    "cache_ok gsh rsh es (rs(g := ins_entry row_cmp e k (room C (rs g)))) C'" "books C' = add_mset row (books C)"
    "rc_groups C' = (rc_groups C)(g \<mapsto> G\<lparr>rg_row_tree := t', rg_last_update := ts\<rparr>)"
    "rc_entries C' = (rc_entries C |` (- (fst ` set (rs g) - fst ` set (room C (rs g)))))(e \<mapsto> \<lparr>re_row = row, re_idx = k\<rparr>)"
    "rc_group_bucket C' = rc_group_bucket (to_current g C)" "rc_gb_idx C' = rc_gb_idx C" "rc_bucket_ts C' = rc_bucket_ts C"
    "rc_cfg_timeout C' = rc_cfg_timeout C" "rc_row_limit C' = rc_row_limit C"
    using row_inserted [OF ok G lim e k] by blast
  note b = cache_okD(8,9) [OF ok]
  have f: "rc_gb_idx C' = rc_gb_idx C0" "rc_bucket_ts C' = rc_bucket_ts C0" "rc_cfg_timeout C' = rc_cfg_timeout C0" "rc_gb_idx C0 < GB_LEN"
    using C0(1) c(7-9) b(2) by (simp_all add: but_for_def)
  have "windows C'" if w: "windows C0" "rc_cfg_timeout C0 \<noteq> (0, 0)"
  proof (rule windows_put [OF w(1) f(4), of ts C' g])
    fix h H assume "rc_groups C' h = Some H"
    then show "if h = g then rg_last_update H = ts else rc_groups C0 h = Some H" using c(4) C0(1) by (auto simp: but_for_def)
  next
    fix j assume j: "j < GB_LEN"
    then have "set (rc_group_bucket C ! j) \<subseteq> (if j = rc_gb_idx C0 then insert g else id) (set (rc_group_bucket C0 ! j))"
      and i: "rc_gb_idx C = rc_gb_idx C0" using C0(1) by (simp_all add: but_for_def)
    then show "set (rc_group_bucket C' ! j) \<subseteq> (if j = rc_gb_idx C0 then insert g else id) (set (rc_group_bucket C0 ! j))"
      using to_current_sub [OF b j, of g] unfolding c(6) i by (cases "j = rc_gb_idx C0") auto
  next
    show "g \<notin> set (rc_group_bucket C' ! ((rc_gb_idx C0 + 2) mod GB_LEN))"
      using to_current_gone [OF b cache_okD(10,11) [OF ok], of g] c(6,7) f(1) by simp
  qed (use C0 w f c(8,9) in \<open>simp_all add: timed_def\<close>)
  then have "timed (ns ts) C'" using C0(2) by (simp add: timed_def f)
  then have "cache_rep gsh rsh (ns ts) C' (table_put (rc_row_limit C) ts gk k row (group_view C es rs))"
    unfolding cache_rep_def using c(2) group_view_put [OF ok c(2) p G gk c(4) e(2) c(5)]
    by (intro exI [of _ es] exI [of _ "rs(g := ins_entry row_cmp e k (room C (rs g)))"]) simp
  then show ?thesis using c by blast
qed

lemma group_view_new:
  assumes "g \<notin> fst ` set es" and "row_cmp gk k' \<noteq> 0" and "rc_entries C' = rc_entries C" and "\<And>h. h \<noteq> g \<Longrightarrow> rc_groups C' h = rc_groups C h"
  shows "group_view C' (ins_entry row_cmp g gk es) (rs(g := xs)) k' = group_view C es rs k'"
proof -
  have "filter (\<lambda>p. row_cmp (snd p) k' = 0) (ins_entry row_cmp g gk es) = filter (\<lambda>p. row_cmp (snd p) k' = 0) es"
    using assms(2) by (simp add: ins_entry_def) (metis filter_append takeWhile_dropWhile_id)
  moreover have "fst p \<noteq> g" if "filter (\<lambda>p. row_cmp (snd p) k' = 0) es = p # ps" for p ps
    using assms(1) that by (metis filter_is_subset image_eqI list.set_intros(1) subsetD)
  ultimately show ?thesis using assms(3,4) by (auto simp: group_view_def rows_of_def split: list.split)
qed

lemma cache_rep_cong: "cache_rep gsh rsh now C A \<Longrightarrow> (\<And>k. k \<in> row_keys gsh \<Longrightarrow> B k = A k) \<Longrightarrow> cache_rep gsh rsh now C B"
  unfolding cache_rep_def by force

lemma put_new:
  assumes ok: "cache_ok gsh rsh es rs C" and t: "timed (ns ts) C" "rc_cfg_timeout C \<noteq> (0, 0) \<longrightarrow> ns ts \<le> ns (rc_bucket_ts C)"
    and none: "\<forall>p \<in> set es. row_cmp (snd p) gk \<noteq> 0" and gk: "gk \<in> row_keys gsh" and k: "k \<in> row_keys rsh"
    and g: "group_mem env \<noteq> NULL" "group_mem env \<notin> dom (rc_groups C)" "dup_ok env"
    and e: "e \<noteq> NULL" "e \<notin> dom (rc_entries C)" and lim: "1 \<le> rc_row_limit C"
  shows "\<exists>C1 C'. new_group env gk k C = Some (group_mem env, C1) \<and> insert_row e ts (group_mem env) k row C1 = Some C' \<and>
    cache_rep gsh rsh (ns ts) C' (table_put (rc_row_limit C) ts gk k row (group_view C es rs)) \<and> books C' = add_mset row (books C) \<and>
    rc_row_limit C' = rc_row_limit C \<and> rc_cfg_timeout C' = rc_cfg_timeout C"
proof -
  let ?g = "group_mem env" and ?es = "ins_entry row_cmp (group_mem env) gk es" and ?rs = "rs(group_mem env := [])"
  obtain tr C1 where n: "new_group env gk k C = Some (?g, C1)" "C1 = C\<lparr>rc_group_tree := tr, rc_groups := (rc_groups C)(?g \<mapsto> blank_group k),
      rc_group_bucket := (rc_group_bucket C)[rc_gb_idx C := ?g # rc_group_bucket C ! rc_gb_idx C]\<rparr>" "cache_ok gsh rsh ?es ?rs C1"
    using new_group_ok [OF ok gk none refl g lim] by blast
  have "but_for ?g C C1" using n(2) cache_okD(8) [OF ok] by (auto simp: but_for_def nth_list_update)
  from put_ok [OF n(3) this t(1) _ _ _ gk k e(1), of gk row] obtain C' where
    c: "insert_row e ts ?g k row C1 = Some C'" "cache_rep gsh rsh (ns ts) C' (table_put (rc_row_limit C) ts gk k row (group_view C1 ?es ?rs))"
      "books C' = add_mset row (books C1)" "rc_row_limit C' = rc_row_limit C" "rc_cfg_timeout C' = rc_cfg_timeout C"
    using n(2) t(2) rk.cmp_refl [OF gk] e(2) lim by (auto simp: set_ins_entry)
  have fresh: "?g \<notin> fst ` set es" using g(2) cache_okD(3) [OF ok] by simp
  have "group_view C1 ?es ?rs k' = group_view C es rs k'" if "row_cmp gk k' \<noteq> 0" for k'
    using group_view_new [OF fresh that, of C1 C rs "[]"] n(2) by simp
  moreover have "rows_in (group_view C1 ?es ?rs) gk = rows_in (group_view C es rs) gk"
  proof -
    have "group_view C1 ?es ?rs gk = Some (rg_last_update (blank_group k), [])"
      using group_view_Some [OF n(3) gk, of "(?g, gk)" "blank_group k"] rk.cmp_refl [OF gk] n(2) by (simp add: set_ins_entry rows_of_def)
    then show ?thesis using group_view_None [OF none] by (simp add: rows_in_def)
  qed
  ultimately have "cache_rep gsh rsh (ns ts) C' (table_put (rc_row_limit C) ts gk k row (group_view C es rs))"
    by (intro cache_rep_cong [OF c(2)]) (simp add: table_put_def)
  moreover have "books C1 = books C" using n(2) by (simp add: books_def held_def)
  ultimately show ?thesis using n(1) c by auto
qed

text \<open>
  What the start of a call at time \<open>ts\<close> may do to a table: groups unused for longer than the timeout may
  go, those unused for longer than twice the timeout do, and without a timeout all stay.
\<close>

definition expires :: "timespec \<Rightarrow> timespec \<Rightarrow> row_idx set \<Rightarrow> row_table \<Rightarrow> row_table \<Rightarrow> bool" where
  "expires T ts K A B \<longleftrightarrow>
     (\<forall>k \<in> K. B k = A k \<or> B k = None \<and> T \<noteq> (0, 0) \<and> (\<exists>t rows. A k = Some (t, rows) \<and> ns t + ns T < ns ts)) \<and>
     (T \<noteq> (0, 0) \<longrightarrow> (\<forall>k \<in> K. \<forall>t rows. B k = Some (t, rows) \<longrightarrow> ns ts \<le> ns t + 2 * ns T))"

lemma bucket_processing_expires:
  assumes ok: "cache_ok gsh rsh es rs C" and t: "timed now C" and ts: "valid_ts ts" "now \<le> ns ts"
  obtains C1 es1 where "bucket_processing ts C = Some C1" "cache_ok gsh rsh es1 rs C1" "timed (ns ts) C1"
    "rc_cfg_timeout C1 \<noteq> (0, 0) \<longrightarrow> ns ts \<le> ns (rc_bucket_ts C1)" "expires (rc_cfg_timeout C) ts (row_keys gsh) (group_view C es rs) (group_view C1 es1 rs)"
    "books C1 = books C" "rc_row_limit C1 = rc_row_limit C" "rc_cfg_timeout C1 = rc_cfg_timeout C"
    "rc_entries C1 \<subseteq>\<^sub>m rc_entries C" "dom (rc_groups C1) \<subseteq> dom (rc_groups C)"
proof -
  obtain C1 D where b: "bucket_processing ts C = Some C1" "cache_ok gsh rsh (filter (\<lambda>p. fst p \<notin> D) es) rs C1" "cleaned D C C1"
    "timed (ns ts) C1" "rc_cfg_timeout C \<noteq> (0, 0) \<longrightarrow> ns ts \<le> ns (rc_bucket_ts C1)" "rc_cfg_timeout C = (0, 0) \<longrightarrow> D = {}"
    "\<forall>g \<in> D. \<forall>G. rc_groups C g = Some G \<longrightarrow> ns (rg_last_update G) + ns (rc_cfg_timeout C) < ns ts"
    using bucket_processing_ok [OF assms] by blast
  let ?es = "filter (\<lambda>p. fst p \<notin> D) es"
  have T: "rc_cfg_timeout C1 = rc_cfg_timeout C" using b(3) by (simp add: cleaned_def)
  have "group_view C1 ?es rs k = group_view C es rs k \<or> group_view C1 ?es rs k = None \<and> rc_cfg_timeout C \<noteq> (0, 0) \<and>
      (\<exists>t rows. group_view C es rs k = Some (t, rows) \<and> ns t + ns (rc_cfg_timeout C) < ns ts)" if "k \<in> row_keys gsh" for k
    using group_view_cleaned [OF ok b(2,3) that] b(6,7) by blast
  moreover have "ns ts \<le> ns t + 2 * ns (rc_cfg_timeout C)"
    if T0: "rc_cfg_timeout C \<noteq> (0, 0)" and k: "k \<in> row_keys gsh" and v: "group_view C1 ?es rs k = Some (t, rows)" for k t rows
  proof -
    obtain p where p: "p \<in> set ?es" "row_cmp (snd p) k = 0" using v group_view_None [of ?es k C1 rs] by fastforce
    obtain G where G: "rc_groups C1 (fst p) = Some G" using group_of_entry [OF b(2) p(1)] by blast
    have "t = rg_last_update G" using group_view_Some [OF b(2) k p G] v by simp
    moreover have "windows C1" using b(4) T0 T by (simp add: timed_def)
    ultimately show ?thesis using windows_all [OF b(2) _ G] b(5) T0 T by simp
  qed
  ultimately have "expires (rc_cfg_timeout C) ts (row_keys gsh) (group_view C es rs) (group_view C1 ?es rs)" by (simp add: expires_def)
  then show thesis using that [OF b(1,2,4)] b(3,5) T by (auto simp: cleaned_def)
qed

lemma expires_cong: "expires T ts K A B \<Longrightarrow> (\<And>k. k \<in> K \<Longrightarrow> A' k = A k) \<Longrightarrow> expires T ts K A' B"
  by (auto simp: expires_def)

text \<open>The surroundings of a call: fresh memory, a key that can be copied, and a clock that does not run backwards.\<close>

definition call_ok :: "int \<Rightarrow> row_env \<Rightarrow> timespec \<Rightarrow> row_cache \<Rightarrow> bool" where
  "call_ok now env ts C \<longleftrightarrow> clock_realtime env = Inr ts \<and> valid_ts ts \<and> now \<le> ns ts \<and> dup_ok env \<and>
     entry_mem env \<noteq> NULL \<and> entry_mem env \<notin> dom (rc_entries C) \<and> group_mem env \<noteq> NULL \<and> group_mem env \<notin> dom (rc_groups C)"

lemma cache_row_ok:
  assumes rep: "cache_rep gsh rsh now C A" and call: "call_ok now env ts C" and gk: "gk \<in> row_keys gsh" and k: "k \<in> row_keys rsh"
    and lim: "1 \<le> rc_row_limit C"
  shows "\<exists>C' B. cache_row env gk k row C = Some (EOK, C') \<and> expires (rc_cfg_timeout C) ts (row_keys gsh) A B \<and>
    cache_rep gsh rsh (ns ts) C' (table_put (rc_row_limit C) ts gk k row B) \<and> books C' = add_mset row (books C) \<and>
    rc_row_limit C' = rc_row_limit C \<and> rc_cfg_timeout C' = rc_cfg_timeout C"
proof -
  obtain es rs where r: "cache_ok gsh rsh es rs C" "timed now C" "\<forall>k \<in> row_keys gsh. A k = group_view C es rs k"
    using rep by (auto simp: cache_rep_def)
  have ts: "valid_ts ts" "now \<le> ns ts" "clock_realtime env = Inr ts" "dup_ok env" and m: "entry_mem env \<noteq> NULL" "group_mem env \<noteq> NULL"
    using call by (simp_all add: call_ok_def)
  obtain C1 es1 where b: "bucket_processing ts C = Some C1" "cache_ok gsh rsh es1 rs C1" "timed (ns ts) C1"
    "rc_cfg_timeout C1 \<noteq> (0, 0) \<longrightarrow> ns ts \<le> ns (rc_bucket_ts C1)" "expires (rc_cfg_timeout C) ts (row_keys gsh) (group_view C es rs) (group_view C1 es1 rs)"
    "books C1 = books C" "rc_row_limit C1 = rc_row_limit C" "rc_cfg_timeout C1 = rc_cfg_timeout C"
    "rc_entries C1 \<subseteq>\<^sub>m rc_entries C" "dom (rc_groups C1) \<subseteq> dom (rc_groups C)"
    using bucket_processing_expires [OF r(1,2) ts(1,2)] by blast
  have e: "entry_mem env \<notin> dom (rc_entries C1)" "group_mem env \<notin> dom (rc_groups C1)"
    using b(9,10) call map_le_implies_dom_le [OF b(9)] by (auto simp: call_ok_def)
  have lim1: "1 \<le> rc_row_limit C1" using lim b(7) by simp
  obtain a where a: "rbt_find (rc_group_tree C1) gk = Some a" "a = NULL \<Longrightarrow> \<forall>p \<in> set es1. row_cmp (snd p) gk \<noteq> 0"
    "a \<noteq> NULL \<Longrightarrow> \<exists>k'. (a, k') \<in> set es1 \<and> row_cmp k' gk = 0" using group_found [OF b(2) gk] by blast
  have "\<exists>C'. cache_row env gk k row C = Some (EOK, C') \<and>
      cache_rep gsh rsh (ns ts) C' (table_put (rc_row_limit C1) ts gk k row (group_view C1 es1 rs)) \<and> books C' = add_mset row (books C1) \<and>
      rc_row_limit C' = rc_row_limit C1 \<and> rc_cfg_timeout C' = rc_cfg_timeout C1"
  proof (cases "a = NULL")
    case True
    then show ?thesis using put_new [OF b(2-4) a(2) gk k m(2) e(2) ts(4) m(1) e(1) lim1, of row] a(1) b(1) ts(3) m(1)
      by (auto simp: cache_row_def)
  next
    case False
    then obtain k' where p: "(a, k') \<in> set es1" "row_cmp k' gk = 0" using a(3) by blast
    have "but_for a C1 C1" by (auto simp: but_for_def)
    then show ?thesis using put_ok [OF b(2) _ b(3,4) p gk k m(1) e(1) lim1, of row] a(1) b(1) ts(3) m(1) False
      by (auto simp: cache_row_def)
  qed
  moreover have "expires (rc_cfg_timeout C) ts (row_keys gsh) A (group_view C1 es1 rs)" using expires_cong [OF b(5)] r(3) by blast
  ultimately show ?thesis using b(6-8) by auto
qed

subsection \<open>Reading the newest rows\<close>

lemma list_rows_ok:
  assumes "rbt_rep t (xs @ [(a, k)] @ ys)" and "\<forall>p \<in> set (xs @ [(a, k)]). rc_entries C (fst p) \<noteq> None"
  shows "list_rows C t n c a =
    (let rows = take (nat (n - c)) (rev (map (\<lambda>p. re_row (the (rc_entries C (fst p)))) (xs @ [(a, k)]))) in Some (c + int (length rows), rows))"
  using assms
proof (induction xs arbitrary: a k ys c rule: rev_induct)
  case Nil
  have "rbn_pred t a = Some NULL" using rbn_pred_rep [of t "[]" a k ys] Nil.prems(1) by simp
  then show ?case using Nil.prems(2) by (subst list_rows.simps) (auto simp: take_Cons')
next
  case (snoc p xs)
  obtain b kb where p: "p = (b, kb)" by fastforce
  have b: "rbn_pred t a = Some b" using rbn_pred_rep [of t "xs @ [p]" a k ys] snoc.prems(1) p by simp
  have "b \<noteq> NULL" using rbt_rep_not_NULL [OF snoc.prems(1), of p] p by simp
  moreover have "list_rows C t n (c + 1) b = (let rows = take (nat (n - (c + 1)))
      (rev (map (\<lambda>p. re_row (the (rc_entries C (fst p)))) (xs @ [(b, kb)]))) in Some (c + 1 + int (length rows), rows))"
    using snoc.IH [of b kb "(a, k) # ys" "c + 1"] snoc.prems p by simp
  moreover have "nat (n - c) = Suc (nat (n - (c + 1)))" if "c < n" using that by simp
  ultimately show ?case using snoc.prems(2) b p by (subst list_rows.simps) (auto simp: Let_def)
qed

lemma make_list_ok:
  assumes "cache_rep gsh rsh now C A" and k: "k \<in> row_keys gsh"
  shows "ldmsd_row_cache_make_list n C k =
    (let rows = take (nat n) (rev (map snd (rows_in A k))) in Some (int (length rows), rows))"
proof -
  obtain es rs where ok: "cache_ok gsh rsh es rs C" and A: "A k = group_view C es rs k" using assms by (auto simp: cache_rep_def)
  obtain a where a: "rbt_find (rc_group_tree C) k = Some a" "a = NULL \<Longrightarrow> \<forall>p \<in> set es. row_cmp (snd p) k \<noteq> 0"
    "a \<noteq> NULL \<Longrightarrow> \<exists>k'. (a, k') \<in> set es \<and> row_cmp k' k = 0" using group_found [OF ok k] by blast
  show ?thesis
  proof (cases "a = NULL")
    case True
    then show ?thesis using a(1) A group_view_None [OF a(2)] by (simp add: ldmsd_row_cache_make_list_def rows_in_def)
  next
    case False
    then obtain k' where p: "(a, k') \<in> set es" "row_cmp k' k = 0" using a(3) by blast
    obtain G where G: "rc_groups C a = Some G" using group_of_entry [OF ok p(1)] by auto
    have rows: "rows_in A k = rows_of C (rs a)" using group_view_Some [OF ok k p(1)] p(2) G A by (simp add: rows_in_def)
    have t: "rbt_rep (rg_row_tree G) (rs a)" "\<forall>p \<in> set (rs a). rc_entries C (fst p) \<noteq> None"
      using cache_okD(4) [OF ok G] by (auto simp: rows_ok_def rbt_seq_def)
    have max: "rbt_max (rg_row_tree G) = Some (last_addr (rs a))"
      using t(1) rbn_max_correct unfolding rbt_max_def by (metis rbt_repE)
    show ?thesis
    proof (cases "rs a" rule: rev_cases)
      case Nil
      then show ?thesis using a(1) False G max rows by (simp add: ldmsd_row_cache_make_list_def rows_of_def)
    next
      case (snoc xs q)
      obtain b kb where q: "q = (b, kb)" by fastforce
      have "b \<noteq> NULL" using rbt_rep_not_NULL [OF t(1), of q] snoc q by simp
      moreover have "map snd (rows_of C (rs a)) = map (\<lambda>p. re_row (the (rc_entries C (fst p)))) (xs @ [(b, kb)])"
        using snoc q by (simp add: rows_of_def)
      moreover have "rbt_rep (rg_row_tree G) (xs @ [(b, kb)] @ [])" "\<forall>p \<in> set (xs @ [(b, kb)]). rc_entries C (fst p) \<noteq> None"
        using t snoc q by simp_all
      ultimately show ?thesis using a(1) False G max rows snoc q list_rows_ok [of "rg_row_tree G" xs b kb "[]" C n 0]
        by (simp add: ldmsd_row_cache_make_list_def)
    qed
  qed
qed

lemma rows_sorted:
  assumes "cache_rep gsh rsh now C A" and k: "k \<in> row_keys gsh" and "A k = Some (t, rows)"
  shows "int (length rows) \<le> rc_row_limit C \<and> sorted_wrt (\<lambda>p q. row_cmp (fst p) (fst q) \<le> 0) rows \<and> fst ` set rows \<subseteq> row_keys rsh"
proof -
  obtain es rs where ok: "cache_ok gsh rsh es rs C" and A: "group_view C es rs k = Some (t, rows)" using assms by (auto simp: cache_rep_def)
  then obtain p where p: "p \<in> set es" "row_cmp (snd p) k = 0" using group_view_None [of es k C rs] by fastforce
  obtain G where G: "rc_groups C (fst p) = Some G" using group_of_entry [OF ok p(1)] by blast
  have "rows = rows_of C (rs (fst p))" using group_view_Some [OF ok k p G] A by simp
  moreover have "ordered row_cmp (row_keys rsh) (rs (fst p))" using cache_okD(4) [OF ok G] by (simp add: rows_ok_def rbt_seq_def)
  ultimately show ?thesis using cache_okD(5) [OF ok G] by (auto simp: rows_of_def ordered_def sorted_wrt_map)
qed

subsection \<open>Histories\<close>

lemma create_rep:
  assumes "ldmsd_row_cache_create True limit timeout = Some C" and "0 \<le> limit"
    and "\<And>T. timeout = Some T \<Longrightarrow> valid_ts T \<and> 0 \<le> ns T"
  shows "cache_rep gsh rsh 0 C (\<lambda>_. None)"
proof -
  have C: "rc_groups C = Map.empty" "rc_entries C = Map.empty" "rc_group_bucket C = [[], [], []]" "rc_gb_idx C = 0"
    "rc_group_tree C = rbt_init row_cmp rbt_blank" "rc_bucket_ts C = (0, 0)"
    "rc_cfg_timeout C = (case timeout of Some t \<Rightarrow> t | None \<Rightarrow> (0, 0))"
    using assms(1) by (auto simp: ldmsd_row_cache_create_def)
  have "cache_ok gsh rsh [] (\<lambda>_. []) C"
    by (rule cache_okI) (simp_all add: C rbt_seq_init one_each_def)
  moreover have "valid_ts (rc_cfg_timeout C) \<and> 0 \<le> ns (rc_cfg_timeout C)"
    using assms(3) C(7) by (cases timeout) (simp_all add: valid_ts_def ns_def)
  then have "timed 0 C" by (simp add: timed_def windows_def Let_def C(1-4,6) last_in_def valid_ts_def ns_def)
  ultimately show ?thesis unfolding cache_rep_def by (intro exI [of _ "[]"] exI [of _ "\<lambda>_. []"]) (simp add: group_view_def)
qed

type_synonym cache_call = "row_env \<times> row_idx \<times> row_idx \<times> addr"

fun cache_run :: "cache_call list \<Rightarrow> row_cache \<Rightarrow> row_cache option" where
  "cache_run [] C = Some C"
| "cache_run ((env, gk, k, row) # cs) C = do {
     (rc, C') \<leftarrow> ldmsd_row_cache env (Some C) gk k row;
     C' \<leftarrow> C';
     cache_run cs C' }"

fun calls_ok :: "(ldms_value_type \<times> nat) list \<Rightarrow> (ldms_value_type \<times> nat) list \<Rightarrow> int \<Rightarrow> cache_call list \<Rightarrow> row_cache \<Rightarrow> bool" where
  "calls_ok gsh rsh now [] C \<longleftrightarrow> True"
| "calls_ok gsh rsh now ((env, gk, k, row) # cs) C \<longleftrightarrow>
     (\<exists>ts. call_ok now env ts C \<and> gk \<in> row_keys gsh \<and> k \<in> row_keys rsh \<and>
       (\<forall>C'. cache_run [(env, gk, k, row)] C = Some C' \<longrightarrow> calls_ok gsh rsh (ns ts) cs C'))"

lemma cache_run_ok:
  "cache_rep gsh rsh now C A \<Longrightarrow> calls_ok gsh rsh now cs C \<Longrightarrow> 1 \<le> rc_row_limit C \<Longrightarrow>
   \<exists>C' now' A'. cache_run cs C = Some C' \<and> cache_rep gsh rsh now' C' A' \<and> rc_row_limit C' = rc_row_limit C \<and>
     books C' = books C + mset (map (\<lambda>(env, gk, k, row). row) cs)"
proof (induction cs arbitrary: now C A)
  case (Cons c cs)
  obtain env gk k row where c: "c = (env, gk, k, row)" by (cases c)
  obtain ts where t: "call_ok now env ts C" "gk \<in> row_keys gsh" "k \<in> row_keys rsh"
    "\<forall>C'. cache_run [(env, gk, k, row)] C = Some C' \<longrightarrow> calls_ok gsh rsh (ns ts) cs C'" using Cons.prems(2) c by auto
  obtain C' B where r: "cache_row env gk k row C = Some (EOK, C')" "cache_rep gsh rsh (ns ts) C' (table_put (rc_row_limit C) ts gk k row B)"
    "books C' = add_mset row (books C)" "rc_row_limit C' = rc_row_limit C"
    using cache_row_ok [OF Cons.prems(1) t(1-3) Cons.prems(3), of row] by blast
  have "calls_ok gsh rsh (ns ts) cs C'" using t(4) r(1) by (simp add: ldmsd_row_cache_def)
  from Cons.IH [OF r(2) this] Cons.prems(3) r(4) obtain D now' A' where
    "cache_run cs C' = Some D" "cache_rep gsh rsh now' D A'" "rc_row_limit D = rc_row_limit C"
    "books D = books C' + mset (map (\<lambda>(env, gk, k, row). row) cs)" by auto
  then show ?case using c r(1,3) by (auto simp: ldmsd_row_cache_def)
qed auto

subsection \<open>The contract\<close>

text \<open>A cache of two rows for each group, groups and rows with one 64-bit number as key, a timeout of ten seconds.\<close>

definition demo_key :: "nat \<Rightarrow> row_idx" where
  "demo_key n = \<lparr>key_count = 1, keys = [\<lparr>rk_type = LDMS_V_U64, rk_count = 1, rk_mval_size = 8, rk_mval = le_bytes 8 n\<rparr>]\<rparr>"

definition demo_env :: "addr \<Rightarrow> int \<Rightarrow> row_env" where
  "demo_env a sec = \<lparr>entry_mem = a, group_mem = a + 8, dup_ok = True, clock_realtime = Inr (sec, 0)\<rparr>"

definition demo_cache :: row_cache where
  "demo_cache = the (ldmsd_row_cache_create True 2 (Some (10, 0)))"

abbreviation "demo_shape \<equiv> [(LDMS_V_U64, 1 :: nat)]"

lemma demo_key_ok: "demo_key n \<in> row_keys demo_shape"
  by (simp add: demo_key_def row_keys_def key_ok_def not_nan_def orderable_def)

lemma demo_create: "ldmsd_row_cache_create True 2 (Some (10, 0)) = Some demo_cache"
  by (simp add: demo_cache_def ldmsd_row_cache_create_def)

lemma demo_rep: "cache_rep demo_shape demo_shape 0 demo_cache (\<lambda>_. None)"
  by (rule create_rep [OF demo_create]) (simp_all add: valid_ts_def ns_def)

lemma demo_fields: "rc_row_limit demo_cache = 2" "rc_cfg_timeout demo_cache = (10, 0)" "rc_entries demo_cache = Map.empty"
    "rc_groups demo_cache = Map.empty" "books demo_cache = {#}"
  by (simp_all add: demo_cache_def ldmsd_row_cache_create_def books_def held_def)

lemma demo_call: "0 < a \<Longrightarrow> 0 \<le> sec \<Longrightarrow> call_ok 0 (demo_env a sec) (sec, 0) demo_cache"
  by (simp add: call_ok_def demo_env_def valid_ts_def ns_def demo_fields)



text \<open>
  C39. \<^verbatim>\<open>ldmsd_row_cache_make_list\<close> returns the newest rows of a group, newest first: as many as asked for,
  or all when there are fewer, and none for an unknown group; it returns their number.
\<close>

theorem row_cache_newest:
  assumes "cache_rep gsh rsh now C A" and "k \<in> row_keys gsh"
  shows "ldmsd_row_cache_make_list n C k =
      (let rows = take (nat n) (rev (map snd (rows_in A k))) in Some (int (length rows), rows)) \<and>
    (\<forall>t rows. A k = Some (t, rows) \<longrightarrow> int (length rows) \<le> rc_row_limit C \<and>
      sorted_wrt (\<lambda>p q. row_cmp (fst p) (fst q) \<le> 0) rows)"
  using make_list_ok [OF assms] rows_sorted [OF assms] by auto

theorem row_cache_newest_witness:
  "\<exists>C'. ldmsd_row_cache (demo_env 16 100) (Some demo_cache) (demo_key 1) (demo_key 5) 71 = Some (EOK, Some C') \<and>
     ldmsd_row_cache_make_list 4 C' (demo_key 1) = Some (1, [71])"
proof -
  obtain C' B where c: "cache_row (demo_env 16 100) (demo_key 1) (demo_key 5) 71 demo_cache = Some (EOK, C')"
    "expires (10, 0) (100, 0) (row_keys demo_shape) (\<lambda>_. None) B"
    "cache_rep demo_shape demo_shape (ns (100, 0)) C' (table_put 2 (100, 0) (demo_key 1) (demo_key 5) 71 B)"
    using cache_row_ok [OF demo_rep demo_call demo_key_ok demo_key_ok, of 16 100 1 5 71] by (auto simp: demo_fields)
  have "B (demo_key 1) = None" using c(2) demo_key_ok by (auto simp: expires_def)
  then have "rows_in (table_put 2 (100, 0) (demo_key 1) (demo_key 5) 71 B) (demo_key 1) = [(demo_key 5, 71)]"
    using rk.cmp_refl [OF demo_key_ok] by (simp add: rows_in_def table_put_def put_row_def ins_row_def)
  then show ?thesis using row_cache_newest [OF c(3) demo_key_ok, of 4 1] c(1) by (simp add: ldmsd_row_cache_def)
qed

text \<open>
  C40. Over any history of calls with fresh memory and a clock that does not run backwards, a cache with a
  limit of at least one row never faults, no group ever has more rows than the limit, and every row handed
  to the cache is in it or was freed, once.
\<close>

theorem row_cache_history:
  assumes "ldmsd_row_cache_create True limit timeout = Some C" and "1 \<le> limit"
    and "\<And>T. timeout = Some T \<Longrightarrow> valid_ts T \<and> 0 \<le> ns T" and "calls_ok gsh rsh 0 cs C"
  shows "\<exists>C'. cache_run cs C = Some C' \<and> mset (rc_freed C') + held C' = mset (map (\<lambda>(env, gk, k, row). row) cs) \<and>
    (\<forall>g G. rc_groups C' g = Some G \<longrightarrow> rbt_card (rg_row_tree G) \<le> limit)"
proof -
  have lim: "rc_row_limit C = limit" and b: "books C = {#}" using assms(1) by (auto simp: ldmsd_row_cache_create_def books_def held_def)
  obtain C' now' A' where c: "cache_run cs C = Some C'" "cache_rep gsh rsh now' C' A'" "rc_row_limit C' = rc_row_limit C"
    "books C' = books C + mset (map (\<lambda>(env, gk, k, row). row) cs)"
    using cache_run_ok [OF create_rep [OF assms(1) _ assms(3)] assms(4)] assms(2) lim by auto
  obtain es rs where ok: "cache_ok gsh rsh es rs C'" using c(2) by (auto simp: cache_rep_def)
  have "rbt_card (rg_row_tree G) \<le> limit" if "rc_groups C' g = Some G" for g G
    using cache_okD(4,5) [OF ok that] c(3) lim by (simp add: rows_ok_def rbt_seq_def rbt_rep_def rbt_card_def)
  then show ?thesis using c(1,4) b by (auto simp: books_def)
qed

definition demo_calls :: "cache_call list" where
  "demo_calls = [(demo_env 16 100, demo_key 1, demo_key 5, 71), (demo_env 32 101, demo_key 1, demo_key 7, 72),
     (demo_env 48 102, demo_key 1, demo_key 6, 73)]"

fun free_at :: "addr \<Rightarrow> row_cache option \<Rightarrow> bool" where
  "free_at a None = False"
| "free_at a (Some C) = (Option.is_none (rc_entries C a) \<and> Option.is_none (rc_groups C (a + 8)))"

lemma demo_free:
  "free_at 32 (cache_run (take 1 demo_calls) demo_cache)" "free_at 48 (cache_run (take 2 demo_calls) demo_cache)"
  by code_simp+

lemma cache_run_Cons: "cache_run (c # cs) C = do { C \<leftarrow> cache_run [c] C; cache_run cs C }"
  by (cases c) (auto split: bind_split)

lemma demo_call_later:
  "free_at a (cache_run (c # cs) C) \<Longrightarrow> cache_run [c] C = Some C' \<Longrightarrow> cache_run cs C' = Some C'' \<Longrightarrow> 0 < a \<Longrightarrow> now \<le> ns (sec, 0) \<Longrightarrow>
   call_ok now (demo_env a sec) (sec, 0) C''"
  by (subst (asm) cache_run_Cons) (auto simp: call_ok_def demo_env_def valid_ts_def ns_def Option.is_none_def)

lemma demo_calls_ok: "calls_ok demo_shape demo_shape 0 demo_calls demo_cache"
proof -
  have "call_ok (ns (100, 0)) (demo_env 32 101) (101, 0) C" if "cache_run [(demo_env 16 100, demo_key 1, demo_key 5, 71)] demo_cache = Some C" for C
    using demo_free(1) that by (intro demo_call_later [of _ "(demo_env 16 100, demo_key 1, demo_key 5, 71)" "[]" demo_cache C])
      (simp_all add: demo_calls_def ns_def)
  moreover have "call_ok (ns (101, 0)) (demo_env 48 102) (102, 0) C'"
    if "cache_run [(demo_env 16 100, demo_key 1, demo_key 5, 71)] demo_cache = Some C"
      "cache_run [(demo_env 32 101, demo_key 1, demo_key 7, 72)] C = Some C'" for C C'
    using demo_free(2) that
    by (intro demo_call_later [of _ "(demo_env 16 100, demo_key 1, demo_key 5, 71)" "[(demo_env 32 101, demo_key 1, demo_key 7, 72)]" demo_cache C])
      (simp_all add: demo_calls_def ns_def numeral_2_eq_2)
  moreover have "call_ok 0 (demo_env 16 100) (100, 0) demo_cache" by (rule demo_call) simp_all
  ultimately show ?thesis unfolding demo_calls_def calls_ok.simps using demo_key_ok by blast
qed

theorem row_cache_history_witness:
  "\<exists>C'. cache_run demo_calls demo_cache = Some C' \<and> mset (rc_freed C') + held C' = {#71, 72, 73#} \<and>
     (\<forall>g G. rc_groups C' g = Some G \<longrightarrow> rbt_card (rg_row_tree G) \<le> 2)"
  using row_cache_history [OF demo_create _ _ demo_calls_ok] by (simp add: demo_calls_def valid_ts_def ns_def)

text \<open>
  Two limits of the contract. A limit of 0, which the configuration accepts, ends the first call in an
  assertion of the tree. A NaN is below everything and everything is below it, so keys with a NaN have
  no order.
\<close>

lemma limit_zero_faults:
  "cache_row (demo_env 16 100) (demo_key 1) (demo_key 5) 71 (the (ldmsd_row_cache_create True 0 None)) = None"
  by code_simp

definition float_key :: "u8 list \<Rightarrow> row_idx" where
  "float_key bs = \<lparr>key_count = 1, keys = [\<lparr>rk_type = LDMS_V_F32, rk_count = 1, rk_mval_size = 8, rk_mval = bs @ [0, 0, 0, 0]\<rparr>]\<rparr>"

lemma nan_below_all:
  "tree_comparator (float_key [0, 0, 0xC0, 0x7F]) (float_key [0, 0, 0x80, 0x3F]) = Some (- 1)"
  "tree_comparator (float_key [0, 0, 0x80, 0x3F]) (float_key [0, 0, 0xC0, 0x7F]) = Some (- 1)"
  by (simp_all add: tree_comparator_def float_key_def key_cmp_def float_cmp_def peek_def load_def le_nat.simps float_ord_def)

end
