(* ===== verification/Spec2Isabelle.thy ===== *)
theory Spec2Isabelle
  imports MMallocTop OvisEventSpec QGroupTop MetricTop RowCacheTop
begin

text \<open>
  \<^bold>\<open>Verification of parts of LDMS, the Lightweight Distributed Metric Service\<close>

  LDMS collects metrics on the nodes of a cluster. Samplers write them into \<^emph>\<open>metric sets\<close>, pieces
  of memory in a fixed format that other processes read over the network as they are. The memory
  comes from a region allocator, timers come from an event scheduler, indices are red-black trees,
  and messages between processes are limited by quotas, which processes can pool in quota groups.
  The development models these parts, each from its C source under \<^verbatim>\<open>src/\<close>.

  \<^bold>\<open>How C is modelled.\<close> A function of the code is a HOL function of the same name (without leading
  underscores) on an explicit state. Its result is an option: \<^term>\<open>None\<close> stands for undefined
  behaviour (a NULL or stray pointer, an access out of bounds, a division by 0), a failed assertion,
  and a loop that never ends. A theorem that says a call returns \<^term>\<open>Some r\<close> thus rules all of these
  out. Integers are words of their C width where wrapping can be observed, addresses are natural
  numbers with 0 for NULL. Error codes of the code are the values of the datatype \<open>errno\<close> in
  \<open>Prelude\<close>. A critical section is one step. What is not under \<^verbatim>\<open>src/\<close> is a
  parameter: the mapping of pages, the clock, SHA-256, the callbacks of a caller, the network.

  \<^bold>\<open>Parts and theories.\<close>

  \<^item> \<open>Prelude\<close>, \<open>CString\<close>, \<open>Bytes\<close>: the fault monad, C strings, memory as bytes with little-endian
    loads and stores. Shared by the rest.

  \<^item> Red-black tree, \<^verbatim>\<open>src/lib/src/coll/rbt.c\<close>. \<open>Rbt\<close> has the nodes in a store, and every function:
    \<^verbatim>\<open>rbt_ins\<close> and \<^verbatim>\<open>rbt_del\<close> with their rotations and fix-up cases, searches, neighbours,
    traversal, the self-check; \<open>RbtForeach\<close> the macro \<^verbatim>\<open>RBT_FOREACH\<close>. Loops that the code bounds by
    nothing are \<open>partial_function (option)\<close>. \<open>RbtShape\<close> relates the store to a tree, and
    \<open>RbtInsert\<close>, \<open>RbtSwap\<close>, \<open>RbtRebalance\<close>, \<open>RbtDelete\<close>, \<open>RbtIter\<close>, \<open>RbtOrder\<close> give each function its
    effect on it. \<open>RbtSpec\<close> shows that every history of calls ends, never faults, keeps colours,
    balance and order, and does what the same history does on an ordered sequence (C1 to C7).
    The locale of comparators carries the laws that the callers promise.

  \<^item> Region allocator, \<^verbatim>\<open>src/lib/src/mmalloc/mmalloc.c\<close>, which keeps its free chunks in two such trees.
    \<open>MMalloc\<close> has \<^verbatim>\<open>mm_init\<close>, \<^verbatim>\<open>mm_alloc\<close>, \<^verbatim>\<open>mm_free\<close>, \<^verbatim>\<open>mm_realloc\<close> and \<^verbatim>\<open>mm_stats\<close>; \<open>MMallocInv\<close> the
    invariant that used and free chunks tile the region; \<open>MMallocSpec\<close> and \<open>MMallocTop\<close> that pieces
    never overlap, best fit, coalescing, statistics, and what \<^verbatim>\<open>mm_realloc\<close> really does (C8 to C15).

  \<^item> Event scheduler, \<^verbatim>\<open>src/lib/src/ovis_event/ovis_event.c\<close>. \<open>OvisEvent\<close> has the timer heap and
    the scheduler with its epoll and one-shot queues, \<open>HeapOrder\<close> and \<open>OvisEventHeap\<close> the order of a
    heap with one place out of order and the loops that repair it, \<open>OvisEventSpec\<close> the operations of
    the scheduler (C16 to C23), two defects included: removal that does not float (C18) and
    a deleted one-shot event (C23).

  \<^item> Quotas of rails, \<^verbatim>\<open>src/ldms/src/core/ldms_rail.c\<close>: \<open>RailQuota\<close> (C24 to C27). The lock-free loop is
    interleaved with arbitrary steps of other threads between its read and its exchange.

  \<^item> Quota groups, \<^verbatim>\<open>src/ldms/src/core/ldms_qgroup.c\<close>, on top of the rails and the trees. \<open>QGroup\<close> has a
    process with its group, members and pending endpoints, \<open>QGroupSpec\<close> a network of processes
    whose messages may be lost and reordered, as an inductive step relation, with conservation of
    quota (C28); \<open>QGroupMembers\<close> resets and the table of members (C29, C30); \<open>QGroupTop\<close> running and
    unconfigured groups and the ask timer (C31 to C33).

  \<^item> Metric sets, \<^verbatim>\<open>src/ldms/src/core/ldms.c\<close>. \<open>LdmsSchema\<close> has schemas and record definitions and the
    calls that build them, \<open>MetricSet\<close> the creation of a set byte by byte in the format of
    \<^verbatim>\<open>ldms_core.h\<close>, with its names, descriptors and accessors by index, \<open>MetricValue\<close> the typed setters
    and getters of scalars and arrays, \<open>MetricTrans\<close> transactions over the buffers of a set.
    \<open>SchemaSpec\<close> has the invariant of schemas, \<open>MetricLayout\<close> where a set has its parts,
    \<open>MetricCreate\<close> and \<open>MetricSpec\<close> that creation builds that layout. \<open>set_wf\<close> of \<open>MetricSpec\<close> is the
    invariant of a set, \<open>MetricAccess\<close> and \<open>MetricOps\<close> show how accessors change and read values under it
    (one locale for scalars and one for arrays, each interpreted for the 11 types),
    \<open>MetricAtomic\<close> the switch of buffers, \<open>MetricLife\<close> sets from creation on. The properties are in
    \<open>MetricTop\<close> (C34 to C40): the layout of a created set, names, setting and getting, atomic
    transactions, durations, and the metric behind an array of records, which is placed out of
    bounds (C40).

  \<^bold>\<open>Bounds and fuel.\<close> No definition runs on fuel: recursion is structural, has a termination proof, or
  is \<open>partial_function (option)\<close>, where the theorems show that it returns. The bounds in statements
  are those of the machine: sizes of regions and sets below \<open>2 ^ 31\<close> or \<open>2 ^ 63\<close> where the code
  computes with int or size_t, names that fit the length byte of the format, quotas of at most \<open>2 ^ 62\<close>
  so that sums of two do not wrap.

  \<^bold>\<open>Not modelled.\<close>
  Of \<^verbatim>\<open>ldms.c\<close>: the directory of sets, snapshots, lists, accessors of record instances, text output. Of
  \<^verbatim>\<open>ldms_rail.c\<close>: connecting, lookup and update, which only forward to the endpoints. The transports
  \<^verbatim>\<open>ldms_xprt.c\<close> and \<^verbatim>\<open>zap\<close>, message channels \<^verbatim>\<open>ldms_msg.c\<close>, the daemon \<^verbatim>\<open>src/ldms/src/ldmsd\<close>, sampler and
  storage plugins: they are callbacks of network and file events around the parts above, and what
  they do is input and output. The JSON parser is generated. Whether an allocation
  succeeds is an argument of the calls that allocate.
\<close>

end
